(* ===== verification/Prelude.thy ===== *)
theory Prelude
  imports "HOL-Library.Word" "HOL-Library.Monad_Syntax"
begin

text \<open>
  Shared vocabulary of the development: the machine types of \<^verbatim>\<open>include/t_common.h\<close>, pointers,
  the convention for undefined behaviour, and walks along the singly linked lists that every
  component of the stack keeps (free lists, interfaces, protocol control blocks, segments).

  A pointer is a natural number and the null pointer is 0.  A computation of the C code is a
  function from the state to an \<open>option\<close>: \<open>None\<close> stands for the absence of a defined result (a
  dereferenced null pointer, an access outside the object, an indeterminate value, a loop that does
  not end), \<open>Some\<close> for the returned value and the new state.
\<close>

unbundle bit_operations_syntax

section \<open>Machine types\<close>

type_synonym u8 = "8 word"
type_synonym u16 = "16 word"
type_synonym u32 = "32 word"
type_synonym ptr = nat

abbreviation (input) NULL :: ptr where
  "NULL \<equiv> 0"

text \<open>\<open>defined b\<close> is where a behaviour is undefined in C unless \<open>b\<close> holds.\<close>

definition defined :: "bool \<Rightarrow> unit option" where
  "defined b = (if b then Some () else None)"

lemma defined_simps [simp]: "defined True = Some ()" "defined False = None"
  by (simp_all add: defined_def)

lemma defined_bind_Some [simp]:
  "(Option.bind (defined b) f = Some r) = (b \<and> f () = Some r)"
  by (cases b) simp_all

lemma unat_of_nat_lt: "n < 2 ^ LENGTH('w) \<Longrightarrow> unat (of_nat n :: 'w::len word) = n"
  by (simp add: unat_of_nat take_bit_nat_eq_self)

named_theorems mem_simps \<open>equations that evaluate loads after stores\<close>
named_theorems pool_intros \<open>introduction rules for free lists\<close>

section \<open>Linked lists\<close>

text \<open>
  \<open>chained nx p xs\<close>: following the link field \<open>nx\<close> from \<open>p\<close> visits exactly the nodes \<open>xs\<close>, in
  this order, and then reaches the null pointer.
\<close>

fun chained :: "(ptr \<Rightarrow> ptr) \<Rightarrow> ptr \<Rightarrow> ptr list \<Rightarrow> bool" where
  "chained nx p [] = (p = NULL)"
| "chained nx p (x # xs) = (p = x \<and> x \<noteq> NULL \<and> chained nx (nx x) xs)"

lemma chained_NULL [simp]: "chained nx NULL xs = (xs = [])"
  by (cases xs) auto

lemma chained_non_NULL: "p \<noteq> NULL \<Longrightarrow> chained nx p xs = (\<exists>ys. xs = p # ys \<and> chained nx (nx p) ys)"
  by (cases xs) auto

lemma chained_unique: "chained nx p xs \<Longrightarrow> chained nx p ys \<Longrightarrow> xs = ys"
proof (induction xs arbitrary: p ys)
  case (Cons x xs)
  then show ?case by (cases ys) auto
qed simp

lemma chained_not_NULL: "chained nx p xs \<Longrightarrow> NULL \<notin> set xs"
  by (induction xs arbitrary: p) auto

text \<open>Writing the link of a node that is not on the list leaves the list as it is.\<close>

lemma chained_upd_other [simp]:
  "x \<notin> set xs \<Longrightarrow> chained (nx(x := y)) p xs = chained nx p xs"
  by (induction xs arbitrary: p) auto

lemma chained_cong:
  "(\<And>x. x \<in> set xs \<Longrightarrow> nx x = ny x) \<Longrightarrow> chained nx p xs = chained ny p xs"
  by (induction xs arbitrary: p) auto

lemma chained_append_tail:
  "chained nx p (xs @ y # ys) \<Longrightarrow> chained nx y (y # ys)"
  by (induction xs arbitrary: p) auto

lemma chained_distinct: "chained nx p xs \<Longrightarrow> distinct xs"
proof (induction xs arbitrary: p)
  case (Cons x xs)
  have "x \<notin> set xs"
  proof
    assume "x \<in> set xs"
    then obtain us vs where "xs = us @ x # vs" by (meson split_list)
    moreover from this Cons.prems have "chained nx x (x # vs)"
      using chained_append_tail [of nx "nx x" us x vs] by auto
    moreover from Cons.prems have "chained nx x (x # xs)" by auto
    ultimately have "x # vs = x # us @ x # vs"
      using chained_unique by metis
    then show False by (simp add: append_eq_Cons_conv)
  qed
  with Cons show ?case by auto
qed simp

lemma chained_last_link: "chained nx p (xs @ [x]) \<Longrightarrow> nx x = NULL"
  by (induction xs arbitrary: p) auto

text \<open>Redirecting the link of one node replaces the rest of the list behind it.\<close>

lemma chained_redirect:
  "chained nx p (xs @ y # ys) \<Longrightarrow> chained nx q zs \<Longrightarrow> y \<notin> set xs \<Longrightarrow> y \<notin> set zs
     \<Longrightarrow> chained (nx(y := q)) p (xs @ y # zs)"
  by (induction xs arbitrary: p) auto

section \<open>Walks\<close>

text \<open>
  The loops \<^verbatim>\<open>for (p = list; p != NULL; p = p->next) if (...) break;\<close>, the counting loop and the
  loop that stops at the last node.  They are \<open>None\<close> exactly when the C loop does not end.
\<close>

partial_function (option) find_from :: "(ptr \<Rightarrow> ptr) \<Rightarrow> (ptr \<Rightarrow> bool) \<Rightarrow> ptr \<Rightarrow> ptr option" where
  "find_from nx P p =
     (if p = NULL then Some NULL else if P p then Some p else find_from nx P (nx p))"

partial_function (option) count_from :: "(ptr \<Rightarrow> ptr) \<Rightarrow> ptr \<Rightarrow> int \<Rightarrow> int option" where
  "count_from nx q count = (if q = NULL then Some count else count_from nx (nx q) (count + 1))"

partial_function (option) last_from :: "(ptr \<Rightarrow> ptr) \<Rightarrow> ptr \<Rightarrow> ptr option" where
  "last_from nx p = (if nx p = NULL then Some p else last_from nx (nx p))"

definition first_match :: "(ptr \<Rightarrow> bool) \<Rightarrow> ptr list \<Rightarrow> ptr" where
  "first_match P xs = (case find P xs of None \<Rightarrow> NULL | Some p \<Rightarrow> p)"

lemma first_match_simps [simp]:
  "first_match P [] = NULL"
  "first_match P (x # xs) = (if P x then x else first_match P xs)"
  by (simp_all add: first_match_def)

lemma first_match_NULL_iff:
  "NULL \<notin> set xs \<Longrightarrow> first_match P xs = NULL \<longleftrightarrow> (\<forall>x \<in> set xs. \<not> P x)"
  by (induction xs) auto

lemma first_match_mem: "first_match P xs \<noteq> NULL \<Longrightarrow> first_match P xs \<in> set xs \<and> P (first_match P xs)"
  by (induction xs) (auto split: if_splits)

lemma first_match_split:
  "first_match P xs \<noteq> NULL \<Longrightarrow>
     \<exists>us vs. xs = us @ first_match P xs # vs \<and> (\<forall>u \<in> set us. \<not> P u)"
proof (induction xs)
  case (Cons x xs)
  show ?case
  proof (cases "P x")
    case True
    then show ?thesis by (auto intro: exI [of _ "[]"])
  next
    case False
    with Cons obtain us vs where "xs = us @ first_match P xs # vs" "\<forall>u \<in> set us. \<not> P u"
      by auto
    with False show ?thesis by (intro exI [of _ "x # us"] exI [of _ vs]) auto
  qed
qed simp

lemma find_from_chained: "chained nx p xs \<Longrightarrow> find_from nx P p = Some (first_match P xs)"
proof (induction xs arbitrary: p)
  case Nil
  then show ?case by (simp add: find_from.simps)
next
  case (Cons x xs)
  then show ?case by (subst find_from.simps) auto
qed

lemma count_from_chained: "chained nx p xs \<Longrightarrow> count_from nx p c = Some (c + int (length xs))"
proof (induction xs arbitrary: p c)
  case Nil
  then show ?case by (simp add: count_from.simps)
next
  case (Cons x xs)
  then show ?case by (subst count_from.simps) auto
qed

lemma last_from_chained: "chained nx p xs \<Longrightarrow> xs \<noteq> [] \<Longrightarrow> last_from nx p = Some (last xs)"
proof (induction xs arbitrary: p)
  case (Cons x xs)
  show ?case
  proof (cases xs)
    case Nil
    with Cons.prems show ?thesis by (subst last_from.simps) auto
  next
    case (Cons y ys)
    with Cons.prems have "nx p \<noteq> NULL" "chained nx (nx p) xs" by auto
    with Cons.IH Cons show ?thesis by (subst last_from.simps) auto
  qed
qed simp

end
