(* ===== verification/Memory.thy ===== *)
theory Memory
  imports Prelude
begin

text \<open>
  Byte order (\<^verbatim>\<open>include/ipv4/t_ip_addr.h\<close>) and the byte memory that packet buffers live in.

  The C code lays structs over packet bytes by casting pointers.  The model keeps the bytes:
  \<open>mem\<close> maps addresses to bytes, and the loads and stores below read and write 8, 16 and 32 bit
  fields in the byte order of the host, which the macros \<^verbatim>\<open>htons\<close> and \<^verbatim>\<open>htonl\<close> take to be little
  endian.
\<close>

section \<open>Byte order macros\<close>

definition htons :: "u16 \<Rightarrow> u16" where
  "htons a = ((push_bit 8 a) AND 0xff00) + ((drop_bit 8 a) AND 0x00ff)"

definition ntohs :: "u16 \<Rightarrow> u16" where
  "ntohs a = ((push_bit 8 a) AND 0xff00) + ((drop_bit 8 a) AND 0x00ff)"

definition htonl :: "u32 \<Rightarrow> u32" where
  "htonl a = ((push_bit 24 a) AND 0xff000000) + ((push_bit 8 a) AND 0x00ff0000)
     + ((drop_bit 8 a) AND 0x0000ff00) + ((drop_bit 24 a) AND 0xff)"

definition ntohl :: "u32 \<Rightarrow> u32" where
  "ntohl a = ((push_bit 24 a) AND 0xff000000) + ((push_bit 8 a) AND 0x00ff0000)
     + ((drop_bit 8 a) AND 0x0000ff00) + ((drop_bit 24 a) AND 0xff)"

lemma byte_mask16: "(0xff00::u16) = push_bit 8 (mask 8)" "(0x00ff::u16) = mask 8"
  by (simp_all add: mask_eq_exp_minus_1 push_bit_eq_mult)

lemma byte_mask32:
  "(0xff000000::u32) = push_bit 24 (mask 8)" "(0x00ff0000::u32) = push_bit 16 (mask 8)"
  "(0x0000ff00::u32) = push_bit 8 (mask 8)" "(0xff::u32) = mask 8"
  by (simp_all add: mask_eq_exp_minus_1 push_bit_eq_mult)

lemma htons_or: "htons a = (push_bit 8 a AND push_bit 8 (mask 8)) OR (drop_bit 8 a AND mask 8)"
  unfolding htons_def byte_mask16
  by (rule disjunctive_add_eq_or, rule bit_word_eqI) (auto simp: bit_simps)

lemma bit_htons: "bit (htons a) n = (n < 16 \<and> bit a (if n < 8 then n + 8 else n - 8))"
  unfolding htons_or by (auto simp: bit_simps add.commute dest: bit_imp_le_length)

lemma htonl_or:
  "htonl a = (push_bit 24 a AND push_bit 24 (mask 8)) OR (push_bit 8 a AND push_bit 16 (mask 8))
     OR (drop_bit 8 a AND push_bit 8 (mask 8)) OR (drop_bit 24 a AND mask 8)"
  unfolding htonl_def byte_mask32
  apply (subst disjunctive_add_eq_or, rule bit_word_eqI, force simp: bit_simps)
  apply (subst disjunctive_add_eq_or, rule bit_word_eqI, force simp: bit_simps)
  apply (subst disjunctive_add_eq_or, rule bit_word_eqI, force simp: bit_simps)
  by (simp add: ac_simps)

lemma bit_htonl:
  "bit (htonl a) n = (n < 32 \<and> bit a (if n < 8 then n + 24 else if n < 16 then n + 8
                                      else if n < 24 then n - 8 else n - 24))"
  unfolding htonl_or by (auto simp: bit_simps add.commute dest: bit_imp_le_length)

text \<open>Both byte swaps and both names of each are one interface: an involution on a word type.\<close>

locale byte_swap =
  fixes to_net :: "'w \<Rightarrow> 'w"
    and to_host :: "'w \<Rightarrow> 'w"
  assumes to_host_to_net: "to_host (to_net a) = a"
    and same_swap: "to_host a = to_net a"
begin

lemma to_net_to_host: "to_net (to_host a) = a"
  by (metis to_host_to_net same_swap)

lemma to_net_inject: "to_net a = to_net b \<longleftrightarrow> a = b"
  by (metis to_host_to_net)

lemma to_net_eq_swap: "to_net a = b \<longleftrightarrow> a = to_host b"
  by (metis to_host_to_net to_net_to_host)

end

interpretation swap16: byte_swap htons ntohs
proof unfold_locales
  show same: "ntohs a = htons a" for a by (simp add: ntohs_def htons_def)
  show "ntohs (htons a) = a" for a
    unfolding same by (rule bit_word_eqI) (auto simp: bit_htons)
qed

interpretation swap32: byte_swap htonl ntohl
proof unfold_locales
  show same: "ntohl a = htonl a" for a by (simp add: ntohl_def htonl_def)
  show "ntohl (htonl a) = a" for a
    unfolding same by (rule bit_word_eqI) (auto simp: bit_htonl)
qed

lemmas swap_simps [simp] =
  swap16.to_host_to_net swap16.to_net_to_host swap16.to_net_inject
  swap32.to_host_to_net swap32.to_net_to_host swap32.to_net_inject

text \<open>Converting a 16 or 32 bit field to network order and back gives the field again.\<close>

theorem byte_order_roundtrip:
  "ntohs (htons a) = a \<and> htons (ntohs a) = a \<and> ntohl (htonl b) = b \<and> htonl (ntohl b) = b"
  using swap16.to_host_to_net swap16.to_net_to_host swap32.to_host_to_net swap32.to_net_to_host
  by metis

lemma host_net_same [simp]: "htons (htons a) = a" "htonl (htonl b) = b"
  using swap16.to_host_to_net [of a] swap32.to_host_to_net [of b] by (simp_all add: swap16.same_swap swap32.same_swap)

section \<open>Fields and bytes\<close>

definition u16_of :: "u8 \<Rightarrow> u8 \<Rightarrow> u16" where
  "u16_of lo hi = ucast lo OR push_bit 8 (ucast hi)"

definition byte_of :: "nat \<Rightarrow> 'w::len word \<Rightarrow> u8" where
  "byte_of k v = ucast (drop_bit (8 * k) v)"

definition u32_of :: "u8 \<Rightarrow> u8 \<Rightarrow> u8 \<Rightarrow> u8 \<Rightarrow> u32" where
  "u32_of b0 b1 b2 b3 =
     ucast b0 OR push_bit 8 (ucast b1) OR push_bit 16 (ucast b2) OR push_bit 24 (ucast b3)"

lemma u16_of_bytes [simp]: "u16_of (byte_of 0 v) (byte_of (Suc 0) v) = v"
  unfolding u16_of_def byte_of_def
  by (rule bit_word_eqI) (auto simp: bit_simps dest: bit_imp_le_length)

lemma u32_of_bytes [simp]:
  "u32_of (byte_of 0 v) (byte_of (Suc 0) v) (byte_of 2 v) (byte_of 3 v) = v"
proof (rule bit_word_eqI)
  fix n assume "n < LENGTH(32)"
  then show "bit (u32_of (byte_of 0 v) (byte_of (Suc 0) v) (byte_of 2 v) (byte_of 3 v)) n = bit v n"
    by (cases "n < 8"; cases "n < 16"; cases "n < 24") (auto simp: u32_of_def byte_of_def bit_simps)
qed

lemma byte_of_u16_of [simp]:
  "byte_of 0 (u16_of lo hi) = lo" "byte_of (Suc 0) (u16_of lo hi) = hi"
  unfolding u16_of_def byte_of_def
  by (rule bit_word_eqI; auto simp: bit_simps dest: bit_imp_le_length)+

lemma htons_u16_of: "htons (u16_of lo hi) = u16_of hi lo"
  unfolding u16_of_def
  by (rule bit_word_eqI) (auto simp: bit_simps bit_htons dest: bit_imp_le_length)

lemma byte_of_htons [simp]:
  "byte_of 0 (htons v) = byte_of (Suc 0) v" "byte_of (Suc 0) (htons v) = byte_of 0 v"
  by (metis htons_u16_of u16_of_bytes byte_of_u16_of)+

lemma unat_u16_of: "unat (u16_of lo hi) = unat lo + 256 * unat hi"
proof -
  have "u16_of lo hi = ucast lo + push_bit 8 (ucast hi)" unfolding u16_of_def
    by (rule disjunctive_add_eq_or [symmetric], rule bit_word_eqI)
      (auto simp: bit_simps dest: bit_imp_le_length)
  also have "\<dots> = ucast lo + 256 * ucast hi" by (simp add: push_bit_eq_mult)
  finally have "u16_of lo hi = ucast lo + 256 * ucast hi" .
  moreover have "unat lo < 256" "unat hi < 256"
    using unsigned_less [of lo] unsigned_less [of hi] by auto
  ultimately show ?thesis by (simp add: unat_word_ariths unsigned_ucast_eq take_bit_nat_eq_self)
qed

section \<open>The byte memory\<close>

record mem_st =
  mem :: "ptr \<Rightarrow> u8"

definition load16 :: "ptr \<Rightarrow> 'a mem_st_scheme \<Rightarrow> u16" where
  "load16 a s = u16_of (mem s a) (mem s (a + 1))"

definition load32 :: "ptr \<Rightarrow> 'a mem_st_scheme \<Rightarrow> u32" where
  "load32 a s = u32_of (mem s a) (mem s (a + 1)) (mem s (a + 2)) (mem s (a + 3))"

definition store8 :: "ptr \<Rightarrow> u8 \<Rightarrow> 'a mem_st_scheme \<Rightarrow> 'a mem_st_scheme" where
  "store8 a v s = s\<lparr>mem := (mem s)(a := v)\<rparr>"

definition store16 :: "ptr \<Rightarrow> u16 \<Rightarrow> 'a mem_st_scheme \<Rightarrow> 'a mem_st_scheme" where
  "store16 a v s = s\<lparr>mem := (mem s)(a := byte_of 0 v, a + 1 := byte_of 1 v)\<rparr>"

definition store32 :: "ptr \<Rightarrow> u32 \<Rightarrow> 'a mem_st_scheme \<Rightarrow> 'a mem_st_scheme" where
  "store32 a v s = s\<lparr>mem := (mem s)(a := byte_of 0 v, a + 1 := byte_of 1 v,
                                   a + 2 := byte_of 2 v, a + 3 := byte_of 3 v)\<rparr>"

definition load_bytes :: "ptr \<Rightarrow> nat \<Rightarrow> 'a mem_st_scheme \<Rightarrow> u8 list" where
  "load_bytes a n s = map (\<lambda>i. mem s (a + i)) [0..<n]"

text \<open>\<open>memcpy\<close> and \<open>memset\<close>: \<open>put_bytes a bs\<close> writes the bytes \<open>bs\<close> from address \<open>a\<close> on.\<close>

fun put_bytes :: "ptr \<Rightarrow> u8 list \<Rightarrow> (ptr \<Rightarrow> u8) \<Rightarrow> (ptr \<Rightarrow> u8)" where
  "put_bytes a [] m = m"
| "put_bytes a (b # bs) m = put_bytes (a + 1) bs (m(a := b))"

definition store_bytes :: "ptr \<Rightarrow> u8 list \<Rightarrow> 'a mem_st_scheme \<Rightarrow> 'a mem_st_scheme" where
  "store_bytes a bs s = s\<lparr>mem := put_bytes a bs (mem s)\<rparr>"

lemma put_bytes_apply:
  "put_bytes a bs m x = (if a \<le> x \<and> x < a + length bs then bs ! (x - a) else m x)"
proof (induction bs arbitrary: a m)
  case (Cons b bs)
  have "(b # bs) ! (x - a) = bs ! (x - (a + 1))" if "a + 1 \<le> x"
    using that by (simp add: nth_Cons')
  then show ?case by (auto simp: Cons.IH Suc_le_eq)
qed auto

lemma mem_store8 [mem_simps]: "mem (store8 a v s) = (mem s)(a := v)"
  by (simp add: store8_def)

lemma mem_store16 [mem_simps]:
  "mem (store16 a v s) = (mem s)(a := byte_of 0 v, a + 1 := byte_of 1 v)"
  by (simp add: store16_def)

lemma mem_store32 [mem_simps]:
  "mem (store32 a v s) =
     (mem s)(a := byte_of 0 v, a + 1 := byte_of 1 v, a + 2 := byte_of 2 v, a + 3 := byte_of 3 v)"
  by (simp add: store32_def)

lemma mem_store_bytes [mem_simps]:
  "mem (store_bytes a bs s) x = (if a \<le> x \<and> x < a + length bs then bs ! (x - a) else mem s x)"
  by (simp add: store_bytes_def put_bytes_apply)

lemma length_load_bytes [simp]: "length (load_bytes a n s) = n"
  by (simp add: load_bytes_def)

lemma nth_load_bytes [simp]: "i < n \<Longrightarrow> load_bytes a n s ! i = mem s (a + i)"
  by (simp add: load_bytes_def)

lemma load_bytes_split: "load_bytes a (m + n) s = load_bytes a m s @ load_bytes (a + m) n s"
  by (rule nth_equalityI) (auto simp: nth_append)

lemma load_store_bytes [simp]: "load_bytes a (length bs) (store_bytes a bs s) = bs"
  by (rule nth_equalityI) (auto simp: mem_simps)

lemma load_store_bytes_n: "n = length bs \<Longrightarrow> load_bytes a n (store_bytes a bs s) = bs"
  by simp

lemma load_store_same [simp]:
  "load16 a (store16 a v s) = v" "load32 a (store32 a w s) = w"
  by (simp_all add: load16_def load32_def mem_simps)

text \<open>A load reads what the last store to the same bytes wrote: disjoint stores do not matter.\<close>

lemma load_bytes_cong:
  "(\<And>i. i < n \<Longrightarrow> mem s (a + i) = mem t (a + i)) \<Longrightarrow> load_bytes a n s = load_bytes a n t"
  by (rule nth_equalityI) auto

lemma load_bytes_16: "load_bytes a 2 s = [byte_of 0 (load16 a s), byte_of 1 (load16 a s)]"
  by (simp add: load_bytes_def load16_def upt_rec)

section \<open>Blocks of bytes after stores\<close>

text \<open>The bytes of a field: in memory order, and of a 16 bit number in network order.\<close>

definition raw32 :: "u32 \<Rightarrow> u8 list" where
  "raw32 v = [byte_of 0 v, byte_of 1 v, byte_of 2 v, byte_of 3 v]"

definition be16 :: "u16 \<Rightarrow> u8 list" where
  "be16 v = [byte_of 1 v, byte_of 0 v]"

lemma length_fields [simp]: "length (raw32 v) = 4" "length (be16 w) = 2"
  by (simp_all add: raw32_def be16_def)

lemma load_bytes_disjoint [mem_simps]:
  "a + n \<le> b \<or> b + length bs \<le> a \<Longrightarrow> load_bytes a n (store_bytes b bs s) = load_bytes a n s"
  "a + n \<le> b \<or> b + 1 \<le> a \<Longrightarrow> load_bytes a n (store8 b u s) = load_bytes a n s"
  "a + n \<le> b \<or> b + 2 \<le> a \<Longrightarrow> load_bytes a n (store16 b v s) = load_bytes a n s"
  "a + n \<le> b \<or> b + 4 \<le> a \<Longrightarrow> load_bytes a n (store32 b w s) = load_bytes a n s"
  by (rule load_bytes_cong; auto simp: mem_simps)+

lemma load_bytes_same [mem_simps]:
  "n = length bs \<Longrightarrow> load_bytes a n (store_bytes a bs s) = bs"
  "load_bytes a 2 (store16 a v s) = [byte_of 0 v, byte_of 1 v]"
  "load_bytes a 4 (store32 a w s) = raw32 w"
proof -
  show "n = length bs \<Longrightarrow> load_bytes a n (store_bytes a bs s) = bs" by (rule load_store_bytes_n)
  show "load_bytes a 2 (store16 a v s) = [byte_of 0 v, byte_of 1 v]"
    by (simp add: load_bytes_def mem_store16 upt_rec)
  show "load_bytes a 4 (store32 a w s) = raw32 w"
    by (simp add: load_bytes_def raw32_def mem_store32 upt_rec)
qed

lemma load16_load_bytes: "load16 a s = u16_of (load_bytes a 2 s ! 0) (load_bytes a 2 s ! 1)"
  by (simp add: load16_def)

lemma load32_load_bytes:
  "load32 a s = u32_of (load_bytes a 4 s ! 0) (load_bytes a 4 s ! 1) (load_bytes a 4 s ! 2) (load_bytes a 4 s ! 3)"
  by (simp add: load32_def)

lemma byte_of_u32_of [simp]:
  "byte_of 0 (u32_of b0 b1 b2 b3) = b0" "byte_of (Suc 0) (u32_of b0 b1 b2 b3) = b1"
  "byte_of 2 (u32_of b0 b1 b2 b3) = b2" "byte_of 3 (u32_of b0 b1 b2 b3) = b3"
  unfolding u32_of_def byte_of_def
  by (rule bit_word_eqI; auto simp: bit_simps dest: bit_imp_le_length)+

lemma load_bytes_32: "load_bytes a 4 s = raw32 (load32 a s)"
  by (simp add: load_bytes_def raw32_def load32_def upt_rec) (simp add: eval_nat_numeral)

lemma load_field_disjoint [mem_simps]:
  "a + 2 \<le> b \<or> b + length bs \<le> a \<Longrightarrow> load16 a (store_bytes b bs s) = load16 a s"
  "a + 2 \<le> b \<or> b + 2 \<le> a \<Longrightarrow> load16 a (store16 b v s) = load16 a s"
  "a + 2 \<le> b \<or> b + 4 \<le> a \<Longrightarrow> load16 a (store32 b w s) = load16 a s"
  "a + 4 \<le> b \<or> b + length bs \<le> a \<Longrightarrow> load32 a (store_bytes b bs s) = load32 a s"
  "a + 4 \<le> b \<or> b + 2 \<le> a \<Longrightarrow> load32 a (store16 b v s) = load32 a s"
  "a + 4 \<le> b \<or> b + 4 \<le> a \<Longrightarrow> load32 a (store32 b w s) = load32 a s"
  by (simp_all add: load16_load_bytes load32_load_bytes load_bytes_disjoint del: nth_load_bytes)

text \<open>A block cut into consecutive parts.\<close>

fun load_parts :: "ptr \<Rightarrow> nat list \<Rightarrow> 'a mem_st_scheme \<Rightarrow> u8 list" where
  "load_parts a [] s = []"
| "load_parts a (n # ns) s = load_bytes a n s @ load_parts (a + n) ns s"

lemma load_bytes_parts: "load_bytes a (sum_list ns) s = load_parts a ns s"
  by (induction ns arbitrary: a) (simp_all add: load_bytes_split, simp add: load_bytes_def)

lemma load_bytes_sub: "k + n \<le> m \<Longrightarrow> load_bytes (a + k) n s = take n (drop k (load_bytes a m s))"
  by (rule nth_equalityI) (auto simp: add.assoc)


lemma drop_load_bytes: "k \<le> n \<Longrightarrow> drop k (load_bytes a n s) = load_bytes (a + k) (n - k) s"
  by (rule nth_equalityI) (simp_all add: add.assoc)

lemma unat_add_small: "unat (c :: 'a::len word) + unat d < 2 ^ LENGTH('a) \<Longrightarrow> unat (c + d) = unat c + unat d"
  by (simp add: unat_word_ariths)

lemma store_bytes_Nil [simp]: "store_bytes a [] s = s"
  by (simp add: store_bytes_def)

lemma store_bytes_append: "n = length bs \<Longrightarrow> store_bytes (a + n) cs (store_bytes a bs s) = store_bytes a (bs @ cs) s"
proof -
  assume n: "n = length bs"
  have "mem (store_bytes (a + n) cs (store_bytes a bs s)) x = mem (store_bytes a (bs @ cs) s) x" for x
    by (auto simp: mem_store_bytes nth_append n)
  then have "mem (store_bytes (a + n) cs (store_bytes a bs s)) = mem (store_bytes a (bs @ cs) s)" by blast
  then show ?thesis by (simp add: store_bytes_def)
qed

lemma store8_store_bytes: "store8 a b s = store_bytes a [b] s"
  by (simp add: store8_def store_bytes_def)

lemma take_load_bytes: "take k (load_bytes a n s) = load_bytes a (min k n) s"
  by (rule nth_equalityI) auto

end
