(* ===== verification/Pool_Spec.thy ===== *)
theory Pool_Spec
  imports Prelude
begin

text \<open>
  The interface of a fixed pool of objects, which both allocators of the stack provide
  (\<^verbatim>\<open>core/t_memp.c\<close> for control blocks and messages, \<^verbatim>\<open>core/t_pbuf.c\<close> for packet buffers) and every
  protocol layer relies on: what the two operations promise about the objects that are free, and
  what follows for a client that releases only objects it holds.
\<close>

section \<open>Clients of a pool\<close>

datatype 'r pool_op = Alloc 'r | Release ptr

text \<open>
  A client run: the objects held and the pool's state.  An allocation that returns the null pointer
  leaves the client with what it had; a client releases only what it holds.  A request carries what
  the allocator is asked for (the type or the sizes).
\<close>

fun pool_run :: "('r \<Rightarrow> 's \<Rightarrow> (ptr \<times> 's) option) \<Rightarrow> (ptr \<Rightarrow> 's \<Rightarrow> 's option)
    \<Rightarrow> 'r pool_op list \<Rightarrow> ptr list \<times> 's \<Rightarrow> (ptr list \<times> 's) option" where
  "pool_run alloc release [] hs = Some hs"
| "pool_run alloc release (Alloc r # ops) (held, s) = do {
     (x, s) \<leftarrow> alloc r s;
     pool_run alloc release ops (if x = NULL then held else x # held, s)
   }"
| "pool_run alloc release (Release x # ops) (held, s) =
     (if x \<in> set held then do {
        s \<leftarrow> release x s;
        pool_run alloc release ops (remove1 x held, s)
      } else pool_run alloc release ops (held, s))"

section \<open>The interface\<close>

locale object_pool =
  fixes alloc :: "'r \<Rightarrow> 's \<Rightarrow> (ptr \<times> 's) option"
    and admissible :: "'r \<Rightarrow> bool"
    and release :: "ptr \<Rightarrow> 's \<Rightarrow> 's option"
    and avail :: "'s \<Rightarrow> ptr list \<Rightarrow> bool"
    and owned :: "'s \<Rightarrow> ptr \<Rightarrow> bool"
    and objs :: "ptr set"
  assumes alloc_refused: "\<not> admissible r \<Longrightarrow> alloc r s = Some (NULL, s)"
    and alloc_empty: "avail s [] \<Longrightarrow> alloc r s = Some (NULL, s)"
    and alloc_next: "admissible r \<Longrightarrow> avail s (x # xs) \<Longrightarrow>
      \<exists>s'. alloc r s = Some (x, s') \<and> avail s' xs \<and> owned s' x \<and>
        (\<forall>y. y \<noteq> x \<longrightarrow> owned s y \<longrightarrow> owned s' y)"
    and release_push: "avail s xs \<Longrightarrow> x \<in> objs \<Longrightarrow> x \<notin> set xs \<Longrightarrow> owned s x \<Longrightarrow>
      \<exists>s'. release x s = Some s' \<and> avail s' (x # xs) \<and>
        (\<forall>y. y \<noteq> x \<longrightarrow> owned s y \<longrightarrow> owned s' y)"
    and avail_distinct: "avail s xs \<Longrightarrow> distinct xs"
    and avail_objs: "avail s xs \<Longrightarrow> set xs \<subseteq> objs"
    and objs_finite: "finite objs"
    and NULL_not_obj: "NULL \<notin> objs"
begin

text \<open>
  What a client knows of the pool: the objects it holds and the free ones are pairwise different
  and together are all objects of the pool.
\<close>

definition balanced :: "ptr list \<Rightarrow> 's \<Rightarrow> bool" where
  "balanced held s \<longleftrightarrow> (\<exists>xs. avail s xs \<and> distinct (held @ xs) \<and> set (held @ xs) = objs \<and>
     (\<forall>x \<in> set held. owned s x))"

lemma balancedI:
  "avail s xs \<Longrightarrow> distinct (held @ xs) \<Longrightarrow> set (held @ xs) = objs \<Longrightarrow>
     (\<And>x. x \<in> set held \<Longrightarrow> owned s x) \<Longrightarrow> balanced held s"
  by (auto simp: balanced_def)

lemma balanced_alloc:
  assumes "balanced held s"
  shows "\<exists>x s'. alloc r s = Some (x, s') \<and> balanced (if x = NULL then held else x # held) s' \<and>
    (x = NULL \<longleftrightarrow> set held = objs \<or> \<not> admissible r)"
proof -
  from assms obtain xs where av: "avail s xs" and d: "distinct (held @ xs)"
    and all: "set (held @ xs) = objs" and own: "\<forall>x \<in> set held. owned s x"
    by (auto simp: balanced_def)
  show ?thesis
  proof (cases "xs = [] \<or> \<not> admissible r")
    case True
    with av all assms show ?thesis by (auto simp: alloc_empty alloc_refused)
  next
    case False
    then obtain x ys where xs: "xs = x # ys" and r: "admissible r" by (cases xs) auto
    with alloc_next [OF r] av obtain s' where s': "alloc r s = Some (x, s')" "avail s' ys" "owned s' x"
      "\<forall>y. y \<noteq> x \<longrightarrow> owned s y \<longrightarrow> owned s' y" by blast
    have x: "x \<in> objs" "x \<notin> set held" "x \<noteq> NULL"
      using xs d all NULL_not_obj by auto
    have own': "\<forall>y \<in> set (x # held). owned s' y"
      using s'(3,4) own x(2) by auto
    have "balanced (x # held) s'"
      by (rule balancedI [OF s'(2)]) (use d all xs own' in auto)
    with s'(1) x r show ?thesis by (intro exI [of _ x] exI [of _ s']) auto
  qed
qed

lemma balanced_release:
  assumes "balanced held s" and "x \<in> set held"
  shows "\<exists>s'. release x s = Some s' \<and> balanced (remove1 x held) s'"
proof -
  from assms(1) obtain xs where av: "avail s xs" and d: "distinct (held @ xs)"
    and all: "set (held @ xs) = objs" and own: "\<forall>x \<in> set held. owned s x"
    by (auto simp: balanced_def)
  from d all assms(2) have "x \<in> objs" "x \<notin> set xs" by auto
  with release_push av own assms(2) obtain s' where s': "release x s = Some s'" "avail s' (x # xs)"
    "\<forall>y. y \<noteq> x \<longrightarrow> owned s y \<longrightarrow> owned s' y" by blast
  have "distinct (remove1 x held @ x # xs)" "set (remove1 x held @ x # xs) = objs"
    using d all assms(2) by (auto simp: distinct_remove1 set_remove1_eq)
  moreover have "\<forall>y \<in> set (remove1 x held). owned s' y"
    using s'(3) own d by (auto simp: set_remove1_eq)
  ultimately have "balanced (remove1 x held) s'"
    by (intro balancedI [OF s'(2)]) auto
  with s'(1) show ?thesis by blast
qed

text \<open>No run of a well-behaved client faults, loses an object or holds one twice.\<close>

lemma run_balanced:
  "balanced held s \<Longrightarrow>
     \<exists>held' s'. pool_run alloc release ops (held, s) = Some (held', s') \<and> balanced held' s'"
proof (induction ops arbitrary: held s)
  case (Cons opn ops)
  show ?case
  proof (cases opn)
    case (Alloc r)
    from balanced_alloc [OF Cons.prems, of r] obtain x s' where
      "alloc r s = Some (x, s')" "balanced (if x = NULL then held else x # held) s'" by blast
    with Cons.IH [OF this(2)] Alloc show ?thesis by simp
  next
    case (Release x)
    show ?thesis
    proof (cases "x \<in> set held")
      case True
      from balanced_release [OF Cons.prems True] obtain s' where
        "release x s = Some s'" "balanced (remove1 x held) s'" by blast
      with Cons.IH [OF this(2)] Release True show ?thesis by simp
    next
      case False
      with Cons Release show ?thesis by simp
    qed
  qed
qed auto

lemma balanced_card: "balanced held s \<Longrightarrow> distinct held \<and> set held \<subseteq> objs \<and> length held \<le> card objs"
  by (auto simp: balanced_def distinct_card [symmetric] intro!: card_mono objs_finite)

lemma run_held:
  assumes "avail s xs" and "set xs = objs"
  shows "\<exists>held s' ys. pool_run alloc release ops ([], s) = Some (held, s') \<and> avail s' ys \<and>
    distinct (held @ ys) \<and> set (held @ ys) = objs"
proof -
  from assms have "balanced [] s" by (auto simp: balanced_def avail_distinct)
  from run_balanced [OF this, of ops] show ?thesis by (auto simp: balanced_def)
qed

text \<open>The pool is a stack: a released object is the next one handed out.\<close>

lemma release_then_alloc:
  assumes "avail s xs" "x \<in> objs" "x \<notin> set xs" "owned s x" "admissible r"
  shows "\<exists>s' s''. release x s = Some s' \<and> alloc r s' = Some (x, s'') \<and> avail s'' xs"
  using release_push [OF assms(1-4)] alloc_next [OF assms(5)] by blast

end

end
