(* ===== verification/Memp.thy ===== *)
theory Memp
  imports Memory Pool_Spec
begin

text \<open>
  \<^verbatim>\<open>core/t_memp.c\<close>, \<^verbatim>\<open>include/t_memp.h\<close>: the fixed pools that control blocks, segments and messages are
  allocated from.  All pools are carved out of the static array \<^verbatim>\<open>memp_memory\<close>; every element is a
  link (\<^verbatim>\<open>struct t_memp\<close>) followed by the object.  Addresses are kept: \<open>memp_next\<close> is the link field of
  the element at an address, and the object a client gets is the element's address plus the sz
  of the link.  The typed contents of the objects are the business of the layers that use them.
\<close>

section \<open>Constants and state\<close>

datatype t_memp_t =
  T_MEMP_TCPIP_MSG | T_MEMP_NETCONN | T_MEMP_API_MSG | T_MEMP_UDP_PCB | T_MEMP_NETBUF
| T_MEMP_TCP_PCB | T_MEMP_TCP_SEG

definition memp_types :: "t_memp_t list" where
  "memp_types = [T_MEMP_TCPIP_MSG, T_MEMP_NETCONN, T_MEMP_API_MSG, T_MEMP_UDP_PCB, T_MEMP_NETBUF,
     T_MEMP_TCP_PCB, T_MEMP_TCP_SEG]"

text \<open>
  Sizes of the structs on the target of the \<^verbatim>\<open>Makefile\<close> (gcc on 64 bit Linux: pointers of 8 bytes,
  enums and ints of 4, natural alignment).
\<close>

definition sizeof_t_memp :: nat where
  "sizeof_t_memp = 8"

fun memp_sizes :: "t_memp_t \<Rightarrow> nat" where
  "memp_sizes T_MEMP_TCPIP_MSG = 24"
| "memp_sizes T_MEMP_NETCONN = 56"
| "memp_sizes T_MEMP_API_MSG = 40"
| "memp_sizes T_MEMP_UDP_PCB = 48"
| "memp_sizes T_MEMP_NETBUF = 32"
| "memp_sizes T_MEMP_TCP_PCB = 200"
| "memp_sizes T_MEMP_TCP_SEG = 40"

fun memp_num :: "t_memp_t \<Rightarrow> nat" where
  "memp_num T_MEMP_TCPIP_MSG = 30"
| "memp_num T_MEMP_NETCONN = 4"
| "memp_num T_MEMP_API_MSG = 8"
| "memp_num T_MEMP_UDP_PCB = 2"
| "memp_num T_MEMP_NETBUF = 8"
| "memp_num T_MEMP_TCP_PCB = 2"
| "memp_num T_MEMP_TCP_SEG = 40"

text \<open>
  Where the linker puts the array: only that it is not at the null pointer and does not overlap the
  packet buffers is used.
\<close>

definition memp_memory :: ptr where
  "memp_memory = 0x10000"

definition memp_memory_size :: nat where
  "memp_memory_size = sum_list (map (\<lambda>t. memp_num t * (sizeof_t_memp + memp_sizes t)) memp_types)"

record memp_st = mem_st +
  memp_tab :: "t_memp_t \<Rightarrow> ptr"
  memp_next :: "ptr \<Rightarrow> ptr"
  now_count :: int

text \<open>The static variables as the program starts: all zero.\<close>

definition memp_boot :: memp_st where
  "memp_boot = \<lparr>mem = (\<lambda>_. 0), memp_tab = (\<lambda>_. NULL), memp_next = (\<lambda>_. NULL), now_count = 0\<rparr>"

section \<open>Operations\<close>

text \<open>
  The inner loop of \<^verbatim>\<open>t_memp_init\<close>: link \<open>j\<close> further elements of the given sz behind \<open>m\<close>, then
  end the list.
\<close>

fun memp_link :: "nat \<Rightarrow> nat \<Rightarrow> ptr \<Rightarrow> (ptr \<Rightarrow> ptr) \<Rightarrow> (ptr \<Rightarrow> ptr)" where
  "memp_link 0 sz m nx = nx(m := NULL)"
| "memp_link (Suc j) sz m nx = memp_link j sz (m + sz) (nx(m := m + sz))"

fun memp_init_pools :: "t_memp_t list \<Rightarrow> ptr \<Rightarrow> 'a memp_st_scheme \<Rightarrow> 'a memp_st_scheme" where
  "memp_init_pools [] mp s = s"
| "memp_init_pools (i # is) mp s =
     (let sz = memp_sizes i + sizeof_t_memp;
          s = s\<lparr>memp_tab := (memp_tab s)(i := mp)\<rparr>;
          s = s\<lparr>memp_next := memp_link (memp_num i - 1) sz mp (memp_next s)\<rparr>
      in memp_init_pools is (mp + sz * memp_num i) s)"

definition t_memp_init :: "'a memp_st_scheme \<Rightarrow> 'a memp_st_scheme" where
  "t_memp_init s = memp_init_pools memp_types memp_memory s"

definition t_memp_malloc :: "t_memp_t \<Rightarrow> 'a memp_st_scheme \<Rightarrow> ptr \<times> 'a memp_st_scheme" where
  "t_memp_malloc type s =
     (let memp = memp_tab s type
      in if memp \<noteq> NULL then
           let p = memp;
               s = s\<lparr>memp_tab := (memp_tab s)(type := memp_next s memp)\<rparr>;
               s = s\<lparr>memp_next := (memp_next s)(p := NULL)\<rparr>;
               s = s\<lparr>now_count := now_count s + 1\<rparr>
           in (p + sizeof_t_memp, s)
         else (NULL, s))"

definition t_memp_free :: "t_memp_t \<Rightarrow> ptr \<Rightarrow> 'a memp_st_scheme \<Rightarrow> 'a memp_st_scheme option" where
  "t_memp_free type m s = do {
     defined (sizeof_t_memp < m);
     let s = s\<lparr>now_count := now_count s - 1\<rparr>;
     let mp = m - sizeof_t_memp;
     Some (if memp_tab s type \<noteq> NULL then
             let p = memp_tab s type;
                 s = s\<lparr>memp_tab := (memp_tab s)(type := mp)\<rparr>
             in s\<lparr>memp_next := (memp_next s)(mp := p)\<rparr>
           else s\<lparr>memp_tab := (memp_tab s)(type := mp)\<rparr>)
   }"

section \<open>Layout\<close>

fun pool_start :: "t_memp_t list \<Rightarrow> ptr \<Rightarrow> t_memp_t \<Rightarrow> ptr" where
  "pool_start [] mp t = mp"
| "pool_start (i # is) mp t =
     (if i = t then mp else pool_start is (mp + (memp_sizes i + sizeof_t_memp) * memp_num i) t)"

definition pool_elems :: "nat \<Rightarrow> nat \<Rightarrow> ptr \<Rightarrow> ptr list" where
  "pool_elems n sz m = map (\<lambda>j. m + j * sz) [0..<n]"

definition memp_elems :: "t_memp_t \<Rightarrow> ptr list" where
  "memp_elems t =
     pool_elems (memp_num t) (memp_sizes t + sizeof_t_memp) (pool_start memp_types memp_memory t)"

definition memp_objs :: "t_memp_t \<Rightarrow> ptr set" where
  "memp_objs t = (\<lambda>e. e + sizeof_t_memp) ` set (memp_elems t)"

lemma pool_elems_Suc: "pool_elems (Suc n) sz m = m # pool_elems n sz (m + sz)"
  unfolding pool_elems_def by (simp add: upt_conv_Cons map_Suc_upt [symmetric] add.assoc del: upt_Suc)

lemma pool_elems_bounds:
  "x \<in> set (pool_elems n sz m) \<Longrightarrow> m \<le> x \<and> x + sz \<le> m + n * sz"
  unfolding pool_elems_def
proof -
  assume "x \<in> set (map (\<lambda>j. m + j * sz) [0..<n])"
  then have "\<exists>j < n. x = m + j * sz" by auto
  then obtain j where j: "x = m + j * sz" "j < n" by blast
  then have "Suc j * sz \<le> n * sz" by (intro mult_right_mono) auto
  with j show ?thesis by simp
qed

lemma memp_link_outside: "x < m \<or> m + j * sz < x \<Longrightarrow> 0 < sz \<Longrightarrow> memp_link j sz m nx x = nx x"
  by (induction j arbitrary: m nx) (auto simp: algebra_simps)

lemma memp_link_chained:
  "0 < m \<Longrightarrow> 0 < sz \<Longrightarrow> chained (memp_link j sz m nx) m (pool_elems (Suc j) sz m)"
proof (induction j arbitrary: m nx)
  case 0
  then show ?case by (simp add: pool_elems_def)
next
  case (Suc j)
  have "memp_link j sz (m + sz) (nx(m := m + sz)) m = m + sz"
    using Suc.prems by (subst memp_link_outside) auto
  with Suc show ?case by (subst pool_elems_Suc) (auto simp del: upt_Suc)
qed

lemma memp_num_pos [simp]: "0 < memp_num t" and memp_sizes_pos [simp]: "0 < memp_sizes t"
  by (cases t; simp)+

lemma memp_init_pools_outside:
  "0 < mp \<Longrightarrow> t \<notin> set is \<Longrightarrow> x < mp \<Longrightarrow>
     memp_tab (memp_init_pools is mp s) t = memp_tab s t \<and>
     memp_next (memp_init_pools is mp s) x = memp_next s x"
  by (induction "is" arbitrary: mp s)
    (auto simp: Let_def memp_link_outside sizeof_t_memp_def)

lemma memp_init_pools_chained:
  "0 < mp \<Longrightarrow> distinct is \<Longrightarrow> t \<in> set is \<Longrightarrow>
     chained (memp_next (memp_init_pools is mp s)) (memp_tab (memp_init_pools is mp s) t)
       (pool_elems (memp_num t) (memp_sizes t + sizeof_t_memp) (pool_start is mp t))"
proof (induction "is" arbitrary: mp s)
  case (Cons i "is")
  let ?sz = "memp_sizes i + sizeof_t_memp"
  let ?mp = "mp + ?sz * memp_num i"
  let ?nx = "memp_link (memp_num i - 1) ?sz mp (memp_next s)"
  let ?s = "s\<lparr>memp_tab := (memp_tab s)(i := mp), memp_next := ?nx\<rparr>"
  have rec: "memp_init_pools (i # is) mp s = memp_init_pools is ?mp ?s" by (simp add: Let_def)
  show ?case
  proof (cases "i = t")
    case False
    with Cons show ?thesis unfolding rec by auto
  next
    case True
    have n: "Suc (memp_num i - 1) = memp_num i" by (simp add: Suc_pred')
    have ch: "chained ?nx mp (pool_elems (memp_num i) ?sz mp)"
      using memp_link_chained [of mp ?sz "memp_num i - 1" "memp_next s"] Cons.prems(1) n
      by (simp add: sizeof_t_memp_def)
    have "memp_next (memp_init_pools is ?mp ?s) x = ?nx x"
      if "x \<in> set (pool_elems (memp_num i) ?sz mp)" for x
    proof -
      from pool_elems_bounds [OF that] have "x < ?mp"
        by (simp add: sizeof_t_memp_def algebra_simps)
      with Cons.prems(1,2) show ?thesis
        by (subst memp_init_pools_outside [THEN conjunct2, of _ i]) auto
    qed
    with ch have "chained (memp_next (memp_init_pools is ?mp ?s)) mp
        (pool_elems (memp_num i) ?sz mp)" by (subst chained_cong) auto
    moreover have "memp_tab (memp_init_pools is ?mp ?s) i = mp"
      using Cons.prems(1,2) by (subst memp_init_pools_outside [THEN conjunct1, of _ _ _ 0]) auto
    ultimately show ?thesis unfolding rec using True by simp
  qed
qed simp


lemma memp_slot_pos [simp]: "0 < sizeof_t_memp"
  by (simp add: sizeof_t_memp_def)

lemma in_memp_types [simp]: "t \<in> set memp_types" and distinct_memp_types [simp]: "distinct memp_types"
  by (cases t) (simp_all add: memp_types_def)

lemma memp_elems_bounds:
  assumes "e \<in> set (memp_elems t)"
  shows "pool_start memp_types memp_memory t \<le> e \<and>
    e + (memp_sizes t + sizeof_t_memp) \<le>
      pool_start memp_types memp_memory t + memp_num t * (memp_sizes t + sizeof_t_memp)"
  using pool_elems_bounds [of e] assms unfolding memp_elems_def by blast

lemma memp_elems_pos: "e \<in> set (memp_elems t) \<Longrightarrow> memp_memory \<le> e"
  using memp_elems_bounds [of e t]
  by (cases t) (simp_all add: memp_types_def memp_memory_def sizeof_t_memp_def)

lemma memp_elems_other_type:
  "e \<in> set (memp_elems t) \<Longrightarrow> e' \<in> set (memp_elems u) \<Longrightarrow> t \<noteq> u \<Longrightarrow>
     e + (memp_sizes t + sizeof_t_memp) \<le> e' \<or> e' + (memp_sizes u + sizeof_t_memp) \<le> e"
  using memp_elems_bounds [of e t] memp_elems_bounds [of e' u]
  by (cases t; cases u) (simp_all add: memp_types_def memp_memory_def sizeof_t_memp_def)

lemma memp_elems_type_unique: "e \<in> set (memp_elems t) \<Longrightarrow> e \<in> set (memp_elems u) \<Longrightarrow> t = u"
  using memp_elems_other_type [of e t e u] by (auto simp: sizeof_t_memp_def)

lemma length_memp_elems [simp]: "length (memp_elems t) = memp_num t"
  by (simp add: memp_elems_def pool_elems_def)

lemma distinct_memp_elems [simp]: "distinct (memp_elems t)"
  by (auto simp: memp_elems_def pool_elems_def distinct_map inj_on_def sizeof_t_memp_def)

lemma memp_elems_same_type:
  assumes "e \<in> set (memp_elems t)" "e' \<in> set (memp_elems t)" "e < e'"
  shows "e + (memp_sizes t + sizeof_t_memp) \<le> e'"
proof -
  let ?b = "pool_start memp_types memp_memory t" and ?z = "memp_sizes t + sizeof_t_memp"
  from assms(1,2) have "\<exists>j k. e = ?b + j * ?z \<and> e' = ?b + k * ?z"
    by (auto simp: memp_elems_def pool_elems_def)
  then obtain j k where jk: "e = ?b + j * ?z" "e' = ?b + k * ?z" by blast
  with assms(3) have "j < k" by simp
  then have "Suc j * ?z \<le> k * ?z" by (intro mult_right_mono) auto
  with jk show ?thesis by simp
qed

section \<open>The pools as stacks\<close>

text \<open>
  The abstraction: a pool is the stack of the objects that are free.  An object is owned by a client
  while its link is null, which \<open>t_memp_free\<close> relies on when it pushes onto an empty list.
\<close>

definition memp_avail :: "t_memp_t \<Rightarrow> 'a memp_st_scheme \<Rightarrow> ptr list \<Rightarrow> bool" where
  "memp_avail t s xs \<longleftrightarrow> (\<exists>es. xs = map (\<lambda>e. e + sizeof_t_memp) es \<and>
     chained (memp_next s) (memp_tab s t) es \<and> set es \<subseteq> set (memp_elems t))"

definition memp_owned :: "'a memp_st_scheme \<Rightarrow> ptr \<Rightarrow> bool" where
  "memp_owned s x \<longleftrightarrow> memp_next s (x - sizeof_t_memp) = NULL"

lemma memp_malloc_empty: "memp_avail t s [] \<Longrightarrow> t_memp_malloc t s = (NULL, s)"
  by (auto simp: memp_avail_def t_memp_malloc_def)

lemma memp_malloc_next:
  assumes "memp_avail t s (x # xs)"
  shows "\<exists>s'. t_memp_malloc t s = (x, s') \<and> memp_avail t s' xs \<and> memp_owned s' x \<and>
    (\<forall>y. memp_owned s y \<longrightarrow> memp_owned s' y) \<and>
    s' = s\<lparr>memp_tab := memp_tab s', memp_next := memp_next s', now_count := now_count s + 1\<rparr> \<and>
    memp_tab s' = (memp_tab s)(t := memp_tab s' t) \<and>
    memp_next s' = (memp_next s)(x - sizeof_t_memp := NULL)"
proof -
  from assms obtain e es where es: "x = e + sizeof_t_memp" "xs = map (\<lambda>e. e + sizeof_t_memp) es"
    and ch: "chained (memp_next s) (memp_tab s t) (e # es)"
    and sub: "set (e # es) \<subseteq> set (memp_elems t)"
    by (auto simp: memp_avail_def)
  from ch have e: "memp_tab s t = e" "e \<noteq> NULL" "chained (memp_next s) (memp_next s e) es"
    "e \<notin> set es"
    using chained_distinct [OF ch] by auto
  let ?s = "s\<lparr>memp_tab := (memp_tab s)(t := memp_next s e), memp_next := (memp_next s)(e := NULL),
              now_count := now_count s + 1\<rparr>"
  have "t_memp_malloc t s = (x, ?s)"
    using e es by (simp add: t_memp_malloc_def)
  moreover have "memp_avail t ?s xs"
    unfolding memp_avail_def using es sub e by (intro exI [of _ es]) auto
  ultimately show ?thesis using es e by (intro exI [of _ ?s]) (auto simp: memp_owned_def)
qed

lemma memp_free_push:
  assumes "memp_avail t s xs" "x \<in> memp_objs t" "x \<notin> set xs" "memp_owned s x"
  shows "\<exists>s'. t_memp_free t x s = Some s' \<and> memp_avail t s' (x # xs) \<and>
    (\<forall>y. y \<noteq> x \<longrightarrow> memp_owned s y \<longrightarrow> memp_owned s' y) \<and>
    s' = s\<lparr>memp_tab := memp_tab s', memp_next := memp_next s', now_count := now_count s - 1\<rparr> \<and>
    memp_tab s' = (memp_tab s)(t := x - sizeof_t_memp) \<and>
    memp_next s' = (memp_next s)(x - sizeof_t_memp := memp_tab s t)"
proof -
  from assms(1) obtain es where es: "xs = map (\<lambda>e. e + sizeof_t_memp) es"
    "chained (memp_next s) (memp_tab s t) es" "set es \<subseteq> set (memp_elems t)"
    by (auto simp: memp_avail_def)
  from assms(2) obtain e where e: "x = e + sizeof_t_memp" "e \<in> set (memp_elems t)"
    by (auto simp: memp_objs_def)
  with memp_elems_pos [of e t] have pos: "0 < e" by (simp add: memp_memory_def)
  let ?s = "s\<lparr>memp_tab := (memp_tab s)(t := e), memp_next := (memp_next s)(e := memp_tab s t),
              now_count := now_count s - 1\<rparr>"
  have link: "memp_next s e = NULL" using assms(4) e by (simp add: memp_owned_def)
  have nx: "(memp_next s)(e := NULL) = memp_next s" using link by auto
  have "t_memp_free t x s = Some ?s"
    using e pos nx by (auto simp: t_memp_free_def Let_def)
  moreover have "e \<notin> set es" using assms(3) es(1) e(1) by auto
  with es e pos have "memp_avail t ?s (x # xs)"
    unfolding memp_avail_def by (intro exI [of _ "e # es"]) auto
  ultimately show ?thesis using e pos by (intro exI [of _ ?s]) (auto simp: memp_owned_def)
qed


interpretation memp: object_pool "\<lambda>_ s. Some (t_memp_malloc t s)" "\<lambda>_ :: unit. True"
  "t_memp_free t" "memp_avail t" memp_owned "memp_objs t" for t
proof unfold_locales
  fix s :: "'a memp_st_scheme" and x xs
  show "memp_avail t s [] \<Longrightarrow> Some (t_memp_malloc t s) = Some (NULL, s)"
    by (simp add: memp_malloc_empty)
  show "memp_avail t s (x # xs) \<Longrightarrow> \<exists>s'. Some (t_memp_malloc t s) = Some (x, s') \<and>
      memp_avail t s' xs \<and> memp_owned s' x \<and> (\<forall>y. y \<noteq> x \<longrightarrow> memp_owned s y \<longrightarrow> memp_owned s' y)"
    using memp_malloc_next [of t s x xs] by blast
  show "\<lbrakk>memp_avail t s xs; x \<in> memp_objs t; x \<notin> set xs; memp_owned s x\<rbrakk> \<Longrightarrow>
      \<exists>s'. t_memp_free t x s = Some s' \<and> memp_avail t s' (x # xs) \<and>
        (\<forall>y. y \<noteq> x \<longrightarrow> memp_owned s y \<longrightarrow> memp_owned s' y)"
    using memp_free_push [of t s xs x] by blast
  show "distinct xs" if "memp_avail t s xs"
  proof -
    from that obtain es where "xs = map (\<lambda>e. e + sizeof_t_memp) es"
      "chained (memp_next s) (memp_tab s t) es" by (auto simp: memp_avail_def)
    with chained_distinct show ?thesis by (auto simp: distinct_map inj_on_def)
  qed
  show "set xs \<subseteq> memp_objs t" if "memp_avail t s xs"
    using that by (force simp: memp_avail_def memp_objs_def)
  show "finite (memp_objs t)" by (simp add: memp_objs_def)
  show "NULL \<notin> memp_objs t" by (auto simp: memp_objs_def sizeof_t_memp_def)
qed simp

lemma card_memp_objs [simp]: "card (memp_objs t) = memp_num t"
  by (simp add: memp_objs_def card_image inj_on_def distinct_card)

lemma memp_init_avail:
  "memp_avail t (t_memp_init s) (map (\<lambda>e. e + sizeof_t_memp) (memp_elems t))"
proof -
  have "chained (memp_next (t_memp_init s)) (memp_tab (t_memp_init s) t) (memp_elems t)"
    unfolding t_memp_init_def memp_elems_def
    by (rule memp_init_pools_chained) (simp_all add: memp_memory_def)
  then show ?thesis unfolding memp_avail_def by (intro exI [of _ "memp_elems t"]) auto
qed

lemma memp_avail_length: "memp_avail t s xs \<Longrightarrow> length xs \<le> memp_num t"
  using memp.avail_distinct [of t s xs] memp.avail_objs [of t s xs]
  by (metis card_memp_objs card_mono distinct_card memp.objs_finite)

text \<open>Operations of one pool do not touch another pool.\<close>

lemma memp_malloc_other:
  assumes "memp_avail t s ts" and "memp_avail u s us" and "t \<noteq> u"
  shows "memp_avail u (snd (t_memp_malloc t s)) us"
proof (cases ts)
  case Nil
  with assms show ?thesis by (simp add: memp_malloc_empty)
next
  case (Cons x xs)
  with assms(1) obtain s' where s': "t_memp_malloc t s = (x, s')"
    "memp_tab s' = (memp_tab s)(t := memp_tab s' t)"
    "memp_next s' = (memp_next s)(x - sizeof_t_memp := NULL)"
    using memp_malloc_next [of t s x xs] by blast
  from assms(1) Cons have x: "x - sizeof_t_memp \<in> set (memp_elems t)"
    by (auto simp: memp_avail_def)
  from assms(2) obtain es where es: "us = map (\<lambda>e. e + sizeof_t_memp) es"
    "chained (memp_next s) (memp_tab s u) es" "set es \<subseteq> set (memp_elems u)"
    by (auto simp: memp_avail_def)
  have "x - sizeof_t_memp \<notin> set es"
    using memp_elems_type_unique [OF x, of u] es(3) assms(3) by blast
  moreover have "memp_tab s' u = memp_tab s u" using s'(2) assms(3) by (metis fun_upd_other)
  ultimately show ?thesis
    using s' es unfolding memp_avail_def by (intro exI [of _ es]) (simp add: s'(1))
qed

lemma memp_free_other:
  assumes "x \<in> memp_objs t" and "memp_avail u s us" and "t \<noteq> u" and "t_memp_free t x s = Some s'"
  shows "memp_avail u s' us"
proof -
  from assms(1) have x: "x - sizeof_t_memp \<in> set (memp_elems t)" by (auto simp: memp_objs_def)
  from assms(2) obtain es where es: "us = map (\<lambda>e. e + sizeof_t_memp) es"
    "chained (memp_next s) (memp_tab s u) es" "set es \<subseteq> set (memp_elems u)"
    by (auto simp: memp_avail_def)
  have "x - sizeof_t_memp \<notin> set es"
    using memp_elems_type_unique [OF x, of u] es(3) assms(3) by blast
  with assms(3,4) es show ?thesis
    unfolding memp_avail_def by (intro exI [of _ es]) (auto simp: t_memp_free_def Let_def)
qed

section \<open>Properties\<close>

text \<open>After \<open>t_memp_init\<close> every pool offers exactly its configured number of objects, each inside
  the static array, and no two objects, of one pool or of two, share a byte.\<close>

theorem memp_init_layout:
  "memp_avail t (t_memp_init s) (map (\<lambda>e. e + sizeof_t_memp) (memp_elems t)) \<and>
   length (memp_elems t) = memp_num t \<and>
   list_all (\<lambda>e. memp_memory \<le> e \<and>
     e + sizeof_t_memp + memp_sizes t \<le> memp_memory + memp_memory_size) (memp_elems t) \<and>
   list_all (\<lambda>e. list_all (\<lambda>e'. (t = u \<and> e = e') \<or> e + sizeof_t_memp + memp_sizes t \<le> e' \<or>
     e' + sizeof_t_memp + memp_sizes u \<le> e) (memp_elems u)) (memp_elems t)"
proof (intro conjI)
  show "list_all (\<lambda>e. memp_memory \<le> e \<and>
      e + sizeof_t_memp + memp_sizes t \<le> memp_memory + memp_memory_size) (memp_elems t)"
    unfolding list_all_iff
  proof
    fix e assume e: "e \<in> set (memp_elems t)"
    have "pool_start memp_types memp_memory t + memp_num t * (memp_sizes t + sizeof_t_memp)
        \<le> memp_memory + memp_memory_size"
      by (cases t) (simp_all add: memp_types_def memp_memory_size_def sizeof_t_memp_def)
    with memp_elems_bounds [OF e] memp_elems_pos [OF e]
    show "memp_memory \<le> e \<and> e + sizeof_t_memp + memp_sizes t \<le> memp_memory + memp_memory_size"
      by simp
  qed
  show "list_all (\<lambda>e. list_all (\<lambda>e'. (t = u \<and> e = e') \<or> e + sizeof_t_memp + memp_sizes t \<le> e' \<or>
     e' + sizeof_t_memp + memp_sizes u \<le> e) (memp_elems u)) (memp_elems t)"
    unfolding list_all_iff
  proof (intro ballI)
    fix e e' assume "e \<in> set (memp_elems t)" "e' \<in> set (memp_elems u)"
    then show "(t = u \<and> e = e') \<or> e + sizeof_t_memp + memp_sizes t \<le> e' \<or>
        e' + sizeof_t_memp + memp_sizes u \<le> e"
      using memp_elems_same_type [of e t e'] memp_elems_same_type [of e' t e]
        memp_elems_other_type [of e t e' u]
      by (cases "t = u"; cases e e' rule: linorder_cases) auto
  qed
qed (simp_all add: memp_init_avail)

text \<open>C30: Whatever sequence of allocations and releases a client runs on a fresh pool, no operation
  faults, no object is handed out while it is held, and the objects held and free are together
  always all objects of the pool: none is lost.\<close>

theorem memp_conservation:
  "\<exists>held s' free. pool_run (\<lambda>_ s. Some (t_memp_malloc t s)) (t_memp_free t) (ops :: unit pool_op list) ([], t_memp_init s) =
       Some (held, s') \<and> memp_avail t s' free \<and> distinct (held @ free) \<and>
     set (held @ free) = memp_objs t \<and> length held + length free = memp_num t"
proof -
  have init: "set (map (\<lambda>e. e + sizeof_t_memp) (memp_elems t)) = memp_objs t"
    by (simp add: memp_objs_def)
  from memp.run_held [OF memp_init_avail init, of ops] obtain held s' free where
    "pool_run (\<lambda>_ s. Some (t_memp_malloc t s)) (t_memp_free t) ops ([], t_memp_init s) = Some (held, s')"
    "memp_avail t s' free" "distinct (held @ free)" "set (held @ free) = memp_objs t" by blast
  moreover from this have "length held + length free = memp_num t"
    by (metis card_memp_objs distinct_card length_append)
  ultimately show ?thesis by blast
qed

text \<open>\<open>t_memp_malloc\<close> takes the first free object of its pool, or returns the null pointer and
  changes nothing exactly when the pool is exhausted; all other pools keep their free objects.\<close>

theorem memp_malloc_refines:
  assumes "memp_avail t s xs" and "memp_avail u s us" and "t \<noteq> u"
  shows "fst (t_memp_malloc t s) = (if xs = [] then NULL else hd xs) \<and>
    memp_avail t (snd (t_memp_malloc t s)) (tl xs) \<and>
    memp_avail u (snd (t_memp_malloc t s)) us \<and>
    (xs = [] \<longrightarrow> snd (t_memp_malloc t s) = s)"
proof (cases xs)
  case Nil
  with assms show ?thesis by (simp add: memp_malloc_empty)
next
  case (Cons x ys)
  with assms(1) memp_malloc_next [of t s x ys] memp_malloc_other [OF assms]
  show ?thesis by auto
qed

theorem memp_malloc_refines_witness:
  "fst (t_memp_malloc T_MEMP_UDP_PCB (t_memp_init memp_boot)) \<noteq> NULL"
proof -
  have "T_MEMP_UDP_PCB \<noteq> T_MEMP_TCP_PCB" by simp
  from memp_malloc_refines [OF memp_init_avail memp_init_avail this, of memp_boot]
  have "fst (t_memp_malloc T_MEMP_UDP_PCB (t_memp_init memp_boot)) =
      hd (map (\<lambda>e. e + sizeof_t_memp) (memp_elems T_MEMP_UDP_PCB))"
    by (cases "memp_elems T_MEMP_UDP_PCB") (auto simp: memp_elems_def pool_elems_def)
  also have "\<dots> \<noteq> NULL"
    by (cases "memp_elems T_MEMP_UDP_PCB") (auto simp: memp_elems_def pool_elems_def sizeof_t_memp_def)
  finally show ?thesis .
qed

text \<open>Releasing an object a client holds and allocating again returns the same object, and the
  pool's other objects stay free in the same order; the pools of other types are not touched.\<close>

theorem memp_free_then_malloc:
  assumes "memp_avail t s xs" and "x \<in> memp_objs t" and "x \<notin> set xs" and "memp_owned s x"
    and "memp_avail u s us" and "t \<noteq> u"
  shows "\<exists>s'. t_memp_free t x s = Some s' \<and> memp_avail t s' (x # xs) \<and> memp_avail u s' us \<and>
    fst (t_memp_malloc t s') = x \<and> memp_avail t (snd (t_memp_malloc t s')) xs"
  using memp.release_then_alloc [OF assms(1-4)] memp_free_push [OF assms(1-4)]
    memp_free_other [OF assms(2,5,6)] by fastforce

theorem memp_free_then_malloc_witness:
  "\<exists>x xs s'. t_memp_malloc T_MEMP_UDP_PCB (t_memp_init memp_boot) = (x, s') \<and>
     memp_avail T_MEMP_UDP_PCB s' xs \<and> x \<noteq> NULL \<and>
     (\<exists>s''. t_memp_free T_MEMP_UDP_PCB x s' = Some s'' \<and> fst (t_memp_malloc T_MEMP_UDP_PCB s'') = x)"
proof -
  define t where "t = T_MEMP_UDP_PCB"
  have u: "t \<noteq> T_MEMP_TCP_PCB" by (simp add: t_def)
  obtain x xs where xs: "map (\<lambda>e. e + sizeof_t_memp) (memp_elems t) = x # xs"
    using length_memp_elems [of t] memp_num_pos [of t] by (cases "memp_elems t") auto
  from memp_malloc_next [of t "t_memp_init memp_boot" x xs] memp_init_avail [of t memp_boot, unfolded xs]
  obtain s' where s': "t_memp_malloc t (t_memp_init memp_boot) = (x, s')" "memp_avail t s' xs" "memp_owned s' x"
    by blast
  have x: "x \<in> memp_objs t" "x \<notin> set xs"
    using memp.avail_objs [OF memp_init_avail [of t memp_boot, unfolded xs]]
      memp.avail_distinct [OF memp_init_avail [of t memp_boot, unfolded xs]] by auto
  then have "x \<noteq> NULL" using memp.NULL_not_obj [of t] by metis
  have av: "memp_avail T_MEMP_TCP_PCB s' (map (\<lambda>e. e + sizeof_t_memp) (memp_elems T_MEMP_TCP_PCB))"
    using memp_malloc_other [OF memp_init_avail memp_init_avail u, of memp_boot] s'(1) by simp
  from memp_free_then_malloc [OF s'(2) x s'(3) av u] s' \<open>x \<noteq> NULL\<close>
  show ?thesis unfolding t_def by blast
qed

section \<open>Frames\<close>

lemma memp_init_pools_frame:
  "memp_init_pools is mp s = s\<lparr>memp_tab := memp_tab (memp_init_pools is mp s), memp_next := memp_next (memp_init_pools is mp s)\<rparr>"
proof (induction "is" arbitrary: mp s)
  case (Cons i "is")
  show ?case unfolding memp_init_pools.simps Let_def by (subst Cons.IH) simp
qed simp

lemma memp_init_frame:
  "t_memp_init s = s\<lparr>memp_tab := memp_tab (t_memp_init s), memp_next := memp_next (t_memp_init s)\<rparr>"
  unfolding t_memp_init_def by (rule memp_init_pools_frame)

lemma memp_avail_fresh: "\<exists>x xs. x \<noteq> NULL \<and> memp_avail i (t_memp_init s) (x # xs)"
proof -
  obtain e es where "memp_elems i = e # es" using length_memp_elems [of i] memp_num_pos [of i] by (cases "memp_elems i") auto
  then have "memp_avail i (t_memp_init s) ((e + sizeof_t_memp) # map (\<lambda>e. e + sizeof_t_memp) es)"
    using memp_init_avail [of i s] by simp
  moreover have "e + sizeof_t_memp \<noteq> NULL" by (simp add: sizeof_t_memp_def)
  ultimately show ?thesis by blast
qed

end
