(* ===== verification/Pbuf.thy ===== *)
theory Pbuf
  imports Memp
begin

text \<open>
  \<^verbatim>\<open>core/t_pbuf.c\<close>, \<^verbatim>\<open>include/t_pbuf.h\<close>: packet buffers.  A buffer is a slot of the static array
  \<^verbatim>\<open>pbuf_pool_memory\<close>: a header (\<^verbatim>\<open>struct t_pbuf\<close>, kept in the typed heap \<open>pbuf\<close> at the slot's address)
  followed by \<^verbatim>\<open>T_PBUF_BUFSIZE\<close> bytes of data (kept in the byte memory).  The \<open>payload\<close> pointer of a
  header points into the data; \<open>t_pbuf_header\<close> moves it as protocol layers add and strip headers.
\<close>

section \<open>Constants and state\<close>

definition T_PBUF_POOL_SIZE :: nat where "T_PBUF_POOL_SIZE = 30"
definition T_PBUF_BUFSIZE :: nat where "T_PBUF_BUFSIZE = 1514"
definition T_PBUF_FLAG_POOL :: u16 where "T_PBUF_FLAG_POOL = 1"
definition T_PBUF_RAM :: u16 where "T_PBUF_RAM = 0"
definition T_PBUF_TRANSPORT :: u16 where "T_PBUF_TRANSPORT = 14 + 20 + 20"
definition T_PBUF_IP :: u16 where "T_PBUF_IP = 14 + 20"

text \<open>\<^verbatim>\<open>struct t_pbuf\<close> has two pointers and five 16 bit fields: 26 bytes, padded to 32.\<close>

definition sizeof_t_pbuf :: nat where "sizeof_t_pbuf = 32"

definition pbuf_pool_memory :: ptr where "pbuf_pool_memory = 0x20000"

record t_pbuf =
  pb_next :: ptr
  pb_payload :: ptr
  pb_tot_len :: u16
  pb_len :: u16
  pb_flags :: u16
  pb_ref :: u16
  pb_reserved :: u16

record pbuf_st = memp_st +
  pbuf :: "ptr \<Rightarrow> t_pbuf"
  pbuf_pool :: ptr

abbreviation pb_link :: "'a pbuf_st_scheme \<Rightarrow> ptr \<Rightarrow> ptr" where
  "pb_link s \<equiv> (\<lambda>p. pb_next (pbuf s p))"

abbreviation upd_pbuf :: "ptr \<Rightarrow> (t_pbuf \<Rightarrow> t_pbuf) \<Rightarrow> 'a pbuf_st_scheme \<Rightarrow> 'a pbuf_st_scheme" where
  "upd_pbuf p f s \<equiv> s\<lparr>pbuf := (pbuf s)(p := f (pbuf s p))\<rparr>"

text \<open>
  Accesses through \<open>payload\<close> have a defined result inside the data area of one buffer, or in memory
  of the application, outside the static arrays of the stack.
\<close>

definition pbuf_slot :: nat where
  "pbuf_slot = T_PBUF_BUFSIZE + sizeof_t_pbuf"

definition buf_range :: "ptr \<Rightarrow> nat \<Rightarrow> bool" where
  "buf_range a n \<longleftrightarrow> pbuf_pool_memory \<le> a \<and> (a - pbuf_pool_memory) div pbuf_slot < T_PBUF_POOL_SIZE \<and>
     sizeof_t_pbuf \<le> (a - pbuf_pool_memory) mod pbuf_slot \<and>
     (a - pbuf_pool_memory) mod pbuf_slot + n \<le> pbuf_slot"

definition user_range :: "ptr \<Rightarrow> nat \<Rightarrow> bool" where
  "user_range a n \<longleftrightarrow> a \<noteq> NULL \<and>
     (a + n \<le> memp_memory \<or> pbuf_pool_memory + T_PBUF_POOL_SIZE * pbuf_slot \<le> a)"

definition accessible :: "ptr \<Rightarrow> nat \<Rightarrow> bool" where
  "accessible a n \<longleftrightarrow> n = 0 \<or> buf_range a n \<or> user_range a n"

text \<open>Stores to the byte memory leave the rest of the state as it is.\<close>

lemma pbuf_stores [simp]:
  "pbuf (store8 a u s) = pbuf s" "pbuf (store16 a v s) = pbuf s" "pbuf (store32 a w s) = pbuf s"
  "pbuf (store_bytes a bs s) = pbuf s" "pbuf_pool (store8 a u s) = pbuf_pool s"
  "pbuf_pool (store16 a v s) = pbuf_pool s" "pbuf_pool (store32 a w s) = pbuf_pool s"
  "pbuf_pool (store_bytes a bs s) = pbuf_pool s"
  by (simp_all add: store8_def store16_def store32_def store_bytes_def)

text \<open>The static variables as the program starts: all zero.\<close>

definition pbuf_boot :: pbuf_st where
  "pbuf_boot = memp_st.extend memp_boot
     \<lparr>pbuf = (\<lambda>_. \<lparr>pb_next = NULL, pb_payload = NULL, pb_tot_len = 0, pb_len = 0, pb_flags = 0,
        pb_ref = 0, pb_reserved = 0\<rparr>), pbuf_pool = NULL\<rparr>"

section \<open>Operations\<close>

fun t_pbuf_init_loop :: "nat \<Rightarrow> ptr \<Rightarrow> ptr \<Rightarrow> 'a pbuf_st_scheme \<Rightarrow> ptr \<times> 'a pbuf_st_scheme" where
  "t_pbuf_init_loop 0 q p s = (q, s)"
| "t_pbuf_init_loop (Suc i) q p s =
     (let s = upd_pbuf p (\<lambda>b. b\<lparr>pb_next := p + T_PBUF_BUFSIZE + sizeof_t_pbuf\<rparr>) s;
          s = upd_pbuf p (\<lambda>b. b\<lparr>pb_tot_len := of_nat T_PBUF_BUFSIZE\<rparr>) s;
          s = upd_pbuf p (\<lambda>b. b\<lparr>pb_len := of_nat T_PBUF_BUFSIZE\<rparr>) s;
          s = upd_pbuf p (\<lambda>b. b\<lparr>pb_payload := p + sizeof_t_pbuf\<rparr>) s;
          s = upd_pbuf p (\<lambda>b. b\<lparr>pb_flags := T_PBUF_FLAG_POOL\<rparr>) s;
          q = p;
          p = pb_next (pbuf s p)
      in t_pbuf_init_loop i q p s)"

definition t_pbuf_init :: "'a pbuf_st_scheme \<Rightarrow> 'a pbuf_st_scheme" where
  "t_pbuf_init s =
     (let s = s\<lparr>pbuf_pool := pbuf_pool_memory\<rparr>;
          (q, s) = t_pbuf_init_loop T_PBUF_POOL_SIZE NULL (pbuf_pool s) s
      in upd_pbuf q (\<lambda>b. b\<lparr>pb_next := NULL\<rparr>) s)"

text \<open>The \<^verbatim>\<open>do ... while\<close> loop of \<^verbatim>\<open>t_pbuf_add_tail\<close>, which advances before it looks.\<close>

partial_function (option) t_pbuf_add_tail_loop :: "ptr \<Rightarrow> 'a pbuf_st_scheme \<Rightarrow> ptr option" where
  "t_pbuf_add_tail_loop p s =
     (let p = pb_next (pbuf s p)
      in if p = NULL then None
         else if pb_next (pbuf s p) \<noteq> NULL then t_pbuf_add_tail_loop p s
         else Some p)"

definition t_pbuf_add_tail :: "ptr \<Rightarrow> ptr \<Rightarrow> 'a pbuf_st_scheme \<Rightarrow> 'a pbuf_st_scheme option" where
  "t_pbuf_add_tail p q s =
     (if p \<noteq> NULL then do {
        p \<leftarrow> t_pbuf_add_tail_loop p s;
        let s = upd_pbuf p (\<lambda>b. b\<lparr>pb_next := q\<rparr>) s;
        defined (q \<noteq> NULL);
        Some (upd_pbuf p (\<lambda>b. b\<lparr>pb_tot_len := pb_tot_len b + pb_len (pbuf s q)\<rparr>) s)
      } else Some s)"

definition t_pbuf_pool_alloc :: "'a pbuf_st_scheme \<Rightarrow> (ptr \<times> 'a pbuf_st_scheme) option" where
  "t_pbuf_pool_alloc s = do {
     let p = pbuf_pool s;
     let s = (if p \<noteq> NULL then
                let s = s\<lparr>pbuf_pool := pb_next (pbuf s p)\<rparr>
                in upd_pbuf p (\<lambda>b. b\<lparr>pb_next := NULL\<rparr>) s
              else s);
     count \<leftarrow> count_from (pb_link s) (pbuf_pool s) 0;
     Some (p, s)
   }"

definition t_pbuf_alloc ::
    "u16 \<Rightarrow> u16 \<Rightarrow> u16 \<Rightarrow> 'a pbuf_st_scheme \<Rightarrow> (ptr \<times> 'a pbuf_st_scheme) option" where
  "t_pbuf_alloc offset lngth flags s =
     (let rem_len = lngth + offset in
      if T_PBUF_BUFSIZE < unat rem_len then Some (NULL, s)
      else if flags = T_PBUF_FLAG_POOL then do {
        (p, s) \<leftarrow> t_pbuf_pool_alloc s;
        Some (if p = NULL then (p, s)
              else
                let s = upd_pbuf p (\<lambda>b. b\<lparr>pb_next := NULL\<rparr>) s;
                    s = upd_pbuf p (\<lambda>b. b\<lparr>pb_ref := 1\<rparr>) s;
                    s = upd_pbuf p (\<lambda>b. b\<lparr>pb_payload := p + sizeof_t_pbuf + unat offset\<rparr>) s;
                    s = upd_pbuf p (\<lambda>b. b\<lparr>pb_tot_len := lngth\<rparr>) s;
                    s = upd_pbuf p (\<lambda>b. b\<lparr>pb_len := lngth\<rparr>) s
                in (p, s))
      } else Some (NULL, s))"

text \<open>\<^verbatim>\<open>t_pbuf_ref\<close> only prints: its body is under \<^verbatim>\<open>#if 0\<close>.\<close>

definition t_pbuf_ref :: "ptr \<Rightarrow> 'a pbuf_st_scheme \<Rightarrow> 'a pbuf_st_scheme" where
  "t_pbuf_ref p s = s"

partial_function (option) t_pbuf_free_loop ::
    "ptr \<Rightarrow> int \<Rightarrow> 'a pbuf_st_scheme \<Rightarrow> (int \<times> 'a pbuf_st_scheme) option" where
  "t_pbuf_free_loop p count s =
     (if p \<noteq> NULL then
        let count = count + 1;
            s = upd_pbuf p (\<lambda>b. b\<lparr>pb_ref := pb_ref b - 1\<rparr>) s;
            nxt = pb_next (pbuf s p)
        in if pb_ref (pbuf s p) = 0 then
             if pb_flags (pbuf s p) = T_PBUF_FLAG_POOL then
               let s = upd_pbuf p (\<lambda>b. b\<lparr>pb_next := pbuf_pool s\<rparr>) s;
                   s = s\<lparr>pbuf_pool := p\<rparr>
               in Option.bind (count_from (pb_link s) (pbuf_pool s) 0)
                    (\<lambda>count. t_pbuf_free_loop nxt count s)
             else t_pbuf_free_loop nxt count s
           else t_pbuf_free_loop nxt count s
      else Some (count, s))"

definition t_pbuf_free :: "ptr \<Rightarrow> 'a pbuf_st_scheme \<Rightarrow> (int \<times> 'a pbuf_st_scheme) option" where
  "t_pbuf_free p s = t_pbuf_free_loop p 0 s"

definition t_pbuf_copy_data ::
    "ptr \<Rightarrow> ptr \<Rightarrow> int \<Rightarrow> 'a pbuf_st_scheme \<Rightarrow> (int \<times> 'a pbuf_st_scheme) option" where
  "t_pbuf_copy_data p data sz s = do {
     defined (p \<noteq> NULL);
     if int (unat (pb_len (pbuf s p))) < sz \<or> sz < 1 then Some (-1, s)
     else do {
       let n = nat sz;
       defined (accessible (pb_payload (pbuf s p)) n \<and> accessible data n);
       Some (0, store_bytes (pb_payload (pbuf s p)) (load_bytes data n s) s)
     }
   }"

definition t_pbuf_header :: "ptr \<Rightarrow> int \<Rightarrow> 'a pbuf_st_scheme \<Rightarrow> (int \<times> 'a pbuf_st_scheme) option" where
  "t_pbuf_header p increment s = do {
     defined (p \<noteq> NULL);
     Some (if pb_flags (pbuf s p) = T_PBUF_FLAG_POOL then
             let payload = int (pb_payload (pbuf s p)) + increment
             in if int p + int sizeof_t_pbuf \<le> payload \<and>
                   payload < int p + int T_PBUF_BUFSIZE - 1 then
                  let s = upd_pbuf p (\<lambda>b. b\<lparr>pb_payload := nat payload\<rparr>) s;
                      s = upd_pbuf p (\<lambda>b. b\<lparr>pb_tot_len := pb_tot_len b - of_int increment\<rparr>) s;
                      s = upd_pbuf p (\<lambda>b. b\<lparr>pb_len := pb_len b - of_int increment\<rparr>) s
                  in (0, s)
                else (-1, s)
           else (-1, s))
   }"

definition t_pbuf_cat :: "ptr \<Rightarrow> ptr \<Rightarrow> 'a pbuf_st_scheme \<Rightarrow> (int \<times> 'a pbuf_st_scheme) option" where
  "t_pbuf_cat p p1 s = do {
     defined (p \<noteq> NULL \<and> p1 \<noteq> NULL);
     let n = unat (pb_len (pbuf s p1));
     let dst = pb_payload (pbuf s p) + unat (pb_len (pbuf s p));
     defined (accessible dst n \<and> accessible (pb_payload (pbuf s p1)) n);
     let s = store_bytes dst (load_bytes (pb_payload (pbuf s p1)) n s) s;
     let s = upd_pbuf p (\<lambda>b. b\<lparr>pb_len := pb_len b + pb_len (pbuf s p1)\<rparr>) s;
     let s = upd_pbuf p (\<lambda>b. b\<lparr>pb_tot_len := pb_tot_len b + pb_len (pbuf s p1)\<rparr>) s;
     Some (0, s)
   }"

section \<open>The pool of buffers\<close>

definition pbuf_slots :: "ptr list" where
  "pbuf_slots = map (\<lambda>k. pbuf_pool_memory + k * pbuf_slot) [0..<T_PBUF_POOL_SIZE]"

definition pbuf_avail :: "'a pbuf_st_scheme \<Rightarrow> ptr list \<Rightarrow> bool" where
  "pbuf_avail s xs \<longleftrightarrow> chained (pb_link s) (pbuf_pool s) xs \<and> set xs \<subseteq> set pbuf_slots \<and>
     (\<forall>x \<in> set xs. pb_flags (pbuf s x) = T_PBUF_FLAG_POOL)"

definition pbuf_owned :: "'a pbuf_st_scheme \<Rightarrow> ptr \<Rightarrow> bool" where
  "pbuf_owned s p \<longleftrightarrow> pb_flags (pbuf s p) = T_PBUF_FLAG_POOL \<and> pb_ref (pbuf s p) = 1 \<and>
     pb_next (pbuf s p) = NULL"

definition alloc_admissible :: "u16 \<times> u16 \<times> u16 \<Rightarrow> bool" where
  "alloc_admissible = (\<lambda>(offset, lngth, flags).
     unat (lngth + offset) \<le> T_PBUF_BUFSIZE \<and> flags = T_PBUF_FLAG_POOL)"

lemma pbuf_slot_eq: "pbuf_slot = 1546"
  by (simp add: pbuf_slot_def T_PBUF_BUFSIZE_def sizeof_t_pbuf_def)

lemma pbuf_slotsE:
  assumes "p \<in> set pbuf_slots"
  obtains k where "p = pbuf_pool_memory + k * pbuf_slot" and "k < T_PBUF_POOL_SIZE"
proof -
  from assms have "\<exists>k < T_PBUF_POOL_SIZE. p = pbuf_pool_memory + k * pbuf_slot"
    by (auto simp: pbuf_slots_def)
  with that show ?thesis by blast
qed

lemma pbuf_slots_pos: "p \<in> set pbuf_slots \<Longrightarrow> 0 < p"
  by (auto simp: pbuf_slots_def pbuf_pool_memory_def)

lemma distinct_pbuf_slots [simp]: "distinct pbuf_slots"
  by (auto simp: pbuf_slots_def distinct_map inj_on_def pbuf_slot_eq)

lemma length_pbuf_slots [simp]: "length pbuf_slots = T_PBUF_POOL_SIZE"
  by (simp add: pbuf_slots_def)

lemma card_pbuf_slots [simp]: "card (set pbuf_slots) = T_PBUF_POOL_SIZE"
  by (simp add: distinct_card)

lemma accessible_in_slot:
  assumes "p \<in> set pbuf_slots" and "p + sizeof_t_pbuf \<le> a" and "a + n \<le> p + pbuf_slot"
  shows "accessible a n"
proof (cases "n = 0")
  case False
  from assms(1) obtain k where k: "p = pbuf_pool_memory + k * pbuf_slot" "k < T_PBUF_POOL_SIZE"
    by (rule pbuf_slotsE)
  define r where "r = a - p"
  have r: "a = p + r" "r < pbuf_slot" "sizeof_t_pbuf \<le> r" "r + n \<le> pbuf_slot"
    using assms(2,3) False by (auto simp: r_def)
  have "a - pbuf_pool_memory = k * pbuf_slot + r" using r(1) k(1) by simp
  moreover from r(2) have "(k * pbuf_slot + r) div pbuf_slot = k" "(k * pbuf_slot + r) mod pbuf_slot = r"
    by simp_all
  ultimately have "buf_range a n" using r k unfolding buf_range_def by simp
  then show ?thesis by (simp add: accessible_def)
qed (simp add: accessible_def)

lemma accessible_part: "accessible a n \<Longrightarrow> i + k \<le> n \<Longrightarrow> accessible (a + i) k"
proof -
  assume a: "accessible a n" and i: "i + k \<le> n"
  let ?d = "a - pbuf_pool_memory"
  have "?d + i = (?d mod pbuf_slot + i) + pbuf_slot * (?d div pbuf_slot)" by simp
  moreover have "?d mod pbuf_slot + i < pbuf_slot \<Longrightarrow>
      ((?d mod pbuf_slot + i) + pbuf_slot * (?d div pbuf_slot)) div pbuf_slot = ?d div pbuf_slot \<and>
      ((?d mod pbuf_slot + i) + pbuf_slot * (?d div pbuf_slot)) mod pbuf_slot = ?d mod pbuf_slot + i"
    by (simp only: mod_mult_self2 div_mult_self2 mod_less div_less add_0 pbuf_slot_eq) simp
  ultimately have dm: "?d mod pbuf_slot + i < pbuf_slot \<Longrightarrow>
      (?d + i) div pbuf_slot = ?d div pbuf_slot \<and> (?d + i) mod pbuf_slot = ?d mod pbuf_slot + i" by metis
  have "buf_range (a + i) k" if "buf_range a n" "0 < k"
  proof -
    from that(1) have b: "pbuf_pool_memory \<le> a" "?d div pbuf_slot < T_PBUF_POOL_SIZE"
      "sizeof_t_pbuf \<le> ?d mod pbuf_slot" "?d mod pbuf_slot + n \<le> pbuf_slot" unfolding buf_range_def by blast+
    have "?d mod pbuf_slot + i < pbuf_slot" using b(4) that(2) i by linarith
    moreover have e: "a + i - pbuf_pool_memory = ?d + i" using b(1) by simp
    ultimately show ?thesis unfolding buf_range_def e using dm b i by auto
  qed
  moreover have "user_range a n \<Longrightarrow> user_range (a + i) k" using i by (auto simp: user_range_def)
  ultimately show ?thesis using a i by (auto simp: accessible_def)
qed

lemma slots_apart:
  assumes "x \<in> set pbuf_slots" and "y \<in> set pbuf_slots" and "x \<noteq> y"
  shows "x + pbuf_slot \<le> y \<or> y + pbuf_slot \<le> x"
proof -
  from assms obtain i j where ij: "x = pbuf_pool_memory + i * pbuf_slot" "y = pbuf_pool_memory + j * pbuf_slot"
    by (auto simp: pbuf_slots_def)
  with assms(3) have "i < j \<or> j < i" by (metis linorder_neqE_nat)
  then have "Suc i * pbuf_slot \<le> j * pbuf_slot \<or> Suc j * pbuf_slot \<le> i * pbuf_slot"
    by (meson Suc_leI mult_le_mono1)
  then show ?thesis unfolding ij by auto
qed

lemma pb_link_upd [simp]:
  "(\<lambda>p. pb_next (if p = q then b else f p)) = (\<lambda>p. pb_next (f p))(q := pb_next b)"
  by auto

lemma pbuf_alloc_refused: "\<not> alloc_admissible (offset, lngth, flags) \<Longrightarrow>
    t_pbuf_alloc offset lngth flags s = Some (NULL, s)"
  by (auto simp: alloc_admissible_def t_pbuf_alloc_def)

lemma pbuf_alloc_empty: "pbuf_avail s [] \<Longrightarrow> t_pbuf_alloc offset lngth flags s = Some (NULL, s)"
  by (auto simp: pbuf_avail_def t_pbuf_alloc_def t_pbuf_pool_alloc_def count_from.simps Let_def)

text \<open>What a successful allocation writes: everything else of the state is as it was.\<close>

lemma pbuf_alloc_next:
  assumes "alloc_admissible (offset, lngth, flags)" and "pbuf_avail s (x # xs)"
  shows "t_pbuf_alloc offset lngth flags s = Some (x, s\<lparr>pbuf_pool := pb_next (pbuf s x),
      pbuf := (pbuf s)(x := (pbuf s x)\<lparr>pb_next := NULL, pb_ref := 1,
        pb_payload := x + sizeof_t_pbuf + unat offset, pb_tot_len := lngth, pb_len := lngth\<rparr>)\<rparr>)"
    (is "_ = Some (x, ?s)")
    and "pbuf_avail (s\<lparr>pbuf_pool := pb_next (pbuf s x),
      pbuf := (pbuf s)(x := (pbuf s x)\<lparr>pb_next := NULL, pb_ref := 1,
        pb_payload := x + sizeof_t_pbuf + unat offset, pb_tot_len := lngth, pb_len := lngth\<rparr>)\<rparr>) xs"
proof -
  from assms(2) have ch: "chained (pb_link s) (pbuf_pool s) (x # xs)"
    and sub: "set (x # xs) \<subseteq> set pbuf_slots"
    and fl: "\<forall>y \<in> set (x # xs). pb_flags (pbuf s y) = T_PBUF_FLAG_POOL"
    by (auto simp: pbuf_avail_def)
  from chained_distinct [OF ch] ch have x: "pbuf_pool s = x" "x \<noteq> NULL" "x \<notin> set xs"
    "chained (pb_link s) (pb_next (pbuf s x)) xs" by auto
  from x(3,4) have
    "count_from (pb_link (upd_pbuf x (\<lambda>b. b\<lparr>pb_next := NULL\<rparr>) s)) (pb_next (pbuf s x)) 0 =
      Some (int (length xs))"
    using count_from_chained [of "(pb_link s)(x := NULL)" "pb_next (pbuf s x)" xs 0] by simp
  then show "t_pbuf_alloc offset lngth flags s = Some (x, ?s)"
    using assms(1) x(1,2)
    by (simp add: t_pbuf_alloc_def t_pbuf_pool_alloc_def alloc_admissible_def Let_def)
  show "pbuf_avail ?s xs"
    using sub fl x(3,4) by (auto simp: pbuf_avail_def)
qed

text \<open>Freeing a chain whose buffers are owned pushes them one by one.\<close>

lemma pbuf_free_chain:
  "chained (pb_link s) p ps \<Longrightarrow> pbuf_avail s xs \<Longrightarrow> set ps \<subseteq> set pbuf_slots \<Longrightarrow>
   set ps \<inter> set xs = {} \<Longrightarrow>
   (\<forall>x \<in> set ps. pb_ref (pbuf s x) = 1 \<and> pb_flags (pbuf s x) = T_PBUF_FLAG_POOL) \<Longrightarrow>
   \<exists>s'. t_pbuf_free_loop p c s = Some (if ps = [] then c else int (length ps + length xs), s') \<and>
     pbuf_avail s' (rev ps @ xs) \<and> (\<forall>y. y \<notin> set ps \<longrightarrow> pbuf s' y = pbuf s y) \<and>
     s' = s\<lparr>pbuf := pbuf s', pbuf_pool := pbuf_pool s'\<rparr>"
proof (induction ps arbitrary: p c s xs)
  case Nil
  then show ?case by (auto simp: t_pbuf_free_loop.simps)
next
  case (Cons q ps)
  from Cons.prems(1) have p: "p = q" "q \<noteq> NULL" "chained (pb_link s) (pb_next (pbuf s q)) ps"
    "q \<notin> set ps" using chained_distinct [OF Cons.prems(1)] by auto
  let ?t = "s\<lparr>pbuf := (pbuf s)(q := (pbuf s q)\<lparr>pb_ref := 0, pb_next := pbuf_pool s\<rparr>), pbuf_pool := q\<rparr>"
  have qx: "q \<notin> set xs" "q \<in> set pbuf_slots" using Cons.prems(3,4) by auto
  have av: "pbuf_avail ?t (q # xs)"
    using Cons.prems(2,5) qx p(2) by (auto simp: pbuf_avail_def)
  then have cnt: "count_from (pb_link ?t) q 0 = Some (int (Suc (length xs)))"
    using count_from_chained [of "pb_link ?t" q "q # xs" 0] unfolding pbuf_avail_def by simp
  have step: "t_pbuf_free_loop p c s = t_pbuf_free_loop (pb_next (pbuf s q)) (int (Suc (length xs))) ?t"
    using Cons.prems(5) p(1,2) cnt
    by (subst t_pbuf_free_loop.simps) (simp add: Let_def)
  have "\<exists>s'. t_pbuf_free_loop (pb_next (pbuf s q)) (int (Suc (length xs))) ?t =
      Some (if ps = [] then int (Suc (length xs)) else int (length ps + length (q # xs)), s') \<and>
     pbuf_avail s' (rev ps @ q # xs) \<and> (\<forall>y. y \<notin> set ps \<longrightarrow> pbuf s' y = pbuf ?t y) \<and>
     s' = ?t\<lparr>pbuf := pbuf s', pbuf_pool := pbuf_pool s'\<rparr>"
    using Cons.prems p av by (intro Cons.IH) auto
  then obtain s' where s': "t_pbuf_free_loop (pb_next (pbuf s q)) (int (Suc (length xs))) ?t =
      Some (if ps = [] then int (Suc (length xs)) else int (length ps + length (q # xs)), s')"
     "pbuf_avail s' (rev ps @ q # xs)" "\<forall>y. y \<notin> set ps \<longrightarrow> pbuf s' y = pbuf ?t y"
     "s' = ?t\<lparr>pbuf := pbuf s', pbuf_pool := pbuf_pool s'\<rparr>" by blast
  show ?case
    using s' step by (intro exI [of _ s']) (auto split: if_splits)
qed


text \<open>A single buffer that its owner frees goes to the front of the pool.\<close>

lemma pbuf_free_owned:
  assumes "pbuf_avail s xs" and "x \<in> set pbuf_slots" and "x \<notin> set xs" and "pbuf_owned s x"
  shows "t_pbuf_free x s = Some (int (Suc (length xs)),
      s\<lparr>pbuf := (pbuf s)(x := (pbuf s x)\<lparr>pb_ref := 0, pb_next := pbuf_pool s\<rparr>), pbuf_pool := x\<rparr>)"
    (is "_ = Some (_, ?t)")
    and "pbuf_avail (s\<lparr>pbuf := (pbuf s)(x := (pbuf s x)\<lparr>pb_ref := 0, pb_next := pbuf_pool s\<rparr>),
        pbuf_pool := x\<rparr>) (x # xs)"
proof -
  from pbuf_slots_pos [OF assms(2)] have pos: "x \<noteq> NULL" by simp
  show av: "pbuf_avail ?t (x # xs)"
    using assms pos by (auto simp: pbuf_avail_def pbuf_owned_def)
  have cnt: "count_from (pb_link ?t) x 0 = Some (int (Suc (length xs)))"
    using count_from_chained [of "pb_link ?t" x "x # xs" 0] av unfolding pbuf_avail_def by simp
  show "t_pbuf_free x s = Some (int (Suc (length xs)), ?t)"
    unfolding t_pbuf_free_def
    using assms(4) pos cnt by (subst t_pbuf_free_loop.simps, subst t_pbuf_free_loop.simps)
      (simp add: Let_def pbuf_owned_def)
qed

interpretation pbufs: object_pool "\<lambda>(offset, lngth, flags). t_pbuf_alloc offset lngth flags"
  alloc_admissible "\<lambda>p s. map_option snd (t_pbuf_free p s)" pbuf_avail pbuf_owned "set pbuf_slots"
proof unfold_locales
  fix s :: "'a pbuf_st_scheme" and r :: "u16 \<times> u16 \<times> u16" and x xs
  obtain offset lngth flags where r: "r = (offset, lngth, flags)" by (cases r)
  show "\<not> alloc_admissible r \<Longrightarrow> (case r of (offset, lngth, flags) \<Rightarrow> t_pbuf_alloc offset lngth flags) s =
      Some (NULL, s)" by (simp add: r pbuf_alloc_refused)
  show "pbuf_avail s [] \<Longrightarrow> (case r of (offset, lngth, flags) \<Rightarrow> t_pbuf_alloc offset lngth flags) s =
      Some (NULL, s)" by (simp add: r pbuf_alloc_empty)
  show "\<lbrakk>alloc_admissible r; pbuf_avail s (x # xs)\<rbrakk> \<Longrightarrow>
      \<exists>s'. (case r of (offset, lngth, flags) \<Rightarrow> t_pbuf_alloc offset lngth flags) s = Some (x, s') \<and>
        pbuf_avail s' xs \<and> pbuf_owned s' x \<and> (\<forall>y. y \<noteq> x \<longrightarrow> pbuf_owned s y \<longrightarrow> pbuf_owned s' y)"
    using pbuf_alloc_next [of offset lngth flags s x xs] unfolding r
    by (auto simp: pbuf_owned_def pbuf_avail_def)
  show "\<lbrakk>pbuf_avail s xs; x \<in> set pbuf_slots; x \<notin> set xs; pbuf_owned s x\<rbrakk> \<Longrightarrow>
      \<exists>s'. map_option snd (t_pbuf_free x s) = Some s' \<and> pbuf_avail s' (x # xs) \<and>
        (\<forall>y. y \<noteq> x \<longrightarrow> pbuf_owned s y \<longrightarrow> pbuf_owned s' y)"
    using pbuf_free_owned [of s xs x] by (auto simp: pbuf_owned_def)
  show "pbuf_avail s xs \<Longrightarrow> distinct xs"
    unfolding pbuf_avail_def using chained_distinct by blast
  show "NULL \<notin> set pbuf_slots" using pbuf_slots_pos by blast
qed (auto simp: pbuf_avail_def)


section \<open>Initialisation\<close>

definition pbuf_fresh :: "'a pbuf_st_scheme \<Rightarrow> ptr \<Rightarrow> bool" where
  "pbuf_fresh s p \<longleftrightarrow> pb_flags (pbuf s p) = T_PBUF_FLAG_POOL \<and>
     pb_payload (pbuf s p) = p + sizeof_t_pbuf \<and> pb_len (pbuf s p) = of_nat T_PBUF_BUFSIZE \<and>
     pb_tot_len (pbuf s p) = of_nat T_PBUF_BUFSIZE"

lemma pbuf_init_loop_correct:
  "0 < p \<Longrightarrow> \<exists>q' s'. t_pbuf_init_loop (Suc n) q p s = (q', s') \<and> p \<le> q' \<and>
     q' \<in> set (pool_elems (Suc n) pbuf_slot p) \<and>
     chained ((pb_link s')(q' := NULL)) p (pool_elems (Suc n) pbuf_slot p) \<and>
     (\<forall>x. x < p \<longrightarrow> pbuf s' x = pbuf s x) \<and>
     (\<forall>x \<in> set (pool_elems (Suc n) pbuf_slot p). pbuf_fresh s' x) \<and>
     s' = s\<lparr>pbuf := pbuf s'\<rparr>"
proof (induction n arbitrary: q p s)
  case 0
  then show ?case
    by (simp add: pool_elems_def Let_def pbuf_fresh_def)
next
  case (Suc n)
  let ?b = "(pbuf s p)\<lparr>pb_next := p + pbuf_slot, pb_tot_len := of_nat T_PBUF_BUFSIZE,
    pb_len := of_nat T_PBUF_BUFSIZE, pb_payload := p + sizeof_t_pbuf, pb_flags := T_PBUF_FLAG_POOL\<rparr>"
  let ?t = "s\<lparr>pbuf := (pbuf s)(p := ?b)\<rparr>"
  have step: "t_pbuf_init_loop (Suc (Suc n)) q p s = t_pbuf_init_loop (Suc n) p (p + pbuf_slot) ?t"
    by (simp add: pbuf_slot_def Let_def add.assoc)
  have pos: "0 < p + pbuf_slot" using Suc.prems by simp
  from Suc.IH [OF pos, of p ?t] obtain q' s' where s':
    "t_pbuf_init_loop (Suc n) p (p + pbuf_slot) ?t = (q', s')" "p + pbuf_slot \<le> q'"
    "q' \<in> set (pool_elems (Suc n) pbuf_slot (p + pbuf_slot))"
    "chained ((pb_link s')(q' := NULL)) (p + pbuf_slot) (pool_elems (Suc n) pbuf_slot (p + pbuf_slot))"
    "\<forall>x. x < p + pbuf_slot \<longrightarrow> pbuf s' x = pbuf ?t x"
    "\<forall>x \<in> set (pool_elems (Suc n) pbuf_slot (p + pbuf_slot)). pbuf_fresh s' x"
    "s' = ?t\<lparr>pbuf := pbuf s'\<rparr>" by blast
  have p: "pbuf s' p = ?b" "p \<noteq> q'" using s'(2,5) by (auto simp: pbuf_slot_eq)
  then have "chained ((pb_link s')(q' := NULL)) p (pool_elems (Suc (Suc n)) pbuf_slot p)"
    using s'(4) Suc.prems by (subst pool_elems_Suc) simp
  moreover have "\<forall>x \<in> set (pool_elems (Suc (Suc n)) pbuf_slot p). pbuf_fresh s' x"
    using s'(6) p(1) by (subst pool_elems_Suc) (simp add: pbuf_fresh_def)
  moreover have "q' \<in> set (pool_elems (Suc (Suc n)) pbuf_slot p)"
    using s'(3) by (subst pool_elems_Suc) simp
  moreover have "s' = s\<lparr>pbuf := pbuf s'\<rparr>" using s'(7) by (metis pbuf_st.update_convs(1) pbuf_st.surjective)
  moreover have "t_pbuf_init_loop (Suc (Suc n)) q p s = (q', s')" using step s'(1) by (simp only:)
  moreover have "p \<le> q'" "\<forall>x. x < p \<longrightarrow> pbuf s' x = pbuf s x" using s'(2,5) by auto
  ultimately show ?case by blast
qed

lemma pbuf_slots_pool_elems: "pbuf_slots = pool_elems T_PBUF_POOL_SIZE pbuf_slot pbuf_pool_memory"
  by (simp add: pbuf_slots_def pool_elems_def)

lemma pbuf_init_loop_frame:
  "snd (t_pbuf_init_loop n q p s) = s\<lparr>pbuf := pbuf (snd (t_pbuf_init_loop n q p s))\<rparr>"
proof (induction n arbitrary: q p s)
  case (Suc n)
  show ?case unfolding t_pbuf_init_loop.simps Let_def by (subst Suc.IH) simp
qed simp

lemma pbuf_init_frame:
  "t_pbuf_init s = s\<lparr>pbuf := pbuf (t_pbuf_init s), pbuf_pool := pbuf_pool (t_pbuf_init s)\<rparr>"
proof -
  obtain q s' where loop: "t_pbuf_init_loop T_PBUF_POOL_SIZE NULL pbuf_pool_memory
      (s\<lparr>pbuf_pool := pbuf_pool_memory\<rparr>) = (q, s')" by fastforce
  from pbuf_init_loop_frame [of T_PBUF_POOL_SIZE NULL pbuf_pool_memory "s\<lparr>pbuf_pool := pbuf_pool_memory\<rparr>"] loop
  have s': "s' = s\<lparr>pbuf_pool := pbuf_pool_memory, pbuf := pbuf s'\<rparr>" by simp
  have "t_pbuf_init s = upd_pbuf q (\<lambda>b. b\<lparr>pb_next := NULL\<rparr>) s'"
    by (simp add: t_pbuf_init_def loop)
  moreover have "s'\<lparr>pbuf := Z\<rparr> = s\<lparr>pbuf_pool := pbuf_pool_memory, pbuf := Z\<rparr>" for Z
    by (subst s') simp
  ultimately show ?thesis by simp
qed

lemma pbuf_init_correct:
  "pbuf_avail (t_pbuf_init s) pbuf_slots \<and> (\<forall>x \<in> set pbuf_slots. pbuf_fresh (t_pbuf_init s) x)"
proof -
  let ?s = "s\<lparr>pbuf_pool := pbuf_pool_memory\<rparr>"
  have pos: "0 < pbuf_pool_memory" by (simp add: pbuf_pool_memory_def)
  have n: "T_PBUF_POOL_SIZE = Suc 29" by (simp add: T_PBUF_POOL_SIZE_def)
  from pbuf_init_loop_correct [OF pos, of 29 NULL ?s, folded n pbuf_slots_pool_elems]
  obtain q' s' where s': "t_pbuf_init_loop T_PBUF_POOL_SIZE NULL pbuf_pool_memory ?s = (q', s')"
    "q' \<in> set pbuf_slots" "chained ((pb_link s')(q' := NULL)) pbuf_pool_memory pbuf_slots"
    "\<forall>x \<in> set pbuf_slots. pbuf_fresh s' x" "s' = ?s\<lparr>pbuf := pbuf s'\<rparr>" by blast
  have init: "t_pbuf_init s = upd_pbuf q' (\<lambda>b. b\<lparr>pb_next := NULL\<rparr>) s'"
    using s'(1) by (simp add: t_pbuf_init_def)
  have "pbuf_pool s' = pbuf_pool_memory"
    by (subst s'(5)) simp
  then show ?thesis
    using s'(2-4) unfolding init by (auto simp: pbuf_avail_def pbuf_fresh_def)
qed


section \<open>Well-formed buffers\<close>

text \<open>
  A buffer in use: its payload and length describe bytes of its own slot.  Chains of several buffers
  are not built by this program (\<^verbatim>\<open>t_pbuf_cat\<close> copies), so both length fields agree.
\<close>

definition pbuf_wf :: "'a pbuf_st_scheme \<Rightarrow> ptr \<Rightarrow> bool" where
  "pbuf_wf s p \<longleftrightarrow> p \<in> set pbuf_slots \<and> pb_flags (pbuf s p) = T_PBUF_FLAG_POOL \<and>
     p + sizeof_t_pbuf \<le> pb_payload (pbuf s p) \<and>
     pb_payload (pbuf s p) + unat (pb_len (pbuf s p)) \<le> p + pbuf_slot \<and>
     pb_tot_len (pbuf s p) = pb_len (pbuf s p)"

lemma pbuf_wf_accessible:
  "pbuf_wf s p \<Longrightarrow> n \<le> unat (pb_len (pbuf s p)) \<Longrightarrow> accessible (pb_payload (pbuf s p)) n"
  unfolding pbuf_wf_def by (elim conjE, rule accessible_in_slot) auto

lemma pbuf_wf_pos: "pbuf_wf s p \<Longrightarrow> 0 < p"
  unfolding pbuf_wf_def using pbuf_slots_pos by blast

definition header_fits :: "'a pbuf_st_scheme \<Rightarrow> ptr \<Rightarrow> int \<Rightarrow> bool" where
  "header_fits s p increment \<longleftrightarrow>
     int p + int sizeof_t_pbuf \<le> int (pb_payload (pbuf s p)) + increment \<and>
     int (pb_payload (pbuf s p)) + increment < int p + int T_PBUF_BUFSIZE - 1"

lemma pbuf_header_moves:
  assumes "p \<noteq> NULL" and "pb_flags (pbuf s p) = T_PBUF_FLAG_POOL" and "header_fits s p increment"
  shows "t_pbuf_header p increment s = Some (0, upd_pbuf p (\<lambda>b. b\<lparr>
      pb_payload := nat (int (pb_payload b) + increment),
      pb_tot_len := pb_tot_len b - of_int increment, pb_len := pb_len b - of_int increment\<rparr>) s)"
  using assms by (simp add: t_pbuf_header_def header_fits_def Let_def)

lemma pbuf_header_refuses:
  assumes "p \<noteq> NULL" and "pb_flags (pbuf s p) \<noteq> T_PBUF_FLAG_POOL \<or> \<not> header_fits s p increment"
  shows "t_pbuf_header p increment s = Some (-1, s)"
  using assms by (auto simp: t_pbuf_header_def header_fits_def Let_def)

lemma unat_minus_of_int:
  assumes "i \<le> int (unat w)" and "int (unat w) - i < 2 ^ LENGTH('a)"
  shows "int (unat ((w::'a::len word) - of_int i)) = int (unat w) - i"
proof -
  have "w - of_int i = word_of_int (uint w - i)" by simp
  then have "uint (w - of_int i) = (uint w - i) mod 2 ^ LENGTH('a)"
    by (simp only: uint_word_of_int)
  with assms show ?thesis by simp
qed

text \<open>
  A concrete state for the witnesses: two buffers of a freshly initialised pool are in use, one of
  100 and one of 20 bytes, each with room for headers.
\<close>

definition two_buffers :: "'a pbuf_st_scheme \<Rightarrow> 'a pbuf_st_scheme" where
  "two_buffers s = snd (the (t_pbuf_alloc 54 20 T_PBUF_FLAG_POOL
     (snd (the (t_pbuf_alloc 42 100 T_PBUF_FLAG_POOL (t_pbuf_init s))))))"

lemma two_buffers_slots:
  "pbuf_slots = pbuf_pool_memory # (pbuf_pool_memory + pbuf_slot) # drop 2 pbuf_slots"
  "pbuf_pool_memory \<notin> set (drop 2 pbuf_slots)"
  "pbuf_pool_memory + pbuf_slot \<notin> set (drop 2 pbuf_slots)"
  "pbuf_pool_memory \<noteq> pbuf_pool_memory + pbuf_slot"
proof -
  show s: "pbuf_slots = pbuf_pool_memory # (pbuf_pool_memory + pbuf_slot) # drop 2 pbuf_slots"
    by (simp add: pbuf_slots_def T_PBUF_POOL_SIZE_def upt_rec numeral_2_eq_2)
  have "distinct (pbuf_pool_memory # (pbuf_pool_memory + pbuf_slot) # drop 2 pbuf_slots)"
    using distinct_pbuf_slots unfolding s [symmetric] .
  then show "pbuf_pool_memory \<notin> set (drop 2 pbuf_slots)"
    "pbuf_pool_memory + pbuf_slot \<notin> set (drop 2 pbuf_slots)"
    "pbuf_pool_memory \<noteq> pbuf_pool_memory + pbuf_slot" by auto
qed

lemma two_buffers_facts:
  fixes s :: "'a pbuf_st_scheme"
  defines "p \<equiv> pbuf_pool_memory" and "q \<equiv> pbuf_pool_memory + pbuf_slot" and "t \<equiv> two_buffers s"
  shows "pbuf_wf t p" "pbuf_owned t p" "pb_payload (pbuf t p) = p + 74" "pb_len (pbuf t p) = 100"
    "pbuf_wf t q" "pbuf_owned t q" "pb_payload (pbuf t q) = q + 86" "pb_len (pbuf t q) = 20"
    "pbuf_avail t (drop 2 pbuf_slots)" "t = s\<lparr>pbuf := pbuf t, pbuf_pool := pbuf_pool t\<rparr>"
proof -
  note slots = two_buffers_slots(1) [folded q_def, folded p_def]
  have av0: "pbuf_avail (t_pbuf_init s) (p # q # drop 2 pbuf_slots)"
    using pbuf_init_correct [of s] slots by metis
  have adm: "alloc_admissible (42, 100, T_PBUF_FLAG_POOL)" "alloc_admissible (54, 20, T_PBUF_FLAG_POOL)"
    by (simp_all add: alloc_admissible_def T_PBUF_BUFSIZE_def)
  note a1 = pbuf_alloc_next [OF adm(1) av0]
  note a2 = pbuf_alloc_next [OF adm(2) a1(2)]
  note t = t_def [unfolded two_buffers_def a1(1) option.sel snd_conv a2(1)]
  have d: "p \<in> set pbuf_slots" "q \<in> set pbuf_slots" "p \<noteq> q"
    using slots two_buffers_slots(4) unfolding p_def q_def by (metis list.set_intros)+
  have fl: "pb_flags (pbuf (t_pbuf_init s) p) = T_PBUF_FLAG_POOL"
    "pb_flags (pbuf (t_pbuf_init s) q) = T_PBUF_FLAG_POOL"
    using pbuf_init_correct [of s] d by (auto simp: pbuf_fresh_def)
  have "(t_pbuf_init s)\<lparr>pbuf_pool := U, pbuf := Z\<rparr> = s\<lparr>pbuf_pool := U, pbuf := Z\<rparr>" for U Z
    by (subst pbuf_init_frame) simp
  then show "t = s\<lparr>pbuf := pbuf t, pbuf_pool := pbuf_pool t\<rparr>" unfolding t by simp
  show "pbuf_avail t (drop 2 pbuf_slots)" unfolding t by (rule a2(2))
  show "pb_payload (pbuf t p) = p + 74" "pb_len (pbuf t p) = 100"
    "pb_payload (pbuf t q) = q + 86" "pb_len (pbuf t q) = 20"
    "pbuf_owned t p" "pbuf_owned t q" "pbuf_wf t p" "pbuf_wf t q"
    using d fl by (simp_all add: t sizeof_t_pbuf_def pbuf_owned_def pbuf_wf_def pbuf_slot_eq)
qed

section \<open>Properties\<close>

text \<open>C16: whatever sequence of requests (of any size and kind) and frees a client runs on a freshly
  initialised pool, no operation faults, no buffer is handed out while it is held, and the 30
  buffers are at any time split between the client and the pool.\<close>

theorem pbuf_conservation:
  "\<exists>held s' free. pool_run (\<lambda>(offset, lngth, flags). t_pbuf_alloc offset lngth flags)
       (\<lambda>p s. map_option snd (t_pbuf_free p s)) ops ([], t_pbuf_init s) = Some (held, s') \<and>
     pbuf_avail s' free \<and> distinct (held @ free) \<and> set (held @ free) = set pbuf_slots \<and>
     length held + length free = T_PBUF_POOL_SIZE"
proof -
  from pbufs.run_held [of "t_pbuf_init s" pbuf_slots ops] pbuf_init_correct [of s]
  obtain held s' free where
    "pool_run (\<lambda>(offset, lngth, flags). t_pbuf_alloc offset lngth flags)
       (\<lambda>p s. map_option snd (t_pbuf_free p s)) ops ([], t_pbuf_init s) = Some (held, s')"
    "pbuf_avail s' free" "distinct (held @ free)" "set (held @ free) = set pbuf_slots" by blast
  moreover from this have "length held + length free = T_PBUF_POOL_SIZE"
    by (metis card_pbuf_slots distinct_card length_append)
  ultimately show ?thesis by blast
qed

text \<open>\<open>t_pbuf_alloc\<close> returns the null pointer and changes nothing when the 16 bit sum of offset and
  length exceeds the buffer size, the kind is not the pool or the pool is empty; otherwise it takes
  the first free buffer, with one reference, and when the sum did not wrap the requested bytes lie
  inside that buffer, the offset in front of them.\<close>

theorem pbuf_alloc_spec:
  assumes "pbuf_avail s xs"
  shows "\<exists>p s'. t_pbuf_alloc offset lngth flags s = Some (p, s') \<and>
    (if T_PBUF_BUFSIZE < unat (lngth + offset) \<or> flags \<noteq> T_PBUF_FLAG_POOL \<or> xs = []
     then p = NULL \<and> s' = s
     else p = hd xs \<and> pbuf_avail s' (tl xs) \<and> pbuf_owned s' p \<and> mem s' = mem s \<and>
       pb_payload (pbuf s' p) = p + sizeof_t_pbuf + unat offset \<and>
       pb_len (pbuf s' p) = lngth \<and> pb_tot_len (pbuf s' p) = lngth \<and>
       (unat lngth + unat offset \<le> T_PBUF_BUFSIZE \<longrightarrow> pbuf_wf s' p))"
proof (cases "alloc_admissible (offset, lngth, flags) \<and> xs \<noteq> []")
  case False
  then have "t_pbuf_alloc offset lngth flags s = Some (NULL, s)"
    using assms pbuf_alloc_refused pbuf_alloc_empty by blast
  moreover have "T_PBUF_BUFSIZE < unat (lngth + offset) \<or> flags \<noteq> T_PBUF_FLAG_POOL \<or> xs = []"
    using False by (auto simp: alloc_admissible_def)
  ultimately show ?thesis by auto
next
  case True
  then obtain x ys where xs: "xs = x # ys" by (cases xs) auto
  with True assms show ?thesis
    using pbuf_alloc_next [of offset lngth flags s x ys]
    by (auto simp: alloc_admissible_def pbuf_owned_def pbuf_wf_def pbuf_avail_def pbuf_slot_def)
qed

theorem pbuf_alloc_spec_witness:
  "fst (the (t_pbuf_alloc 42 100 1 (t_pbuf_init pbuf_boot))) = pbuf_pool_memory"
proof -
  have "pbuf_avail (t_pbuf_init pbuf_boot) pbuf_slots" using pbuf_init_correct by blast
  from pbuf_alloc_spec [OF this, of 42 100 1] show ?thesis
    by (auto simp: T_PBUF_BUFSIZE_def T_PBUF_FLAG_POOL_def T_PBUF_POOL_SIZE_def pbuf_slots_def upt_rec)
qed

text \<open>C37: The size check is made on the 16 bit sum, so a request whose offset and length add up to
  65536 or a little more is granted: the buffer returned claims bytes far behind its slot.\<close>

theorem pbuf_alloc_wraps:
  assumes "pbuf_avail s (x # xs)" and "2 ^ 16 \<le> unat lngth + unat offset"
    and "unat lngth + unat offset \<le> 2 ^ 16 + T_PBUF_BUFSIZE"
  shows "\<exists>s'. t_pbuf_alloc offset lngth T_PBUF_FLAG_POOL s = Some (x, s') \<and>
    x + pbuf_slot < pb_payload (pbuf s' x) + unat (pb_len (pbuf s' x))"
proof -
  have "unat (lngth + offset) = unat lngth + unat offset - 2 ^ 16"
    using assms(2,3) by (simp add: unat_word_ariths T_PBUF_BUFSIZE_def mod_if)
  with assms(3) have "alloc_admissible (offset, lngth, T_PBUF_FLAG_POOL)"
    by (simp add: alloc_admissible_def)
  from pbuf_alloc_next(1) [OF this assms(1)] assms(2) show ?thesis
    by (auto simp: pbuf_slot_eq)
qed

theorem pbuf_alloc_wraps_witness:
  "\<exists>s'. t_pbuf_alloc 54 65500 T_PBUF_FLAG_POOL (t_pbuf_init pbuf_boot) = Some (pbuf_pool_memory, s')"
proof -
  have "pbuf_slots = pbuf_pool_memory # tl pbuf_slots"
    by (simp add: pbuf_slots_def T_PBUF_POOL_SIZE_def upt_rec)
  then have "pbuf_avail (t_pbuf_init pbuf_boot) (pbuf_pool_memory # tl pbuf_slots)"
    using pbuf_init_correct [of pbuf_boot] by metis
  from pbuf_alloc_wraps [OF this, of 65500 54] show ?thesis
    by (auto simp: T_PBUF_BUFSIZE_def)
qed

text \<open>\<open>t_pbuf_header\<close> succeeds exactly when the moved payload stays between the header of the
  buffer and its last bytes; then payload and both lengths change by the increment and nothing else
  does, and moving back by the same amount restores the state.\<close>

theorem pbuf_header_roundtrip:
  assumes "p \<noteq> NULL" and "pb_flags (pbuf s p) = T_PBUF_FLAG_POOL" and "header_fits s p 0"
    and "header_fits s p increment"
  shows "\<exists>s'. t_pbuf_header p increment s = Some (0, s') \<and> t_pbuf_header p (- increment) s' = Some (0, s) \<and>
    int (pb_payload (pbuf s' p)) = int (pb_payload (pbuf s p)) + increment \<and>
    s' = upd_pbuf p (\<lambda>_. pbuf s' p) s"
proof -
  define pl where "pl = nat (int (pb_payload (pbuf s p)) + increment)"
  have pl: "int pl = int (pb_payload (pbuf s p)) + increment"
    using assms(4) by (simp add: pl_def header_fits_def)
  let ?s = "upd_pbuf p (\<lambda>b. b\<lparr>pb_payload := pl,
      pb_tot_len := pb_tot_len b - of_int increment, pb_len := pb_len b - of_int increment\<rparr>) s"
  have "t_pbuf_header p increment s = Some (0, ?s)"
    using pbuf_header_moves [OF assms(1,2,4)] by (simp add: pl_def)
  moreover have "t_pbuf_header p (- increment) ?s = Some (0, s)"
  proof -
    have "header_fits ?s p (- increment)" using assms(3) pl by (simp add: header_fits_def)
    from pbuf_header_moves [OF assms(1) _ this] assms(2) pl show ?thesis by simp
  qed
  ultimately show ?thesis using pl by (intro exI [of _ ?s]) simp
qed

theorem pbuf_header_roundtrip_witness:
  "\<exists>s'. t_pbuf_header pbuf_pool_memory (- 14) (two_buffers pbuf_boot) = Some (0, s') \<and>
     t_pbuf_header pbuf_pool_memory 14 s' = Some (0, two_buffers pbuf_boot)"
proof -
  note f = two_buffers_facts [of pbuf_boot]
  have "pbuf_pool_memory \<noteq> NULL" "pb_flags (pbuf (two_buffers pbuf_boot) pbuf_pool_memory) = T_PBUF_FLAG_POOL"
    using f(1) pbuf_wf_pos [OF f(1)] by (auto simp: pbuf_wf_def)
  moreover have "header_fits (two_buffers pbuf_boot) pbuf_pool_memory 0"
    "header_fits (two_buffers pbuf_boot) pbuf_pool_memory (- 14)"
    by (simp_all add: header_fits_def f(3) sizeof_t_pbuf_def T_PBUF_BUFSIZE_def)
  ultimately show ?thesis
    using pbuf_header_roundtrip [of pbuf_pool_memory "two_buffers pbuf_boot" "- 14"] by auto
qed

text \<open>Success and refusal of \<open>t_pbuf_header\<close>, on every input.\<close>

lemma pbuf_header_result:
  assumes "p \<noteq> NULL"
  shows "(\<exists>s'. t_pbuf_header p increment s = Some (0, s')) =
      (pb_flags (pbuf s p) = T_PBUF_FLAG_POOL \<and> header_fits s p increment) \<and>
    (pb_flags (pbuf s p) = T_PBUF_FLAG_POOL \<and> header_fits s p increment \<or>
      t_pbuf_header p increment s = Some (-1, s))"
  using pbuf_header_moves [OF assms, of s increment] pbuf_header_refuses [OF assms, of s increment]
  by (cases "pb_flags (pbuf s p) = T_PBUF_FLAG_POOL \<and> header_fits s p increment") auto

lemma pbuf_header_wf:
  assumes "pbuf_wf s p" and "header_fits s p increment" and "increment \<le> int (unat (pb_len (pbuf s p)))"
  shows "\<exists>s'. t_pbuf_header p increment s = Some (0, s') \<and> pbuf_wf s' p \<and>
    s' = upd_pbuf p (\<lambda>_. pbuf s' p) s \<and> pb_next (pbuf s' p) = pb_next (pbuf s p) \<and>
    pb_ref (pbuf s' p) = pb_ref (pbuf s p) \<and>
    int (pb_payload (pbuf s' p)) = int (pb_payload (pbuf s p)) + increment \<and>
    int (unat (pb_len (pbuf s' p))) = int (unat (pb_len (pbuf s p))) - increment"
proof -
  let ?b = "pbuf s p"
  define pl where "pl = nat (int (pb_payload ?b) + increment)"
  have pl: "int pl = int (pb_payload ?b) + increment"
    using assms(2) by (simp add: pl_def header_fits_def)
  have lo: "p + sizeof_t_pbuf \<le> pl"
    using assms(2) unfolding header_fits_def pl [symmetric] by simp
  have wf: "p \<in> set pbuf_slots" "pb_flags ?b = T_PBUF_FLAG_POOL" "pb_tot_len ?b = pb_len ?b"
    "pb_payload ?b + unat (pb_len ?b) \<le> p + pbuf_slot"
    using assms(1) by (auto simp: pbuf_wf_def)
  have "int (unat (pb_len ?b)) - increment < 2 ^ LENGTH(16)"
  proof -
    define n where "n = unat (pb_len ?b)"
    from pl lo wf(4) have "int n - increment < 65536"
      unfolding n_def [symmetric] by (simp add: pbuf_slot_eq sizeof_t_pbuf_def)
    then show ?thesis unfolding n_def by simp
  qed
  from unat_minus_of_int [OF assms(3) this]
  have len: "int (unat (pb_len ?b - of_int increment)) = int (unat (pb_len ?b)) - increment" .
  let ?s = "upd_pbuf p (\<lambda>b. b\<lparr>pb_payload := pl,
      pb_tot_len := pb_tot_len b - of_int increment, pb_len := pb_len b - of_int increment\<rparr>) s"
  have "t_pbuf_header p increment s = Some (0, ?s)"
    using pbuf_header_moves [OF _ wf(2) assms(2)] pbuf_wf_pos [OF assms(1)] by (simp add: pl_def)
  moreover have "int (pl + unat (pb_len ?b - of_int increment)) = int (pb_payload ?b + unat (pb_len ?b))"
    unfolding of_nat_add len pl by simp
  then have "pl + unat (pb_len ?b - of_int increment) = pb_payload ?b + unat (pb_len ?b)"
    by (simp only: of_nat_eq_iff)
  then have "pbuf_wf ?s p"
    using wf lo by (simp add: pbuf_wf_def)
  ultimately show ?thesis using pl len by (intro exI [of _ ?s]) simp
qed

text \<open>C40: moving the payload of a well-formed buffer by at most its length keeps it well-formed: the
  bytes it describes stay inside its slot and end where they ended.\<close>

theorem pbuf_header_keeps_wf:
  assumes "pbuf_wf s p" and "header_fits s p increment" and "increment \<le> int (unat (pb_len (pbuf s p)))"
  shows "\<exists>s'. t_pbuf_header p increment s = Some (0, s') \<and> pbuf_wf s' p \<and>
    pb_payload (pbuf s' p) + unat (pb_len (pbuf s' p)) = pb_payload (pbuf s p) + unat (pb_len (pbuf s p))"
proof -
  from pbuf_header_wf [OF assms] obtain s' where s':
    "t_pbuf_header p increment s = Some (0, s')" "pbuf_wf s' p"
    "int (pb_payload (pbuf s' p)) = int (pb_payload (pbuf s p)) + increment"
    "int (unat (pb_len (pbuf s' p))) = int (unat (pb_len (pbuf s p))) - increment" by blast
  from s'(3,4) have "int (pb_payload (pbuf s' p) + unat (pb_len (pbuf s' p))) =
      int (pb_payload (pbuf s p) + unat (pb_len (pbuf s p)))" by simp
  with s'(1,2) show ?thesis by (metis of_nat_eq_iff)
qed

theorem pbuf_header_keeps_wf_witness:
  "\<exists>s'. t_pbuf_header pbuf_pool_memory 20 (two_buffers pbuf_boot) = Some (0, s') \<and> pbuf_wf s' pbuf_pool_memory"
proof -
  note f = two_buffers_facts [of pbuf_boot]
  have "header_fits (two_buffers pbuf_boot) pbuf_pool_memory 20"
    "20 \<le> int (unat (pb_len (pbuf (two_buffers pbuf_boot) pbuf_pool_memory)))"
    by (simp_all add: header_fits_def f(3,4) sizeof_t_pbuf_def T_PBUF_BUFSIZE_def)
  from pbuf_header_keeps_wf [OF f(1) this] show ?thesis by blast
qed

text \<open>Nothing keeps a caller from stripping more than the buffer holds: the move succeeds and the
  length wraps around to more bytes than a buffer has.\<close>

theorem pbuf_header_underflow:
  assumes "pbuf_wf s p" and "header_fits s p increment" and "int (unat (pb_len (pbuf s p))) < increment"
  shows "\<exists>s'. t_pbuf_header p increment s = Some (0, s') \<and>
    int (unat (pb_len (pbuf s' p))) = 2 ^ 16 + int (unat (pb_len (pbuf s p))) - increment \<and>
    T_PBUF_BUFSIZE < unat (pb_len (pbuf s' p))"
proof -
  let ?l = "pb_len (pbuf s p)"
  have inc: "increment < 2000"
    using assms(1,2) by (simp add: pbuf_wf_def header_fits_def T_PBUF_BUFSIZE_def)
  have "increment - 2 ^ 16 \<le> int (unat ?l)"
    by (rule order_trans [of _ 0]) (use inc in simp_all)
  moreover have "int (unat ?l) - (increment - 2 ^ 16) < 2 ^ LENGTH(16)" using assms(3) by simp
  ultimately have "int (unat (?l - of_int (increment - 2 ^ 16))) = int (unat ?l) - (increment - 2 ^ 16)"
    by (rule unat_minus_of_int)
  moreover have "(of_int (increment - 2 ^ 16) :: u16) = of_int increment" by simp
  ultimately have "int (unat (?l - of_int increment)) = int (unat ?l) - (increment - 2 ^ 16)"
    by (simp only:)
  then have len: "int (unat (?l - of_int increment)) = 2 ^ 16 + int (unat ?l) - increment"
    by linarith
  from pbuf_header_moves [OF _ _ assms(2)] pbuf_wf_pos [OF assms(1)] assms(1)
  have "t_pbuf_header p increment s = Some (0, upd_pbuf p (\<lambda>b. b\<lparr>
      pb_payload := nat (int (pb_payload b) + increment),
      pb_tot_len := pb_tot_len b - of_int increment, pb_len := pb_len b - of_int increment\<rparr>) s)"
    by (simp add: pbuf_wf_def)
  moreover have "T_PBUF_BUFSIZE < unat (?l - of_int increment)"
  proof -
    have nonneg: "0 \<le> int (unat ?l)" by (rule of_nat_0_le_iff)
    have "int T_PBUF_BUFSIZE < int (unat (?l - of_int increment))"
    proof -
      have e: "int T_PBUF_BUFSIZE = 1514" "(2::int) ^ 16 = 65536" by (simp_all add: T_PBUF_BUFSIZE_def)
      show ?thesis unfolding len e using inc nonneg by linarith
    qed
    then show ?thesis by (simp only: of_nat_less_iff)
  qed
  ultimately show ?thesis using len by simp
qed

theorem pbuf_header_underflow_witness:
  "\<exists>s'. t_pbuf_header pbuf_pool_memory 120 (two_buffers pbuf_boot) = Some (0, s') \<and>
     T_PBUF_BUFSIZE < unat (pb_len (pbuf s' pbuf_pool_memory))"
proof -
  note f = two_buffers_facts [of pbuf_boot]
  have "header_fits (two_buffers pbuf_boot) pbuf_pool_memory 120"
    "int (unat (pb_len (pbuf (two_buffers pbuf_boot) pbuf_pool_memory))) < 120"
    by (simp_all add: header_fits_def f(3,4) sizeof_t_pbuf_def T_PBUF_BUFSIZE_def)
  from pbuf_header_underflow [OF f(1) this] show ?thesis by blast
qed

text \<open>The comment of \<open>t_pbuf_free\<close> promises the number of buffers freed; what it returns after
  freeing a buffer is the number of buffers in the pool.  The buffer becomes the pool's first and
  its reference count 0.\<close>

theorem pbuf_free_spec:
  assumes "pbuf_avail s xs" and "p \<in> set pbuf_slots" and "p \<notin> set xs" and "pbuf_owned s p"
  shows "\<exists>s'. t_pbuf_free p s = Some (int (length xs) + 1, s') \<and> pbuf_avail s' (p # xs) \<and>
    pb_ref (pbuf s' p) = 0 \<and> mem s' = mem s"
  using pbuf_free_owned [OF assms] by simp

theorem pbuf_free_spec_witness:
  "\<exists>s'. t_pbuf_free pbuf_pool_memory (two_buffers pbuf_boot) = Some (29, s')"
proof -
  note f = two_buffers_facts [of pbuf_boot]
  have "pbuf_pool_memory \<in> set pbuf_slots" using f(1) by (simp add: pbuf_wf_def)
  from pbuf_free_spec [OF f(9) this two_buffers_slots(2) f(2)] show ?thesis by (auto simp: T_PBUF_POOL_SIZE_def)
qed

lemma t_pbuf_init_loop_ref:
  "pb_ref (pbuf (snd (t_pbuf_init_loop n q p s)) x) = pb_ref (pbuf s x)"
  by (induction n arbitrary: q p s) (auto simp: Let_def)

lemma t_pbuf_init_ref: "pb_ref (pbuf (t_pbuf_init s) x) = pb_ref (pbuf s x)"
  using t_pbuf_init_loop_ref [of T_PBUF_POOL_SIZE NULL pbuf_pool_memory "s\<lparr>pbuf_pool := pbuf_pool_memory\<rparr>" x]
  by (cases "t_pbuf_init_loop T_PBUF_POOL_SIZE NULL pbuf_pool_memory (s\<lparr>pbuf_pool := pbuf_pool_memory\<rparr>)")
    (auto simp: t_pbuf_init_def)

lemma pbuf_free_unreferenced:
  "chained (pb_link s) p ps \<Longrightarrow> (\<forall>x \<in> set ps. pb_ref (pbuf s x) = 0) \<Longrightarrow>
   \<exists>s'. t_pbuf_free_loop p c s = Some (c + int (length ps), s') \<and> pb_link s' = pb_link s \<and>
     pbuf_pool s' = pbuf_pool s \<and> (\<forall>x. pb_flags (pbuf s' x) = pb_flags (pbuf s x))"
proof (induction ps arbitrary: p c s)
  case Nil
  then show ?case by (auto simp: t_pbuf_free_loop.simps)
next
  case (Cons q ps)
  let ?t = "upd_pbuf q (\<lambda>b. b\<lparr>pb_ref := - 1\<rparr>) s"
  from Cons.prems(1) have p: "p = q" "q \<noteq> NULL" "chained (pb_link s) (pb_next (pbuf s q)) ps"
    "q \<notin> set ps" using chained_distinct [OF Cons.prems(1)] by auto
  have link: "pb_link ?t = pb_link s" by auto
  have "t_pbuf_free_loop p c s = t_pbuf_free_loop (pb_next (pbuf s q)) (c + 1) ?t"
    using Cons.prems(2) p(1,2) by (subst t_pbuf_free_loop.simps) (simp add: Let_def)
  moreover have "\<exists>s'. t_pbuf_free_loop (pb_next (pbuf s q)) (c + 1) ?t = Some (c + 1 + int (length ps), s') \<and>
     pb_link s' = pb_link ?t \<and> pbuf_pool s' = pbuf_pool ?t \<and>
     (\<forall>x. pb_flags (pbuf s' x) = pb_flags (pbuf ?t x))"
    by (rule Cons.IH, unfold link) (use p(3,4) Cons.prems(2) in auto)
  ultimately show ?case using link by (auto simp: algebra_simps)
qed

text \<open>Freeing a buffer that is already free does no harm: its reference count wraps to 65535
  instead of reaching 0, so the pool keeps its buffers in their order.\<close>

theorem pbuf_double_free_harmless:
  assumes "pbuf_avail s xs" and "p \<in> set xs" and "\<forall>x \<in> set xs. pb_ref (pbuf s x) = 0"
  shows "\<exists>n s'. t_pbuf_free p s = Some (n, s') \<and> pbuf_avail s' xs"
proof -
  from assms(2) obtain us vs where xs: "xs = us @ p # vs" by (meson split_list)
  with assms(1) have "chained (pb_link s) p (p # vs)"
    using chained_append_tail [of "pb_link s" "pbuf_pool s" us p vs] by (auto simp: pbuf_avail_def)
  from pbuf_free_unreferenced [OF this, of 0] assms(3) xs obtain n s' where s':
    "t_pbuf_free p s = Some (n, s')" "pb_link s' = pb_link s" "pbuf_pool s' = pbuf_pool s"
    "\<forall>x. pb_flags (pbuf s' x) = pb_flags (pbuf s x)" unfolding t_pbuf_free_def by auto
  then show ?thesis using assms(1) by (auto simp: pbuf_avail_def)
qed

theorem pbuf_double_free_harmless_witness:
  "\<exists>n s'. t_pbuf_free (pbuf_pool_memory + 2 * pbuf_slot)
      (t_pbuf_init pbuf_boot) = Some (n, s') \<and> pbuf_avail s' pbuf_slots"
proof -
  have av: "pbuf_avail (t_pbuf_init pbuf_boot) pbuf_slots" using pbuf_init_correct by blast
  have ref: "\<forall>x \<in> set pbuf_slots. pb_ref (pbuf (t_pbuf_init pbuf_boot) x) = 0"
    by (simp add: t_pbuf_init_ref pbuf_boot_def memp_st.defs)
  have "pbuf_pool_memory + 2 * pbuf_slot \<in> set pbuf_slots"
    by (auto simp: pbuf_slots_def T_PBUF_POOL_SIZE_def)
  from pbuf_double_free_harmless [OF av this ref] show ?thesis .
qed

text \<open>\<open>t_pbuf_copy_data\<close> refuses a length below 1 or above the buffer's, without touching it;
  otherwise the buffer's first bytes are the source's and no byte outside them changes.\<close>

theorem pbuf_copy_data_spec:
  assumes "pbuf_wf s p" and "accessible data (nat sz)"
  shows "\<exists>r s'. t_pbuf_copy_data p data sz s = Some (r, s') \<and> s' = s\<lparr>mem := mem s'\<rparr> \<and>
    (if int (unat (pb_len (pbuf s p))) < sz \<or> sz < 1 then r = -1 \<and> s' = s
     else r = 0 \<and> load_bytes (pb_payload (pbuf s p)) (nat sz) s' = load_bytes data (nat sz) s \<and>
       (\<forall>a. a < pb_payload (pbuf s p) \<or> pb_payload (pbuf s p) + nat sz \<le> a \<longrightarrow> mem s' a = mem s a))"
proof (cases "int (unat (pb_len (pbuf s p))) < sz \<or> sz < 1")
  case True
  with pbuf_wf_pos [OF assms(1)] show ?thesis by (simp add: t_pbuf_copy_data_def del: of_nat_unat)
next
  case False
  then have n: "nat sz \<le> unat (pb_len (pbuf s p))" by linarith
  let ?s = "store_bytes (pb_payload (pbuf s p)) (load_bytes data (nat sz) s) s"
  have "t_pbuf_copy_data p data sz s = Some (0, ?s)"
    using False pbuf_wf_pos [OF assms(1)] pbuf_wf_accessible [OF assms(1) n] assms(2)
    by (simp add: t_pbuf_copy_data_def Let_def del: of_nat_unat)
  moreover have "load_bytes (pb_payload (pbuf s p)) (nat sz) ?s = load_bytes data (nat sz) s"
    using load_store_bytes [of "pb_payload (pbuf s p)" "load_bytes data (nat sz) s" s] by simp
  ultimately show ?thesis
    using False by (intro exI [of _ 0] exI [of _ ?s])
      (simp add: mem_store_bytes del: of_nat_unat, simp add: store_bytes_def)
qed

theorem pbuf_copy_data_spec_witness:
  "\<exists>s'. t_pbuf_copy_data pbuf_pool_memory 0x100 60 (two_buffers pbuf_boot) = Some (0, s')"
proof -
  note f = two_buffers_facts [of pbuf_boot]
  have "accessible 0x100 (nat 60)"
    by (simp add: accessible_def user_range_def memp_memory_def)
  from pbuf_copy_data_spec [OF f(1) this] show ?thesis by (auto simp: f(4))
qed

text \<open>When both buffers fit into the first one's slot, \<open>t_pbuf_cat\<close> appends a copy of the second
  buffer's bytes to the first.  The second buffer is neither linked behind the first nor released:
  the pool and every other buffer header stay as they are.\<close>

theorem pbuf_cat_spec:
  assumes "pbuf_wf s p" and "pbuf_wf s q" and "p \<noteq> q"
    and "pb_payload (pbuf s p) + unat (pb_len (pbuf s p)) + unat (pb_len (pbuf s q)) \<le> p + pbuf_slot"
  shows "\<exists>s'. t_pbuf_cat p q s = Some (0, s') \<and> pbuf_wf s' p \<and>
    unat (pb_len (pbuf s' p)) = unat (pb_len (pbuf s p)) + unat (pb_len (pbuf s q)) \<and>
    load_bytes (pb_payload (pbuf s' p)) (unat (pb_len (pbuf s' p))) s' =
      load_bytes (pb_payload (pbuf s p)) (unat (pb_len (pbuf s p))) s @
      load_bytes (pb_payload (pbuf s q)) (unat (pb_len (pbuf s q))) s \<and>
    pbuf_pool s' = pbuf_pool s \<and> pb_link s' = pb_link s \<and> (\<forall>x. x \<noteq> p \<longrightarrow> pbuf s' x = pbuf s x)"
proof -
  let ?pl = "pb_payload (pbuf s p)" and ?m = "unat (pb_len (pbuf s p))"
    and ?ql = "pb_payload (pbuf s q)" and ?n = "unat (pb_len (pbuf s q))"
  let ?bs = "load_bytes ?ql ?n s"
  let ?s = "upd_pbuf p (\<lambda>b. b\<lparr>pb_len := pb_len b + pb_len (pbuf s q),
      pb_tot_len := pb_tot_len b + pb_len (pbuf s q)\<rparr>) (store_bytes (?pl + ?m) ?bs s)"
  have wf: "p \<in> set pbuf_slots" "p + sizeof_t_pbuf \<le> ?pl" "?ql \<ge> q + sizeof_t_pbuf"
    using assms(1,2) by (auto simp: pbuf_wf_def)
  have acc: "accessible (?pl + ?m) ?n" "accessible ?ql ?n"
    using accessible_in_slot [OF wf(1), of "?pl + ?m" ?n] wf(2) assms(4)
      pbuf_wf_accessible [OF assms(2), of ?n] by simp_all
  have "t_pbuf_cat p q s = Some (0, ?s)"
    using acc pbuf_wf_pos [OF assms(1)] pbuf_wf_pos [OF assms(2)] assms(3)
    by (simp add: t_pbuf_cat_def Let_def store_bytes_def)
  moreover have len: "unat (pb_len (pbuf s p) + pb_len (pbuf s q)) = ?m + ?n"
  proof -
    have "?m + ?n < 2 ^ LENGTH(16)"
      using assms(4) wf(2) by (simp add: pbuf_slot_eq)
    then show ?thesis by (simp add: unat_word_ariths)
  qed
  moreover have "load_bytes ?pl (?m + ?n) ?s = load_bytes ?pl ?m s @ ?bs"
    unfolding load_bytes_split
    by (rule arg_cong2 [of _ _ _ _ "(@)"]; rule nth_equalityI) (auto simp: mem_store_bytes)
  moreover have "pbuf_wf ?s p"
    using assms(1,4) len by (simp add: pbuf_wf_def add.assoc store_bytes_def)
  ultimately show ?thesis
    by (intro exI [of _ ?s]) (auto simp: store_bytes_def)
qed

theorem pbuf_cat_spec_witness:
  "\<exists>s'. t_pbuf_cat pbuf_pool_memory (pbuf_pool_memory + pbuf_slot) (two_buffers pbuf_boot) = Some (0, s') \<and>
     unat (pb_len (pbuf s' pbuf_pool_memory)) = 120"
proof -
  note f = two_buffers_facts [of pbuf_boot]
  have "pb_payload (pbuf (two_buffers pbuf_boot) pbuf_pool_memory) +
      unat (pb_len (pbuf (two_buffers pbuf_boot) pbuf_pool_memory)) +
      unat (pb_len (pbuf (two_buffers pbuf_boot) (pbuf_pool_memory + pbuf_slot)))
      \<le> pbuf_pool_memory + pbuf_slot"
    by (simp add: f(3,4,8), simp add: pbuf_slot_eq)
  from pbuf_cat_spec [OF f(1,5) two_buffers_slots(4) this] show ?thesis by (auto simp: f(4,8))
qed

text \<open>\<open>t_pbuf_add_tail\<close> (which nothing calls) has no defined result on a chain of one buffer: its
  loop moves to the successor before it tests for one.\<close>

theorem pbuf_add_tail_single_faults:
  assumes "p \<noteq> NULL" and "pb_next (pbuf s p) = NULL"
  shows "t_pbuf_add_tail p q s = None"
  using assms by (simp add: t_pbuf_add_tail_def t_pbuf_add_tail_loop.simps)

theorem pbuf_add_tail_single_faults_witness:
  "t_pbuf_add_tail pbuf_pool_memory (pbuf_pool_memory + pbuf_slot) (two_buffers pbuf_boot) = None"
proof -
  note f = two_buffers_facts [of pbuf_boot]
  have "pbuf_pool_memory \<noteq> NULL" "pb_next (pbuf (two_buffers pbuf_boot) pbuf_pool_memory) = NULL"
    using f(2) pbuf_wf_pos [OF f(1)] by (auto simp: pbuf_owned_def)
  then show ?thesis by (rule pbuf_add_tail_single_faults)
qed

end
