(* ===== verification/Inet.thy ===== *)
theory Inet
  imports Pbuf
begin

text \<open>
  \<^verbatim>\<open>core/t_inet.c\<close>: the Internet checksum.  The C code adds 16 bit words in the byte order of the host
  into a 32 bit accumulator and folds the carries back; the specification is the ones' complement
  sum of the bytes as a natural number.  The two agree for every length the code can be asked for.
\<close>

section \<open>Operations\<close>

function chksum_loop :: "u32 \<Rightarrow> ptr \<Rightarrow> int \<Rightarrow> 'a mem_st_scheme \<Rightarrow> u32 \<times> ptr \<times> int" where
  "chksum_loop acc dataptr len s =
     (if 1 < len then chksum_loop (acc + ucast (load16 dataptr s)) (dataptr + 2) (len - 2) s
      else (acc, dataptr, len))"
  by auto
termination by (relation "measure (\<lambda>(_, _, len, _). nat len)") auto

declare chksum_loop.simps [simp del]

definition lwip_standard_chksum :: "ptr \<Rightarrow> int \<Rightarrow> 'a mem_st_scheme \<Rightarrow> u16 option" where
  "lwip_standard_chksum dataptr len s = do {
     defined (accessible dataptr (nat len));
     let (acc, dataptr, len) = chksum_loop 0 dataptr len s;
     let acc = (if len = 1 then acc + ucast (htons (push_bit 8 (ucast (mem s dataptr) AND 0xff)))
                else acc);
     let acc = drop_bit 16 acc + (acc AND 0xffff);
     let acc = (if acc AND 0xffff0000 \<noteq> 0 then drop_bit 16 acc + (acc AND 0xffff) else acc);
     Some (ucast acc)
   }"

text \<open>The loop \<^verbatim>\<open>while (acc >> 16) acc = (acc & 0xffff) + (acc >> 16)\<close>, which ends since the carry is
  worth less after it is folded back.\<close>

lemma and_mask16: "(acc :: u32) AND 0xffff = take_bit 16 acc"
  by (simp add: take_bit_eq_mask mask_eq_exp_minus_1)

lemma unat_mask16: "unat ((acc :: u32) AND 0xffff) = unat acc mod 65536"
  unfolding and_mask16 unsigned_take_bit_eq by (simp add: take_bit_eq_mod)

lemma unat_drop16: "unat (drop_bit 16 (acc :: u32)) = unat acc div 65536"
proof -
  have "unat acc < 2 ^ LENGTH(32)" by (rule unsigned_less)
  then show ?thesis unfolding unsigned_drop_bit_eq
    by (simp add: drop_bit_eq_div take_bit_nat_eq_self)
qed

lemma unat_fold16: "unat ((acc AND 0xffff) + drop_bit 16 (acc :: u32)) = unat acc mod 65536 + unat acc div 65536"
proof -
  have "unat acc < 2 ^ LENGTH(32)" by (rule unsigned_less)
  then have "unat acc div 65536 < 65536" by (simp add: less_mult_imp_div_less)
  then show ?thesis
    by (simp add: unat_word_ariths unat_mask16 unat_drop16 del: unsigned_and_eq)
qed

function fold_carries :: "u32 \<Rightarrow> u32" where
  "fold_carries acc =
     (if drop_bit 16 acc \<noteq> 0 then fold_carries ((acc AND 0xffff) + drop_bit 16 acc) else acc)"
  by auto
termination
proof (relation "measure unat")
  fix acc :: u32
  assume "drop_bit 16 acc \<noteq> 0"
  then have "0 < unat acc div 65536" by (simp add: unat_drop16 [symmetric] unat_gt_0)
  then have "unat acc mod 65536 + unat acc div 65536 < unat acc"
    using div_mult_mod_eq [of "unat acc" 65536] by linarith
  then show "((acc AND 0xffff) + drop_bit 16 acc, acc) \<in> measure unat"
    by (simp only: in_measure unat_fold16)
qed simp

declare fold_carries.simps [simp del]

definition t_inet_chksum :: "ptr \<Rightarrow> u16 \<Rightarrow> 'a mem_st_scheme \<Rightarrow> u16 option" where
  "t_inet_chksum dataptr len s = do {
     acc \<leftarrow> lwip_standard_chksum dataptr (int (unat len)) s;
     let acc = fold_carries (ucast acc);
     Some (NOT (ucast (acc AND 0xffff)))
   }"

definition swap_bytes :: "u32 \<Rightarrow> u32" where
  "swap_bytes acc = push_bit 8 (acc AND 0xff) OR drop_bit 8 (acc AND 0xff00)"

partial_function (option) pseudo_loop ::
    "ptr \<Rightarrow> u32 \<Rightarrow> u8 \<Rightarrow> 'a pbuf_st_scheme \<Rightarrow> (u32 \<times> u8) option" where
  "pseudo_loop q acc swapped s =
     (if q \<noteq> NULL then
        Option.bind (lwip_standard_chksum (pb_payload (pbuf s q)) (int (unat (pb_len (pbuf s q)))) s)
          (\<lambda>c. let acc = fold_carries (acc + ucast c);
                   odd_len = (pb_len (pbuf s q) mod 2 \<noteq> 0);
                   swapped = (if odd_len then 1 - swapped else swapped);
                   acc = (if odd_len then swap_bytes acc else acc)
               in pseudo_loop (pb_next (pbuf s q)) acc swapped s)
      else Some (acc, swapped))"

text \<open>The addresses are passed by value: the code only reads them, once.\<close>

definition t_inet_chksum_pseudo ::
    "ptr \<Rightarrow> u32 \<Rightarrow> u32 \<Rightarrow> u8 \<Rightarrow> u16 \<Rightarrow> 'a pbuf_st_scheme \<Rightarrow> u16 option" where
  "t_inet_chksum_pseudo p src dest proto proto_len s = do {
     (acc, swapped) \<leftarrow> pseudo_loop p 0 0 s;
     let acc = (if swapped \<noteq> 0 then swap_bytes acc else acc);
     let acc = acc + (src AND 0xffff);
     let acc = acc + (drop_bit 16 src AND 0xffff);
     let acc = acc + (dest AND 0xffff);
     let acc = acc + (drop_bit 16 dest AND 0xffff);
     let acc = acc + ucast (htons (ucast proto));
     let acc = acc + ucast (htons proto_len);
     let acc = fold_carries acc;
     Some (NOT (ucast (acc AND 0xffff)))
   }"

section \<open>The ones' complement sum\<close>

text \<open>
  \<open>bsum e bs\<close> adds the bytes with weight 1 and 256 in turn, starting with 1 when \<open>e\<close>; \<open>ones n\<close> is
  the 16 bit number that the sum \<open>n\<close> folds to: \<open>n\<close> modulo 65535, with 65535 for its multiples
  other than 0.
\<close>

fun bsum :: "bool \<Rightarrow> u8 list \<Rightarrow> nat" where
  "bsum e [] = 0"
| "bsum e (b # bs) = (if e then 1 else 256) * unat b + bsum (\<not> e) bs"

definition ones :: "nat \<Rightarrow> nat" where
  "ones n = (if n = 0 then 0 else if n mod 65535 = 0 then 65535 else n mod 65535)"

definition same16 :: "nat \<Rightarrow> nat \<Rightarrow> bool" where
  "same16 m n \<longleftrightarrow> m mod 65535 = n mod 65535 \<and> (m = 0 \<longleftrightarrow> n = 0)"

lemma same16_refl [simp]: "same16 n n"
  by (simp add: same16_def)

lemma same16_sym: "same16 m n \<Longrightarrow> same16 n m"
  by (auto simp: same16_def)

lemma same16_trans: "same16 k m \<Longrightarrow> same16 m n \<Longrightarrow> same16 k n"
  by (auto simp: same16_def)

lemma same16_add: "same16 k l \<Longrightarrow> same16 m n \<Longrightarrow> same16 (k + m) (l + n)"
  unfolding same16_def using mod_add_cong by (metis add_is_0)

lemma same16_mult: "same16 m n \<Longrightarrow> same16 (k * m) (k * n)"
  unfolding same16_def using mod_mult_cong by (metis mult_is_0)

lemma same16I: "m = n + 65535 * k \<Longrightarrow> (n = 0 \<Longrightarrow> k = 0) \<Longrightarrow> same16 m n"
  by (auto simp: same16_def)

lemma same16_fold: "same16 (n mod 65536 + n div 65536) n"
proof (rule same16_sym, rule same16I)
  show "n = n mod 65536 + n div 65536 + 65535 * (n div 65536)"
    using div_mult_mod_eq [of n 65536] by linarith
qed simp

lemma ones_same16: "same16 m n \<Longrightarrow> ones m = ones n"
  by (auto simp: same16_def ones_def)

lemma ones_small: "n \<le> 65535 \<Longrightarrow> ones n = n"
  by (cases "n = 65535") (auto simp: ones_def)

lemma ones_bound: "ones n \<le> 65535"
proof -
  have "n mod 65535 < 65535" by simp
  then show ?thesis unfolding ones_def by simp
qed

lemma same16_ones: "same16 (ones n) n"
  by (auto simp: same16_def ones_def)

lemma ones_eqI: "same16 m n \<Longrightarrow> m \<le> 65535 \<Longrightarrow> m = ones n"
  using ones_same16 ones_small by metis

lemma bsum_append: "bsum e (as @ bs) = bsum e as + bsum (e = even (length as)) bs"
proof (induction as arbitrary: e)
  case (Cons a as)
  have "((\<not> e) = even (length as)) = (e = even (length (a # as)))" by auto
  with Cons show ?case by simp
qed simp

lemma bsum_0: "bsum e bs = 0 \<longleftrightarrow> (\<forall>b \<in> set bs. b = 0)"
  by (induction bs arbitrary: e) (auto simp: unat_eq_0)

lemma bsum_swap: "same16 (bsum (\<not> e) bs) (256 * bsum e bs)"
proof (induction bs arbitrary: e)
  case (Cons b bs)
  have "same16 (unat b) (256 * (256 * unat b))"
    by (rule same16_sym, rule same16I [where k = "unat b"]) simp_all
  then have "same16 ((if \<not> e then 1 else 256) * unat b) (256 * ((if e then 1 else 256) * unat b))"
    by (cases e) simp_all
  from same16_add [OF this Cons.IH [of "\<not> e"]] show ?case by (simp add: algebra_simps)
qed simp

lemma bsum_bound: "bsum e bs \<le> 65280 * length bs"
proof (induction bs arbitrary: e)
  case (Cons b bs)
  have "unat b < 2 ^ LENGTH(8)" by (rule unsigned_less)
  then have "(if e then 1 else 256) * unat b \<le> 65280" by simp
  with Cons.IH [of "\<not> e"] show ?case by simp
qed simp

section \<open>The code computes the sum\<close>

lemma bsum_pair: "bsum True (load_bytes a 2 s) = unat (load16 a s)"
  by (simp add: load_bytes_def load16_def upt_rec unat_u16_of)

lemma unat_add_ucast16: 
  "unat acc + unat (c :: u16) < 2 ^ 32 \<Longrightarrow> unat (acc + ucast c :: u32) = unat acc + unat c"
  by (simp add: unat_word_ariths unsigned_ucast_eq take_bit_nat_eq_self)

lemma chksum_loop_sum:
  "unat acc + bsum True (load_bytes a (2 * (n div 2)) s) < 2 ^ 32 \<Longrightarrow>
   \<exists>acc'. chksum_loop acc a (int n) s = (acc', a + 2 * (n div 2), int (n mod 2)) \<and>
     unat acc' = unat acc + bsum True (load_bytes a (2 * (n div 2)) s)"
proof (induction n arbitrary: acc a rule: less_induct)
  case (less n)
  show ?case
  proof (cases "n < 2")
    case True
    then have "n div 2 = 0" "n mod 2 = n" by auto
    with True show ?thesis by (simp add: chksum_loop.simps load_bytes_def)
  next
    case False
    then obtain m where m: "n = m + 2" by (metis add.commute le_Suc_ex not_less)
    let ?acc = "acc + ucast (load16 a s)"
    have split: "bsum True (load_bytes a (2 * (n div 2)) s) =
        unat (load16 a s) + bsum True (load_bytes (a + 2) (2 * (m div 2)) s)"
      using load_bytes_split [of a 2 "2 * (m div 2)" s] by (simp add: m bsum_append bsum_pair)
    with less.prems have acc: "unat ?acc = unat acc + unat (load16 a s)"
      by (intro unat_add_ucast16) simp
    have "\<exists>acc'. chksum_loop ?acc (a + 2) (int m) s = (acc', a + 2 + 2 * (m div 2), int (m mod 2)) \<and>
        unat acc' = unat ?acc + bsum True (load_bytes (a + 2) (2 * (m div 2)) s)"
      by (rule less.IH) (use less.prems split acc m in simp_all)
    moreover have "chksum_loop acc a (int n) s = chksum_loop ?acc (a + 2) (int m) s"
      by (subst chksum_loop.simps) (simp add: m)
    ultimately show ?thesis using acc split m by auto
  qed
qed

lemma fold_carries_sum:
  "unat (fold_carries acc) = ones (unat acc)"
proof (induction acc rule: fold_carries.induct)
  case (1 acc)
  show ?case
  proof (cases "drop_bit 16 acc = 0")
    case True
    then have "unat acc div 65536 = 0" by (simp add: unat_drop16 [symmetric])
    then have "unat acc < 65536" by (simp add: div_eq_0_iff)
    with True show ?thesis by (subst fold_carries.simps) (simp add: ones_small)
  next
    case False
    then have "unat (fold_carries acc) = ones (unat acc mod 65536 + unat acc div 65536)"
      using "1.IH" by (subst fold_carries.simps) (simp add: unat_fold16)
    with ones_same16 [OF same16_fold, of "unat acc"] show ?thesis by (simp only:)
  qed
qed

text \<open>The two folds that are enough for the accumulator of \<^verbatim>\<open>lwip_standard_chksum\<close>.\<close>

lemma and_high16: "(acc :: u32) AND 0xffff0000 = 0 \<longleftrightarrow> drop_bit 16 acc = 0"
proof -
  have high: "(0xffff0000 :: u32) = push_bit 16 (mask 16)"
    by (simp add: mask_eq_exp_minus_1 push_bit_eq_mult)
  have "acc AND push_bit 16 (mask 16) = push_bit 16 (drop_bit 16 acc)"
    by (rule bit_word_eqI) (auto simp: bit_simps)
  moreover have "drop_bit 16 (push_bit 16 (drop_bit 16 acc)) = drop_bit 16 acc"
    by (rule bit_word_eqI) (auto simp: bit_simps add.commute dest: bit_imp_le_length)
  ultimately show ?thesis unfolding high by (metis push_bit_of_0 drop_bit_of_0)
qed

lemma two_folds:
  fixes acc acc1 acc2 :: u32
  assumes "acc1 = drop_bit 16 acc + (acc AND 0xffff)"
    and "acc2 = (if acc1 AND 0xffff0000 \<noteq> 0 then drop_bit 16 acc1 + (acc1 AND 0xffff) else acc1)"
  shows "unat acc2 = ones (unat acc)"
proof -
  have "unat acc1 = unat acc mod 65536 + unat acc div 65536"
    using unat_fold16 [of acc] by (simp add: assms(1) add.commute)
  moreover have "unat acc < 2 ^ LENGTH(32)" by (rule unsigned_less)
  moreover from this have "unat acc mod 65536 + unat acc div 65536 \<le> 131070"
    by simp
  ultimately have one: "same16 (unat acc1) (unat acc)" "unat acc1 \<le> 131070"
    using same16_fold [of "unat acc"] by (simp_all only:)
  show ?thesis
  proof (cases "acc1 AND 0xffff0000 = 0")
    case True
    then have "unat acc1 div 65536 = 0" by (simp add: and_high16 unat_drop16 [symmetric])
    then have "unat acc1 \<le> 65535" by (simp add: div_eq_0_iff)
    with one(1) True show ?thesis by (simp add: assms(2) ones_eqI)
  next
    case False
    then have "unat acc2 = unat acc1 mod 65536 + unat acc1 div 65536"
      using unat_fold16 [of acc1] by (simp add: assms(2) add.commute)
    moreover have "unat acc1 mod 65536 + unat acc1 div 65536 \<le> 65535"
    proof (cases "unat acc1 < 65536")
      case False
      then have "unat acc1 mod 65536 = unat acc1 - 65536" "unat acc1 div 65536 = 1"
        using one(2) by (simp_all add: mod_nat_eqI div_nat_eqI)
      with one(2) show ?thesis by linarith
    qed simp
    ultimately show ?thesis
      using ones_eqI [OF same16_trans [OF same16_fold one(1)]] by (simp only:)
  qed
qed

lemma odd_byte: "htons (push_bit 8 (ucast (b :: u8) AND 0xff)) = ucast b"
proof -
  have m: "(0xff :: u16) = mask 8" by (simp add: mask_eq_exp_minus_1)
  have "ucast b AND (0xff :: u16) = ucast b"
    unfolding m by (rule bit_word_eqI) (auto simp: bit_simps dest: bit_imp_le_length)
  then have "push_bit 8 (ucast b AND 0xff) = u16_of 0 b" by (simp add: u16_of_def)
  moreover have "ucast b = u16_of b 0" by (simp add: u16_of_def)
  ultimately show ?thesis by (simp add: htons_u16_of)
qed

lemma unat_ucast_byte: "unat (ucast (b :: u8) :: u16) = unat b"
proof -
  have "unat b < 2 ^ LENGTH(8)" by (rule unsigned_less)
  then show ?thesis by (simp add: unsigned_ucast_eq take_bit_nat_eq_self)
qed

lemma standard_chksum_sum:
  assumes "accessible a n" and "n \<le> 65535"
  shows "\<exists>c. lwip_standard_chksum a (int n) s = Some c \<and> unat c = ones (bsum True (load_bytes a n s))"
proof -
  let ?m = "2 * (n div 2)"
  have le: "65280 * n < 2 ^ 32" using assms(2) by simp
  have "bsum True (load_bytes a ?m s) \<le> 65280 * ?m" using bsum_bound [of True "load_bytes a ?m s"] by simp
  also have "\<dots> \<le> 65280 * n" by simp
  finally have "unat (0 :: u32) + bsum True (load_bytes a ?m s) < 2 ^ 32" using le by simp
  from chksum_loop_sum [OF this] obtain acc where loop:
    "chksum_loop 0 a (int n) s = (acc, a + ?m, int (n mod 2))"
    "unat acc = bsum True (load_bytes a ?m s)" by auto
  define c :: u16 where "c = ucast (mem s (a + ?m))"
  define acc' where "acc' = (if n mod 2 = 1 then acc + ucast c else acc)"
  have sum: "unat acc' = bsum True (load_bytes a n s)"
  proof (cases "n mod 2 = 1")
    case True
    then have n: "n = ?m + 1" by presburger
    have "bsum True (load_bytes a (?m + 1) s) =
        bsum True (load_bytes a ?m s) + unat (mem s (a + ?m))"
      unfolding load_bytes_split bsum_append by (simp add: load_bytes_def)
    moreover have "bsum True (load_bytes a (?m + 1) s) \<le> 65280 * (?m + 1)"
      using bsum_bound [of True "load_bytes a (?m + 1) s"] by (simp only: length_load_bytes)
    moreover have "unat c = unat (mem s (a + ?m))" by (simp only: c_def unat_ucast_byte)
    ultimately show ?thesis using True le n loop(2) unat_add_ucast16 [of acc c]
      by (simp add: acc'_def)
  next
    case False
    then have "?m = n" by presburger
    with False loop(2) show ?thesis by (simp add: acc'_def)
  qed
  define acc1 where "acc1 = drop_bit 16 acc' + (acc' AND 0xffff)"
  define acc2 where "acc2 = (if acc1 AND 0xffff0000 \<noteq> 0 then drop_bit 16 acc1 + (acc1 AND 0xffff) else acc1)"
  have unat2: "unat acc2 = ones (bsum True (load_bytes a n s))"
    using two_folds [OF acc1_def acc2_def] by (simp add: sum)
  have "int (n mod 2) = 1 \<longleftrightarrow> n mod 2 = 1" by linarith
  then have "lwip_standard_chksum a (int n) s = Some (ucast acc2)"
    using assms(1) loop(1) unfolding lwip_standard_chksum_def odd_byte
    by (simp add: c_def [symmetric] acc'_def acc1_def acc2_def Let_def del: of_nat_mod)
  moreover have "unat (ucast acc2 :: u16) = unat acc2"
    using ones_bound [of "bsum True (load_bytes a n s)"] unat2
    by (simp add: unsigned_ucast_eq take_bit_nat_eq_self)
  ultimately show ?thesis using unat2 by simp
qed

lemma ucast_not_low: 
  fixes acc :: u32
  assumes "unat acc \<le> 65535"
  shows "NOT (ucast (acc AND 0xffff)) = (NOT (of_nat (unat acc)) :: u16)"
proof -
  have "unat (ucast (acc AND 0xffff) :: u16) = unat acc"
    using assms by (simp add: unsigned_ucast_eq unat_mask16 take_bit_nat_eq_self)
  then have "of_nat (unat (ucast (acc AND 0xffff) :: u16)) = (of_nat (unat acc) :: u16)" by (simp only:)
  then have "ucast (acc AND 0xffff) = (of_nat (unat acc) :: u16)" by (simp only: of_nat_unat ucast_id)
  then show ?thesis by (simp only:)
qed

text \<open>The specification of a checksum field: the complement of the folded sum.\<close>

definition chksum_of :: "nat \<Rightarrow> u16" where
  "chksum_of n = NOT (of_nat (ones n))"

lemma unat_chksum_of: "unat (chksum_of n) = 65535 - ones n"
proof -
  have "unat (of_nat (ones n) :: u16) = ones n"
    using ones_bound [of n] by (simp add: unat_of_nat take_bit_nat_eq_self)
  moreover have "NOT (of_nat (ones n)) = (- 1 - of_nat (ones n) :: u16)"
    by (simp add: not_eq_complement)
  moreover have "unat (- 1 :: u16) = 65535"
    by (simp add: unsigned_minus_1_eq_mask mask_eq_exp_minus_1)
  ultimately show ?thesis unfolding chksum_of_def
    by (simp only: unat_sub word_n1_ge)
qed

lemma inet_chksum_value:
  assumes "accessible a (unat len)"
  shows "t_inet_chksum a len s = Some (chksum_of (bsum True (load_bytes a (unat len) s)))"
proof -
  let ?n = "bsum True (load_bytes a (unat len) s)"
  have "unat len < 2 ^ LENGTH(16)" by (rule unsigned_less)
  then have "unat len \<le> 65535" by simp
  from standard_chksum_sum [OF assms this] obtain c where
    c: "lwip_standard_chksum a (int (unat len)) s = Some c" "unat c = ones ?n" by blast
  have "unat (ucast c :: u32) = ones ?n"
    using ones_bound [of ?n] c(2) by (simp add: unsigned_ucast_eq take_bit_nat_eq_self)
  then have "unat (fold_carries (ucast c)) = ones ?n"
    by (simp add: fold_carries_sum ones_small ones_bound)
  with ucast_not_low [of "fold_carries (ucast c)"] ones_bound [of ?n] c(1) show ?thesis
    by (simp add: t_inet_chksum_def chksum_of_def Let_def del: of_nat_unat)
qed

text \<open>The checksum of a block of memory is the complement of the ones' complement sum of its bytes,
  for every length (the accumulator does not overflow and two folds are enough).\<close>

theorem inet_chksum_spec:
  assumes "accessible a (unat len)"
  shows "t_inet_chksum a len s = Some (chksum_of (bsum True (load_bytes a (unat len) s)))"
  using assms by (rule inet_chksum_value)

theorem inet_chksum_spec_witness:
  "t_inet_chksum 0x100 3 (store_bytes 0x100 [1, 2, 0xff] pbuf_boot) = Some (NOT 0x300)"
proof -
  have "accessible 0x100 (unat (3 :: u16))" by (simp add: accessible_def user_range_def memp_memory_def)
  moreover have "load_bytes 0x100 (unat (3 :: u16)) (store_bytes 0x100 [1, 2, 0xff] pbuf_boot) = [1, 2, 0xff]"
    by (rule load_store_bytes_n) simp
  ultimately show ?thesis
    using inet_chksum_spec [of "0x100" 3 "store_bytes 0x100 [1, 2, 0xff] pbuf_boot"]
    by (simp add: chksum_of_def ones_def)
qed

text \<open>A checksum field at an even offset contributes its value to the sum.\<close>

lemma bsum_field:
  assumes "even k" and "k + 2 \<le> n"
  shows "bsum True (load_bytes a n s) = bsum True (load_bytes a k s) + unat (load16 (a + k) s) +
    bsum True (load_bytes (a + k + 2) (n - k - 2) s)"
proof -
  obtain m where m: "n = k + (2 + m)" using assms(2) by (metis add.assoc le_Suc_ex)
  have "load_bytes a n s = load_bytes a k s @ load_bytes (a + k) 2 s @ load_bytes (a + k + 2) (n - k - 2) s"
    unfolding m load_bytes_split by simp
  then show ?thesis using assms(1) by (simp add: bsum_append bsum_pair)
qed

lemma bsum_store16:
  assumes "even k" and "k + 2 \<le> n" and "load16 (a + k) s = 0"
  shows "bsum True (load_bytes a n (store16 (a + k) v s)) = bsum True (load_bytes a n s) + unat v"
proof -
  have "load_bytes a k (store16 (a + k) v s) = load_bytes a k s"
    "load_bytes (a + k + 2) (n - k - 2) (store16 (a + k) v s) = load_bytes (a + k + 2) (n - k - 2) s"
    by (rule load_bytes_cong; simp add: mem_simps)+
  then show ?thesis using assms by (simp add: bsum_field [OF assms(1,2)])
qed

lemma chksum_of_closes: "chksum_of (n + unat (chksum_of n)) = 0"
proof -
  have "ones (n + (65535 - ones n)) = 65535"
  proof -
    have "(n + (65535 - ones n)) mod 65535 = (ones n + (65535 - ones n)) mod 65535"
      using same16_ones [of n] unfolding same16_def by (metis mod_add_left_eq)
    moreover have "ones n + (65535 - ones n) = 65535" using ones_bound [of n] by simp
    moreover have "n + (65535 - ones n) \<noteq> 0" by (auto simp: ones_def)
    ultimately show ?thesis by (simp add: ones_def)
  qed
  then show ?thesis unfolding unat_chksum_of by (simp add: chksum_of_def)
qed

text \<open>What the receiver checks: filling the zeroed checksum field of a header with the computed
  checksum makes the checksum over the whole header 0.\<close>

theorem inet_chksum_verifies:
  assumes "accessible a (unat len)" and "even k" and "k + 2 \<le> unat len" and "load16 (a + k) s = 0"
    and "t_inet_chksum a len s = Some c"
  shows "t_inet_chksum a len (store16 (a + k) c s) = Some 0"
proof -
  have c: "c = chksum_of (bsum True (load_bytes a (unat len) s))"
    using assms(5) inet_chksum_value [OF assms(1), of s] by simp
  then show ?thesis
    by (simp add: inet_chksum_value [OF assms(1)] bsum_store16 [OF assms(2-4)] chksum_of_closes)
qed

theorem inet_chksum_verifies_witness:
  "t_inet_chksum 0x100 8 (store16 (0x100 + 2) (chksum_of 769) (store_bytes 0x100 [1, 3, 0, 0, 0, 0, 0, 0] pbuf_boot)) = Some 0"
proof -
  let ?s = "store_bytes 0x100 [1, 3, 0, 0, 0, 0, 0, 0] pbuf_boot"
  have acc: "accessible 0x100 (unat (8 :: u16))" by (simp add: accessible_def user_range_def memp_memory_def)
  have "load_bytes 0x100 (unat (8 :: u16)) ?s = [1, 3, 0, 0, 0, 0, 0, 0]"
    by (rule load_store_bytes_n) simp
  then have c: "t_inet_chksum 0x100 8 ?s = Some (chksum_of 769)"
    using inet_chksum_value [OF acc, of ?s] by simp
  have "load16 (0x100 + 2) ?s = 0" by (simp add: load16_def mem_simps u16_of_def)
  from inet_chksum_verifies [OF acc _ _ this c] show ?thesis by simp
qed

section \<open>The pseudo header and chains of buffers\<close>

definition chain_bytes :: "'a pbuf_st_scheme \<Rightarrow> ptr list \<Rightarrow> u8 list" where
  "chain_bytes s ps = concat (map (\<lambda>p. load_bytes (pb_payload (pbuf s p)) (unat (pb_len (pbuf s p))) s) ps)"

definition pseudo_sum :: "u32 \<Rightarrow> u32 \<Rightarrow> u8 \<Rightarrow> u16 \<Rightarrow> nat" where
  "pseudo_sum src dest proto proto_len =
     unat (src AND 0xffff) + unat (drop_bit 16 src AND 0xffff) +
     unat (dest AND 0xffff) + unat (drop_bit 16 dest AND 0xffff) +
     unat (htons (ucast proto)) + unat (htons proto_len)"

text \<open>Swapping the bytes of the folded sum multiplies it by 256 modulo 65535.\<close>

lemma unat_swap_bytes: "unat acc \<le> 65535 \<Longrightarrow>
    unat (swap_bytes acc) = 256 * (unat acc mod 256) + unat acc div 256"
proof -
  assume le: "unat acc \<le> 65535"
  have m: "(0xff :: u32) = mask 8" "(0xff00 :: u32) = push_bit 8 (mask 8)"
    by (simp_all add: mask_eq_exp_minus_1 push_bit_eq_mult)
  have "swap_bytes acc = push_bit 8 (take_bit 8 acc) + take_bit 8 (drop_bit 8 acc)"
    unfolding swap_bytes_def m
    by (subst disjunctive_add_eq_or, rule bit_word_eqI, force simp: bit_simps)
      (rule bit_word_eqI, auto simp: bit_simps)
  then have eq: "swap_bytes acc = 256 * take_bit 8 acc + take_bit 8 (drop_bit 8 acc)"
    by (simp add: push_bit_eq_mult)
  have low: "unat (take_bit 8 acc) = unat acc mod 256"
    unfolding unsigned_take_bit_eq by (simp add: take_bit_eq_mod)
  have "unat (drop_bit 8 acc) = unat acc div 256"
  proof -
    have "unat acc < 2 ^ LENGTH(32)" by (rule unsigned_less)
    then show ?thesis unfolding unsigned_drop_bit_eq
      by (simp add: drop_bit_eq_div take_bit_nat_eq_self)
  qed
  moreover have "unat acc div 256 < 256" using le by (simp add: less_mult_imp_div_less)
  ultimately have high: "unat (take_bit 8 (drop_bit 8 acc)) = unat acc div 256"
    unfolding unsigned_take_bit_eq by (simp only:) (simp add: take_bit_nat_eq_self)
  have "swap_bytes acc = of_nat (256 * (unat acc mod 256) + unat acc div 256)"
    unfolding eq low [symmetric] high [symmetric] by (simp add: of_nat_unat)
  moreover have "256 * (unat acc mod 256) + unat acc div 256 < 2 ^ LENGTH(32)"
    using le \<open>unat acc div 256 < 256\<close> mod_less_divisor [of 256 "unat acc"] by simp
  ultimately show ?thesis by (simp only: unat_of_nat_lt)
qed

lemma same16_swap_bytes: "unat acc \<le> 65535 \<Longrightarrow> same16 (unat (swap_bytes acc)) (256 * unat acc)"
proof (rule same16_sym, rule same16I)
  assume le: "unat acc \<le> 65535"
  show "256 * unat acc = unat (swap_bytes acc) + 65535 * (unat acc div 256)"
    unfolding unat_swap_bytes [OF le] using div_mult_mod_eq [of "unat acc" 256] by linarith
  show "unat acc div 256 = 0" if "unat (swap_bytes acc) = 0"
    using that unfolding unat_swap_bytes [OF le] by simp
qed

lemma odd_length: "(n :: u16) mod 2 \<noteq> 0 \<longleftrightarrow> odd (unat n)"
proof -
  have "unat (n mod 2) = unat n mod 2" by (simp add: unat_mod)
  then show ?thesis by (metis odd_iff_mod_2_eq_one mod_2_eq_odd unat_eq_0 unsigned_0 even_iff_mod_2_eq_zero)
qed

lemma pseudo_loop_sum:
  assumes "chained (pb_link s) q ps"
    and "\<forall>p \<in> set ps. accessible (pb_payload (pbuf s p)) (unat (pb_len (pbuf s p)))"
    and "unat acc \<le> 65535" and "same16 (unat acc) (if e then A else 256 * A)"
  shows "\<exists>acc' e'. pseudo_loop q acc (if e then 0 else 1) s = Some (acc', if e' then 0 else 1) \<and>
    unat acc' \<le> 65535 \<and>
    same16 (unat acc') (if e' then A + bsum e (chain_bytes s ps) else 256 * (A + bsum e (chain_bytes s ps)))"
  using assms
proof (induction ps arbitrary: q acc e A)
  case Nil
  then show ?case by (simp add: pseudo_loop.simps chain_bytes_def) (metis)
next
  case (Cons p ps)
  let ?len = "pb_len (pbuf s p)"
  let ?bs = "load_bytes (pb_payload (pbuf s p)) (unat ?len) s"
  from Cons.prems(1) have q: "q = p" "p \<noteq> NULL" "chained (pb_link s) (pb_next (pbuf s p)) ps" by auto
  have "unat ?len < 2 ^ LENGTH(16)" by (rule unsigned_less)
  then have "unat ?len \<le> 65535" by simp
  with standard_chksum_sum [of "pb_payload (pbuf s p)" "unat ?len" s] Cons.prems(2) obtain c where c:
    "lwip_standard_chksum (pb_payload (pbuf s p)) (int (unat ?len)) s = Some c"
    "unat c = ones (bsum True ?bs)" by auto
  define acc1 where "acc1 = fold_carries (acc + ucast c)"
  have sum: "unat (acc + ucast c) = unat acc + unat c"
    using Cons.prems(3) ones_bound [of "bsum True ?bs"] c(2) by (intro unat_add_ucast16) simp
  let ?A = "A + bsum e ?bs"
  have "same16 (unat acc + unat c) (if e then ?A else 256 * ?A)"
  proof (cases e)
    case True
    then show ?thesis using Cons.prems(4) same16_add same16_ones c(2) by simp
  next
    case False
    have "same16 (bsum True ?bs) (256 * bsum False ?bs)" using bsum_swap [of False ?bs] by simp
    from same16_trans [OF same16_ones this] False show ?thesis
      using same16_add [of "unat acc" "256 * A" "unat c" "256 * bsum False ?bs"] Cons.prems(4) c(2)
      by (simp add: algebra_simps)
  qed
  then have acc1: "same16 (unat acc1) (if e then ?A else 256 * ?A)" "unat acc1 \<le> 65535"
    unfolding acc1_def fold_carries_sum sum by (auto intro: same16_trans [OF same16_ones] ones_bound)
  let ?e = "e = even (unat ?len)"
  define acc2 where "acc2 = (if odd (unat ?len) then swap_bytes acc1 else acc1)"
  have acc2: "unat acc2 \<le> 65535" "same16 (unat acc2) (if ?e then ?A else 256 * ?A)"
  proof -
    have "same16 (256 * (256 * ?A)) ?A" by (rule same16I [where k = ?A]) simp_all
    then have "same16 (256 * (if e then ?A else 256 * ?A)) (if \<not> e then ?A else 256 * ?A)"
      by (cases e) simp_all
    from same16_trans [OF same16_trans [OF same16_swap_bytes [OF acc1(2)] same16_mult [OF acc1(1)]] this]
    have sw: "same16 (unat (swap_bytes acc1)) (if \<not> e then ?A else 256 * ?A)" .
    show "unat acc2 \<le> 65535"
    proof -
      have "unat acc1 div 256 \<le> 255" "unat acc1 mod 256 \<le> 255" using acc1(2) by auto
      then show ?thesis using acc1(2) by (auto simp: acc2_def unat_swap_bytes [OF acc1(2)])
    qed
    show "same16 (unat acc2) (if ?e then ?A else 256 * ?A)"
      using acc1(1) sw by (cases "even (unat ?len)") (auto simp: acc2_def)
  qed
  have "pseudo_loop q acc (if e then 0 else 1) s =
      pseudo_loop (pb_next (pbuf s p)) acc2 (if ?e then 0 else 1) s"
    using q c(1) by (subst pseudo_loop.simps, unfold odd_length)
      (auto simp: Let_def acc1_def acc2_def simp del: of_nat_unat)
  moreover have "bsum e (chain_bytes s (p # ps)) = bsum e ?bs + bsum ?e (chain_bytes s ps)"
    by (simp add: chain_bytes_def bsum_append)
  moreover have "\<forall>p \<in> set ps. accessible (pb_payload (pbuf s p)) (unat (pb_len (pbuf s p)))"
    using Cons.prems(2) by simp
  note Cons.IH [OF q(3) this acc2]
  ultimately show ?case by (simp only: add.assoc)
qed

lemma unat_add6:
  fixes acc x1 x2 x3 x4 x5 x6 :: u32
  assumes "unat acc + unat x1 + unat x2 + unat x3 + unat x4 + unat x5 + unat x6 < 2 ^ 32"
  shows "unat (acc + x1 + x2 + x3 + x4 + x5 + x6) =
    unat acc + unat x1 + unat x2 + unat x3 + unat x4 + unat x5 + unat x6"
proof -
  have "acc + x1 + x2 + x3 + x4 + x5 + x6 =
      of_nat (unat acc + unat x1 + unat x2 + unat x3 + unat x4 + unat x5 + unat x6)"
    by simp
  moreover have "unat acc + unat x1 + unat x2 + unat x3 + unat x4 + unat x5 + unat x6 < 2 ^ LENGTH(32)"
    using assms by simp
  ultimately show ?thesis by (simp only: unat_of_nat_lt)
qed

lemma unat_ucast16: "unat (ucast (c :: u16) :: u32) = unat c"
proof -
  have "unat c < 2 ^ LENGTH(16)" by (rule unsigned_less)
  then show ?thesis by (simp add: unsigned_ucast_eq take_bit_nat_eq_self)
qed

text \<open>The checksum of a chain of buffers does not depend on how its bytes are cut into buffers.\<close>

lemma inet_chksum_pseudo_value:
  assumes "chained (pb_link s) p ps"
    and "\<forall>q \<in> set ps. accessible (pb_payload (pbuf s q)) (unat (pb_len (pbuf s q)))"
  shows "t_inet_chksum_pseudo p src dest proto proto_len s =
    Some (chksum_of (bsum True (chain_bytes s ps) + pseudo_sum src dest proto proto_len))"
proof -
  let ?B = "bsum True (chain_bytes s ps)"
  have "\<exists>acc e. pseudo_loop p 0 0 s = Some (acc, if e then 0 else 1) \<and> unat acc \<le> 65535 \<and>
      same16 (unat acc) (if e then ?B else 256 * ?B)"
    using pseudo_loop_sum [OF assms, of 0 True 0] by (simp only: if_True add_0) simp
  then obtain acc e where loop:
    "pseudo_loop p 0 0 s = Some (acc, if e then 0 else 1)" "unat acc \<le> 65535"
    "same16 (unat acc) (if e then ?B else 256 * ?B)" by blast
  define acc1 where "acc1 = (if e then acc else swap_bytes acc)"
  have acc1: "same16 (unat acc1) ?B" "unat acc1 \<le> 65535"
  proof -
    have "same16 (256 * (256 * ?B)) ?B" by (rule same16I [where k = ?B]) simp_all
    then have "same16 (unat (swap_bytes acc)) ?B" if "\<not> e"
      using same16_trans [OF same16_trans [OF same16_swap_bytes [OF loop(2)] same16_mult]] loop(3) that by auto
    with loop(3) show "same16 (unat acc1) ?B" by (cases e) (simp_all add: acc1_def)
    have "unat acc div 256 \<le> 255" "unat acc mod 256 \<le> 255" using loop(2) by auto
    then show "unat acc1 \<le> 65535" using loop(2) by (auto simp: acc1_def unat_swap_bytes [OF loop(2)])
  qed
  have small: "unat (v AND 0xffff :: u32) < 65536" for v by (simp add: unat_mask16)
  have word: "unat (v :: u16) < 65536" for v using unsigned_less [of v] by simp
  define acc2 where "acc2 = acc1 + (src AND 0xffff) + (drop_bit 16 src AND 0xffff) + (dest AND 0xffff) +
    (drop_bit 16 dest AND 0xffff) + ucast (htons (ucast proto)) + ucast (htons proto_len)"
  have "unat acc2 = unat acc1 + pseudo_sum src dest proto proto_len"
    unfolding acc2_def pseudo_sum_def
    using acc1(2) small [of src] small [of "drop_bit 16 src"] small [of dest] small [of "drop_bit 16 dest"]
      word [of "htons (ucast proto)"] word [of "htons proto_len"]
    by (subst unat_add6) (simp_all only: unat_ucast16, simp_all)
  then have sum: "ones (unat acc2) = ones (?B + pseudo_sum src dest proto proto_len)"
    using ones_same16 [OF same16_add [OF acc1(1) same16_refl]] by simp
  have "unat (fold_carries acc2) = ones (unat acc2)" by (rule fold_carries_sum)
  with ucast_not_low [of "fold_carries acc2"] ones_bound [of "unat acc2"]
  have "NOT (ucast (fold_carries acc2 AND 0xffff)) = chksum_of (?B + pseudo_sum src dest proto proto_len)"
    by (simp only: chksum_of_def sum)
  with loop(1) show ?thesis
    by (cases e) (simp_all add: t_inet_chksum_pseudo_def acc2_def acc1_def Let_def)
qed

text \<open>C15: The checksum with pseudo header of a chain of buffers is that of the concatenated bytes,
  wherever the chain cuts them (at odd offsets too): the byte swaps of the code make up for it.\<close>

theorem inet_chksum_pseudo_spec:
  assumes "chained (pb_link s) p ps"
    and "\<forall>q \<in> set ps. accessible (pb_payload (pbuf s q)) (unat (pb_len (pbuf s q)))"
  shows "t_inet_chksum_pseudo p src dest proto proto_len s =
    Some (chksum_of (bsum True (chain_bytes s ps) + pseudo_sum src dest proto proto_len))"
  using assms by (rule inet_chksum_pseudo_value)

text \<open>A state with a chain of two buffers of three bytes each.\<close>

definition odd_chain :: "'a pbuf_st_scheme \<Rightarrow> 'a pbuf_st_scheme" where
  "odd_chain s = s\<lparr>pbuf := (pbuf s)(0x20000 := \<lparr>pb_next = 0x2060a, pb_payload = 0x100, pb_tot_len = 6,
       pb_len = 3, pb_flags = 1, pb_ref = 1, pb_reserved = 0\<rparr>,
     0x2060a := \<lparr>pb_next = NULL, pb_payload = 0x200, pb_tot_len = 3,
       pb_len = 3, pb_flags = 1, pb_ref = 1, pb_reserved = 0\<rparr>),
     mem := put_bytes 0x100 [1, 2, 3] (put_bytes 0x200 [4, 5, 6] (mem s))\<rparr>"

theorem inet_chksum_pseudo_spec_witness:
  "t_inet_chksum_pseudo 0x20000 0 0 6 6 (odd_chain pbuf_boot) = Some (chksum_of (9 + 256 * 12 + 256 * 12))"
proof -
  let ?s = "odd_chain pbuf_boot"
  have "chained (pb_link ?s) 0x20000 [0x20000, 0x2060a]" by (simp add: odd_chain_def)
  moreover have "\<forall>q \<in> set [0x20000, 0x2060a]. accessible (pb_payload (pbuf ?s q)) (unat (pb_len (pbuf ?s q)))"
    by (simp add: odd_chain_def accessible_def user_range_def memp_memory_def)
  moreover have "chain_bytes ?s [0x20000, 0x2060a] = [1, 2, 3, 4, 5, 6]"
    by (simp add: chain_bytes_def odd_chain_def load_bytes_def upt_rec put_bytes_apply)
  moreover have "pseudo_sum 0 0 6 6 = 256 * 12" by (simp add: pseudo_sum_def htons_def)
  ultimately show ?thesis using inet_chksum_pseudo_spec [of ?s "0x20000" "[0x20000, 0x2060a]" 0 0 6 6] by simp
qed

text \<open>The receiver's check of a segment in one buffer.\<close>

lemma chain_bytes_single: "chain_bytes s [p] = load_bytes (pb_payload (pbuf s p)) (unat (pb_len (pbuf s p))) s"
  by (simp add: chain_bytes_def)

lemma inet_pseudo_verifies:
  assumes "p \<noteq> NULL" and "pb_next (pbuf s p) = NULL" and "a = pb_payload (pbuf s p)"
    and "n = unat (pb_len (pbuf s p))" and "accessible a n" and "even k" and "k + 2 \<le> n"
    and "load16 (a + k) s = 0"
  shows "\<exists>c. t_inet_chksum_pseudo p src dest proto proto_len s = Some c \<and>
    c = chksum_of (bsum True (load_bytes a n s) + pseudo_sum src dest proto proto_len) \<and>
    t_inet_chksum_pseudo p src dest proto proto_len (store16 (a + k) c s) = Some 0"
proof -
  define c where "c = chksum_of (bsum True (load_bytes a n s) + pseudo_sum src dest proto proto_len)"
  have same: "pbuf (store16 (a + k) c s) = pbuf s" by (simp add: store16_def)
  have val: "t_inet_chksum_pseudo p src dest proto proto_len t =
      Some (chksum_of (bsum True (load_bytes a n t) + pseudo_sum src dest proto proto_len))"
    if "pbuf t = pbuf s" for t
    using inet_chksum_pseudo_value [of t p "[p]" src dest proto proto_len] assms(1-5) that
    by (simp add: chain_bytes_single)
  have "bsum True (load_bytes a n (store16 (a + k) c s)) = bsum True (load_bytes a n s) + unat c"
    by (rule bsum_store16 [OF assms(6-8)])
  then have "t_inet_chksum_pseudo p src dest proto proto_len (store16 (a + k) c s) =
      Some (chksum_of (bsum True (load_bytes a n s) + pseudo_sum src dest proto proto_len + unat c))"
    using val [OF same] by (simp add: ac_simps)
  then show ?thesis using val [OF refl] chksum_of_closes by (simp add: c_def)
qed

end
