(* ===== verification/Netif.thy ===== *)
theory Netif
  imports Inet
begin

text \<open>
  \<^verbatim>\<open>core/t_netif.c\<close>, \<^verbatim>\<open>include/t_netif.h\<close> and the part of \<^verbatim>\<open>user/s_main.c\<close> and \<^verbatim>\<open>port/for_linux.c\<close> that
  hands frames to the device: network interfaces, the list of interfaces and the transmit path.
  What \<^verbatim>\<open>pcap_sendpacket\<close> is given is recorded, frame by frame, in \<open>sent\<close>.
\<close>

section \<open>State\<close>

text \<open>The values of the function pointer \<^verbatim>\<open>output\<close>: null or the one driver of the program.\<close>

datatype netif_output = No_output | Output_ether0

record t_netif =
  nif_next :: ptr
  nif_ip_addr :: u32
  nif_netmask :: u32
  nif_gw :: u32
  nif_output :: netif_output
  nif_hwaddr :: "u8 list"
  nif_hwaddr_len :: u8

record netif_st = pbuf_st +
  netif :: "ptr \<Rightarrow> t_netif"
  netif_list :: ptr
  netif_default :: ptr
  netifnum :: int
  sent :: "u8 list list"

abbreviation nif_link :: "'a netif_st_scheme \<Rightarrow> ptr \<Rightarrow> ptr" where
  "nif_link s \<equiv> (\<lambda>n. nif_next (netif s n))"

abbreviation upd_netif :: "ptr \<Rightarrow> (t_netif \<Rightarrow> t_netif) \<Rightarrow> 'a netif_st_scheme \<Rightarrow> 'a netif_st_scheme" where
  "upd_netif n f s \<equiv> s\<lparr>netif := (netif s)(n := f (netif s n))\<rparr>"

lemma netif_stores [simp]:
  "netif (store8 a u s) = netif s" "netif (store16 a v s) = netif s"
  "netif (store32 a w s) = netif s" "netif (store_bytes a bs s) = netif s"
  "netif_list (store8 a u s) = netif_list s" "netif_list (store16 a v s) = netif_list s"
  "netif_list (store32 a w s) = netif_list s" "netif_list (store_bytes a bs s) = netif_list s"
  "netif_default (store8 a u s) = netif_default s"
  "netif_default (store16 a v s) = netif_default s"
  "netif_default (store32 a w s) = netif_default s"
  "netif_default (store_bytes a bs s) = netif_default s" "sent (store8 a u s) = sent s"
  "sent (store16 a v s) = sent s" "sent (store32 a w s) = sent s"
  "sent (store_bytes a bs s) = sent s"
  by (simp_all add: store8_def store16_def store32_def store_bytes_def)

definition netif_boot :: netif_st where
  "netif_boot = pbuf_st.extend pbuf_boot
     \<lparr>netif = (\<lambda>_. \<lparr>nif_next = NULL, nif_ip_addr = 0, nif_netmask = 0, nif_gw = 0,
        nif_output = No_output, nif_hwaddr = replicate 6 0, nif_hwaddr_len = 0\<rparr>),
      netif_list = NULL, netif_default = NULL, netifnum = 0, sent = []\<rparr>"

section \<open>Operations\<close>

definition t_netif_init :: "'a netif_st_scheme \<Rightarrow> 'a netif_st_scheme" where
  "t_netif_init s = s\<lparr>netif_list := NULL, netif_default := NULL\<rparr>"

definition t_netif_set_ipaddr :: "ptr \<Rightarrow> u32 \<Rightarrow> 'a netif_st_scheme \<Rightarrow> 'a netif_st_scheme option" where
  "t_netif_set_ipaddr n ip s = do {
     defined (n \<noteq> NULL);
     Some (upd_netif n (\<lambda>r. r\<lparr>nif_ip_addr := ip\<rparr>) s)
   }"

definition t_netif_set_netmask :: "ptr \<Rightarrow> u32 \<Rightarrow> 'a netif_st_scheme \<Rightarrow> 'a netif_st_scheme option" where
  "t_netif_set_netmask n msk s = do {
     defined (n \<noteq> NULL);
     Some (upd_netif n (\<lambda>r. r\<lparr>nif_netmask := msk\<rparr>) s)
   }"

definition t_netif_set_gw :: "ptr \<Rightarrow> u32 \<Rightarrow> 'a netif_st_scheme \<Rightarrow> 'a netif_st_scheme option" where
  "t_netif_set_gw n gw s = do {
     defined (n \<noteq> NULL);
     Some (upd_netif n (\<lambda>r. r\<lparr>nif_gw := gw\<rparr>) s)
   }"

definition t_netif_set_addr ::
    "ptr \<Rightarrow> u32 \<Rightarrow> u32 \<Rightarrow> u32 \<Rightarrow> 'a netif_st_scheme \<Rightarrow> (int \<times> 'a netif_st_scheme) option" where
  "t_netif_set_addr n ip msk gw s = do {
     s \<leftarrow> t_netif_set_ipaddr n ip s;
     s \<leftarrow> t_netif_set_netmask n msk s;
     s \<leftarrow> t_netif_set_gw n gw s;
     Some (0, s)
   }"

text \<open>The loop over the six bytes of the address, which the caller passes by pointer.\<close>

fun set_mac_loop :: "nat list \<Rightarrow> ptr \<Rightarrow> ptr \<Rightarrow> 'a netif_st_scheme \<Rightarrow> 'a netif_st_scheme" where
  "set_mac_loop [] n mac s = s"
| "set_mac_loop (i # is) n mac s =
     set_mac_loop is n mac (upd_netif n (\<lambda>r. r\<lparr>nif_hwaddr := (nif_hwaddr r)[i := mem s (mac + i)]\<rparr>) s)"

definition t_netif_set_mac :: "ptr \<Rightarrow> ptr \<Rightarrow> 'a netif_st_scheme \<Rightarrow> (int \<times> 'a netif_st_scheme) option" where
  "t_netif_set_mac n mac s = do {
     defined (n \<noteq> NULL \<and> accessible mac 6);
     let s = set_mac_loop [0, 1, 2, 3, 4, 5] n mac s;
     Some (0, upd_netif n (\<lambda>r. r\<lparr>nif_hwaddr_len := 6\<rparr>) s)
   }"

text \<open>\<open>init\<close> is the driver's initialisation, which the caller passes; the driver of the program only
  opens the device and starts the thread that receives.\<close>

definition t_netif_add ::
    "ptr \<Rightarrow> (ptr \<Rightarrow> 'a netif_st_scheme \<Rightarrow> (int \<times> 'a netif_st_scheme) option) \<Rightarrow> netif_output
     \<Rightarrow> 'a netif_st_scheme \<Rightarrow> (int \<times> 'a netif_st_scheme) option" where
  "t_netif_add n init output s = do {
     let s = s\<lparr>netifnum := netifnum s + 1\<rparr>;
     defined (n \<noteq> NULL);
     let s = upd_netif n (\<lambda>r. r\<lparr>nif_next := netif_list s\<rparr>) s;
     let s = s\<lparr>netif_list := n\<rparr>;
     let s = s\<lparr>netif_default := n\<rparr>;
     (err, s) \<leftarrow> init n s;
     let s = upd_netif n (\<lambda>r. r\<lparr>nif_output := output\<rparr>) s;
     Some (0, s)
   }"

definition t_netif_remove :: "ptr \<Rightarrow> 'a netif_st_scheme \<Rightarrow> 'a netif_st_scheme" where
  "t_netif_remove n s = s"

section \<open>The device\<close>

definition linux_send_data :: "ptr \<Rightarrow> int \<Rightarrow> 'a netif_st_scheme \<Rightarrow> (int \<times> 'a netif_st_scheme) option" where
  "linux_send_data data len s = do {
     defined (accessible data (nat len));
     Some (len, s\<lparr>sent := sent s @ [load_bytes data (nat len) s]\<rparr>)
   }"

definition ether0_output :: "ptr \<Rightarrow> ptr \<Rightarrow> 'a netif_st_scheme \<Rightarrow> (int \<times> 'a netif_st_scheme) option" where
  "ether0_output n p s = do {
     defined (p \<noteq> NULL);
     (r, s) \<leftarrow> linux_send_data (pb_payload (pbuf s p)) (int (unat (pb_tot_len (pbuf s p)))) s;
     Some (0, s)
   }"

text \<open>The indirect call \<^verbatim>\<open>netif->output(netif, p)\<close>.\<close>

definition call_output :: "ptr \<Rightarrow> ptr \<Rightarrow> 'a netif_st_scheme \<Rightarrow> (int \<times> 'a netif_st_scheme) option" where
  "call_output n p s = do {
     defined (n \<noteq> NULL);
     case nif_output (netif s n) of No_output \<Rightarrow> None | Output_ether0 \<Rightarrow> ether0_output n p s
   }"

section \<open>Lemmas\<close>

text \<open>An interface that is ready to send.\<close>

definition netif_up :: "'a netif_st_scheme \<Rightarrow> ptr \<Rightarrow> bool" where
  "netif_up s n \<longleftrightarrow> n \<noteq> NULL \<and> nif_output (netif s n) = Output_ether0 \<and> length (nif_hwaddr (netif s n)) = 6"

lemma set_mac_loop_upd:
  "set_mac_loop is n mac s =
     upd_netif n (\<lambda>r. r\<lparr>nif_hwaddr := fold (\<lambda>i h. h[i := mem s (mac + i)]) is (nif_hwaddr r)\<rparr>) s"
proof (induction "is" arbitrary: s)
  case (Cons i "is")
  show ?case by (simp add: Cons.IH fun_upd_def cong: if_cong)
qed simp

lemma netif_up_output:
  assumes "netif_up s n" and "p \<noteq> NULL"
    and "accessible (pb_payload (pbuf s p)) (unat (pb_tot_len (pbuf s p)))"
  shows "call_output n p s = Some (0, s\<lparr>sent := sent s @
    [load_bytes (pb_payload (pbuf s p)) (unat (pb_tot_len (pbuf s p))) s]\<rparr>)"
  using assms by (simp add: netif_up_def call_output_def ether0_output_def linux_send_data_def)

text \<open>
  The pattern of every sender: a buffer is taken from the pool, its bytes and fields are written, the
  frame is sent and the buffer is released; the pool is as before.
\<close>

lemma pbuf_avail_frame:
  assumes "pbuf_pool t = pbuf_pool s" and "\<And>x. x \<in> set xs \<Longrightarrow> pbuf t x = pbuf s x"
  shows "pbuf_avail t xs = pbuf_avail s xs"
  using assms chained_cong [of xs "pb_link t" "pb_link s" "pbuf_pool s"]
  by (auto simp: pbuf_avail_def)

lemma pbuf_avail_head:
  assumes "pbuf_avail s (x # xs)"
  shows "x \<in> set pbuf_slots" "x \<notin> set xs" "0 < x" "pb_flags (pbuf s x) = T_PBUF_FLAG_POOL"
proof -
  from assms have "chained (pb_link s) (pbuf_pool s) (x # xs)" by (simp add: pbuf_avail_def)
  from chained_distinct [OF this] show "x \<notin> set xs" by simp
  from assms show "x \<in> set pbuf_slots" by (simp add: pbuf_avail_def)
  then show "0 < x" by (rule pbuf_slots_pos)
  from assms show "pb_flags (pbuf s x) = T_PBUF_FLAG_POOL" by (simp add: pbuf_avail_def)
qed

lemma pbuf_returned:
  assumes "pbuf_avail s xs" and "x \<in> set pbuf_slots" and "x \<notin> set xs"
    and "pb_flags b = T_PBUF_FLAG_POOL" and "pb_ref b = 1" and "pb_next b = NULL"
    and "pbuf_pool t = pbuf_pool s" and "\<And>y. y \<in> set xs \<Longrightarrow> pbuf t y = pbuf s y" and "pbuf t x = b"
  shows "\<exists>n t'. t_pbuf_free x t = Some (n, t') \<and> pbuf_avail t' (x # xs) \<and>
    t' = t\<lparr>pbuf := pbuf t', pbuf_pool := pbuf_pool t'\<rparr>"
proof -
  have "pbuf_avail t xs" using assms(1) pbuf_avail_frame [OF assms(7,8)] by blast
  moreover have "pbuf_owned t x" using assms(4-6,9) by (simp add: pbuf_owned_def)
  ultimately have "pbuf_avail t xs" "pbuf_owned t x" by simp_all
  note freed = pbuf_free_owned [OF this(1) assms(2,3) this(2)]
  show ?thesis by (rule exI, rule exI, rule conjI, rule freed(1), rule conjI, rule freed(2)) simp
qed

text \<open>The configuration sequence of \<^verbatim>\<open>ether_init\<close>: address, masks, driver.\<close>

lemma hwaddr_written: 
  "length h = 6 \<Longrightarrow> fold (\<lambda>i h. h[i := f i]) [0, Suc 0, 2, 3, 4, 5] h = map f [0..<6]"
proof -
  assume "length h = 6"
  then obtain a b c d e g where "h = [a, b, c, d, e, g]"
    by (auto simp: length_Suc_conv eval_nat_numeral)
  then show ?thesis by (simp add: upt_rec numeral_eq_Suc)
qed

lemma load_bytes_map: "map (\<lambda>i. mem s (a + i)) [0..<n] = load_bytes a n s"
  by (simp add: load_bytes_def)

text \<open>Configuring an interface as \<open>ether_init\<close> does and adding it gives an interface that is ready to
  send, first in the list, the default, with the addresses given; the interfaces that were in the
  list stay in it behind the new one.\<close>

theorem netif_configured:
  assumes "chained (nif_link s) (netif_list s) ns" and "n \<noteq> NULL" and "n \<notin> set ns"
    and "length (nif_hwaddr (netif s n)) = 6" and "accessible mac 6"
  shows "\<exists>s'. do {
      (_, s) \<leftarrow> t_netif_set_mac n mac s;
      (_, s) \<leftarrow> t_netif_set_addr n ip msk gw s;
      t_netif_add n (\<lambda>_ s. Some (0, s)) Output_ether0 s } = Some (0, s') \<and>
    netif_up s' n \<and> nif_hwaddr (netif s' n) = load_bytes mac 6 s \<and>
    nif_ip_addr (netif s' n) = ip \<and> nif_netmask (netif s' n) = msk \<and>
    chained (nif_link s') (netif_list s') (n # ns) \<and> netif_default s' = n \<and>
    (\<forall>m. m \<noteq> n \<longrightarrow> netif s' m = netif s m)"
proof -
  have link: "(\<lambda>x. nif_next (if x = n then r else netif s x)) = (nif_link s)(n := nif_next r)" for r
    by auto
  show ?thesis
    using assms by (simp add: t_netif_set_mac_def set_mac_loop_upd t_netif_set_addr_def
        t_netif_set_ipaddr_def t_netif_set_netmask_def t_netif_set_gw_def t_netif_add_def netif_up_def
        hwaddr_written load_bytes_map Let_def link del: fold.simps)
qed

theorem netif_configured_witness:
  "\<exists>s'. do {
      (_, s) \<leftarrow> t_netif_set_mac 0x300 0x100 netif_boot;
      (_, s) \<leftarrow> t_netif_set_addr 0x300 0x7001A8C0 0x00FFFFFF 0x0101A8C0 s;
      t_netif_add 0x300 (\<lambda>_ s. Some (0, s)) Output_ether0 s } = Some (0, s') \<and>
    netif_up s' 0x300 \<and> nif_ip_addr (netif s' 0x300) = 0x7001A8C0"
proof -
  have "chained (nif_link netif_boot) (netif_list netif_boot) []" "(0x300 :: ptr) \<noteq> NULL"
    "(0x300 :: ptr) \<notin> set []" "length (nif_hwaddr (netif netif_boot 0x300)) = 6"
    by (simp_all add: netif_boot_def pbuf_st.defs)
  moreover have "accessible 0x100 6" by (simp add: accessible_def user_range_def memp_memory_def)
  ultimately show ?thesis
    using netif_configured [of netif_boot "[]" "0x300" "0x100" "0x7001A8C0" "0x00FFFFFF" "0x0101A8C0"]
    by blast
qed

text \<open>A state with a full pool and one interface that is ready to send, for the witnesses.\<close>

definition online :: "'a netif_st_scheme \<Rightarrow> 'a netif_st_scheme" where
  "online s = (t_pbuf_init s)\<lparr>netif := (netif s)(0x300 := \<lparr>nif_next = NULL, nif_ip_addr = 0x7001A8C0,
     nif_netmask = 0x00FFFFFF, nif_gw = 0x0101A8C0, nif_output = Output_ether0,
     nif_hwaddr = [0xb0, 0x6e, 0xbf, 0x37, 0x50, 0xb0], nif_hwaddr_len = 6\<rparr>),
     netif_list := 0x300, netif_default := 0x300, sent := []\<rparr>"

lemma online_facts:
  "netif_up (online s) 0x300" "pbuf_avail (online s) pbuf_slots" "sent (online s) = []"
  "nif_ip_addr (netif (online s) 0x300) = 0x7001A8C0"
  "nif_netmask (netif (online s) 0x300) = 0x00FFFFFF"
  "nif_hwaddr (netif (online s) 0x300) = [0xb0, 0x6e, 0xbf, 0x37, 0x50, 0xb0]"
  "chained (nif_link (online s)) (netif_list (online s)) [0x300]" "netif_default (online s) = 0x300"
  using pbuf_init_correct [of s] by (auto simp: online_def netif_up_def pbuf_avail_def)

lemma two_buffers_netif:
  "netif (two_buffers s) = netif s" "netif_list (two_buffers s) = netif_list s"
  "netif_default (two_buffers s) = netif_default s" "sent (two_buffers s) = sent s"
  by (subst two_buffers_facts(10), simp)+

end
