(* ===== verification/Arp.thy ===== *)
theory Arp
  imports Netif
begin

text \<open>
  \<^verbatim>\<open>core/t_arp.c\<close>, \<^verbatim>\<open>include/t_arp.h\<close>: the address resolution protocol.  The table is the static
  array of \<open>T_ARP_TABLE_SIZE\<close> entries with a count; its abstraction is the list of the first \<open>count\<close>
  entries.  Packets are read and written in place in the buffer that brought them.
\<close>

section \<open>Constants and state\<close>

definition T_ARP_TABLE_SIZE :: nat where "T_ARP_TABLE_SIZE = 20"
definition T_ARP_REQUEST :: u16 where "T_ARP_REQUEST = 0x0001"
definition T_ARP_REPLY :: u16 where "T_ARP_REPLY = 0x0002"
definition T_ARP_FRAME_TYPE :: u16 where "T_ARP_FRAME_TYPE = 0x0806"
definition T_IPV4_FRAME_TYPE :: u16 where "T_IPV4_FRAME_TYPE = 0x0800"

record t_arp_entry =
  arp_ip :: u32
  arp_mac :: "u8 list"

record arp_st = netif_st +
  t_arp_table :: "nat \<Rightarrow> t_arp_entry"
  table_count :: u16

lemma arp_stores [simp]:
  "t_arp_table (store8 a u s) = t_arp_table s" "t_arp_table (store16 a v s) = t_arp_table s"
  "t_arp_table (store32 a w s) = t_arp_table s"
  "t_arp_table (store_bytes a bs s) = t_arp_table s"
  "table_count (store8 a u s) = table_count s" "table_count (store16 a v s) = table_count s"
  "table_count (store32 a w s) = table_count s"
  "table_count (store_bytes a bs s) = table_count s"
  by (simp_all add: store8_def store16_def store32_def store_bytes_def)

definition arp_boot :: arp_st where
  "arp_boot = netif_st.extend netif_boot
     \<lparr>t_arp_table = (\<lambda>_. \<lparr>arp_ip = 0, arp_mac = replicate 6 0\<rparr>), table_count = 0\<rparr>"

text \<open>The fields of the packed struct \<^verbatim>\<open>t_etharp_hdr\<close>, by their offset from the frame's first byte.\<close>

abbreviation (input) eth_dst :: "ptr \<Rightarrow> ptr" where "eth_dst h \<equiv> h"
abbreviation (input) eth_src :: "ptr \<Rightarrow> ptr" where "eth_src h \<equiv> h + 6"
abbreviation (input) eth_frame_type :: "ptr \<Rightarrow> ptr" where "eth_frame_type h \<equiv> h + 12"
abbreviation (input) arp_hwtype :: "ptr \<Rightarrow> ptr" where "arp_hwtype h \<equiv> h + 14"
abbreviation (input) arp_proto :: "ptr \<Rightarrow> ptr" where "arp_proto h \<equiv> h + 16"
abbreviation (input) arp_hwlen_protolen :: "ptr \<Rightarrow> ptr" where "arp_hwlen_protolen h \<equiv> h + 18"
abbreviation (input) arp_opcode :: "ptr \<Rightarrow> ptr" where "arp_opcode h \<equiv> h + 20"
abbreviation (input) arp_sender_mac :: "ptr \<Rightarrow> ptr" where "arp_sender_mac h \<equiv> h + 22"
abbreviation (input) arp_sender_ip :: "ptr \<Rightarrow> ptr" where "arp_sender_ip h \<equiv> h + 28"
abbreviation (input) arp_target_mac :: "ptr \<Rightarrow> ptr" where "arp_target_mac h \<equiv> h + 32"
abbreviation (input) arp_target_ip :: "ptr \<Rightarrow> ptr" where "arp_target_ip h \<equiv> h + 38"

definition sizeof_t_etharp_hdr :: nat where "sizeof_t_etharp_hdr = 42"

section \<open>Operations\<close>

definition t_arp_init :: "'a arp_st_scheme \<Rightarrow> 'a arp_st_scheme" where
  "t_arp_init s = s\<lparr>table_count := 0\<rparr>"

definition ip_addr_isany :: "u32 \<Rightarrow> bool" where "ip_addr_isany a \<longleftrightarrow> a = 0"
definition ip_addr_isbroadcast :: "u32 \<Rightarrow> bool" where "ip_addr_isbroadcast a \<longleftrightarrow> a = 0xFFFFFFFF"

text \<open>The search loop: the index of the first entry with the given hardware address.\<close>

fun find_mac :: "nat list \<Rightarrow> u8 list \<Rightarrow> (nat \<Rightarrow> t_arp_entry) \<Rightarrow> nat option" where
  "find_mac [] mac table = None"
| "find_mac (i # is) mac table = (if mac = arp_mac (table i) then Some i else find_mac is mac table)"

definition t_update_arp_entry :: "ptr \<Rightarrow> u32 \<Rightarrow> u8 list \<Rightarrow> 'a arp_st_scheme \<Rightarrow> 'a arp_st_scheme" where
  "t_update_arp_entry inp ip mac s =
     (if \<not> ip_addr_isany ip \<and> \<not> ip_addr_isbroadcast ip then
        case find_mac [0..<unat (table_count s)] mac (t_arp_table s) of
          Some i \<Rightarrow> s\<lparr>t_arp_table := (t_arp_table s)(i := (t_arp_table s i)\<lparr>arp_ip := ip\<rparr>)\<rparr>
        | None \<Rightarrow>
            if unat (table_count s) < T_ARP_TABLE_SIZE then
              let i = unat (table_count s);
                  s = s\<lparr>t_arp_table := (t_arp_table s)(i := (t_arp_table s i)\<lparr>arp_ip := ip\<rparr>)\<rparr>;
                  s = s\<lparr>t_arp_table := (t_arp_table s)(i := (t_arp_table s i)\<lparr>arp_mac := mac\<rparr>)\<rparr>
              in s\<lparr>table_count := table_count s + 1\<rparr>
            else s
      else s)"

definition t_arp_request :: "ptr \<Rightarrow> u32 \<Rightarrow> 'a arp_st_scheme \<Rightarrow> (int \<times> 'a arp_st_scheme) option" where
  "t_arp_request inp ip s = do {
     (p, s) \<leftarrow> t_pbuf_alloc 0 (of_nat sizeof_t_etharp_hdr) T_PBUF_FLAG_POOL s;
     if p = NULL then Some (-1, s)
     else do {
       let hdr = pb_payload (pbuf s p);
       defined (accessible hdr sizeof_t_etharp_hdr \<and> inp \<noteq> NULL);
       let s = store16 (arp_hwtype hdr) (htons 0x1) s;
       let s = store16 (arp_proto hdr) (htons T_IPV4_FRAME_TYPE) s;
       let s = store16 (arp_hwlen_protolen hdr) (htons 0x0604) s;
       let s = store16 (arp_opcode hdr) (htons T_ARP_REQUEST) s;
       let s = store_bytes (arp_sender_mac hdr) (nif_hwaddr (netif s inp)) s;
       let s = store32 (arp_sender_ip hdr) (nif_ip_addr (netif s inp)) s;
       let s = store_bytes (arp_target_mac hdr) (replicate 6 0xff) s;
       let s = store32 (arp_target_ip hdr) ip s;
       let s = store_bytes (eth_dst hdr) (replicate 6 0xff) s;
       let s = store_bytes (eth_src hdr) (nif_hwaddr (netif s inp)) s;
       let s = store16 (eth_frame_type hdr) (htons T_ARP_FRAME_TYPE) s;
       (_, s) \<leftarrow> call_output inp p s;
       (_, s) \<leftarrow> t_pbuf_free p s;
       Some (0, s)
     }
   }"

text \<open>The loop of the reply, which moves one byte of each of the four hardware addresses per turn.\<close>

fun arp_reply_loop :: "nat list \<Rightarrow> ptr \<Rightarrow> ptr \<Rightarrow> 'a arp_st_scheme \<Rightarrow> 'a arp_st_scheme" where
  "arp_reply_loop [] hdr inp s = s"
| "arp_reply_loop (i # is) hdr inp s =
     (let s = store8 (eth_dst hdr + i) (mem s (eth_src hdr + i)) s;
          s = store8 (arp_target_mac hdr + i) (mem s (eth_src hdr + i)) s;
          s = store8 (eth_src hdr + i) (nif_hwaddr (netif s inp) ! i) s;
          s = store8 (arp_sender_mac hdr + i) (nif_hwaddr (netif s inp) ! i) s
      in arp_reply_loop is hdr inp s)"

definition t_ip_addr_cmp :: "u32 \<Rightarrow> u32 \<Rightarrow> bool" where
  "t_ip_addr_cmp a b \<longleftrightarrow> \<not> a = b"

definition t_arp_input :: "ptr \<Rightarrow> ptr \<Rightarrow> 'a arp_st_scheme \<Rightarrow> (int \<times> 'a arp_st_scheme) option" where
  "t_arp_input p inp s = do {
     defined (p \<noteq> NULL);
     if sizeof_t_etharp_hdr \<le> unat (pb_tot_len (pbuf s p)) then do {
       let hdr = pb_payload (pbuf s p);
       defined (accessible hdr sizeof_t_etharp_hdr \<and> inp \<noteq> NULL);
       let for_us = \<not> t_ip_addr_cmp (load32 (arp_target_ip hdr) s) (nif_ip_addr (netif s inp));
       if for_us then
         if htons (load16 (arp_opcode hdr) s) = T_ARP_REQUEST then do {
           let s = store16 (arp_opcode hdr) (htons T_ARP_REPLY) s;
           let s = store32 (arp_target_ip hdr) (load32 (arp_sender_ip hdr) s) s;
           let s = store32 (arp_sender_ip hdr) (nif_ip_addr (netif s inp)) s;
           let s = arp_reply_loop [0, 1, 2, 3, 4, 5] hdr inp s;
           (_, s) \<leftarrow> call_output inp p s;
           Some (0, s)
         }
         else if htons (load16 (arp_opcode hdr) s) = T_ARP_REPLY then
           Some (0, t_update_arp_entry inp (load32 (arp_sender_ip hdr) s)
                      (load_bytes (arp_sender_mac hdr) 6 s) s)
         else Some (0, s)
       else Some (0, s)
     } else Some (0, s)
   }"

section \<open>The table\<close>

text \<open>
  The table as a list, and what learning a pair should do to it: the first entry with the hardware
  address gets the new protocol address, an unknown hardware address is appended while there is room,
  and neither the null nor the broadcast address is learnt.
\<close>

definition arp_abs :: "'a arp_st_scheme \<Rightarrow> t_arp_entry list" where
  "arp_abs s = map (t_arp_table s) [0..<unat (table_count s)]"

fun learn :: "u32 \<Rightarrow> u8 list \<Rightarrow> t_arp_entry list \<Rightarrow> t_arp_entry list" where
  "learn ip mac [] = [\<lparr>arp_ip = ip, arp_mac = mac\<rparr>]"
| "learn ip mac (e # es) = (if mac = arp_mac e then e\<lparr>arp_ip := ip\<rparr> # es else e # learn ip mac es)"

definition arp_learn :: "u32 \<Rightarrow> u8 list \<Rightarrow> t_arp_entry list \<Rightarrow> t_arp_entry list" where
  "arp_learn ip mac es =
     (if ip = 0 \<or> ip = 0xFFFFFFFF \<or> T_ARP_TABLE_SIZE < length (learn ip mac es) then es
      else learn ip mac es)"

definition arp_inv :: "'a arp_st_scheme \<Rightarrow> bool" where
  "arp_inv s \<longleftrightarrow> unat (table_count s) \<le> T_ARP_TABLE_SIZE \<and> distinct (map arp_mac (arp_abs s))"

lemma find_mac_None: "find_mac is mac T = None \<longleftrightarrow> (\<forall>i \<in> set is. mac \<noteq> arp_mac (T i))"
  by (induction "is") auto

lemma find_mac_Some:
  "find_mac is mac T = Some i \<Longrightarrow>
     \<exists>us vs. is = us @ i # vs \<and> mac = arp_mac (T i) \<and> (\<forall>u \<in> set us. mac \<noteq> arp_mac (T u))"
proof (induction "is")
  case (Cons j js)
  show ?case
  proof (cases "mac = arp_mac (T j)")
    case True
    with Cons.prems show ?thesis by (auto intro: exI [of _ "[]"])
  next
    case False
    with Cons obtain us vs where "js = us @ i # vs" "mac = arp_mac (T i)" "\<forall>u \<in> set us. mac \<noteq> arp_mac (T u)"
      by auto
    with False show ?thesis by (intro exI [of _ "j # us"] exI [of _ vs]) auto
  qed
qed simp

lemma learn_unknown:
  "mac \<notin> arp_mac ` set es \<Longrightarrow> learn ip mac es = es @ [\<lparr>arp_ip = ip, arp_mac = mac\<rparr>]"
  by (induction es) auto

lemma learn_known:
  "mac = arp_mac e \<Longrightarrow> mac \<notin> arp_mac ` set us \<Longrightarrow> learn ip mac (us @ e # vs) = us @ e\<lparr>arp_ip := ip\<rparr> # vs"
  by (induction us) auto

lemma learn_macs:
  "map arp_mac (learn ip mac es) =
     (if mac \<in> arp_mac ` set es then map arp_mac es else map arp_mac es @ [mac])"
  by (induction es) auto

lemma learn_find: "find (\<lambda>e. arp_mac e = mac) (learn ip mac es) \<noteq> None \<and>
    arp_ip (the (find (\<lambda>e. arp_mac e = mac) (learn ip mac es))) = ip"
  by (induction es) auto

lemma arp_update_abs:
  assumes "unat (table_count s) \<le> T_ARP_TABLE_SIZE"
  shows "arp_abs (t_update_arp_entry inp ip mac s) = arp_learn ip mac (arp_abs s)"
    and "unat (table_count (t_update_arp_entry inp ip mac s)) \<le> T_ARP_TABLE_SIZE"
proof -
  let ?n = "unat (table_count s)" and ?T = "t_arp_table s"
  have "arp_abs (t_update_arp_entry inp ip mac s) = arp_learn ip mac (arp_abs s) \<and>
    unat (table_count (t_update_arp_entry inp ip mac s)) \<le> T_ARP_TABLE_SIZE"
  proof (cases "ip = 0 \<or> ip = 0xFFFFFFFF")
    case True
    then show ?thesis using assms
      by (auto simp: t_update_arp_entry_def ip_addr_isany_def ip_addr_isbroadcast_def arp_learn_def)
  next
    case False
    then have ok: "\<not> ip_addr_isany ip" "\<not> ip_addr_isbroadcast ip"
      by (auto simp: ip_addr_isany_def ip_addr_isbroadcast_def)
    show ?thesis
    proof (cases "find_mac [0..<?n] mac ?T")
      case (Some i)
      from find_mac_Some [OF Some] obtain us vs where i: "[0..<?n] = us @ i # vs"
        "mac = arp_mac (?T i)" "\<forall>u \<in> set us. mac \<noteq> arp_mac (?T u)" by blast
      have "distinct (us @ i # vs)" using distinct_upt [of 0 ?n] i(1) by simp
      then have upd: "map (?T(i := e)) [0..<?n] = map ?T us @ e # map ?T vs" for e
        unfolding i(1) by (auto simp: map_eq_conv)
      have "arp_abs s = map ?T us @ ?T i # map ?T vs" by (simp add: arp_abs_def i(1))
      moreover have "learn ip mac (map ?T us @ ?T i # map ?T vs) =
          map ?T us @ (?T i)\<lparr>arp_ip := ip\<rparr> # map ?T vs"
        using i(2,3) by (intro learn_known) auto
      moreover have "length (us @ i # vs) \<le> T_ARP_TABLE_SIZE"
        using assms i(1) by (metis diff_zero length_upt)
      ultimately show ?thesis using False Some ok assms upd
        by (auto simp: t_update_arp_entry_def arp_learn_def arp_abs_def)
    next
      case None
      then have un: "mac \<notin> arp_mac ` set (arp_abs s)"
        by (auto simp: find_mac_None arp_abs_def)
      show ?thesis
      proof (cases "?n < T_ARP_TABLE_SIZE")
        case True
        have "unat (table_count s + 1) = ?n + 1"
          using True by (simp add: unat_word_ariths T_ARP_TABLE_SIZE_def)
        moreover have "(?T ?n)\<lparr>arp_ip := ip, arp_mac := mac\<rparr> = \<lparr>arp_ip = ip, arp_mac = mac\<rparr>"
          by (cases "?T ?n") simp
        ultimately show ?thesis using True False None ok learn_unknown [OF un, of ip]
          by (simp add: t_update_arp_entry_def arp_learn_def Let_def) (auto simp: arp_abs_def)
      next
        case False': False
        then show ?thesis using None ok assms False learn_unknown [OF un, of ip]
          by (simp add: t_update_arp_entry_def arp_learn_def) (auto simp: arp_abs_def)
      qed
    qed
  qed
  then show "arp_abs (t_update_arp_entry inp ip mac s) = arp_learn ip mac (arp_abs s)"
    "unat (table_count (t_update_arp_entry inp ip mac s)) \<le> T_ARP_TABLE_SIZE" by simp_all
qed

lemma arp_update_inv: "arp_inv s \<Longrightarrow> arp_inv (t_update_arp_entry inp ip mac s)"
  unfolding arp_inv_def using arp_update_abs [of s inp ip mac]
  by (auto simp: arp_learn_def learn_macs)

text \<open>C18: The array with its count implements the table: an update does to the abstract list what
  learning should do, keeps the count within the array and the hardware addresses distinct.\<close>

theorem arp_update_refines:
  assumes "arp_inv s"
  shows "arp_abs (t_update_arp_entry inp ip mac s) = arp_learn ip mac (arp_abs s) \<and>
    arp_inv (t_update_arp_entry inp ip mac s)"
proof (rule conjI)
  show "arp_abs (t_update_arp_entry inp ip mac s) = arp_learn ip mac (arp_abs s)"
    using assms by (intro arp_update_abs(1)) (simp add: arp_inv_def)
qed (rule arp_update_inv [OF assms])

theorem arp_update_refines_witness:
  "arp_inv arp_boot \<and> arp_abs (t_update_arp_entry 0x300 5 [1, 2, 3, 4, 5, 6] arp_boot) =
     [\<lparr>arp_ip = 5, arp_mac = [1, 2, 3, 4, 5, 6]\<rparr>]"
proof -
  have inv: "arp_inv arp_boot" by (simp add: arp_inv_def arp_abs_def arp_boot_def netif_st.defs)
  have "arp_abs arp_boot = []" by (simp add: arp_abs_def arp_boot_def netif_st.defs)
  with inv arp_update_refines [OF inv, of "0x300" 5 "[1, 2, 3, 4, 5, 6]"] show ?thesis
    by (simp add: arp_learn_def T_ARP_TABLE_SIZE_def)
qed

text \<open>After an update with an ordinary address, the table maps the hardware address to it, unless
  the table is full of others; nothing is ever evicted or aged.\<close>

theorem arp_update_lookup:
  assumes "arp_inv s" and "ip \<noteq> 0" and "ip \<noteq> 0xFFFFFFFF"
    and "mac \<in> arp_mac ` set (arp_abs s) \<or> unat (table_count s) < T_ARP_TABLE_SIZE"
  shows "\<exists>e. find (\<lambda>e. arp_mac e = mac) (arp_abs (t_update_arp_entry inp ip mac s)) = Some e \<and> arp_ip e = ip"
proof -
  have "length (learn ip mac (arp_abs s)) = length (map arp_mac (learn ip mac (arp_abs s)))" by simp
  also have "\<dots> \<le> T_ARP_TABLE_SIZE" using assms(1,4)
    unfolding learn_macs by (auto simp: arp_inv_def arp_abs_def)
  finally have "arp_learn ip mac (arp_abs s) = learn ip mac (arp_abs s)"
    using assms(2,3) by (simp add: arp_learn_def)
  then show ?thesis
    using arp_update_abs(1) [of s inp ip mac] assms(1) learn_find [of mac ip "arp_abs s"]
    by (auto simp: arp_inv_def)
qed

theorem arp_update_lookup_witness:
  "\<exists>e. find (\<lambda>e. arp_mac e = [1, 2, 3, 4, 5, 6])
       (arp_abs (t_update_arp_entry 0x300 5 [1, 2, 3, 4, 5, 6] arp_boot)) = Some e \<and> arp_ip e = 5"
proof -
  have "arp_inv arp_boot" by (simp add: arp_inv_def arp_abs_def arp_boot_def netif_st.defs)
  moreover have "unat (table_count arp_boot) < T_ARP_TABLE_SIZE"
    by (simp add: arp_boot_def netif_st.defs T_ARP_TABLE_SIZE_def)
  ultimately show ?thesis using arp_update_lookup [of arp_boot 5 "[1, 2, 3, 4, 5, 6]" "0x300"] by simp
qed

section \<open>Packets\<close>

text \<open>The frame of an ARP packet: Ethernet header, the fixed fields, then the two address pairs.\<close>

definition arp_frame :: "u8 list \<Rightarrow> u8 list \<Rightarrow> u16 \<Rightarrow> u8 list \<Rightarrow> u32 \<Rightarrow> u8 list \<Rightarrow> u32 \<Rightarrow> u8 list" where
  "arp_frame dst src opcode sender_mac sender_ip target_mac target_ip =
     dst @ src @ be16 0x0806 @ be16 1 @ be16 0x0800 @ be16 0x0604 @ be16 opcode @
     sender_mac @ raw32 sender_ip @ target_mac @ raw32 target_ip"

text \<open>The 42 bytes of a frame, field by field.\<close>

lemma arp_bytes:
  "load_bytes h 42 s = load_bytes h 6 s @ load_bytes (eth_src h) 6 s @ load_bytes (eth_frame_type h) 2 s @
     load_bytes (arp_hwtype h) 2 s @ load_bytes (arp_proto h) 2 s @ load_bytes (arp_hwlen_protolen h) 2 s @
     load_bytes (arp_opcode h) 2 s @ load_bytes (arp_sender_mac h) 6 s @ load_bytes (arp_sender_ip h) 4 s @
     load_bytes (arp_target_mac h) 6 s @ load_bytes (arp_target_ip h) 4 s"
  using load_bytes_parts [of h "[6, 6, 2, 2, 2, 2, 2, 6, 4, 6, 4]" s] by (simp add: add.commute)

text \<open>A request takes a buffer, broadcasts one well-formed ARP request for the address and gives the
  buffer back: the pool is as it was.  With an empty pool it fails and sends nothing.\<close>

theorem arp_request_spec:
  assumes "pbuf_avail s xs" and "netif_up s inp"
  shows "\<exists>r s'. t_arp_request inp ip s = Some (r, s') \<and> pbuf_avail s' xs \<and> netif s' = netif s \<and>
    (if xs = [] then r = -1 \<and> sent s' = sent s
     else r = 0 \<and> sent s' = sent s @ [arp_frame (replicate 6 0xff) (nif_hwaddr (netif s inp)) T_ARP_REQUEST
       (nif_hwaddr (netif s inp)) (nif_ip_addr (netif s inp)) (replicate 6 0xff) ip])"
proof (cases xs)
  case Nil
  with assms(1) show ?thesis by (simp add: t_arp_request_def pbuf_alloc_empty)
next
  case (Cons p ys)
  let ?hw = "nif_hwaddr (netif s inp)" and ?h = "p + sizeof_t_pbuf"
  from assms(2) have up: "inp \<noteq> NULL" "length ?hw = 6" "nif_output (netif s inp) = Output_ether0"
    by (simp_all add: netif_up_def)
  have adm: "alloc_admissible (0, of_nat sizeof_t_etharp_hdr, T_PBUF_FLAG_POOL)"
    by (simp add: alloc_admissible_def sizeof_t_etharp_hdr_def T_PBUF_BUFSIZE_def)
  note av = assms(1) [unfolded Cons]
  note al = pbuf_alloc_next [OF adm av]
  note hd = pbuf_avail_head [OF av]
  define b where "b = (pbuf s p)\<lparr>pb_next := NULL, pb_ref := 1, pb_payload := ?h + unat (0 :: u16),
      pb_tot_len := of_nat sizeof_t_etharp_hdr, pb_len := of_nat sizeof_t_etharp_hdr\<rparr>"
  define s1 where "s1 = s\<lparr>pbuf_pool := pb_next (pbuf s p), pbuf := (pbuf s)(p := b)\<rparr>"
  have acc: "accessible ?h 42"
    using hd(1) by (rule accessible_in_slot) (simp_all add: sizeof_t_pbuf_def pbuf_slot_eq)
  have s1: "netif s1 = netif s" "pbuf s1 p = b" "sent s1 = sent s" by (simp_all add: s1_def)
  have b: "pb_payload b = ?h" "pb_tot_len b = 42" by (simp_all add: b_def sizeof_t_etharp_hdr_def)
  define t where "t = store16 (eth_frame_type ?h) (htons T_ARP_FRAME_TYPE) (store_bytes (eth_src ?h) ?hw
    (store_bytes (eth_dst ?h) (replicate 6 0xff) (store32 (arp_target_ip ?h) ip
    (store_bytes (arp_target_mac ?h) (replicate 6 0xff) (store32 (arp_sender_ip ?h) (nif_ip_addr (netif s inp))
    (store_bytes (arp_sender_mac ?h) ?hw (store16 (arp_opcode ?h) (htons T_ARP_REQUEST)
    (store16 (arp_hwlen_protolen ?h) (htons 0x0604) (store16 (arp_proto ?h) (htons T_IPV4_FRAME_TYPE)
    (store16 (arp_hwtype ?h) (htons 0x1) s1))))))))))"
  have bytes: "load_bytes ?h 42 t = arp_frame (replicate 6 0xff) ?hw T_ARP_REQUEST ?hw
      (nif_ip_addr (netif s inp)) (replicate 6 0xff) ip"
    unfolding arp_bytes arp_frame_def t_def
    by (simp add: mem_simps be16_def up(2) T_ARP_FRAME_TYPE_def T_IPV4_FRAME_TYPE_def)
  have t: "netif t = netif s" "pbuf t = pbuf s1" "pbuf_pool t = pbuf_pool s1" "sent t = sent s"
    by (simp_all add: t_def s1)
  define u where "u = t\<lparr>sent := sent t @ [load_bytes ?h 42 t]\<rparr>"
  have "netif_up t inp" using assms(2) t by (simp add: netif_up_def)
  from netif_up_output [OF this, of p] hd(3) acc t(2) s1(2) b
  have out: "call_output inp p t = Some (0, u)" by (simp add: u_def)
  have "\<exists>n t'. t_pbuf_free p u = Some (n, t') \<and> pbuf_avail t' (p # ys) \<and>
      t' = u\<lparr>pbuf := pbuf t', pbuf_pool := pbuf_pool t'\<rparr>"
  proof (rule pbuf_returned [OF al(2) hd(1,2)])
    show "pb_flags b = T_PBUF_FLAG_POOL" "pb_ref b = 1" "pb_next b = NULL" using hd(4) by (simp_all add: b_def)
    show "pbuf u p = b" by (simp add: u_def t s1)
  qed (simp_all add: u_def t s1_def b_def)
  then obtain n t' where free: "t_pbuf_free p u = Some (n, t')" "pbuf_avail t' (p # ys)"
    "t' = u\<lparr>pbuf := pbuf t', pbuf_pool := pbuf_pool t'\<rparr>" by blast
  have "sent t' = sent u" "netif t' = netif s" by (subst free(3), simp add: u_def t(1))+
  moreover have "t_pbuf_alloc 0 (of_nat sizeof_t_etharp_hdr) T_PBUF_FLAG_POOL s = Some (p, s1)"
    unfolding al(1) s1_def b_def by (rule refl)
  moreover have "accessible ?h sizeof_t_etharp_hdr" using acc by (simp add: sizeof_t_etharp_hdr_def)
  ultimately have "sent t' = sent u" "netif t' = netif s" "t_arp_request inp ip s = Some (0, t')"
    using hd(3) up(1) out free(1) unfolding t_def t_arp_request_def by (simp_all add: s1 b(1) Let_def)
  then show ?thesis using free(2) Cons bytes t(4) by (simp add: u_def)
qed

theorem arp_request_spec_witness:
  "\<exists>s'. t_arp_request 0x300 0x6401A8C0 (online arp_boot) = Some (0, s') \<and> length (sent s') = 1"
proof -
  have ne: "pbuf_slots \<noteq> []" by (simp add: pbuf_slots_def T_PBUF_POOL_SIZE_def)
  from arp_request_spec [OF online_facts(2,1) [of arp_boot], where ip = "0x6401A8C0"] show ?thesis
    unfolding online_facts(3) by (elim exE conjE) (simp add: ne)
qed

text \<open>The loop of the reply moves the sender's address to the two destination fields and the
  interface's address to the two sender fields.\<close>

lemma arp_reply_loop_frame:
  "arp_reply_loop is h inp s = s\<lparr>mem := mem (arp_reply_loop is h inp s)\<rparr>"
proof (induction "is" arbitrary: s)
  case (Cons i "is")
  show ?case unfolding arp_reply_loop.simps Let_def by (subst Cons.IH) (simp add: store8_def)
qed simp

lemma arp_reply_loop_other:
  "\<forall>i \<in> set is. i < 6 \<Longrightarrow> h + 12 \<le> x \<and> x < h + 22 \<or> h + 28 \<le> x \<and> x < h + 32 \<or> h + 38 \<le> x \<Longrightarrow>
     mem (arp_reply_loop is h inp s) x = mem s x"
  by (induction "is" arbitrary: s) (auto simp: Let_def mem_store8)

lemma arp_reply_loop_step:
  assumes "i < 6" and "j < 6"
    and "t = store8 (h + 22 + i) w (store8 (h + 6 + i) w
      (store8 (h + 32 + i) (mem s (h + 6 + i)) (store8 (h + i) (mem s (h + 6 + i)) s)))"
  shows "mem t (h + j) = (if i = j then mem s (h + 6 + j) else mem s (h + j))"
    and "mem t (h + 6 + j) = (if i = j then w else mem s (h + 6 + j))"
    and "mem t (h + 22 + j) = (if i = j then w else mem s (h + 22 + j))"
    and "mem t (h + 32 + j) = (if i = j then mem s (h + 6 + j) else mem s (h + 32 + j))"
  using assms by (simp_all add: mem_store8)

lemma arp_reply_loop_mem:
  assumes "\<forall>i \<in> set is. i < 6" and "distinct is" and "j < 6"
  shows "mem (arp_reply_loop is h inp s) (h + j) = (if j \<in> set is then mem s (h + 6 + j) else mem s (h + j)) \<and>
    mem (arp_reply_loop is h inp s) (h + 6 + j) =
      (if j \<in> set is then nif_hwaddr (netif s inp) ! j else mem s (h + 6 + j)) \<and>
    mem (arp_reply_loop is h inp s) (h + 22 + j) =
      (if j \<in> set is then nif_hwaddr (netif s inp) ! j else mem s (h + 22 + j)) \<and>
    mem (arp_reply_loop is h inp s) (h + 32 + j) =
      (if j \<in> set is then mem s (h + 6 + j) else mem s (h + 32 + j))"
  using assms(1,2)
proof (induction "is" arbitrary: s)
  case (Cons i "is")
  define t where "t = store8 (h + 22 + i) (nif_hwaddr (netif s inp) ! i)
    (store8 (h + 6 + i) (nif_hwaddr (netif s inp) ! i)
      (store8 (h + 32 + i) (mem s (h + 6 + i)) (store8 (h + i) (mem s (h + 6 + i)) s)))"
  have i: "i < 6" using Cons.prems by simp
  have loop: "arp_reply_loop (i # is) h inp s = arp_reply_loop is h inp t"
    using i by (simp add: Let_def mem_store8 t_def)
  have nif: "netif t = netif s" by (simp add: t_def)
  note m = arp_reply_loop_step [OF i assms(3) t_def]
  have "\<forall>i \<in> set is. i < 6" "distinct is" "i \<notin> set is" using Cons.prems by auto
  with Cons.IH [of t] show ?case unfolding loop m nif by auto
qed simp

text \<open>
  The bytes of a received ARP packet and the reply to it.  The reply's Ethernet destination and target
  hardware address are the request's Ethernet source, whatever its sender hardware address says.
\<close>

lemma arp_reply_bytes:
  assumes hw: "length (nif_hwaddr (netif s inp)) = 6"
    and fixed: "load_bytes (eth_frame_type h) 8 s = be16 0x0806 @ be16 1 @ be16 0x0800 @ be16 0x0604"
    and t: "t = store32 (arp_sender_ip h) (nif_ip_addr (netif s inp))
        (store32 (arp_target_ip h) (load32 (arp_sender_ip h) s)
          (store16 (arp_opcode h) (htons T_ARP_REPLY) s))"
    and l: "l = arp_reply_loop [0, 1, 2, 3, 4, 5] h inp t"
  shows "load_bytes h 42 l =
    arp_frame (load_bytes (eth_src h) 6 s) (nif_hwaddr (netif s inp)) T_ARP_REPLY
      (nif_hwaddr (netif s inp)) (nif_ip_addr (netif s inp))
      (load_bytes (eth_src h) 6 s) (load32 (arp_sender_ip h) s)"
proof -
  have lt: "\<forall>i \<in> set [0, 1, 2, 3, 4, 5 :: nat]. i < 6" "distinct [0, 1, 2, 3, 4, 5 :: nat]" by simp_all
  have in_set: "j \<in> set [0, 1, 2, 3, 4, 5]" if "j < 6" for j :: nat using that by auto
  have nif: "netif t = netif s" by (simp add: t)
  have src: "mem t (h + 6 + j) = mem s (h + 6 + j)" if "j < 6" for j
    using that by (simp add: mem_simps t)
  note m = arp_reply_loop_mem [OF lt, of _ h inp t, folded l, unfolded nif]
  have m': "mem l (h + j) = mem s (h + 6 + j)" "mem l (h + 6 + j) = nif_hwaddr (netif s inp) ! j"
    "mem l (h + 22 + j) = nif_hwaddr (netif s inp) ! j" "mem l (h + 32 + j) = mem s (h + 6 + j)"
    if "j < 6" for j using m [OF that] in_set [OF that] src [OF that] by simp_all
  have addrs: "load_bytes h 6 l = load_bytes (h + 6) 6 s" "load_bytes (h + 32) 6 l = load_bytes (h + 6) 6 s"
    "load_bytes (h + 6) 6 l = nif_hwaddr (netif s inp)" "load_bytes (h + 22) 6 l = nif_hwaddr (netif s inp)"
    by (rule nth_equalityI; simp add: m' hw)+
  have other: "load_bytes (h + k) n l = load_bytes (h + k) n t"
    if "12 \<le> k \<and> k + n \<le> 22 \<or> 28 \<le> k \<and> k + n \<le> 32 \<or> 38 \<le> k" for k n
    unfolding l using that by (intro load_bytes_cong arp_reply_loop_other [OF lt(1)]) auto
  have head: "load_bytes (h + 12) 10 l = be16 0x0806 @ be16 1 @ be16 0x0800 @ be16 0x0604 @ be16 T_ARP_REPLY"
  proof -
    have "load_bytes (h + 12) 10 l = load_bytes (h + 12) 10 t" by (rule other) simp
    also have "\<dots> = load_bytes (h + 12) 8 t @ load_bytes (h + 20) 2 t"
      using load_bytes_split [of "h + 12" 8 2 t] by (simp add: add.commute)
    also have "load_bytes (h + 12) 8 t = load_bytes (h + 12) 8 s" by (simp add: t mem_simps)
    also have "load_bytes (h + 20) 2 t = be16 T_ARP_REPLY" by (simp add: t mem_simps be16_def)
    finally show ?thesis by (simp only: fixed append_assoc)
  qed
  have ips: "load_bytes (h + 28) 4 l = raw32 (nif_ip_addr (netif s inp))"
    "load_bytes (h + 38) 4 l = raw32 (load32 (h + 28) s)"
    by (simp_all add: other, simp_all add: t mem_simps)
  have "load_bytes h 42 l = load_bytes h 6 l @ load_bytes (h + 6) 6 l @ load_bytes (h + 12) 10 l @
      load_bytes (h + 22) 6 l @ load_bytes (h + 28) 4 l @ load_bytes (h + 32) 6 l @ load_bytes (h + 38) 4 l"
    using load_bytes_parts [of h "[6, 6, 10, 6, 4, 6, 4]" l] by (simp add: add.commute)
  then show ?thesis unfolding arp_frame_def addrs head ips by simp
qed

text \<open>C31: A request for the interface's address is answered by one frame: the request's buffer turned into
  a well-formed reply to its Ethernet source, carrying the interface's pair as sender and the
  requester's protocol address as target; padding behind the packet is sent back unchanged.\<close>

theorem arp_input_replies:
  assumes "pbuf_wf s p" and "netif_up s inp" and "h = pb_payload (pbuf s p)"
    and "sizeof_t_etharp_hdr \<le> unat (pb_len (pbuf s p))"
    and "load32 (arp_target_ip h) s = nif_ip_addr (netif s inp)"
    and "load_bytes (eth_frame_type h) 10 s =
      be16 0x0806 @ be16 1 @ be16 0x0800 @ be16 0x0604 @ be16 T_ARP_REQUEST"
  shows "\<exists>s'. t_arp_input p inp s = Some (0, s') \<and> s' = s\<lparr>mem := mem s', sent := sent s'\<rparr> \<and>
    sent s' = sent s @ [arp_frame (load_bytes (eth_src h) 6 s) (nif_hwaddr (netif s inp)) T_ARP_REPLY
      (nif_hwaddr (netif s inp)) (nif_ip_addr (netif s inp))
      (load_bytes (eth_src h) 6 s) (load32 (arp_sender_ip h) s) @
      load_bytes (h + 42) (unat (pb_len (pbuf s p)) - 42) s]"
proof -
  let ?n = "unat (pb_len (pbuf s p))"
  define u where "u = store32 (arp_sender_ip h) (nif_ip_addr (netif s inp))
        (store32 (arp_target_ip h) (load32 (arp_sender_ip h) s)
          (store16 (arp_opcode h) (htons T_ARP_REPLY) s))"
  define t where "t = arp_reply_loop [0, 1, 2, 3, 4, 5] h inp u"
  have t: "t = s\<lparr>mem := mem t\<rparr>"
    using arp_reply_loop_frame [of "[0, 1, 2, 3, 4, 5]" h inp u, folded t_def]
    by (simp add: u_def store16_def store32_def del: arp_reply_loop.simps)
  have same: "netif t = netif s" "pbuf t = pbuf s" "sent t = sent s" by (subst t, simp)+
  have len: "42 \<le> ?n" "pb_tot_len (pbuf s p) = pb_len (pbuf s p)" "p \<noteq> NULL" "inp \<noteq> NULL"
    using assms(1,2,4) pbuf_wf_pos [OF assms(1)]
    by (simp_all add: sizeof_t_etharp_hdr_def pbuf_wf_def netif_up_def)
  have acc: "accessible h 42" "accessible h ?n"
    using pbuf_wf_accessible [OF assms(1)] len(1) assms(3) by simp_all
  have split: "load_bytes (h + 12) 10 s = load_bytes (h + 12) 8 s @ load_bytes (h + 20) 2 s"
    using load_bytes_split [of "h + 12" 8 2 s] by (simp add: add.commute)
  have parts: "load_bytes (h + 12) 8 s = be16 0x0806 @ be16 1 @ be16 0x0800 @ be16 0x0604"
    "load_bytes (h + 20) 2 s = be16 T_ARP_REQUEST"
  proof -
    have "take 8 (load_bytes (h + 12) 10 s) = load_bytes (h + 12) 8 s"
      "drop 8 (load_bytes (h + 12) 10 s) = load_bytes (h + 20) 2 s" unfolding split by simp_all
    then show "load_bytes (h + 12) 8 s = be16 0x0806 @ be16 1 @ be16 0x0800 @ be16 0x0604"
      "load_bytes (h + 20) 2 s = be16 T_ARP_REQUEST" unfolding assms(6) by simp_all
  qed
  have op: "htons (load16 (arp_opcode h) s) = T_ARP_REQUEST"
    unfolding load16_load_bytes parts(2) be16_def by (simp add: htons_u16_of)
  have "netif_up t inp" using assms(2) same by (simp add: netif_up_def)
  from netif_up_output [OF this len(3)] acc(2) same len(2) assms(3)
  have out: "call_output inp p t = Some (0, t\<lparr>sent := sent s @ [load_bytes h ?n t]\<rparr>)" by simp
  have "t_arp_input p inp s = Some (0, t\<lparr>sent := sent s @ [load_bytes h ?n t]\<rparr>)"
    using len acc(1) assms(3,5) op out unfolding t_def u_def
    by (simp add: t_arp_input_def t_ip_addr_cmp_def sizeof_t_etharp_hdr_def mem_simps Let_def
        del: arp_reply_loop.simps)
  moreover have "load_bytes h ?n t = load_bytes h 42 t @ load_bytes (h + 42) (?n - 42) t"
    using load_bytes_split [of h 42 "?n - 42" t] len(1) by simp
  moreover have "load_bytes (h + 42) (?n - 42) t = load_bytes (h + 42) (?n - 42) s"
  proof (rule load_bytes_cong)
    have lt: "\<forall>i \<in> set [0, 1, 2, 3, 4, 5 :: nat]. i < 6" by simp
    fix i
    have "mem t (h + 42 + i) = mem u (h + 42 + i)"
      unfolding t_def by (rule arp_reply_loop_other [OF lt]) simp
    then show "mem t (h + 42 + i) = mem s (h + 42 + i)" by (simp add: u_def mem_simps)
  qed
  moreover have "length (nif_hwaddr (netif s inp)) = 6" using assms(2) by (simp add: netif_up_def)
  note arp_reply_bytes [OF this parts(1) u_def t_def]
  moreover have "t\<lparr>sent := X\<rparr> = s\<lparr>mem := mem (t\<lparr>sent := X\<rparr>), sent := sent (t\<lparr>sent := X\<rparr>)\<rparr>" for X
    by (subst t) simp
  ultimately show ?thesis by (intro exI conjI) (assumption, assumption, simp)
qed

text \<open>A state in which a request from another host is in the first buffer.\<close>

definition arp_asked :: arp_st where
  "arp_asked = store_bytes (pbuf_pool_memory + 74)
     (arp_frame (replicate 6 0xff) [1, 2, 3, 4, 5, 6] T_ARP_REQUEST [1, 2, 3, 4, 5, 6] 0x6401A8C0
        (replicate 6 0) 0x7001A8C0) (two_buffers (online arp_boot))"

theorem arp_input_replies_witness:
  "\<exists>s'. t_arp_input pbuf_pool_memory 0x300 arp_asked = Some (0, s') \<and> length (sent s') = 1"
proof -
  let ?h = "pbuf_pool_memory + 74"
  let ?f = "arp_frame (replicate 6 0xff) [1, 2, 3, 4, 5, 6] T_ARP_REQUEST [1, 2, 3, 4, 5, 6] 0x6401A8C0
        (replicate 6 0) 0x7001A8C0"
  note f = two_buffers_facts [of "online arp_boot"]
  have b: "pbuf arp_asked = pbuf (two_buffers (online arp_boot))" by (simp add: arp_asked_def)
  have wf: "pbuf_wf arp_asked pbuf_pool_memory" using f(1) by (simp add: pbuf_wf_def b)
  have up: "netif_up arp_asked 0x300" and ip: "nif_ip_addr (netif arp_asked 0x300) = 0x7001A8C0"
    and no: "sent arp_asked = []"
    using online_facts [of arp_boot] by (simp_all add: arp_asked_def two_buffers_netif netif_up_def)
  have len: "length ?f = 42" by (simp add: arp_frame_def)
  have bytes: "load_bytes ?h 42 arp_asked = ?f"
    unfolding arp_asked_def by (rule load_store_bytes_n) (simp add: arp_frame_def)
  have part: "load_bytes (?h + k) n arp_asked = take n (drop k ?f)" if "k + n \<le> 42" for k n
    using load_bytes_sub [OF that, of ?h arp_asked] by (simp only: bytes)
  have pl: "?h = pb_payload (pbuf arp_asked pbuf_pool_memory)" using f(3) b by simp
  have "sizeof_t_etharp_hdr \<le> unat (pb_len (pbuf arp_asked pbuf_pool_memory))"
    using f(4) b by (simp add: sizeof_t_etharp_hdr_def)
  moreover have "load32 (arp_target_ip ?h) arp_asked = nif_ip_addr (netif arp_asked 0x300)"
    unfolding load32_load_bytes ip by (simp only: part) (simp add: arp_frame_def be16_def raw32_def)
  moreover have "load_bytes (eth_frame_type ?h) 10 arp_asked =
      be16 0x0806 @ be16 1 @ be16 0x0800 @ be16 0x0604 @ be16 T_ARP_REQUEST"
    by (simp only: part) (simp add: arp_frame_def)
  ultimately show ?thesis using arp_input_replies [OF wf up pl] no by auto
qed

end
