(* ===== verification/Ip.thy ===== *)
theory Ip
  imports Arp
begin

text \<open>
  \<^verbatim>\<open>core/t_ip.c\<close> (routing and output), \<^verbatim>\<open>include/ipv4/t_ip.h\<close>: the header field macros, the choice of
  the outgoing interface and \<^verbatim>\<open>t_ip_output\<close>, which puts the IP and the Ethernet header in front of the
  payload and hands the frame to the interface.  The input side is in \<open>Ip_Input\<close>.
\<close>

section \<open>Header fields\<close>

definition T_IP_HLEN :: nat where "T_IP_HLEN = 20"
definition T_IP_DF :: u16 where "T_IP_DF = 0x4000"
definition T_IP_PROTO_ICMP :: u8 where "T_IP_PROTO_ICMP = 1"
definition T_IP_PROTO_UDP :: u8 where "T_IP_PROTO_UDP = 17"
definition T_IP_PROTO_TCP :: u8 where "T_IP_PROTO_TCP = 6"

text \<open>The fields of \<^verbatim>\<open>struct t_ip_hdr\<close>, by their offset.\<close>

abbreviation (input) iph_v_hl_tos :: "ptr \<Rightarrow> ptr" where "iph_v_hl_tos h \<equiv> h"
abbreviation (input) iph_len :: "ptr \<Rightarrow> ptr" where "iph_len h \<equiv> h + 2"
abbreviation (input) iph_id :: "ptr \<Rightarrow> ptr" where "iph_id h \<equiv> h + 4"
abbreviation (input) iph_offset :: "ptr \<Rightarrow> ptr" where "iph_offset h \<equiv> h + 6"
abbreviation (input) iph_ttl_proto :: "ptr \<Rightarrow> ptr" where "iph_ttl_proto h \<equiv> h + 8"
abbreviation (input) iph_chksum :: "ptr \<Rightarrow> ptr" where "iph_chksum h \<equiv> h + 10"
abbreviation (input) iph_src :: "ptr \<Rightarrow> ptr" where "iph_src h \<equiv> h + 12"
abbreviation (input) iph_dst :: "ptr \<Rightarrow> ptr" where "iph_dst h \<equiv> h + 16"

definition T_IPH_V :: "ptr \<Rightarrow> 'a mem_st_scheme \<Rightarrow> u16" where
  "T_IPH_V h s = drop_bit 12 (htons (load16 (iph_v_hl_tos h) s))"

definition T_IPH_HL :: "ptr \<Rightarrow> 'a mem_st_scheme \<Rightarrow> u16" where
  "T_IPH_HL h s = drop_bit 8 (htons (load16 (iph_v_hl_tos h) s)) AND 0x0f"

definition T_IPH_TTL :: "ptr \<Rightarrow> 'a mem_st_scheme \<Rightarrow> u16" where
  "T_IPH_TTL h s = drop_bit 8 (htons (load16 (iph_ttl_proto h) s))"

definition T_IPH_PROTO :: "ptr \<Rightarrow> 'a mem_st_scheme \<Rightarrow> u16" where
  "T_IPH_PROTO h s = htons (load16 (iph_ttl_proto h) s) AND 0xff"

definition T_IPH_VHLTOS_SET :: "ptr \<Rightarrow> u16 \<Rightarrow> u16 \<Rightarrow> u16 \<Rightarrow> 'a mem_st_scheme \<Rightarrow> 'a mem_st_scheme" where
  "T_IPH_VHLTOS_SET h v hl tos s =
     store16 (iph_v_hl_tos h) (htons (push_bit 12 v OR push_bit 8 hl OR tos)) s"

definition T_IPH_TTL_SET :: "ptr \<Rightarrow> u16 \<Rightarrow> 'a mem_st_scheme \<Rightarrow> 'a mem_st_scheme" where
  "T_IPH_TTL_SET h ttl s = store16 (iph_ttl_proto h) (htons (T_IPH_PROTO h s OR push_bit 8 ttl)) s"

definition T_IPH_PROTO_SET :: "ptr \<Rightarrow> u16 \<Rightarrow> 'a mem_st_scheme \<Rightarrow> 'a mem_st_scheme" where
  "T_IPH_PROTO_SET h proto s = store16 (iph_ttl_proto h) (htons (proto OR push_bit 8 (T_IPH_TTL h s))) s"

lemma T_IPH_HL_bound: "unat (T_IPH_HL h s) < 16" "unat (T_IPH_HL h s * 4) = 4 * unat (T_IPH_HL h s)"
proof -
  have "(0x0f :: u16) = mask 4" by (simp add: mask_eq_exp_minus_1)
  then have "T_IPH_HL h s = take_bit 4 (drop_bit 8 (htons (load16 h s)))"
    unfolding T_IPH_HL_def by (simp only: take_bit_eq_mask)
  then have "unat (T_IPH_HL h s) = take_bit 4 (unat (drop_bit 8 (htons (load16 h s))))"
    by (simp only: unsigned_take_bit_eq)
  then show lt: "unat (T_IPH_HL h s) < 16" by (simp add: take_bit_eq_mod)
  then show "unat (T_IPH_HL h s * 4) = 4 * unat (T_IPH_HL h s)" by (simp add: unat_word_ariths)
qed

section \<open>Routing\<close>

definition t_ip_addr_netcmp :: "u32 \<Rightarrow> u32 \<Rightarrow> u32 \<Rightarrow> bool" where
  "t_ip_addr_netcmp a b msk \<longleftrightarrow> \<not> (a AND msk = b AND msk)"

definition t_ip_route :: "u32 \<Rightarrow> 'a netif_st_scheme \<Rightarrow> ptr option" where
  "t_ip_route dest s = do {
     n \<leftarrow> find_from (nif_link s)
       (\<lambda>n. t_ip_addr_netcmp dest (nif_ip_addr (netif s n)) (nif_netmask (netif s n))) (netif_list s);
     Some (if n \<noteq> NULL then n else netif_default s)
   }"

section \<open>Output\<close>

text \<open>
  A pointer to an address: into packet bytes (\<open>At\<close>), which the function itself overwrites, or to an
  object no one writes during the call (\<open>Val\<close>, with its value).
\<close>

datatype ip_ref = At ptr | Val u32

fun deref_ip :: "ip_ref \<Rightarrow> 'a mem_st_scheme \<Rightarrow> u32 option" where
  "deref_ip (At a) s = do { defined (accessible a 4); Some (load32 a s) }"
| "deref_ip (Val v) s = Some v"

text \<open>The address resolution that is there for tests: every address has the same hardware address.\<close>

definition get_mac_from_ip :: "ip_ref \<Rightarrow> u8 list" where
  "get_mac_from_ip ip = [0xf8, 0x63, 0x3f, 0x6b, 0x2c, 0xbd]"

definition t_ip_output ::
    "ptr \<Rightarrow> ptr \<Rightarrow> u32 option \<Rightarrow> ip_ref \<Rightarrow> u8 \<Rightarrow> u8 \<Rightarrow> u8
     \<Rightarrow> 'a netif_st_scheme \<Rightarrow> (int \<times> 'a netif_st_scheme) option" where
  "t_ip_output inp p src dst ttl tos proto s = do {
     inp \<leftarrow> (if inp = NULL then do { d \<leftarrow> deref_ip dst s; t_ip_route d s } else Some inp);
     (_, s) \<leftarrow> t_pbuf_header p (- int T_IP_HLEN) s;
     let iphdr = pb_payload (pbuf s p);
     defined (accessible iphdr 20);
     let s = T_IPH_TTL_SET iphdr (ucast ttl) s;
     let s = T_IPH_PROTO_SET iphdr (ucast proto) s;
     d \<leftarrow> deref_ip dst s;
     let s = store32 (iph_dst iphdr) d s;
     let s = T_IPH_VHLTOS_SET iphdr 4 (of_nat (T_IP_HLEN div 4)) (ucast tos) s;
     let s = store16 (iph_len iphdr) (htons (pb_tot_len (pbuf s p))) s;
     let s = store16 (iph_offset iphdr) (htons T_IP_DF) s;
     src \<leftarrow> (case src of
        None \<Rightarrow> do { defined (inp \<noteq> NULL); Some (nif_ip_addr (netif s inp)) }
      | Some a \<Rightarrow> Some a);
     let s = store32 (iph_src iphdr) src s;
     let s = store16 (iph_chksum iphdr) 0 s;
     c \<leftarrow> t_inet_chksum iphdr (of_nat T_IP_HLEN) s;
     let s = store16 (iph_chksum iphdr) c s;
     (r, s) \<leftarrow> t_pbuf_header p (-14) s;
     if r \<noteq> 0 then Some (0, s)
     else do {
       let ethhdr = pb_payload (pbuf s p);
       defined (accessible ethhdr 14 \<and> inp \<noteq> NULL);
       let s = store_bytes (eth_dst ethhdr) (get_mac_from_ip dst) s;
       let s = store_bytes (eth_src ethhdr) (nif_hwaddr (netif s inp)) s;
       let s = store16 (eth_frame_type ethhdr) (htons 0x800) s;
       (_, s) \<leftarrow> call_output inp p s;
       Some (0, s)
     }
   }"

section \<open>Routing decides by difference\<close>

definition on_link :: "u32 \<Rightarrow> 'a netif_st_scheme \<Rightarrow> ptr \<Rightarrow> bool" where
  "on_link dest s n \<longleftrightarrow> dest AND nif_netmask (netif s n) = nif_ip_addr (netif s n) AND nif_netmask (netif s n)"

lemma ip_route_value:
  assumes "chained (nif_link s) (netif_list s) ns"
  shows "t_ip_route dest s = Some (if \<forall>n \<in> set ns. on_link dest s n then netif_default s
    else first_match (\<lambda>n. \<not> on_link dest s n) ns)"
proof -
  have differs: "(\<lambda>n. t_ip_addr_netcmp dest (nif_ip_addr (netif s n)) (nif_netmask (netif s n))) =
      (\<lambda>n. \<not> on_link dest s n)"
    by (simp add: fun_eq_iff t_ip_addr_netcmp_def on_link_def)
  have "first_match (\<lambda>n. \<not> on_link dest s n) ns = NULL \<longleftrightarrow> (\<forall>n \<in> set ns. on_link dest s n)"
    using first_match_NULL_iff [OF chained_not_NULL [OF assms]] by simp
  then show ?thesis
    unfolding t_ip_route_def differs find_from_chained [OF assms]
    by (cases "\<forall>n \<in> set ns. on_link dest s n") auto
qed

text \<open>C34: Routing always ends on a list of interfaces, and it prefers the first interface whose network
  does not contain the destination; only when every interface's network contains it, the default
  interface is taken.\<close>

theorem ip_route_spec:
  assumes "chained (nif_link s) (netif_list s) ns"
  shows "\<exists>n. t_ip_route dest s = Some n \<and>
    (if \<forall>m \<in> set ns. on_link dest s m then n = netif_default s
     else n \<in> set ns \<and> \<not> on_link dest s n \<and>
       (\<exists>us vs. ns = us @ n # vs \<and> (\<forall>m \<in> set us. on_link dest s m)))"
proof -
  have nn: "NULL \<notin> set ns" by (rule chained_not_NULL [OF assms])
  show ?thesis
  proof (cases "\<forall>m \<in> set ns. on_link dest s m")
    case True
    with ip_route_value [OF assms, of dest] show ?thesis by simp
  next
    case False
    let ?n = "first_match (\<lambda>n. \<not> on_link dest s n) ns"
    have "?n \<noteq> NULL" 
      using False unfolding first_match_NULL_iff [OF nn] not_not .
    note mem = first_match_mem [OF this] and split = first_match_split [OF this, unfolded not_not]
    show ?thesis
    proof (intro exI conjI)
      show "t_ip_route dest s = Some ?n" using ip_route_value [OF assms, of dest] False by simp
      show "if \<forall>m \<in> set ns. on_link dest s m then ?n = netif_default s
        else ?n \<in> set ns \<and> \<not> on_link dest s ?n \<and>
          (\<exists>us vs. ns = us @ ?n # vs \<and> (\<forall>m \<in> set us. on_link dest s m))"
        unfolding if_not_P [OF False] using mem split by (intro conjI) (rule conjunct1, assumption,
          rule conjunct2, assumption, assumption)
    qed
  qed
qed

theorem ip_route_spec_witness:
  "t_ip_route 0x6401A8C0 (online netif_boot) = Some 0x300 \<and> on_link 0x6401A8C0 (online netif_boot) 0x300"
proof -
  have "on_link 0x6401A8C0 (online netif_boot) 0x300" by (simp add: on_link_def online_facts(4,5))
  with ip_route_spec [OF online_facts(7) [of netif_boot], of "0x6401A8C0"] show ?thesis
    by (simp add: online_facts(8))
qed

section \<open>The header that is written\<close>

definition ip_header :: "u8 \<Rightarrow> u16 \<Rightarrow> u8 list \<Rightarrow> u8 \<Rightarrow> u8 \<Rightarrow> u16 \<Rightarrow> u32 \<Rightarrow> u32 \<Rightarrow> u8 list" where
  "ip_header tos len ident ttl proto c src dst =
     [0x45, tos] @ be16 len @ ident @ [0x40, 0] @ [ttl, proto] @ [byte_of 0 c, byte_of 1 c] @
     raw32 src @ raw32 dst"

definition eth_frame :: "u8 list \<Rightarrow> u8 list \<Rightarrow> u16 \<Rightarrow> u8 list \<Rightarrow> u8 list" where
  "eth_frame dst src frame_type body = dst @ src @ be16 frame_type @ body"

lemma field_bytes: "[byte_of 0 (htons v), byte_of (Suc 0) (htons v)] = be16 v"
  by (simp add: be16_def)

lemma be16_u16_of [simp]: "be16 (u16_of lo hi) = [hi, lo]"
  by (simp add: be16_def)

lemma u16_of_alt: "ucast lo OR push_bit 8 (ucast hi) = u16_of lo hi"
  by (simp add: u16_of_def)

lemma low_byte: "u16_of lo hi AND 0xff = ucast lo"
proof -
  have "(0xff :: u16) = mask 8" by (simp add: mask_eq_exp_minus_1)
  then show ?thesis unfolding u16_of_def
    by (intro bit_word_eqI) (auto simp only: bit_simps dest: bit_imp_le_length, auto dest: bit_imp_le_length)
qed

lemma high_byte: "drop_bit 8 (u16_of lo hi) = ucast hi"
  unfolding u16_of_def by (rule bit_word_eqI) (auto simp: bit_simps dest: bit_imp_le_length)

lemma version_hl_tos: "push_bit 12 4 OR push_bit 8 (of_nat (T_IP_HLEN div 4)) OR ucast tos = u16_of tos 0x45"
proof -
  have "push_bit 12 4 OR push_bit 8 (of_nat (T_IP_HLEN div 4)) = (push_bit 8 (ucast (0x45 :: u8)) :: u16)"
    by (simp add: T_IP_HLEN_def)
  then show ?thesis
    by (subst or.assoc [symmetric]) (simp only: u16_of_def or.commute)
qed

text \<open>Setting the time to live and then the protocol: both bytes, whatever was there before.\<close>

lemma ttl_proto_set:
  "T_IPH_PROTO_SET h (ucast proto) (T_IPH_TTL_SET h (ucast ttl) s) =
     store16 (h + 8) (htons (u16_of proto ttl)) (T_IPH_TTL_SET h (ucast ttl) s)"
proof -
  obtain lo hi where "htons (load16 (h + 8) s) = u16_of lo hi"
    by (metis u16_of_bytes)
  then have "T_IPH_PROTO h s = ucast lo" by (simp add: T_IPH_PROTO_def low_byte)
  then have "T_IPH_TTL h (T_IPH_TTL_SET h (ucast ttl) s) = ucast ttl"
    by (simp add: T_IPH_TTL_def T_IPH_TTL_SET_def u16_of_alt high_byte)
  then show ?thesis by (simp add: T_IPH_PROTO_SET_def u16_of_alt)
qed

text \<open>The stores of \<open>t_ip_output\<close> to the IP header, up to the zeroed checksum field.\<close>

definition ip_write :: "ptr \<Rightarrow> u32 \<Rightarrow> u8 \<Rightarrow> u16 \<Rightarrow> u8 \<Rightarrow> u8 \<Rightarrow> u32 \<Rightarrow> 'a mem_st_scheme \<Rightarrow> 'a mem_st_scheme" where
  "ip_write h d tos len ttl proto src s =
     store16 (iph_chksum h) 0 (store32 (iph_src h) src (store16 (iph_offset h) (htons T_IP_DF)
       (store16 (iph_len h) (htons len) (T_IPH_VHLTOS_SET h 4 (of_nat (T_IP_HLEN div 4)) (ucast tos)
         (store32 (iph_dst h) d (T_IPH_PROTO_SET h (ucast proto) (T_IPH_TTL_SET h (ucast ttl) s)))))))"

lemma ip_write_stores:
  "ip_write h d tos len ttl proto src s =
     store16 (iph_chksum h) 0 (store32 (iph_src h) src (store16 (iph_offset h) (htons T_IP_DF)
       (store16 (iph_len h) (htons len) (store16 h (htons (u16_of tos 0x45))
         (store32 (iph_dst h) d (store16 (iph_ttl_proto h) (htons (u16_of proto ttl))
           (store16 (iph_ttl_proto h) (htons (T_IPH_PROTO h s OR push_bit 8 (ucast ttl))) s)))))))"
  unfolding ip_write_def ttl_proto_set T_IPH_VHLTOS_SET_def version_hl_tos
  unfolding T_IPH_TTL_SET_def by (rule refl)

lemma ip_write_bytes:
  "load_bytes h 20 (ip_write h d tos len ttl proto src s) =
     ip_header tos len (load_bytes (h + 4) 2 s) ttl proto 0 src d"
proof -
  let ?t = "ip_write h d tos len ttl proto src s"
  have "load_bytes h 20 ?t = load_bytes h 2 ?t @ load_bytes (h + 2) 2 ?t @ load_bytes (h + 4) 2 ?t @
      load_bytes (h + 6) 2 ?t @ load_bytes (h + 8) 2 ?t @ load_bytes (h + 10) 2 ?t @
      load_bytes (h + 12) 4 ?t @ load_bytes (h + 16) 4 ?t"
    using load_bytes_parts [of h "[2, 2, 2, 2, 2, 2, 4, 4]" ?t]
    by (simp add: add.commute del: add_2_eq_Suc add_2_eq_Suc')
  also have "\<dots> = ip_header tos len (load_bytes (h + 4) 2 s) ttl proto 0 src d"
    unfolding ip_write_stores ip_header_def
    by (simp add: mem_simps be16_def T_IP_DF_def) (simp add: byte_of_def)
  finally show ?thesis .
qed

lemma ip_write_other:
  assumes "a + n \<le> h \<or> h + 20 \<le> a"
  shows "load_bytes a n (ip_write h d tos len ttl proto src s) = load_bytes a n s"
proof -
  have "a + n \<le> h + k \<or> h + k + m \<le> a" if "k + m \<le> 20" for k m using assms that by auto
  from this [of 0 2] this [of 2 2] this [of 6 2] this [of 8 2] this [of 10 2] this [of 12 4] this [of 16 4]
  show ?thesis unfolding ip_write_stores by (simp add: load_bytes_disjoint)
qed

lemma ip_write_frame:
  "ip_write h d tos len ttl proto src s = s\<lparr>mem := mem (ip_write h d tos len ttl proto src s)\<rparr>"
  unfolding ip_write_stores by (simp add: store16_def store32_def)

lemma ip_header_length [simp]: "length ident = 2 \<Longrightarrow> length (ip_header tos len ident ttl proto c src dst) = 20"
  by (simp add: ip_header_def)

text \<open>The checksum that is stored makes the header sum up.\<close>

lemma ip_header_closed:
  assumes "accessible h 20" and "t = ip_write h d tos len ttl proto src s"
    and "c = chksum_of (bsum True (load_bytes h 20 t))"
  shows "t_inet_chksum h (of_nat T_IP_HLEN) t = Some c"
    and "load_bytes h 20 (store16 (iph_chksum h) c t) =
      ip_header tos len (load_bytes (h + 4) 2 s) ttl proto c src d"
    and "chksum_of (bsum True (ip_header tos len (load_bytes (h + 4) 2 s) ttl proto c src d)) = 0"
proof -
  have twenty: "unat (of_nat T_IP_HLEN :: u16) = 20" by (simp add: T_IP_HLEN_def)
  show "t_inet_chksum h (of_nat T_IP_HLEN) t = Some c"
    using inet_chksum_value [of h "of_nat T_IP_HLEN" t] assms(1,3) by (simp only: twenty)
  have zero: "load16 (h + 10) t = 0" by (simp add: assms(2) ip_write_def)
  have parts: "load_bytes h 20 u = load_bytes h 10 u @ load_bytes (h + 10) 2 u @ load_bytes (h + 12) 8 u" for u
    using load_bytes_parts [of h "[10, 2, 8]" u] by (simp add: add.commute)
  have "load_bytes h 10 t = take 10 (load_bytes h 20 t)" "load_bytes (h + 12) 8 t = drop 12 (load_bytes h 20 t)"
    unfolding parts [of t] by simp_all
  then have "load_bytes h 10 t = [0x45, tos] @ be16 len @ load_bytes (h + 4) 2 s @ [0x40, 0] @ [ttl, proto]"
    "load_bytes (h + 12) 8 t = raw32 src @ raw32 d"
    unfolding assms(2) ip_write_bytes ip_header_def by simp_all
  then show bytes: "load_bytes h 20 (store16 (iph_chksum h) c t) =
      ip_header tos len (load_bytes (h + 4) 2 s) ttl proto c src d"
    unfolding parts ip_header_def by (simp add: mem_simps)
  have "bsum True (load_bytes h 20 (store16 (h + 10) c t)) = bsum True (load_bytes h 20 t) + unat c"
    by (rule bsum_store16) (simp_all add: zero)
  then show "chksum_of (bsum True (ip_header tos len (load_bytes (h + 4) 2 s) ttl proto c src d)) = 0"
    unfolding bytes [symmetric] using chksum_of_closes assms(3) by simp
qed

section \<open>What is sent\<close>

text \<open>The interface the packet leaves by, the address it leaves from, and the destination that is
  read when the header is half written: after the time to live and the protocol.\<close>

definition ip_via :: "ptr \<Rightarrow> ip_ref \<Rightarrow> 'a netif_st_scheme \<Rightarrow> ptr \<Rightarrow> bool" where
  "ip_via inp dst s n \<longleftrightarrow>
     (if inp = NULL then (case deref_ip dst s of None \<Rightarrow> False | Some d \<Rightarrow> t_ip_route d s = Some n)
      else n = inp)"

definition ip_source :: "u32 option \<Rightarrow> ptr \<Rightarrow> 'a netif_st_scheme \<Rightarrow> u32" where
  "ip_source src n s = (case src of None \<Rightarrow> nif_ip_addr (netif s n) | Some a \<Rightarrow> a)"

definition dst_reads :: "ip_ref \<Rightarrow> ptr \<Rightarrow> u8 \<Rightarrow> u8 \<Rightarrow> u32 \<Rightarrow> 'a mem_st_scheme \<Rightarrow> bool" where
  "dst_reads dst h ttl proto d s \<longleftrightarrow>
     deref_ip dst (store16 (h + 8) (htons (u16_of proto ttl)) s) = Some d"

lemma dst_reads_Val [simp]: "dst_reads (Val v) h ttl proto d s \<longleftrightarrow> v = d"
  by (simp add: dst_reads_def)

lemma dst_reads_At:
  "accessible a 4 \<Longrightarrow> a + 4 \<le> h + 8 \<or> h + 10 \<le> a \<Longrightarrow> dst_reads (At a) h ttl proto (load32 a s) s"
  unfolding dst_reads_def by (subst deref_ip.simps, subst load_field_disjoint(5)) (simp_all add: add.commute)

lemma store16_twice: "store16 a v (store16 a w s) = store16 a v s"
  by (simp add: store16_def fun_upd_twist)

text \<open>A buffer with room for the headers: what a caller must provide.\<close>

definition ip_room :: "'a pbuf_st_scheme \<Rightarrow> ptr \<Rightarrow> bool" where
  "ip_room s p \<longleftrightarrow> pbuf_wf s p \<and> p + sizeof_t_pbuf + 34 \<le> pb_payload (pbuf s p) \<and>
     pb_payload (pbuf s p) < p + 1513 + 20"

lemma ip_roomD:
  assumes "ip_room s p"
  shows "header_fits s p (-20)" "p \<in> set pbuf_slots" "pb_flags (pbuf s p) = T_PBUF_FLAG_POOL" "0 < p"
    "p + 66 \<le> pb_payload (pbuf s p)" "pb_payload (pbuf s p) + unat (pb_len (pbuf s p)) \<le> p + 1546"
    "pb_tot_len (pbuf s p) = pb_len (pbuf s p)"
  using assms pbuf_wf_pos [of s p]
  by (auto simp: ip_room_def header_fits_def pbuf_wf_def sizeof_t_pbuf_def T_PBUF_BUFSIZE_def pbuf_slot_eq)

lemma unat_plus_small: "unat a + k < 2 ^ LENGTH('w) \<Longrightarrow> unat (a + of_nat k :: 'w::len word) = unat a + k"
proof -
  assume b: "unat a + k < 2 ^ LENGTH('w)"
  have "a + of_nat k = (of_nat (unat a + k) :: 'w word)" by (simp add: of_nat_unat)
  then show ?thesis by (simp only: unat_of_nat_lt [OF b])
qed

lemma header_set_frame [simp]:
  "pbuf (T_IPH_TTL_SET h v s) = pbuf s" "pbuf (T_IPH_PROTO_SET h v s) = pbuf s"
  "pbuf (T_IPH_VHLTOS_SET h v hl v' s) = pbuf s"
  "netif (T_IPH_TTL_SET h v t) = netif t" "netif (T_IPH_PROTO_SET h v t) = netif t"
  "netif (T_IPH_VHLTOS_SET h v hl v' t) = netif t"
  by (simp_all add: T_IPH_TTL_SET_def T_IPH_PROTO_SET_def T_IPH_VHLTOS_SET_def)

lemma ip_via_selects:
  "ip_via inp dst s n \<Longrightarrow>
     (if inp = NULL then do { d \<leftarrow> deref_ip dst s; t_ip_route d s } else Some inp) = Some n"
  by (auto simp: ip_via_def split: if_splits option.splits)

lemma ip_output_sends:
  assumes room: "ip_room s p" and up: "netif_up s n" and via: "ip_via inp dst s n"
    and pl: "pl = pb_payload (pbuf s p)" and dst: "dst_reads dst (pl - 20) ttl proto d s"
    and len: "len = pb_len (pbuf s p)"
  shows "\<exists>s' c. t_ip_output inp p src dst ttl tos proto s = Some (0, s') \<and>
    chksum_of (bsum True (ip_header tos (len + 20) (load_bytes (pl - 16) 2 s) ttl proto c
      (ip_source src n s) d)) = 0 \<and>
    s' = s\<lparr>mem := mem s', pbuf := (pbuf s)(p := (pbuf s p)\<lparr>pb_payload := pl - 34,
        pb_tot_len := len + 34, pb_len := len + 34\<rparr>),
      sent := sent s @ [eth_frame (get_mac_from_ip dst) (nif_hwaddr (netif s n)) 0x800
        (ip_header tos (len + 20) (load_bytes (pl - 16) 2 s) ttl proto c (ip_source src n s) d @
         load_bytes pl (unat len) s)]\<rparr> \<and>
    (\<forall>a. a < pl - 34 \<or> pl \<le> a \<longrightarrow> mem s' a = mem s a)"
proof -
  note R = ip_roomD [OF room, folded pl len]
  define h where "h = pl - 20"
  define e where "e = pl - 34"
  have he: "pl = h + 20" "h = e + 14" "h + 4 = pl - 16" using R(5) by (simp_all add: h_def e_def)
  have up': "n \<noteq> NULL" "length (nif_hwaddr (netif s n)) = 6" using up by (simp_all add: netif_up_def)
  define b1 where "b1 = (pbuf s p)\<lparr>pb_payload := h, pb_tot_len := len + 20, pb_len := len + 20\<rparr>"
  define s1 where "s1 = s\<lparr>pbuf := (pbuf s)(p := b1)\<rparr>"
  have h1: "t_pbuf_header p (- int T_IP_HLEN) s = Some (0, s1)"
    using pbuf_header_moves [of p s "-20"] R(1,3,4,7)
    by (simp add: T_IP_HLEN_def s1_def b1_def h_def nat_diff_distrib' pl [symmetric] len [symmetric])
  have acc: "accessible h 20" using R(2,5,6) he by (intro accessible_in_slot [of p])
      (auto simp: sizeof_t_pbuf_def pbuf_slot_eq)
  define sv where "sv = ip_source src n s"
  define t where "t = ip_write h d tos (len + 20) ttl proto sv s1"
  define c where "c = chksum_of (bsum True (load_bytes h 20 t))"
  note closed = ip_header_closed [OF acc t_def c_def]
  define s2 where "s2 = store16 (iph_chksum h) c t"
  have s2: "s2 = s1\<lparr>mem := mem s2\<rparr>" unfolding s2_def t_def
    by (subst ip_write_frame) (simp add: store16_def)
  have same2: "pbuf s2 = pbuf s1" "netif s2 = netif s" "sent s2 = sent s" by (subst s2, simp add: s1_def)+
  define b2 where "b2 = (pbuf s p)\<lparr>pb_payload := e, pb_tot_len := len + 34, pb_len := len + 34\<rparr>"
  define s3 where "s3 = s2\<lparr>pbuf := (pbuf s)(p := b2)\<rparr>"
  have h2: "t_pbuf_header p (-14) s2 = Some (0, s3)"
  proof -
    have "header_fits s2 p (-14)" using R(5,6) he room
      by (simp add: header_fits_def same2 s1_def b1_def sizeof_t_pbuf_def T_PBUF_BUFSIZE_def ip_room_def pl)
    from pbuf_header_moves [OF _ _ this] R(3,4) he show ?thesis
      by (simp add: same2 s1_def b1_def b2_def s3_def nat_diff_distrib' add.commute [of _ len])
  qed
  define f where "f = store16 (eth_frame_type e) (htons 0x800)
    (store_bytes (eth_src e) (nif_hwaddr (netif s n)) (store_bytes (eth_dst e) (get_mac_from_ip dst) s3))"
  have acc14: "accessible e 14" using R(2,5,6) he by (intro accessible_in_slot [of p])
      (auto simp: sizeof_t_pbuf_def pbuf_slot_eq)
  have f: "f = s\<lparr>mem := mem f, pbuf := (pbuf s)(p := b2)\<rparr>"
    unfolding f_def s3_def by (subst s2) (simp add: s1_def store16_def store_bytes_def)
  have same: "netif f = netif s" "pbuf f p = b2" "sent f = sent s" by (subst f, simp)+
  have small: "unat (len + 34) = unat len + 34"
    using unat_plus_small [of len 34] R(5,6) by simp
  have accf: "accessible e (unat len + 34)" using R(2,5,6) he by (intro accessible_in_slot [of p])
      (auto simp: sizeof_t_pbuf_def pbuf_slot_eq)
  have "netif_up f n" using up same by (simp add: netif_up_def)
  from netif_up_output [OF this, of p] R(4) accf same small
  have out: "call_output n p f = Some (0, f\<lparr>sent := sent s @ [load_bytes e (unat len + 34) f]\<rparr>)"
    by (simp add: b2_def)
  have run: "t_ip_output inp p src dst ttl tos proto s =
      Some (0, f\<lparr>sent := sent s @ [load_bytes e (unat len + 34) f]\<rparr>)"
  proof -
    have b: "pb_payload (pbuf s1 p) = h" "pb_tot_len (pbuf s1 p) = len + 20" "netif s1 = netif s"
      "pb_payload (pbuf s3 p) = e" "netif s3 = netif s"
      using same2 by (simp_all add: s1_def b1_def s3_def b2_def)
    have "dst_reads dst h ttl proto d s1" using dst
      by (cases dst) (simp_all add: dst_reads_def s1_def load32_def h_def mem_store16)
    then have d: "deref_ip dst (T_IPH_PROTO_SET h (ucast proto) (T_IPH_TTL_SET h (ucast ttl) s1)) = Some d"
      unfolding ttl_proto_set unfolding T_IPH_TTL_SET_def store16_twice dst_reads_def .
    note steps = h1 b acc d t_def [unfolded ip_write_def, symmetric] closed(1)
      s2_def [symmetric] h2 acc14 up'(1) up'(1) [simplified] f_def [symmetric] out
    show ?thesis
    proof (cases src)
      case None
      then have "nif_ip_addr (netif s n) = sv" by (simp add: sv_def ip_source_def)
      with None show ?thesis unfolding t_ip_output_def ip_via_selects [OF via]
        by (simp add: steps Let_def del: add_2_eq_Suc add_2_eq_Suc')
    next
      case (Some a)
      then have "a = sv" by (simp add: sv_def ip_source_def)
      with Some show ?thesis unfolding t_ip_output_def ip_via_selects [OF via]
        by (simp add: steps Let_def del: add_2_eq_Suc add_2_eq_Suc')
    qed
  qed
  have bytes: "load_bytes e (unat len + 34) f = eth_frame (get_mac_from_ip dst) (nif_hwaddr (netif s n)) 0x800
        (ip_header tos (len + 20) (load_bytes (pl - 16) 2 s) ttl proto c sv d @
         load_bytes pl (unat len) s)"
  proof -
    have low: "load_bytes a k f = load_bytes a k s2" if "e + 14 \<le> a" for a k
    proof -
      have "load_bytes a k f = load_bytes a k s3" unfolding f_def
        using that up'(2) by (simp add: load_bytes_disjoint get_mac_from_ip_def)
      then show ?thesis by (simp add: s3_def load_bytes_def)
    qed
    have ident: "load_bytes (h + 4) 2 s1 = load_bytes (pl - 16) 2 s"
      using he(3) by (simp add: s1_def load_bytes_def)
    have "load_bytes (e + 14) 20 f = ip_header tos (len + 20) (load_bytes (pl - 16) 2 s) ttl proto c
        sv d"
      using low [of "e + 14" 20] closed(2) he(2) ident by (simp add: s2_def)
    moreover have "load_bytes (e + 34) (unat len) f = load_bytes pl (unat len) s"
    proof -
      have "load_bytes pl (unat len) t = load_bytes pl (unat len) s1"
        unfolding t_def by (rule ip_write_other) (simp add: he(1))
      then have "load_bytes pl (unat len) s2 = load_bytes pl (unat len) s"
        by (simp add: s2_def load_bytes_disjoint he(1) s1_def, simp add: load_bytes_def)
      with low [of pl "unat len"] he show ?thesis by (simp add: add.commute)
    qed
    moreover have "load_bytes e 6 f = get_mac_from_ip dst" "load_bytes (e + 6) 6 f = nif_hwaddr (netif s n)"
      "load_bytes (e + 12) 2 f = be16 0x800"
      using up'(2) by (simp_all add: f_def mem_simps get_mac_from_ip_def be16_def)
    moreover have "load_bytes e (unat len + 34) f = load_bytes e 6 f @ load_bytes (e + 6) 6 f @
        load_bytes (e + 12) 2 f @ load_bytes (e + 14) 20 f @ load_bytes (e + 34) (unat len) f"
      using load_bytes_parts [of e "[6, 6, 2, 20, unat len]" f] by (simp add: add.commute)
    ultimately show ?thesis by (simp add: eth_frame_def)
  qed
  have outside: "mem f a = mem s a" if "a < pl - 34 \<or> pl \<le> a" for a
  proof -
    have "a + 1 \<le> e \<or> e + 34 \<le> a" using that he by auto
    moreover from this have "a + 1 \<le> h \<or> h + 20 \<le> a" using he by auto
    ultimately have "load_bytes a 1 f = load_bytes a 1 s3" "load_bytes a 1 t = load_bytes a 1 s1"
      "load_bytes a 1 s2 = load_bytes a 1 t"
      using up'(2) ip_write_other [of a 1 h]
      by (auto simp: f_def t_def s2_def load_bytes_disjoint get_mac_from_ip_def he)
    then show ?thesis by (simp add: load_bytes_def s3_def s1_def)
  qed
  let ?frame = "eth_frame (get_mac_from_ip dst) (nif_hwaddr (netif s n)) 0x800
        (ip_header tos (len + 20) (load_bytes (pl - 16) 2 s) ttl proto c sv d @ load_bytes pl (unat len) s)"
  have ident: "load_bytes (h + 4) 2 s1 = load_bytes (pl - 16) 2 s"
    using he(3) by (simp add: s1_def load_bytes_def)
  have "f\<lparr>sent := sent s @ [?frame]\<rparr> = s\<lparr>mem := mem f, pbuf := (pbuf s)(p := b2), sent := sent s @ [?frame]\<rparr>"
    by (subst f) simp
  then have eq: "f\<lparr>sent := sent s @ [?frame]\<rparr> =
      s\<lparr>mem := mem (f\<lparr>sent := sent s @ [?frame]\<rparr>), pbuf := (pbuf s)(p := b2), sent := sent s @ [?frame]\<rparr>"
    by simp
  have closed3: "chksum_of (bsum True (ip_header tos (len + 20) (load_bytes (pl - 16) 2 s) ttl proto c sv d)) = 0"
    using closed(3) unfolding ident .
  have mem: "\<forall>a. a < pl - 34 \<or> pl \<le> a \<longrightarrow> mem (f\<lparr>sent := sent s @ [?frame]\<rparr>) a = mem s a"
    using outside by simp
  show ?thesis unfolding sv_def [symmetric]
    using conjI [OF run [unfolded bytes] conjI [OF closed3 conjI [OF eq [unfolded b2_def] mem]]]
    unfolding e_def by blast
qed

section \<open>A receiver's view\<close>

text \<open>
  What a host on the wire makes of a frame: an IPv4 packet without options whose length is right and
  whose header sums up, taken apart into source, destination, time to live, type of service, protocol
  and payload.
\<close>

definition ip_parse :: "u8 list \<Rightarrow> (u32 \<times> u32 \<times> u8 \<times> u8 \<times> u8 \<times> u8 list) option" where
  "ip_parse bs = (let h = take 20 (drop 14 bs); body = drop 34 bs in
     if 34 \<le> length bs \<and> take 2 (drop 12 bs) = be16 0x800 \<and> h ! 0 = 0x45 \<and>
        unat (u16_of (h ! 3) (h ! 2)) = 20 + length body \<and> chksum_of (bsum True h) = 0
     then Some (u32_of (h ! 12) (h ! 13) (h ! 14) (h ! 15), u32_of (h ! 16) (h ! 17) (h ! 18) (h ! 19),
       h ! 8, h ! 1, h ! 9, body)
     else None)"

lemma ip_header_nth:
  assumes "length ident = 2"
  shows "ip_header tos len ident ttl proto c src dst ! 0 = 0x45"
    "ip_header tos len ident ttl proto c src dst ! Suc 0 = tos"
    "ip_header tos len ident ttl proto c src dst ! 2 = byte_of 1 len"
    "ip_header tos len ident ttl proto c src dst ! 3 = byte_of 0 len"
    "ip_header tos len ident ttl proto c src dst ! 8 = ttl"
    "ip_header tos len ident ttl proto c src dst ! 9 = proto"
    "drop 12 (ip_header tos len ident ttl proto c src dst) = raw32 src @ raw32 dst"
proof -
  from assms obtain a b where "ident = [a, b]"
    by (auto simp: length_Suc_conv numeral_2_eq_2)
  then show "ip_header tos len ident ttl proto c src dst ! 0 = 0x45"
    "ip_header tos len ident ttl proto c src dst ! Suc 0 = tos"
    "ip_header tos len ident ttl proto c src dst ! 2 = byte_of 1 len"
    "ip_header tos len ident ttl proto c src dst ! 3 = byte_of 0 len"
    "ip_header tos len ident ttl proto c src dst ! 8 = ttl"
    "ip_header tos len ident ttl proto c src dst ! 9 = proto"
    "drop 12 (ip_header tos len ident ttl proto c src dst) = raw32 src @ raw32 dst"
    by (simp_all add: ip_header_def be16_def numeral_2_eq_2 numeral_3_eq_3)
qed

lemma ip_header_addrs:
  assumes "length ident = 2" and "H = ip_header tos len ident ttl proto c src dst"
  shows "u32_of (H ! 12) (H ! 13) (H ! 14) (H ! 15) = src" "u32_of (H ! 16) (H ! 17) (H ! 18) (H ! 19) = dst"
proof -
  have len: "length H = 20" using assms by simp
  have "H ! (12 + k) = (raw32 src @ raw32 dst) ! k" for k
    using nth_drop [of 12 H k] len
    unfolding assms(2) ip_header_nth(7) [OF assms(1), of tos len ttl proto c src dst] by simp
  from this [of 0] this [of 1] this [of 2] this [of 3] this [of 4] this [of 5] this [of 6] this [of 7]
  show "u32_of (H ! 12) (H ! 13) (H ! 14) (H ! 15) = src" "u32_of (H ! 16) (H ! 17) (H ! 18) (H ! 19) = dst"
    by (simp_all add: raw32_def numeral_2_eq_2 numeral_3_eq_3
        u32_of_bytes [unfolded numeral_2_eq_2 numeral_3_eq_3])
qed

lemma ip_parse_frame:
  assumes "length mac = 6" and "length hw = 6" and "length ident = 2"
    and "unat (len + 20 :: u16) = 20 + length body"
    and "chksum_of (bsum True (ip_header tos (len + 20) ident ttl proto c src dst)) = 0"
  shows "ip_parse (eth_frame mac hw 0x800 (ip_header tos (len + 20) ident ttl proto c src dst @ body)) =
    Some (src, dst, ttl, tos, proto, body)"
proof -
  define H where "H = ip_header tos (len + 20) ident ttl proto c src dst"
  have H: "length H = 20" using assms(3) by (simp add: H_def)
  have parts: "take 20 (drop 14 (eth_frame mac hw 0x800 (H @ body))) = H"
    "drop 34 (eth_frame mac hw 0x800 (H @ body)) = body"
    "take 2 (drop 12 (eth_frame mac hw 0x800 (H @ body))) = be16 0x800"
    "34 \<le> length (eth_frame mac hw 0x800 (H @ body))"
    using assms(1,2) H by (simp_all add: eth_frame_def)
  note n = ip_header_nth [OF assms(3), of tos "len + 20" ttl proto c src dst, folded H_def]
  have "u16_of (H ! 3) (H ! 2) = len + 20" using n(3,4) by simp
  then show ?thesis
    using n ip_header_addrs [OF assms(3) H_def] assms(4,5)
    unfolding H_def [symmetric] ip_parse_def parts Let_def by (simp add: parts)
qed

lemma ip_output_parsed:
  assumes "ip_room s p" and "netif_up s n" and "ip_via inp dst s n" and "pl = pb_payload (pbuf s p)"
    and "dst_reads dst (pl - 20) ttl proto d s"
  shows "\<exists>s' frame. t_ip_output inp p src dst ttl tos proto s = Some (0, s') \<and>
    s' = s\<lparr>mem := mem s', pbuf := (pbuf s)(p := (pbuf s p)\<lparr>pb_payload := pl - 34,
        pb_tot_len := pb_len (pbuf s p) + 34, pb_len := pb_len (pbuf s p) + 34\<rparr>),
      sent := sent s @ [frame]\<rparr> \<and>
    (\<forall>a. a < pl - 34 \<or> pl \<le> a \<longrightarrow> mem s' a = mem s a) \<and>
    take 12 frame = get_mac_from_ip dst @ nif_hwaddr (netif s n) \<and>
    ip_parse frame = Some (ip_source src n s, d, ttl, tos, proto,
      load_bytes pl (unat (pb_len (pbuf s p))) s)"
proof -
  let ?len = "pb_len (pbuf s p)"
  let ?ident = "load_bytes (pl - 16) 2 s"
  from ip_output_sends [OF assms(1-5) refl, of src tos] obtain s' c where out:
    "t_ip_output inp p src dst ttl tos proto s = Some (0, s')"
    "chksum_of (bsum True (ip_header tos (?len + 20) ?ident ttl proto c (ip_source src n s) d)) = 0"
    "s' = s\<lparr>mem := mem s', pbuf := (pbuf s)(p := (pbuf s p)\<lparr>pb_payload := pl - 34,
        pb_tot_len := ?len + 34, pb_len := ?len + 34\<rparr>),
      sent := sent s @ [eth_frame (get_mac_from_ip dst) (nif_hwaddr (netif s n)) 0x800
        (ip_header tos (?len + 20) ?ident ttl proto c (ip_source src n s) d @
         load_bytes pl (unat ?len) s)]\<rparr>"
    "\<forall>a. a < pl - 34 \<or> pl \<le> a \<longrightarrow> mem s' a = mem s a" by blast
  have lens: "length (get_mac_from_ip dst) = 6" "length (nif_hwaddr (netif s n)) = 6" "length ?ident = 2"
    using assms(2) by (simp_all add: get_mac_from_ip_def netif_up_def)
  have total: "unat (?len + 20) = 20 + length (load_bytes pl (unat ?len) s)"
    using unat_plus_small [of ?len 20] ip_roomD(5,6) [OF assms(1)] by simp
  have "take 12 (eth_frame (get_mac_from_ip dst) (nif_hwaddr (netif s n)) 0x800 b) =
      get_mac_from_ip dst @ nif_hwaddr (netif s n)" for b
    using lens by (simp add: eth_frame_def)
  with out(1,3,4) ip_parse_frame [OF lens total out(2)] show ?thesis by blast
qed

text \<open>C17: for a buffer with room for the headers, \<open>t_ip_output\<close> sends exactly one frame, and a receiver that
  checks version, length and checksum gets back the addresses, the type of service, the time to live,
  the protocol and the payload that were asked for.\<close>

theorem ip_output_roundtrip:
  assumes "ip_room s p" and "netif_up s n" and "ip_via inp dst s n" and "pl = pb_payload (pbuf s p)"
    and "dst_reads dst (pl - 20) ttl proto d s"
  shows "\<exists>s' frame. t_ip_output inp p src dst ttl tos proto s = Some (0, s') \<and>
    sent s' = sent s @ [frame] \<and>
    take 12 frame = get_mac_from_ip dst @ nif_hwaddr (netif s n) \<and>
    ip_parse frame = Some (ip_source src n s, d, ttl, tos, proto,
      load_bytes pl (unat (pb_len (pbuf s p))) s)"
proof -
  from ip_output_parsed [OF assms, of src tos] obtain s' frame where out:
    "t_ip_output inp p src dst ttl tos proto s = Some (0, s')"
    "s' = s\<lparr>mem := mem s', pbuf := (pbuf s)(p := (pbuf s p)\<lparr>pb_payload := pl - 34,
        pb_tot_len := pb_len (pbuf s p) + 34, pb_len := pb_len (pbuf s p) + 34\<rparr>),
      sent := sent s @ [frame]\<rparr>"
    "take 12 frame = get_mac_from_ip dst @ nif_hwaddr (netif s n)"
    "ip_parse frame = Some (ip_source src n s, d, ttl, tos, proto,
      load_bytes pl (unat (pb_len (pbuf s p))) s)" by blast
  have "sent s' = sent s @ [frame]" by (subst out(2)) simp
  with out(1,3,4) show ?thesis by blast
qed

theorem ip_output_roundtrip_witness:
  "\<exists>s' frame. t_ip_output NULL pbuf_pool_memory None (Val 0x6501A8C0) 255 0 17
      (two_buffers (online netif_boot)) = Some (0, s') \<and> sent s' = [frame] \<and>
    ip_parse frame \<noteq> None"
proof -
  let ?s = "two_buffers (online netif_boot)"
  note f = two_buffers_facts [of "online netif_boot"] and n = two_buffers_netif [of "online netif_boot"]
  have room: "ip_room ?s pbuf_pool_memory" using f(1,3) by (simp add: ip_room_def sizeof_t_pbuf_def)
  have up: "netif_up ?s 0x300" using online_facts(1) by (simp add: netif_up_def n)
  have ch: "chained (nif_link ?s) (netif_list ?s) [0x300]" and "netif_default ?s = 0x300"
    using online_facts(7,8) by (simp_all only: n)
  then have "t_ip_route 0x6501A8C0 ?s = Some 0x300" unfolding ip_route_value [OF ch] by simp
  then have via: "ip_via NULL (Val 0x6501A8C0) ?s 0x300" by (simp add: ip_via_def)
  have "dst_reads (Val 0x6501A8C0) (pb_payload (pbuf ?s pbuf_pool_memory) - 20) 255 17 0x6501A8C0 ?s" by simp
  from ip_output_roundtrip [OF room up via refl this, of None 0] show ?thesis
    by (auto simp: n online_facts(3))
qed

end
