(* ===== verification/Icmp.thy ===== *)
theory Icmp
  imports Ip
begin

text \<open>
  \<^verbatim>\<open>core/t_icmp.c\<close>, \<^verbatim>\<open>include/t_icmp.h\<close>: the echo service.  The request's buffer is turned into the reply:
  addresses swapped, type cleared, checksum recomputed, and sent by \<open>t_ip_output\<close>, whose destination
  argument points into the very header it may overwrite.
\<close>

definition T_ICMP_ECHO_REQUEST :: u8 where "T_ICMP_ECHO_REQUEST = 0x8"

text \<open>The fields of \<^verbatim>\<open>struct t_icmp_echo_hdr\<close> the code touches.\<close>

abbreviation (input) echo_type_code :: "ptr \<Rightarrow> ptr" where "echo_type_code h \<equiv> h"
abbreviation (input) echo_chksum :: "ptr \<Rightarrow> ptr" where "echo_chksum h \<equiv> h + 2"

definition t_icmp_reply :: "ptr \<Rightarrow> ptr \<Rightarrow> 'a netif_st_scheme \<Rightarrow> int \<times> 'a netif_st_scheme" where
  "t_icmp_reply inp p s = (0, s)"

definition t_icmp_input :: "ptr \<Rightarrow> ptr \<Rightarrow> 'a netif_st_scheme \<Rightarrow> (int \<times> 'a netif_st_scheme) option" where
  "t_icmp_input p inp s = do {
     defined (p \<noteq> NULL);
     let iphdr = pb_payload (pbuf s p);
     defined (accessible iphdr 2);
     let hlen = T_IPH_HL iphdr s * 4;
     if hlen < 100 then do {
       (_, s) \<leftarrow> t_pbuf_header p (int (unat hlen)) s;
       let echo = pb_payload (pbuf s p);
       defined (accessible echo 1);
       let type = mem s echo;
       if type = T_ICMP_ECHO_REQUEST then do {
         defined (accessible iphdr 20);
         let tmpaddr = load32 (iph_src iphdr) s;
         let s = store32 (iph_src iphdr) (load32 (iph_dst iphdr) s) s;
         let s = store32 (iph_dst iphdr) tmpaddr s;
         defined (accessible echo 4);
         let s = store16 (echo_type_code echo) (htons (load16 (echo_type_code echo) s) AND 0xff00) s;
         let s = store16 (echo_chksum echo) 0 s;
         c \<leftarrow> t_inet_chksum echo (pb_tot_len (pbuf s p)) s;
         let s = store16 (echo_chksum echo) c s;
         (_, s) \<leftarrow> t_ip_output inp p None (At (iph_dst iphdr)) (ucast (T_IPH_TTL iphdr s)) 0 T_IP_PROTO_ICMP s;
         Some (0, s)
       } else Some (0, s)
     } else Some (0, s)
   }"

section \<open>The reply\<close>

lemma reply_type_code: "htons (u16_of t c) AND 0xff00 = u16_of 0 t"
proof -
  have m: "(0xff00 :: u16) = push_bit 8 (mask 8)" by (simp add: mask_eq_exp_minus_1 push_bit_eq_mult)
  show ?thesis unfolding htons_u16_of unfolding m u16_of_def
    by (rule bit_word_eqI) (auto simp: bit_simps dest: bit_imp_le_length)
qed

text \<open>The ICMP message after the three stores: type 0, code 8, a checksum that sums up.\<close>

lemma icmp_message:
  assumes "accessible e n" and "4 \<le> n" and "n \<le> 65535" and "mem s e = T_ICMP_ECHO_REQUEST"
    and "t = store16 (echo_chksum e) 0 (store16 e (htons (load16 e s) AND 0xff00) s)"
  shows "\<exists>c. t_inet_chksum e (of_nat n) t = Some c \<and>
    load_bytes e n (store16 (echo_chksum e) c t) =
      [0, 8, byte_of 0 c, byte_of 1 c] @ load_bytes (e + 4) (n - 4) s \<and>
    chksum_of (bsum True (load_bytes e n (store16 (echo_chksum e) c t))) = 0"
proof -
  define c where "c = chksum_of (bsum True (load_bytes e n t))"
  have len: "unat (of_nat n :: u16) = n" using assms(3) by (intro unat_of_nat_lt) simp
  have "t_inet_chksum e (of_nat n) t = Some c"
    using inet_chksum_value [of e "of_nat n" t] assms(1) by (simp add: len c_def)
  moreover have "load16 e s = u16_of 8 (mem s (e + 1))"
    using assms(4) by (simp add: load16_def T_ICMP_ECHO_REQUEST_def)
  then have t: "t = store16 (e + 2) 0 (store16 e (u16_of 0 8) s)"
    using assms(5) by (simp add: reply_type_code)
  have zero: "load16 (e + 2) t = 0" by (simp add: t del: add_2_eq_Suc add_2_eq_Suc')
  obtain m where m: "n = 4 + m" using assms(2) by (metis le_Suc_ex)
  have parts: "load_bytes e n u = load_bytes e 2 u @ load_bytes (e + 2) 2 u @ load_bytes (e + 4) m u" for u
    using load_bytes_parts [of e "[2, 2, m]" u]
    by (simp add: m add.assoc del: add_2_eq_Suc add_2_eq_Suc')
  have "load_bytes e n (store16 (e + 2) c t) = [0, 8, byte_of 0 c, byte_of 1 c] @ load_bytes (e + 4) (n - 4) s"
    unfolding parts [of "store16 (e + 2) c t"]
    by (simp add: t mem_simps m del: add_2_eq_Suc add_2_eq_Suc')
  moreover have "bsum True (load_bytes e n (store16 (e + 2) c t)) = bsum True (load_bytes e n t) + unat c"
    using assms(2) by (intro bsum_store16 zero) simp_all
  ultimately show ?thesis using chksum_of_closes c_def by auto
qed

text \<open>
  A received echo request: a whole IP header in front of a message of at least four bytes, in a buffer
  from whose data area nothing sticks out.  The reply is put 34 bytes in front of the message, so the
  header of the request must be behind an Ethernet header, as it is when the frame was received.
\<close>

definition echo_request :: "'a netif_st_scheme \<Rightarrow> ptr \<Rightarrow> nat \<Rightarrow> bool" where
  "echo_request s p hlen \<longleftrightarrow> pbuf_wf s p \<and>
     p + sizeof_t_pbuf + 14 \<le> pb_payload (pbuf s p) \<and> pb_payload (pbuf s p) + hlen < p + T_PBUF_BUFSIZE - 1 \<and>
     unat (T_IPH_HL (pb_payload (pbuf s p)) s * 4) = hlen \<and> 20 \<le> hlen \<and> hlen \<le> 60 \<and>
     hlen + 4 \<le> unat (pb_len (pbuf s p)) \<and>
     mem s (pb_payload (pbuf s p) + hlen) = T_ICMP_ECHO_REQUEST"

text \<open>The destination that \<open>t_ip_output\<close> reads: the requester's address, except that with eight bytes of
  options its first two bytes have already been overwritten by the time to live and the protocol.\<close>

definition echo_dst :: "nat \<Rightarrow> u8 \<Rightarrow> u32 \<Rightarrow> u32" where
  "echo_dst hlen ttl a = (if hlen = 28 then u32_of ttl 1 (byte_of 2 a) (byte_of 3 a) else a)"

lemma echo_dst_reads:
  assumes "accessible (i + 16) 4" and "20 \<le> hlen" and "4 dvd hlen"
  shows "dst_reads (At (i + 16)) (i + hlen - 20) ttl T_IP_PROTO_ICMP (echo_dst hlen ttl (load32 (i + 16) s)) s"
proof (cases "hlen = 28")
  case True
  then have "load32 (i + 16) (store16 (i + hlen - 20 + 8) (htons (u16_of T_IP_PROTO_ICMP ttl)) s) =
      echo_dst hlen ttl (load32 (i + 16) s)"
    by (simp add: load32_def mem_store16 echo_dst_def T_IP_PROTO_ICMP_def)
  then show ?thesis using assms(1) by (simp add: dst_reads_def)
next
  case False
  then have "i + 16 + 4 \<le> i + hlen - 20 + 8 \<or> i + hlen - 20 + 10 \<le> i + 16"
    using assms(2,3) by (elim dvdE) (simp, presburger)
  from dst_reads_At [OF assms(1) this] False show ?thesis by (simp add: echo_dst_def)
qed

lemma icmp_input_replies:
  assumes req: "echo_request s p hlen" and up: "netif_up s inp" and i: "i = pb_payload (pbuf s p)"
    and ttl: "ttl = ucast (T_IPH_TTL i s)" and l: "l = unat (pb_len (pbuf s p))"
  shows "\<exists>s' frame (c :: u16) b. t_icmp_input p inp s = Some (0, s') \<and>
    s' = s\<lparr>mem := mem s', pbuf := (pbuf s)(p := b), sent := sent s @ [frame]\<rparr> \<and>
    pb_next b = pb_next (pbuf s p) \<and> pb_ref b = pb_ref (pbuf s p) \<and> pb_flags b = pb_flags (pbuf s p) \<and>
    take 12 frame = get_mac_from_ip (At (i + 16)) @ nif_hwaddr (netif s inp) \<and>
    ip_parse frame = Some (nif_ip_addr (netif s inp), echo_dst hlen ttl (load32 (i + 12) s), ttl, 0, 1,
      [0, 8, byte_of 0 c, byte_of 1 c] @ load_bytes (i + hlen + 4) (l - hlen - 4) s) \<and>
    chksum_of (bsum True ([0, 8, byte_of 0 c, byte_of 1 c] @ load_bytes (i + hlen + 4) (l - hlen - 4) s)) = 0"
proof -
  let ?e = "i + hlen" and ?n = "l - hlen"
  have R: "pbuf_wf s p" "p + 46 \<le> i" "i + hlen < p + 1513" "unat (T_IPH_HL i s * 4) = hlen"
    "20 \<le> hlen" "hlen \<le> 60" "hlen + 4 \<le> l" "mem s ?e = T_ICMP_ECHO_REQUEST" "p \<in> set pbuf_slots"
    "pb_flags (pbuf s p) = T_PBUF_FLAG_POOL" "i + l \<le> p + 1546" "pb_tot_len (pbuf s p) = pb_len (pbuf s p)"
    using req unfolding echo_request_def pbuf_wf_def i [symmetric] l [symmetric]
    by (simp_all add: sizeof_t_pbuf_def T_PBUF_BUFSIZE_def pbuf_slot_eq)
  have pos: "p \<noteq> NULL" "inp \<noteq> NULL" using pbuf_wf_pos [OF R(1)] up by (simp_all add: netif_up_def)
  have acc: "accessible a k" if "i \<le> a" "a + k \<le> i + l" for a k
    using that R(2,9,11) by (intro accessible_in_slot [of p]) (auto simp: sizeof_t_pbuf_def pbuf_slot_eq)
  have four: "4 dvd hlen" using R(4) T_IPH_HL_bound(2) [of i s] by (metis dvd_triv_left)
  define b1 where "b1 = (pbuf s p)\<lparr>pb_payload := ?e, pb_tot_len := of_nat ?n, pb_len := of_nat ?n\<rparr>"
  define s1 where "s1 = s\<lparr>pbuf := (pbuf s)(p := b1)\<rparr>"
  have n16: "pb_len (pbuf s p) - of_nat hlen = of_nat ?n"
  proof -
    have "of_nat l = pb_len (pbuf s p)" by (simp add: l of_nat_unat)
    then show ?thesis using R(7) by (metis add_leD1 of_nat_diff)
  qed
  have h1: "t_pbuf_header p (int hlen) s = Some (0, s1)"
  proof -
    have "header_fits s p (int hlen)" using R(2,3,5)
      by (simp add: header_fits_def i [symmetric] sizeof_t_pbuf_def T_PBUF_BUFSIZE_def)
    from pbuf_header_moves [OF pos(1) R(10) this] show ?thesis
      by (simp add: R(12) n16 s1_def b1_def i [symmetric] nat_int_add)
  qed
  define s2 where "s2 = store32 (iph_dst i) (load32 (iph_src i) s1)
    (store32 (iph_src i) (load32 (iph_dst i) s1) s1)"
  define t where "t = store16 (echo_chksum ?e) 0 (store16 ?e (htons (load16 ?e s2) AND 0xff00) s2)"
  have mem2: "mem s2 (?e + k) = mem s (?e + k)" for k
    using R(5) by (simp add: s2_def s1_def mem_store32)
  have rest2: "load_bytes (?e + k) m s2 = load_bytes (?e + k) m s" for k m
    by (rule load_bytes_cong) (use mem2 in \<open>simp add: add.assoc\<close>)
  have "accessible ?e ?n" using R(7) by (intro acc) auto
  moreover have "4 \<le> ?n" "?n \<le> 65535" "mem s2 ?e = T_ICMP_ECHO_REQUEST"
    using R(2,7,8,11) mem2 [of 0] by simp_all
  ultimately obtain c where c: "t_inet_chksum ?e (of_nat ?n) t = Some c"
    "load_bytes ?e ?n (store16 (echo_chksum ?e) c t) =
      [0, 8, byte_of 0 c, byte_of 1 c] @ load_bytes (?e + 4) (?n - 4) s"
    "chksum_of (bsum True (load_bytes ?e ?n (store16 (echo_chksum ?e) c t))) = 0"
    using icmp_message [of ?e ?n s2 t] t_def rest2 [of 4 "?n - 4"] by auto
  define s4 where "s4 = store16 (echo_chksum ?e) c t"
  have s4: "s4 = s\<lparr>mem := mem s4, pbuf := (pbuf s)(p := b1)\<rparr>"
    by (simp add: s4_def t_def s2_def s1_def store16_def store32_def)
  have same: "pbuf s4 p = b1" "netif s4 = netif s" "sent s4 = sent s" "pbuf s4 = (pbuf s)(p := b1)"
    by (subst s4, simp)+
  have "load16 (i + 8) s4 = load16 (i + 8) s1"
    using R(5) by (simp add: s4_def t_def s2_def load_field_disjoint)
  then have ttl4: "T_IPH_TTL i s4 = T_IPH_TTL i s" by (simp add: T_IPH_TTL_def s1_def load16_def)
  have dst4: "load32 (i + 16) s4 = load32 (i + 12) s"
    using R(5) by (simp add: s4_def t_def s2_def load_field_disjoint) (simp add: s1_def load32_def)
  have len4: "unat (of_nat ?n :: u16) = ?n" using R(2,11) by (intro unat_of_nat_lt) simp
  have room: "ip_room s4 p"
    using R(2,3,5,7,9,10,11) len4
    by (simp add: ip_room_def pbuf_wf_def same b1_def sizeof_t_pbuf_def pbuf_slot_eq)
  have up4: "netif_up s4 inp" using up by (simp add: netif_up_def same)
  have via: "ip_via inp (At (i + 16)) s4 inp" using pos(2) by (simp add: ip_via_def)
  have reads: "dst_reads (At (i + 16)) (pb_payload (pbuf s4 p) - 20) ttl T_IP_PROTO_ICMP
      (echo_dst hlen ttl (load32 (i + 12) s)) s4"
    using echo_dst_reads [of i hlen ttl s4] acc [of "i + 16" 4] R(5,7) four by (simp add: same b1_def dst4)
  from ip_output_parsed [OF room up4 via refl reads, of None 0] obtain s' frame where out:
    "t_ip_output inp p None (At (i + 16)) ttl 0 T_IP_PROTO_ICMP s4 = Some (0, s')"
    "s' = s4\<lparr>mem := mem s', pbuf := (pbuf s4)(p := (pbuf s4 p)\<lparr>pb_payload := pb_payload (pbuf s4 p) - 34,
        pb_tot_len := pb_len (pbuf s4 p) + 34, pb_len := pb_len (pbuf s4 p) + 34\<rparr>),
      sent := sent s4 @ [frame]\<rparr>"
    "take 12 frame = get_mac_from_ip (At (i + 16)) @ nif_hwaddr (netif s4 inp)"
    "ip_parse frame = Some (ip_source None inp s4, echo_dst hlen ttl (load32 (i + 12) s), ttl, 0, T_IP_PROTO_ICMP,
      load_bytes (pb_payload (pbuf s4 p)) (unat (pb_len (pbuf s4 p))) s4)" by blast
  have lt: "T_IPH_HL i s * 4 < 100" using R(4,6) by (simp add: word_less_nat_alt)
  have b1: "pbuf s1 p = b1" "pb_payload b1 = ?e" "mem s1 ?e = T_ICMP_ECHO_REQUEST" "pb_tot_len b1 = of_nat ?n"
    using R(8) by (simp_all add: s1_def b1_def)
  have pt: "pbuf t p = b1" by (simp add: t_def s2_def b1)
  have acc3: "accessible i 2" "accessible ?e 1" "accessible i 20" "accessible ?e 4"
    using R(5,7) by (auto intro!: acc)
  have "t_icmp_input p inp s = do {
      c \<leftarrow> t_inet_chksum ?e (pb_tot_len (pbuf t p)) t;
      let s = store16 (echo_chksum ?e) c t;
      (_, s) \<leftarrow> t_ip_output inp p None (At (iph_dst i)) (ucast (T_IPH_TTL i s)) 0 T_IP_PROTO_ICMP s;
      Some (0, s) }"
    unfolding t_icmp_input_def i [symmetric] R(4) Let_def t_def s2_def
    using lt pos(1) acc3 by (simp add: h1 b1)
  then have run: "t_icmp_input p inp s = Some (0, s')"
    unfolding pt b1(4) c(1) Option.bind.simps Let_def s4_def [symmetric] ttl4 ttl [symmetric] out(1)
    by simp
  define b where "b = b1\<lparr>pb_payload := pb_payload b1 - 34, pb_tot_len := pb_len b1 + 34, pb_len := pb_len b1 + 34\<rparr>"
  have "s' = s\<lparr>mem := mem s', pbuf := (pbuf s)(p := b), sent := sent s @ [frame]\<rparr>"
    by (subst out(2), subst (1) s4) (simp add: same b_def)
  moreover have "load_bytes (pb_payload (pbuf s4 p)) (unat (pb_len (pbuf s4 p))) s4 =
      [0, 8, byte_of 0 c, byte_of 1 c] @ load_bytes (i + hlen + 4) (l - hlen - 4) s"
    using c(2) [folded s4_def] len4 by (simp add: same b1_def)
  moreover have "pb_next b = pb_next (pbuf s p)" "pb_ref b = pb_ref (pbuf s p)" "pb_flags b = pb_flags (pbuf s p)"
    by (simp_all add: b_def b1_def)
  ultimately show ?thesis
    by (intro exI [of _ s'] exI [of _ frame] exI [of _ c] exI [of _ b] conjI run)
      (use out(3,4) c(2,3) in \<open>simp_all only: same ip_source_def option.case T_IP_PROTO_ICMP_def\<close>)
qed

text \<open>C23: A received echo request is answered by one frame that carries the same message with the reply
  type, a checksum that closes and the request's TTL, from the interface's address to the requester
  (whose address is damaged when the request's header has eight bytes of options), and the buffer
  stays with its owner.\<close>

theorem icmp_input_echoes:
  assumes "echo_request s p hlen" and "netif_up s inp" and "i = pb_payload (pbuf s p)"
    and "ttl = ucast (T_IPH_TTL i s)" and "l = unat (pb_len (pbuf s p))"
  shows "\<exists>s' frame (c :: u16). t_icmp_input p inp s = Some (0, s') \<and>
    sent s' = sent s @ [frame] \<and> pbuf_pool s' = pbuf_pool s \<and>
    take 12 frame = get_mac_from_ip (At (i + 16)) @ nif_hwaddr (netif s inp) \<and>
    ip_parse frame = Some (nif_ip_addr (netif s inp), echo_dst hlen ttl (load32 (i + 12) s), ttl, 0, 1,
      [0, 8, byte_of 0 c, byte_of 1 c] @ load_bytes (i + hlen + 4) (l - hlen - 4) s) \<and>
    chksum_of (bsum True ([0, 8, byte_of 0 c, byte_of 1 c] @ load_bytes (i + hlen + 4) (l - hlen - 4) s)) = 0"
proof -
  obtain s' frame and c :: u16 and b where out: "t_icmp_input p inp s = Some (0, s')"
    "s' = s\<lparr>mem := mem s', pbuf := (pbuf s)(p := b), sent := sent s @ [frame]\<rparr>"
    "take 12 frame = get_mac_from_ip (At (i + 16)) @ nif_hwaddr (netif s inp)"
    "ip_parse frame = Some (nif_ip_addr (netif s inp), echo_dst hlen ttl (load32 (i + 12) s), ttl, 0, 1,
      [0, 8, byte_of 0 c, byte_of 1 c] @ load_bytes (i + hlen + 4) (l - hlen - 4) s)"
    "chksum_of (bsum True ([0, 8, byte_of 0 c, byte_of 1 c] @ load_bytes (i + hlen + 4) (l - hlen - 4) s)) = 0"
    using icmp_input_replies [OF assms] by (elim exE conjE) rule
  have "sent s' = sent s @ [frame]" "pbuf_pool s' = pbuf_pool s" by (subst out(2), simp)+
  with out show ?thesis by (intro exI conjI)
qed

text \<open>A state in which a ping is in the first buffer.\<close>

definition icmp_asked :: netif_st where
  "icmp_asked = store_bytes (pbuf_pool_memory + 74) [0x45] (store_bytes (pbuf_pool_memory + 94) [8]
     (two_buffers (online netif_boot)))"

theorem icmp_input_echoes_witness:
  "\<exists>s'. t_icmp_input pbuf_pool_memory 0x300 icmp_asked = Some (0, s') \<and> length (sent s') = 1"
proof -
  let ?p = pbuf_pool_memory
  note f = two_buffers_facts [of "online netif_boot"] and n = two_buffers_netif [of "online netif_boot"]
  have b: "pbuf icmp_asked = pbuf (two_buffers (online netif_boot))" by (simp add: icmp_asked_def)
  have m: "mem icmp_asked (?p + 74) = 0x45" "mem icmp_asked (?p + 94) = 8"
    by (simp_all add: icmp_asked_def mem_simps)
  have up: "netif_up icmp_asked 0x300" and no: "sent icmp_asked = []"
    using online_facts [of netif_boot] by (simp_all add: icmp_asked_def n netif_up_def)
  have hl: "unat (T_IPH_HL (?p + 74) icmp_asked * 4) = 20"
    by (simp add: T_IPH_HL_def load16_def htons_u16_of high_byte m)
  have "pbuf_wf icmp_asked ?p" using f(1) by (simp add: pbuf_wf_def b)
  then have "echo_request icmp_asked ?p 20"
    using f(3,4) m hl m(2) [unfolded add.commute [of ?p]]
    by (simp add: echo_request_def b sizeof_t_pbuf_def T_PBUF_BUFSIZE_def T_ICMP_ECHO_REQUEST_def)
  from icmp_input_echoes [OF this up refl refl refl] no show ?thesis by auto
qed

end
