(* ===== verification/Udp.thy ===== *)
theory Udp
  imports Icmp
begin

text \<open>
  \<^verbatim>\<open>core/t_udp.c\<close>, \<^verbatim>\<open>include/t_udp.h\<close>: UDP.  Control blocks come from their pool and are threaded, once
  they are bound, on the list \<^verbatim>\<open>t_udp_pcbs\<close>; incoming datagrams go to the receive function of the
  first connected block with the right address and port.  The receive functions are clients of this
  layer; \<open>t_udp_input\<close> takes the meaning of the indirect call as a parameter.
\<close>

section \<open>Constants and state\<close>

definition T_UDP_HLEN :: nat where "T_UDP_HLEN = 8"
definition T_UDP_TTL :: u8 where "T_UDP_TTL = 255"
definition T_UDP_FLAGS_CONNECTED :: u8 where "T_UDP_FLAGS_CONNECTED = 0x04"
definition UDP_LOCAL_PORT_RANGE_START :: int where "UDP_LOCAL_PORT_RANGE_START = 4096"

text \<open>The functions the repository installs as receivers: \<^verbatim>\<open>udp_recv_data\<close> of \<^verbatim>\<open>user/s_main.c\<close> and
  \<^verbatim>\<open>t_recv_udp\<close> of \<^verbatim>\<open>api/t_api_msg.c\<close>.\<close>

datatype udp_recv = No_udp_recv | Udp_recv_data | T_recv_udp

record t_udp_pcb =
  up_local_ip :: u32
  up_remote_ip :: u32
  up_so_options :: u16
  up_tos :: u8
  up_ttl :: u8
  up_next :: ptr
  up_flags :: u8
  up_local_port :: u16
  up_remote_port :: u16
  up_chksum_len :: u16
  up_recv :: udp_recv
  up_recv_arg :: ptr

definition udp_zeroed :: t_udp_pcb where
  "udp_zeroed = \<lparr>up_local_ip = 0, up_remote_ip = 0, up_so_options = 0, up_tos = 0, up_ttl = 0,
     up_next = NULL, up_flags = 0, up_local_port = 0, up_remote_port = 0, up_chksum_len = 0,
     up_recv = No_udp_recv, up_recv_arg = NULL\<rparr>"

record udp_st = arp_st +
  udp_pcb :: "ptr \<Rightarrow> t_udp_pcb"
  t_udp_pcbs :: ptr
  start_count :: int

abbreviation up_link :: "'a udp_st_scheme \<Rightarrow> ptr \<Rightarrow> ptr" where
  "up_link s \<equiv> (\<lambda>u. up_next (udp_pcb s u))"

abbreviation upd_udp :: "ptr \<Rightarrow> (t_udp_pcb \<Rightarrow> t_udp_pcb) \<Rightarrow> 'a udp_st_scheme \<Rightarrow> 'a udp_st_scheme" where
  "upd_udp u f s \<equiv> s\<lparr>udp_pcb := (udp_pcb s)(u := f (udp_pcb s u))\<rparr>"

lemma up_link_upd [simp]:
  "(\<lambda>p. up_next (if p = q then b else f p)) = (\<lambda>p. up_next (f p))(q := up_next b)"
  by auto

definition udp_boot :: udp_st where
  "udp_boot = arp_st.extend arp_boot \<lparr>udp_pcb = (\<lambda>_. udp_zeroed), t_udp_pcbs = NULL, start_count = 0\<rparr>"

lemma udp_stores [simp]:
  "udp_pcb (store8 a u s) = udp_pcb s" "udp_pcb (store16 a v s) = udp_pcb s"
  "udp_pcb (store32 a w s) = udp_pcb s" "udp_pcb (store_bytes a bs s) = udp_pcb s"
  "t_udp_pcbs (store8 a u s) = t_udp_pcbs s" "t_udp_pcbs (store16 a v s) = t_udp_pcbs s"
  "t_udp_pcbs (store32 a w s) = t_udp_pcbs s" "t_udp_pcbs (store_bytes a bs s) = t_udp_pcbs s"
  by (simp_all add: store8_def store16_def store32_def store_bytes_def)

text \<open>The fields of \<^verbatim>\<open>struct t_udp_hdr\<close>.\<close>

abbreviation (input) udp_src :: "ptr \<Rightarrow> ptr" where "udp_src h \<equiv> h"
abbreviation (input) udp_dst :: "ptr \<Rightarrow> ptr" where "udp_dst h \<equiv> h + 2"
abbreviation (input) udp_len :: "ptr \<Rightarrow> ptr" where "udp_len h \<equiv> h + 4"
abbreviation (input) udp_chksum :: "ptr \<Rightarrow> ptr" where "udp_chksum h \<equiv> h + 6"

section \<open>Operations\<close>

definition t_udp_init :: "'a udp_st_scheme \<Rightarrow> int \<times> 'a udp_st_scheme" where
  "t_udp_init s = (0, s\<lparr>t_udp_pcbs := NULL\<rparr>)"

definition t_udp_new :: "'a udp_st_scheme \<Rightarrow> ptr \<times> 'a udp_st_scheme" where
  "t_udp_new s =
     (let (udp, s) = t_memp_malloc T_MEMP_UDP_PCB s
      in if udp = NULL then (udp, s)
         else
           let s = upd_udp udp (\<lambda>_. udp_zeroed) s;
               s = upd_udp udp (\<lambda>u. u\<lparr>up_ttl := T_UDP_TTL\<rparr>) s
           in (udp, s))"

text \<open>The loop of \<^verbatim>\<open>t_udp_remove\<close> unlinks the block and walks on to the end of the list.\<close>

partial_function (option) udp_remove_loop :: "ptr \<Rightarrow> ptr \<Rightarrow> 'a udp_st_scheme \<Rightarrow> 'a udp_st_scheme option" where
  "udp_remove_loop pcb2 pcb s =
     (if pcb2 = NULL then Some s
      else
        let s = (if up_next (udp_pcb s pcb2) \<noteq> NULL \<and> up_next (udp_pcb s pcb2) = pcb
                 then upd_udp pcb2 (\<lambda>u. u\<lparr>up_next := up_next (udp_pcb s pcb)\<rparr>) s else s)
        in udp_remove_loop (up_next (udp_pcb s pcb2)) pcb s)"

definition t_udp_remove :: "ptr \<Rightarrow> 'a udp_st_scheme \<Rightarrow> 'a udp_st_scheme option" where
  "t_udp_remove pcb s = do {
     s \<leftarrow> (if t_udp_pcbs s = pcb then do {
              defined (pcb \<noteq> NULL);
              Some (s\<lparr>t_udp_pcbs := up_next (udp_pcb s pcb)\<rparr>)
            } else udp_remove_loop (t_udp_pcbs s) pcb s);
     t_memp_free T_MEMP_UDP_PCB pcb s
   }"

text \<open>The address argument is a pointer that may be null (\<open>None\<close>); otherwise it is read at once.\<close>

definition t_ip_addr_set :: "u32 option \<Rightarrow> u32" where
  "t_ip_addr_set src = (case src of None \<Rightarrow> 0 | Some a \<Rightarrow> a)"

definition t_udp_bind :: "ptr \<Rightarrow> u32 option \<Rightarrow> u16 \<Rightarrow> 'a udp_st_scheme \<Rightarrow> (int \<times> 'a udp_st_scheme) option" where
  "t_udp_bind pcb ipaddr port s = do {
     ipcb \<leftarrow> find_from (up_link s) (\<lambda>ipcb. pcb = ipcb) (t_udp_pcbs s);
     let rebind = (ipcb \<noteq> NULL);
     defined (pcb \<noteq> NULL);
     let s = upd_udp pcb (\<lambda>u. u\<lparr>up_local_ip := t_ip_addr_set ipaddr\<rparr>) s;
     let (port, s) =
       (if port = 0 then (of_int (UDP_LOCAL_PORT_RANGE_START + start_count s),
                          s\<lparr>start_count := start_count s + 1\<rparr>)
        else (port, s));
     let s = upd_udp pcb (\<lambda>u. u\<lparr>up_local_port := port\<rparr>) s;
     Some (0, if \<not> rebind then
                let s = upd_udp pcb (\<lambda>u. u\<lparr>up_next := t_udp_pcbs s\<rparr>) s
                in s\<lparr>t_udp_pcbs := pcb\<rparr>
              else s)
   }"

definition t_udp_connect :: "ptr \<Rightarrow> u32 option \<Rightarrow> u16 \<Rightarrow> 'a udp_st_scheme \<Rightarrow> (int \<times> 'a udp_st_scheme) option" where
  "t_udp_connect pcb ipaddr port s = do {
     defined (pcb \<noteq> NULL);
     (err, s) \<leftarrow> (if up_local_port (udp_pcb s pcb) = 0
                   then t_udp_bind pcb (Some (up_local_ip (udp_pcb s pcb))) (up_local_port (udp_pcb s pcb)) s
                   else Some (0, s));
     if err \<noteq> 0 then Some (err, s)
     else do {
       let s = upd_udp pcb (\<lambda>u. u\<lparr>up_remote_ip := t_ip_addr_set ipaddr\<rparr>) s;
       let s = upd_udp pcb (\<lambda>u. u\<lparr>up_remote_port := port\<rparr>) s;
       let s = upd_udp pcb (\<lambda>u. u\<lparr>up_flags := up_flags u OR T_UDP_FLAGS_CONNECTED\<rparr>) s;
       ipcb \<leftarrow> find_from (up_link s) (\<lambda>ipcb. pcb = ipcb) (t_udp_pcbs s);
       Some (if ipcb \<noteq> NULL then 0 else -1, s)
     }
   }"

text \<open>With no interface at all, the code would read the source address through a null pointer.\<close>

definition t_udp_send :: "ptr \<Rightarrow> ptr \<Rightarrow> 'a udp_st_scheme \<Rightarrow> (int \<times> 'a udp_st_scheme) option" where
  "t_udp_send pcb p s = do {
     (r, s) \<leftarrow> t_pbuf_header p (- int T_UDP_HLEN) s;
     if r \<noteq> 0 then Some (-1, s)
     else do {
       defined (pcb \<noteq> NULL);
       let udphdr = pb_payload (pbuf s p);
       defined (accessible udphdr 8);
       let s = store16 (udp_src udphdr) (htons (up_local_port (udp_pcb s pcb))) s;
       let s = store16 (udp_dst udphdr) (htons (up_remote_port (udp_pcb s pcb))) s;
       let s = store16 (udp_chksum udphdr) 0 s;
       n \<leftarrow> t_ip_route (up_remote_ip (udp_pcb s pcb)) s;
       defined (n \<noteq> NULL);
       let src_ip = nif_ip_addr (netif s n);
       let s = store16 (udp_len udphdr) (htons (pb_tot_len (pbuf s p))) s;
       (err, s) \<leftarrow> t_ip_output n p (Some src_ip) (Val (up_remote_ip (udp_pcb s pcb)))
         (up_ttl (udp_pcb s pcb)) (up_tos (udp_pcb s pcb)) T_IP_PROTO_UDP s;
       (_, s) \<leftarrow> t_pbuf_free p s;
       Some (0, s)
     }
   }"

definition t_set_udp_recv :: "ptr \<Rightarrow> udp_recv \<Rightarrow> ptr \<Rightarrow> 'a udp_st_scheme \<Rightarrow> 'a udp_st_scheme option" where
  "t_set_udp_recv pcb recv recv_arg s = do {
     defined (pcb \<noteq> NULL);
     let s = upd_udp pcb (\<lambda>u. u\<lparr>up_recv := recv\<rparr>) s;
     Some (upd_udp pcb (\<lambda>u. u\<lparr>up_recv_arg := recv_arg\<rparr>) s)
   }"

text \<open>The test of the demultiplexing loop; the destination address is a field of the IP header.\<close>

definition udp_matches :: "u16 \<Rightarrow> u32 \<Rightarrow> t_udp_pcb \<Rightarrow> bool" where
  "udp_matches dest dst u \<longleftrightarrow> up_flags u AND T_UDP_FLAGS_CONNECTED \<noteq> 0 \<and> up_local_port u = dest \<and>
     \<not> t_ip_addr_cmp (up_local_ip u) dst"

definition t_udp_input ::
    "(udp_recv \<Rightarrow> ptr \<Rightarrow> ptr \<Rightarrow> ptr \<Rightarrow> ptr \<Rightarrow> u16 \<Rightarrow> 'a udp_st_scheme \<Rightarrow> 'a udp_st_scheme option)
     \<Rightarrow> ptr \<Rightarrow> ptr \<Rightarrow> 'a udp_st_scheme \<Rightarrow> (int \<times> 'a udp_st_scheme) option" where
  "t_udp_input call_recv inp p s = do {
     defined (p \<noteq> NULL);
     let iphdr = pb_payload (pbuf s p);
     defined (accessible iphdr 2);
     if unat (pb_tot_len (pbuf s p)) < T_UDP_HLEN + unat (T_IPH_HL iphdr s) * 4 then Some (-1, s)
     else do {
       (_, s) \<leftarrow> t_pbuf_header p (int (unat (T_IPH_HL iphdr s)) * 4) s;
       let udphdr = pb_payload (pbuf s p);
       defined (accessible udphdr 6);
       if pb_tot_len (pbuf s p) < htons (load16 (udp_len udphdr) s) then Some (-1, s)
       else do {
         let src = ntohs (load16 (udp_src udphdr) s);
         let dest = ntohs (load16 (udp_dst udphdr) s);
         defined (accessible (iph_src iphdr) 8);
         pcb \<leftarrow> find_from (up_link s)
           (\<lambda>pcb. udp_matches dest (load32 (iph_dst iphdr) s) (udp_pcb s pcb)) (t_udp_pcbs s);
         if pcb \<noteq> NULL \<and> up_recv (udp_pcb s pcb) \<noteq> No_udp_recv then do {
           s \<leftarrow> call_recv (up_recv (udp_pcb s pcb)) (up_recv_arg (udp_pcb s pcb)) pcb p (iph_src iphdr) src s;
           Some (0, s)
         } else Some (0, s)
       }
     }
   }"

section \<open>The list of bound blocks\<close>

definition udp_list :: "'a udp_st_scheme \<Rightarrow> ptr list \<Rightarrow> bool" where
  "udp_list s us \<longleftrightarrow> chained (up_link s) (t_udp_pcbs s) us"

lemma remove_loop_absent:
  "chained (up_link s) p us \<Longrightarrow> pcb \<notin> set us \<Longrightarrow> udp_remove_loop p pcb s = Some s"
proof (induction us arbitrary: p)
  case Nil
  then show ?case by (simp add: udp_remove_loop.simps)
next
  case (Cons u us)
  then have "up_next (udp_pcb s u) = NULL \<or> up_next (udp_pcb s u) \<noteq> pcb" by (cases us) auto
  with Cons show ?case by (subst udp_remove_loop.simps) auto
qed

lemma remove_loop_unlinks:
  "chained (up_link s) p us \<Longrightarrow> p \<noteq> pcb \<Longrightarrow>
   \<exists>s'. udp_remove_loop p pcb s = Some s' \<and> chained (up_link s') p (remove1 pcb us) \<and>
     s' = s\<lparr>udp_pcb := udp_pcb s'\<rparr> \<and> (\<forall>q. q \<notin> set us \<longrightarrow> udp_pcb s' q = udp_pcb s q)"
proof (induction us arbitrary: p)
  case Nil
  then show ?case by (intro exI [of _ s]) (simp add: udp_remove_loop.simps)
next
  case (Cons u us)
  then have u: "p = u" "u \<noteq> NULL" "u \<noteq> pcb" "chained (up_link s) (up_next (udp_pcb s u)) us" "u \<notin> set us"
    using chained_distinct [OF Cons.prems(1)] by auto
  show ?case
  proof (cases "up_next (udp_pcb s u) \<noteq> NULL \<and> up_next (udp_pcb s u) = pcb")
    case True
    with u(4) obtain vs where vs: "us = pcb # vs" "chained (up_link s) (up_next (udp_pcb s pcb)) vs"
      by (auto simp: chained_non_NULL)
    let ?s = "upd_udp u (\<lambda>v. v\<lparr>up_next := up_next (udp_pcb s pcb)\<rparr>) s"
    have ch: "chained (up_link ?s) (up_next (udp_pcb s pcb)) vs" using vs u(5) by simp
    moreover have "pcb \<notin> set vs" using chained_distinct [OF u(4)] vs(1) by simp
    ultimately have "udp_remove_loop (up_next (udp_pcb s pcb)) pcb ?s = Some ?s"
      by (rule remove_loop_absent)
    then have "udp_remove_loop p pcb s = Some ?s"
      using u True by (subst udp_remove_loop.simps) simp
    moreover have "chained (up_link ?s) p (remove1 pcb (u # us))" using u(1-3) vs(1) ch by simp
    moreover have "?s = s\<lparr>udp_pcb := udp_pcb ?s\<rparr>" "\<forall>q. q \<notin> set (u # us) \<longrightarrow> udp_pcb ?s q = udp_pcb s q" by simp_all
    ultimately show ?thesis by blast
  next
    case False
    then have "udp_remove_loop p pcb s = udp_remove_loop (up_next (udp_pcb s u)) pcb s"
      using u by (subst udp_remove_loop.simps) auto
    moreover have "up_next (udp_pcb s u) \<noteq> pcb \<or> up_next (udp_pcb s u) = NULL" using False by auto
    moreover have "udp_remove_loop NULL pcb s = Some s" by (simp add: udp_remove_loop.simps)
    ultimately show ?thesis
    proof (cases "up_next (udp_pcb s u) = NULL")
      case True
      then show ?thesis using u \<open>udp_remove_loop p pcb s = _\<close> \<open>udp_remove_loop NULL pcb s = _\<close>
        by (intro exI [of _ s]) auto
    next
      case False
      then have "up_next (udp_pcb s u) \<noteq> pcb" using \<open>\<not> (_ \<and> _)\<close> by auto
      from Cons.IH [OF u(4) this] obtain s' where s': "udp_remove_loop (up_next (udp_pcb s u)) pcb s = Some s'"
        "chained (up_link s') (up_next (udp_pcb s u)) (remove1 pcb us)"
        "s' = s\<lparr>udp_pcb := udp_pcb s'\<rparr>" "\<forall>q. q \<notin> set us \<longrightarrow> udp_pcb s' q = udp_pcb s q" by blast
      with u \<open>udp_remove_loop p pcb s = _\<close> show ?thesis by (intro exI [of _ s']) auto
    qed
  qed
qed

text \<open>What binding does, whether or not the block is bound already.\<close>

lemma udp_bind_result:
  assumes "udp_list s us" and "pcb \<noteq> NULL"
  shows "\<exists>s'. t_udp_bind pcb ipaddr port s = Some (0, s') \<and>
    udp_list s' (if pcb \<in> set us then us else pcb # us) \<and>
    up_local_ip (udp_pcb s' pcb) = t_ip_addr_set ipaddr \<and>
    up_local_port (udp_pcb s' pcb) = (if port = 0 then of_int (4096 + start_count s) else port) \<and>
    s' = s\<lparr>udp_pcb := (udp_pcb s)(pcb := udp_pcb s' pcb), t_udp_pcbs := t_udp_pcbs s',
      start_count := start_count s + (if port = 0 then 1 else 0)\<rparr>"
proof -
  have ch: "chained (up_link s) (t_udp_pcbs s) us" using assms(1) by (simp add: udp_list_def)
  have find: "find_from (up_link s) (\<lambda>ipcb. pcb = ipcb) (t_udp_pcbs s) = Some (if pcb \<in> set us then pcb else NULL)"
    unfolding find_from_chained [OF ch] by (induction us) auto
  define f where "f = (\<lambda>u :: t_udp_pcb. u\<lparr>up_local_ip := t_ip_addr_set ipaddr,
      up_local_port := (if port = 0 then of_int (4096 + start_count s) else port)\<rparr>)"
  define g where "g = (\<lambda>u. if pcb \<in> set us then f u else (f u)\<lparr>up_next := t_udp_pcbs s\<rparr>)"
  define s' where "s' = s\<lparr>udp_pcb := (udp_pcb s)(pcb := g (udp_pcb s pcb)),
      t_udp_pcbs := (if pcb \<in> set us then t_udp_pcbs s else pcb),
      start_count := start_count s + (if port = 0 then 1 else 0)\<rparr>"
  have "t_udp_bind pcb ipaddr port s = Some (0, s')"
    using assms(2) by (simp add: t_udp_bind_def find s'_def g_def f_def UDP_LOCAL_PORT_RANGE_START_def)
  moreover have "udp_list s' (if pcb \<in> set us then us else pcb # us)"
  proof (cases "pcb \<in> set us")
    case True
    have "(up_link s)(pcb := up_next (udp_pcb s pcb)) = up_link s" by auto
    with True ch show ?thesis by (simp add: udp_list_def s'_def g_def f_def)
  next
    case False
    with ch assms(2) show ?thesis by (simp add: udp_list_def s'_def g_def f_def)
  qed
  ultimately show ?thesis by (intro exI [of _ s'] conjI) (simp_all add: s'_def g_def f_def)
qed

lemma udp_connect_result:
  assumes "udp_list s us" and "pcb \<noteq> NULL"
  shows "\<exists>s' vs. t_udp_connect pcb ipaddr port s = Some (if pcb \<in> set vs then 0 else -1, s') \<and>
    vs = (if up_local_port (udp_pcb s pcb) = 0 \<and> pcb \<notin> set us then pcb # us else us) \<and>
    udp_list s' vs \<and> up_remote_ip (udp_pcb s' pcb) = t_ip_addr_set ipaddr \<and>
    up_remote_port (udp_pcb s' pcb) = port \<and>
    up_flags (udp_pcb s' pcb) AND T_UDP_FLAGS_CONNECTED \<noteq> 0 \<and>
    s' = s\<lparr>udp_pcb := (udp_pcb s)(pcb := udp_pcb s' pcb), t_udp_pcbs := t_udp_pcbs s',
      start_count := start_count s'\<rparr>"
proof -
  let ?vs = "if up_local_port (udp_pcb s pcb) = 0 \<and> pcb \<notin> set us then pcb # us else us"
  obtain t where t: "(if up_local_port (udp_pcb s pcb) = 0
      then t_udp_bind pcb (Some (up_local_ip (udp_pcb s pcb))) (up_local_port (udp_pcb s pcb)) s
      else Some (0, s)) = Some (0, t)" "udp_list t ?vs"
    "t = s\<lparr>udp_pcb := (udp_pcb s)(pcb := udp_pcb t pcb), t_udp_pcbs := t_udp_pcbs t,
      start_count := start_count t\<rparr>"
  proof (cases "up_local_port (udp_pcb s pcb) = 0")
    case True
    from udp_bind_result [OF assms, of "Some (up_local_ip (udp_pcb s pcb))" 0] obtain t where
      b: "t_udp_bind pcb (Some (up_local_ip (udp_pcb s pcb))) 0 s = Some (0, t)"
      "udp_list t (if pcb \<in> set us then us else pcb # us)"
      and "t = s\<lparr>udp_pcb := (udp_pcb s)(pcb := udp_pcb t pcb), t_udp_pcbs := t_udp_pcbs t,
        start_count := start_count s + (if (0 :: u16) = 0 then 1 else 0)\<rparr>" by blast
    from this(3) have "t = s\<lparr>udp_pcb := (udp_pcb s)(pcb := udp_pcb t pcb), t_udp_pcbs := t_udp_pcbs t,
        start_count := start_count t\<rparr>"
      by (cases t) (simp only: udp_st.simps, simp)
    moreover have "(if pcb \<in> set us then us else pcb # us) = ?vs" using True by simp
    ultimately show ?thesis using b True by (intro that [of t]) simp_all
  next
    case False
    then show ?thesis using assms(1) by (intro that [of s]) auto
  qed
  let ?f = "\<lambda>u :: t_udp_pcb. u\<lparr>up_remote_ip := t_ip_addr_set ipaddr, up_remote_port := port,
      up_flags := up_flags u OR T_UDP_FLAGS_CONNECTED\<rparr>"
  define s' where "s' = upd_udp pcb ?f t"
  have "(up_link t)(pcb := up_next (udp_pcb t pcb)) = up_link t" by auto
  then have ch: "chained (up_link s') (t_udp_pcbs s') ?vs"
    using t(2) by (simp add: udp_list_def s'_def)
  have "find_from (up_link s') (\<lambda>ipcb. pcb = ipcb) (t_udp_pcbs s') = Some (if pcb \<in> set ?vs then pcb else NULL)"
    unfolding find_from_chained [OF ch] by (induction us) auto
  then have "t_udp_connect pcb ipaddr port s = Some (if pcb \<in> set ?vs then 0 else -1, s')"
    unfolding t_udp_connect_def t(1) using assms(2) by (simp add: s'_def)
  moreover have "up_flags (udp_pcb s' pcb) AND T_UDP_FLAGS_CONNECTED \<noteq> 0"
    by (simp add: s'_def T_UDP_FLAGS_CONNECTED_def bit.conj_disj_distrib2)
  moreover have "s' = s\<lparr>udp_pcb := (udp_pcb s)(pcb := udp_pcb s' pcb), t_udp_pcbs := t_udp_pcbs s',
      start_count := start_count s'\<rparr>"
  proof -
    have "udp_pcb t = (udp_pcb s)(pcb := udp_pcb t pcb)" by (subst t(3)) simp
    then have "udp_pcb t q = udp_pcb s q" if "q \<noteq> pcb" for q using that by (metis fun_upd_other)
    then have "(udp_pcb t)(pcb := a) = (udp_pcb s)(pcb := a)" for a by (simp add: fun_eq_iff)
    moreover have "t\<lparr>udp_pcb := Z\<rparr> = s\<lparr>udp_pcb := Z, t_udp_pcbs := t_udp_pcbs t, start_count := start_count t\<rparr>"
      for Z by (subst t(3)) simp
    ultimately show ?thesis unfolding s'_def by simp
  qed
  ultimately show ?thesis using ch by (intro exI [of _ s'] exI [of _ ?vs]) (simp add: udp_list_def s'_def)
qed

section \<open>The life of control blocks\<close>

text \<open>
  What a client may do: take blocks, bind, connect and equip the blocks it holds, and give them back.
  The first component of a configuration is the set of blocks the client holds.
\<close>

inductive udp_step :: "ptr set \<times> 'a udp_st_scheme \<Rightarrow> ptr set \<times> 'a udp_st_scheme \<Rightarrow> bool" where
  New: "t_udp_new s = (u, s') \<Longrightarrow> udp_step (H, s) (if u = NULL then H else insert u H, s')"
| Bind: "u \<in> H \<Longrightarrow> t_udp_bind u ipaddr port s = Some (r, s') \<Longrightarrow> udp_step (H, s) (H, s')"
| Connect: "u \<in> H \<Longrightarrow> t_udp_connect u ipaddr port s = Some (r, s') \<Longrightarrow> udp_step (H, s) (H, s')"
| Receiver: "u \<in> H \<Longrightarrow> t_set_udp_recv u f arg s = Some s' \<Longrightarrow> udp_step (H, s) (H, s')"
| Remove: "u \<in> H \<Longrightarrow> t_udp_remove u s = Some s' \<Longrightarrow> udp_step (H, s) (H - {u}, s')"

inductive_cases udp_stepE: "udp_step (H, s) c"

definition udp_inv :: "ptr set \<Rightarrow> 'a udp_st_scheme \<Rightarrow> bool" where
  "udp_inv H s \<longleftrightarrow> (\<exists>us av. udp_list s us \<and> set us \<subseteq> H \<and> memp_avail T_MEMP_UDP_PCB s av \<and>
     H \<union> set av = memp_objs T_MEMP_UDP_PCB \<and> H \<inter> set av = {} \<and> (\<forall>u \<in> H. memp_owned s u))"

text \<open>The pool only sees its own two fields, the list only its own two.\<close>

lemma udp_pool_frame [simp]:
  "memp_avail t (s\<lparr>udp_pcb := f, t_udp_pcbs := l, start_count := n\<rparr>) av = memp_avail t s av"
  "memp_owned (s\<lparr>udp_pcb := f, t_udp_pcbs := l, start_count := n\<rparr>) x = memp_owned s x"
  "memp_avail t (s\<lparr>udp_pcb := f\<rparr>) av = memp_avail t s av" "memp_owned (s\<lparr>udp_pcb := f\<rparr>) x = memp_owned s x"
  "memp_avail t (s\<lparr>t_udp_pcbs := l\<rparr>) av = memp_avail t s av" "memp_owned (s\<lparr>t_udp_pcbs := l\<rparr>) x = memp_owned s x"
  by (simp_all add: memp_avail_def memp_owned_def)

lemma memp_objs_pos: "u \<in> memp_objs t \<Longrightarrow> u \<noteq> NULL"
  using memp.NULL_not_obj by metis

lemma udp_inv_held: "udp_inv H s \<Longrightarrow> u \<in> H \<Longrightarrow> u \<noteq> NULL"
  unfolding udp_inv_def using memp_objs_pos by blast

lemma udp_new_keeps:
  assumes "udp_inv H s" and "t_udp_new s = (u, s')"
  shows "udp_inv (if u = NULL then H else insert u H) s'"
proof -
  from assms(1) obtain us av where inv: "udp_list s us" "set us \<subseteq> H" "memp_avail T_MEMP_UDP_PCB s av"
    "H \<union> set av = memp_objs T_MEMP_UDP_PCB" "H \<inter> set av = {}" "\<forall>u \<in> H. memp_owned s u"
    unfolding udp_inv_def by blast
  show ?thesis
  proof (cases av)
    case Nil
    with inv(3) have "t_memp_malloc T_MEMP_UDP_PCB s = (NULL, s)" by (simp add: memp_malloc_empty)
    with assms show ?thesis by (simp add: t_udp_new_def)
  next
    case (Cons x xs)
    with inv(3) obtain t where t: "t_memp_malloc T_MEMP_UDP_PCB s = (x, t)" "memp_avail T_MEMP_UDP_PCB t xs"
      "memp_owned t x" "\<forall>y. memp_owned s y \<longrightarrow> memp_owned t y"
      "t = s\<lparr>memp_tab := memp_tab t, memp_next := memp_next t, now_count := now_count s + 1\<rparr>"
      using memp_malloc_next by blast
    have same: "udp_pcb t = udp_pcb s" "t_udp_pcbs t = t_udp_pcbs s" by (subst t(5), simp)+
    have x: "x \<noteq> NULL" "x \<notin> H" using inv(4,5) Cons memp_objs_pos by auto
    then have s': "u = x" "s' = upd_udp x (\<lambda>_. udp_zeroed\<lparr>up_ttl := T_UDP_TTL\<rparr>) t"
      using assms(2) t(1) by (auto simp: t_udp_new_def)
    have "x \<notin> set us" using inv(2) x(2) by blast
    then have "udp_list s' us" using inv(1) by (simp add: udp_list_def s'(2) same)
    moreover have "insert x H \<inter> set xs = {}" "insert x H \<union> set xs = memp_objs T_MEMP_UDP_PCB"
      using inv(4,5) Cons memp.avail_distinct [OF inv(3)] by auto
    ultimately show ?thesis
      using inv(2,6) t(2-4) x(1) unfolding udp_inv_def s'(1)
      by (intro exI [of _ us] exI [of _ xs]) (auto simp: s'(2))
  qed
qed

text \<open>Operations that only change a held block and the list among held blocks.\<close>

lemma udp_inv_update:
  assumes "udp_inv H s" and "udp_list s' us" and "set us \<subseteq> H"
    and "s' = s\<lparr>udp_pcb := f, t_udp_pcbs := l, start_count := n\<rparr>"
  shows "udp_inv H s'"
proof -
  have "memp_avail t s' av = memp_avail t s av" "memp_owned s' x = memp_owned s x" for t av x
    by (subst assms(4), simp)+
  with assms(1-3) show ?thesis unfolding udp_inv_def by blast
qed

lemma udp_bind_keeps:
  assumes "udp_inv H s" and "u \<in> H"
  shows "\<exists>s'. t_udp_bind u ipaddr port s = Some (0, s') \<and> udp_inv H s'"
proof -
  from assms(1) obtain us where us: "udp_list s us" "set us \<subseteq> H" unfolding udp_inv_def by blast
  from udp_bind_result [OF us(1) udp_inv_held [OF assms], of ipaddr port] obtain s' where s':
    "t_udp_bind u ipaddr port s = Some (0, s')" "udp_list s' (if u \<in> set us then us else u # us)"
    "s' = s\<lparr>udp_pcb := (udp_pcb s)(u := udp_pcb s' u), t_udp_pcbs := t_udp_pcbs s',
      start_count := start_count s + (if port = 0 then 1 else 0)\<rparr>" by blast
  from udp_inv_update [OF assms(1) s'(2) _ s'(3)] us(2) assms(2) s'(1) show ?thesis by auto
qed

lemma udp_connect_keeps:
  assumes "udp_inv H s" and "u \<in> H"
  shows "\<exists>r s'. t_udp_connect u ipaddr port s = Some (r, s') \<and> udp_inv H s'"
proof -
  from assms(1) obtain us where us: "udp_list s us" "set us \<subseteq> H" unfolding udp_inv_def by blast
  from udp_connect_result [OF us(1) udp_inv_held [OF assms], of ipaddr port] obtain s' vs where s':
    "t_udp_connect u ipaddr port s = Some (if u \<in> set vs then 0 else -1, s')"
    "vs = (if up_local_port (udp_pcb s u) = 0 \<and> u \<notin> set us then u # us else us)" "udp_list s' vs"
    "s' = s\<lparr>udp_pcb := (udp_pcb s)(u := udp_pcb s' u), t_udp_pcbs := t_udp_pcbs s',
      start_count := start_count s'\<rparr>" by blast
  have "set vs \<subseteq> H" using us(2) assms(2) s'(2) by auto
  from udp_inv_update [OF assms(1) s'(3) this s'(4)] s'(1) show ?thesis by blast
qed

lemma udp_receiver_keeps:
  assumes "udp_inv H s" and "u \<in> H"
  shows "\<exists>s'. t_set_udp_recv u f arg s = Some s' \<and> udp_inv H s'"
proof -
  from assms(1) obtain us where us: "udp_list s us" "set us \<subseteq> H" unfolding udp_inv_def by blast
  let ?s = "upd_udp u (\<lambda>v. v\<lparr>up_recv := f, up_recv_arg := arg\<rparr>) s"
  have "(up_link s)(u := up_next (udp_pcb s u)) = up_link s" by auto
  then have "udp_list ?s us" using us(1) by (simp add: udp_list_def)
  moreover have "?s = s\<lparr>udp_pcb := udp_pcb ?s, t_udp_pcbs := t_udp_pcbs s, start_count := start_count s\<rparr>" by simp
  ultimately have "udp_inv H ?s" using udp_inv_update assms(1) us(2) by blast
  then show ?thesis using udp_inv_held [OF assms] by (simp add: t_set_udp_recv_def)
qed

text \<open>Removing a held block takes it off the list, if it is there, and pushes it onto the pool.\<close>

lemma udp_remove_result:
  assumes "udp_list s us" and "u \<in> memp_objs T_MEMP_UDP_PCB" and "memp_avail T_MEMP_UDP_PCB s av"
    and "u \<notin> set av" and "memp_owned s u"
  shows "\<exists>s'. t_udp_remove u s = Some s' \<and> udp_list s' (remove1 u us) \<and>
    memp_avail T_MEMP_UDP_PCB s' (u # av) \<and> (\<forall>y. y \<noteq> u \<longrightarrow> memp_owned s y \<longrightarrow> memp_owned s' y) \<and>
    s' = s\<lparr>memp_tab := memp_tab s', memp_next := memp_next s', now_count := now_count s', udp_pcb := udp_pcb s',
      t_udp_pcbs := t_udp_pcbs s'\<rparr>"
proof -
  have ch: "chained (up_link s) (t_udp_pcbs s) us" using assms(1) by (simp add: udp_list_def)
  have u: "u \<noteq> NULL" using memp_objs_pos [OF assms(2)] .
  obtain t f l where t: "(if t_udp_pcbs s = u then do {
              defined (u \<noteq> NULL);
              Some (s\<lparr>t_udp_pcbs := up_next (udp_pcb s u)\<rparr>)
            } else udp_remove_loop (t_udp_pcbs s) u s) = Some t"
    "t = s\<lparr>udp_pcb := f, t_udp_pcbs := l\<rparr>" "udp_list t (remove1 u us)"
  proof (cases "t_udp_pcbs s = u")
    case True
    with ch u obtain vs where "us = u # vs" "chained (up_link s) (up_next (udp_pcb s u)) vs"
      by (auto simp: chained_non_NULL)
    with True u show ?thesis
      by (intro that [where t = "s\<lparr>t_udp_pcbs := up_next (udp_pcb s u)\<rparr>" and f = "udp_pcb s"]) (simp_all add: udp_list_def)
  next
    case False
    from remove_loop_unlinks [OF ch False] obtain t where t: "udp_remove_loop (t_udp_pcbs s) u s = Some t"
      "chained (up_link t) (t_udp_pcbs s) (remove1 u us)" "t = s\<lparr>udp_pcb := udp_pcb t\<rparr>" by blast
    have "t_udp_pcbs t = t_udp_pcbs s" "t = s\<lparr>udp_pcb := udp_pcb t, t_udp_pcbs := t_udp_pcbs s\<rparr>"
      by (subst t(3), simp)+
    with t(1,2) False show ?thesis
      by (intro that [where t = t and f = "udp_pcb t" and l = "t_udp_pcbs s"]) (simp_all add: udp_list_def)
  qed
  have own: "memp_avail T_MEMP_UDP_PCB t av" "memp_owned t y = memp_owned s y" for y
    using assms(3) by (simp_all add: t(2) memp_avail_def memp_owned_def)
  with assms(5) have "memp_owned t u" by simp
  from memp_free_push [OF own(1) assms(2,4) this] obtain s' where s':
    "t_memp_free T_MEMP_UDP_PCB u t = Some s'" "memp_avail T_MEMP_UDP_PCB s' (u # av)"
    "\<forall>y. y \<noteq> u \<longrightarrow> memp_owned t y \<longrightarrow> memp_owned s' y"
    "s' = t\<lparr>memp_tab := memp_tab s', memp_next := memp_next s', now_count := now_count t - 1\<rparr>" by blast
  have "udp_pcb s' = udp_pcb t" "t_udp_pcbs s' = t_udp_pcbs t" by (subst s'(4), simp)+
  with t(3) have "udp_list s' (remove1 u us)" by (simp add: udp_list_def)
  moreover have "t_udp_remove u s = Some s'" unfolding t_udp_remove_def t(1) by (simp add: s'(1))
  moreover have "s' = s\<lparr>memp_tab := memp_tab s', memp_next := memp_next s', now_count := now_count s', udp_pcb := udp_pcb s',
      t_udp_pcbs := t_udp_pcbs s'\<rparr>"
  proof -
    have "now_count s' = now_count t - 1" by (subst s'(4)) simp
    then show ?thesis using \<open>udp_pcb s' = udp_pcb t\<close> \<open>t_udp_pcbs s' = t_udp_pcbs t\<close> by (subst (1) s'(4)) (simp add: t(2))
  qed
  ultimately show ?thesis using s'(2,3) own(2) by blast
qed

lemma udp_remove_keeps:
  assumes "udp_inv H s" and "u \<in> H"
  shows "\<exists>s'. t_udp_remove u s = Some s' \<and> udp_inv (H - {u}) s'"
proof -
  from assms(1) obtain us av where inv: "udp_list s us" "set us \<subseteq> H" "memp_avail T_MEMP_UDP_PCB s av"
    "H \<union> set av = memp_objs T_MEMP_UDP_PCB" "H \<inter> set av = {}" "\<forall>u \<in> H. memp_owned s u"
    unfolding udp_inv_def by blast
  from inv(4-6) assms(2) have "u \<in> memp_objs T_MEMP_UDP_PCB" "u \<notin> set av" "memp_owned s u" by auto
  from udp_remove_result [OF inv(1) this(1) inv(3) this(2,3)] obtain s' where s': "t_udp_remove u s = Some s'"
    "udp_list s' (remove1 u us)" "memp_avail T_MEMP_UDP_PCB s' (u # av)"
    "\<forall>y. y \<noteq> u \<longrightarrow> memp_owned s y \<longrightarrow> memp_owned s' y" by blast
  have "distinct us" using inv(1) chained_distinct unfolding udp_list_def by blast
  then have "set (remove1 u us) \<subseteq> H - {u}" using inv(2) by auto
  moreover have "(H - {u}) \<union> set (u # av) = memp_objs T_MEMP_UDP_PCB" "(H - {u}) \<inter> set (u # av) = {}"
    using inv(4,5) assms(2) by auto
  moreover have "\<forall>y \<in> H - {u}. memp_owned s' y" using inv(6) s'(4) by auto
  ultimately have "udp_inv (H - {u}) s'" using s'(2,3) unfolding udp_inv_def by blast
  with s'(1) show ?thesis by blast
qed

lemma udp_step_keeps: "udp_step c d \<Longrightarrow> udp_inv (fst c) (snd c) \<Longrightarrow> udp_inv (fst d) (snd d)"
proof (induction rule: udp_step.induct)
  case (New s u s' H)
  then show ?case using udp_new_keeps [of H s u s'] by simp
next
  case (Bind u H ipaddr port s r s')
  then show ?case using udp_bind_keeps [of H s u ipaddr port] by auto
next
  case (Connect u H ipaddr port s r s')
  then show ?case using udp_connect_keeps [of H s u ipaddr port] by auto
next
  case (Receiver u H f arg s s')
  then show ?case using udp_receiver_keeps [of H s u f arg] by auto
next
  case (Remove u H s s')
  then show ?case using udp_remove_keeps [of H s u] by auto
qed

lemma udp_run_keeps: "udp_step\<^sup>*\<^sup>* c d \<Longrightarrow> udp_inv (fst c) (snd c) \<Longrightarrow> udp_inv (fst d) (snd d)"
  by (induction rule: rtranclp_induct) (use udp_step_keeps in blast)+

lemma udp_inv_init: "udp_inv {} (snd (t_udp_init (t_memp_init s)))"
proof -
  have "memp_avail T_MEMP_UDP_PCB (snd (t_udp_init (t_memp_init s)))
      (map (\<lambda>e. e + sizeof_t_memp) (memp_elems T_MEMP_UDP_PCB))"
    using memp_init_avail [of T_MEMP_UDP_PCB s] by (simp add: t_udp_init_def)
  then show ?thesis unfolding udp_inv_def
    by (intro exI [of _ "[]"] exI [of _ "map (\<lambda>e. e + sizeof_t_memp) (memp_elems T_MEMP_UDP_PCB)"])
      (simp add: udp_list_def t_udp_init_def memp_objs_def)
qed

lemma udp_inv_safe:
  assumes "udp_inv H s"
  shows "(\<exists>us av. udp_list s us \<and> distinct us \<and> set us \<subseteq> H \<and> memp_avail T_MEMP_UDP_PCB s av \<and>
      card H + length av = memp_num T_MEMP_UDP_PCB) \<and>
    (\<forall>u \<in> H. t_udp_bind u ipaddr port s \<noteq> None \<and> t_udp_connect u ipaddr port s \<noteq> None \<and>
      t_udp_remove u s \<noteq> None)"
proof
  from assms obtain us av where inv: "udp_list s us" "set us \<subseteq> H" "memp_avail T_MEMP_UDP_PCB s av"
    "H \<union> set av = memp_objs T_MEMP_UDP_PCB" "H \<inter> set av = {}" "\<forall>u \<in> H. memp_owned s u"
    unfolding udp_inv_def by blast
  have "finite (H \<union> set av)" unfolding inv(4) by (rule memp.objs_finite)
  then have "card H + card (set av) = card (memp_objs T_MEMP_UDP_PCB)"
    using card_Un_disjoint [of H "set av"] inv(4,5) by (metis finite_Un)
  moreover have "card (set av) = length av" by (rule distinct_card [OF memp.avail_distinct [OF inv(3)]])
  moreover have "distinct us" using inv(1) chained_distinct unfolding udp_list_def by blast
  ultimately show "\<exists>us av. udp_list s us \<and> distinct us \<and> set us \<subseteq> H \<and> memp_avail T_MEMP_UDP_PCB s av \<and>
      card H + length av = memp_num T_MEMP_UDP_PCB"
    using inv(1-3) by auto
  show "\<forall>u \<in> H. t_udp_bind u ipaddr port s \<noteq> None \<and> t_udp_connect u ipaddr port s \<noteq> None \<and>
      t_udp_remove u s \<noteq> None"
    using udp_bind_keeps [OF assms] udp_connect_keeps [OF assms] udp_remove_keeps [OF assms]
    by (metis option.distinct(1))
qed

text \<open>C27: Whatever a client does with the blocks it holds, starting from initialised pools: the bound blocks
  form one duplicate-free list of held blocks, held and free blocks always add up to the pool, and
  binding, connecting and removing a held block never reaches undefined behaviour or an endless walk.\<close>

theorem udp_blocks_safe:
  assumes "udp_step\<^sup>*\<^sup>* ({}, snd (t_udp_init (t_memp_init s0))) (H, s)"
  shows "(\<exists>us av. udp_list s us \<and> distinct us \<and> set us \<subseteq> H \<and> memp_avail T_MEMP_UDP_PCB s av \<and>
      card H + length av = memp_num T_MEMP_UDP_PCB) \<and>
    (\<forall>u \<in> H. t_udp_bind u ipaddr port s \<noteq> None \<and> t_udp_connect u ipaddr port s \<noteq> None \<and>
      t_udp_remove u s \<noteq> None)"
proof -
  have "udp_inv H s" using udp_run_keeps [OF assms] udp_inv_init [of s0] by simp
  then show ?thesis by (rule udp_inv_safe)
qed

theorem udp_blocks_safe_witness:
  "\<exists>H s. udp_step ({}, snd (t_udp_init (t_memp_init udp_boot))) (H, s) \<and>
     (\<exists>us. \<exists>av :: ptr list. udp_list s us \<and> card H + length av = memp_num T_MEMP_UDP_PCB)"
proof -
  let ?i = "snd (t_udp_init (t_memp_init udp_boot))"
  obtain u s where new: "t_udp_new ?i = (u, s)" by (cases "t_udp_new ?i")
  from udp_step.New [OF this, of "{}"] obtain H where st: "udp_step ({}, ?i) (H, s)" by blast
  from conjunct1 [OF udp_blocks_safe [OF r_into_rtranclp [where r = udp_step, OF st]]] have
    "\<exists>us. \<exists>av :: ptr list. udp_list s us \<and> card H + length av = memp_num T_MEMP_UDP_PCB" by blast
  with st show ?thesis by blast
qed

text \<open>Binding puts the block in front of the list unless it is there already, and gives it the address
  and the port asked for; without a port it gets the next number from 4096 on, whoever uses it.\<close>

theorem udp_bind_spec:
  assumes "udp_list s us" and "pcb \<noteq> NULL"
  shows "\<exists>s'. t_udp_bind pcb ipaddr port s = Some (0, s') \<and>
    udp_list s' (if pcb \<in> set us then us else pcb # us) \<and>
    up_local_ip (udp_pcb s' pcb) = t_ip_addr_set ipaddr \<and>
    up_local_port (udp_pcb s' pcb) = (if port = 0 then of_int (4096 + start_count s) else port) \<and>
    start_count s' = start_count s + (if port = 0 then 1 else 0)"
proof -
  from udp_bind_result [OF assms, of ipaddr port] obtain s' where s':
    "t_udp_bind pcb ipaddr port s = Some (0, s')" "udp_list s' (if pcb \<in> set us then us else pcb # us)"
    "up_local_ip (udp_pcb s' pcb) = t_ip_addr_set ipaddr"
    "up_local_port (udp_pcb s' pcb) = (if port = 0 then of_int (4096 + start_count s) else port)"
    "s' = s\<lparr>udp_pcb := (udp_pcb s)(pcb := udp_pcb s' pcb), t_udp_pcbs := t_udp_pcbs s',
      start_count := start_count s + (if port = 0 then 1 else 0)\<rparr>" by blast
  have "start_count s' = start_count s + (if port = 0 then 1 else 0)" by (subst s'(5)) simp
  with s'(1-4) show ?thesis by blast
qed

theorem udp_bind_spec_witness:
  "\<exists>s'. t_udp_bind 0x500 (Some 0x7001A8C0) 3308 udp_boot = Some (0, s') \<and> udp_list s' [0x500] \<and>
    up_local_port (udp_pcb s' 0x500) = 3308"
proof -
  have "udp_list udp_boot []" by (simp add: udp_list_def udp_boot_def arp_st.defs arp_boot_def udp_st.defs)
  from udp_bind_spec [OF this, of "0x500" "Some 0x7001A8C0" 3308] show ?thesis by auto
qed

text \<open>Removing a block unlinks exactly this block and gives its memory back.\<close>

theorem udp_remove_spec:
  assumes "udp_list s us" and "u \<in> memp_objs T_MEMP_UDP_PCB" and "memp_avail T_MEMP_UDP_PCB s av"
    and "u \<notin> set av" and "memp_owned s u"
  shows "\<exists>s'. t_udp_remove u s = Some s' \<and> udp_list s' (remove1 u us) \<and>
    memp_avail T_MEMP_UDP_PCB s' (u # av)"
  using udp_remove_result [OF assms] by blast

theorem udp_remove_spec_witness:
  "\<exists>u s s'. t_udp_remove u (s :: udp_st) = Some s' \<and> udp_list s' []"
proof -
  let ?i = "snd (t_udp_init (t_memp_init udp_boot))"
  obtain e es where "memp_elems T_MEMP_UDP_PCB = e # es"
    using length_memp_elems [of T_MEMP_UDP_PCB] by (cases "memp_elems T_MEMP_UDP_PCB") simp_all
  then have av: "memp_avail T_MEMP_UDP_PCB ?i ((e + sizeof_t_memp) # map (\<lambda>e. e + sizeof_t_memp) es)"
    using memp_init_avail [of T_MEMP_UDP_PCB udp_boot] by (simp add: t_udp_init_def)
  let ?u = "e + sizeof_t_memp" and ?xs = "map (\<lambda>e. e + sizeof_t_memp) es"
  from memp_malloc_next [OF av] obtain s where s: "memp_avail T_MEMP_UDP_PCB s ?xs" "memp_owned s ?u"
    "s = ?i\<lparr>memp_tab := memp_tab s, memp_next := memp_next s, now_count := now_count ?i + 1\<rparr>" by blast
  have "t_udp_pcbs s = NULL" by (subst s(3)) (simp add: t_udp_init_def)
  then have "udp_list s []" by (simp add: udp_list_def)
  moreover have "?u \<in> memp_objs T_MEMP_UDP_PCB" "?u \<notin> set ?xs"
    using memp.avail_objs [OF av] memp.avail_distinct [OF av] by simp_all
  ultimately show ?thesis using udp_remove_spec [OF _ _ s(1) _ s(2), of "[]"] by force
qed

section \<open>Sending\<close>

text \<open>The header that is written in front of the data: ports, length, and no checksum.\<close>

definition udp_header :: "u16 \<Rightarrow> u16 \<Rightarrow> u16 \<Rightarrow> u8 list" where
  "udp_header src dst len = be16 src @ be16 dst @ be16 len @ [0, 0]"

lemma byte_of_0: "byte_of k 0 = 0" by (simp add: byte_of_def)

lemma udp_header_written:
  assumes "t = store16 (h + 4) (htons len) (store16 (h + 6) 0 (store16 (h + 2) (htons dst) (store16 h (htons src) s)))"
  shows "load_bytes h (8 + m) t = udp_header src dst len @ load_bytes (h + 8) m s"
proof -
  have "load_bytes h (8 + m) t = load_bytes h 2 t @ load_bytes (h + 2) 2 t @ load_bytes (h + 4) 2 t @
      load_bytes (h + 6) 2 t @ load_bytes (h + 8) m t"
    using load_bytes_parts [of h "[2, 2, 2, 2, m]" t]
    by (simp add: add.assoc del: add_2_eq_Suc add_2_eq_Suc')
  then show ?thesis unfolding assms udp_header_def
    by (simp add: mem_simps be16_def byte_of_0 del: add_2_eq_Suc add_2_eq_Suc')
qed

text \<open>A buffer a client may send: its own, with the UDP, IP and Ethernet headers fitting in front.\<close>

definition udp_room :: "'a pbuf_st_scheme \<Rightarrow> ptr \<Rightarrow> bool" where
  "udp_room s p \<longleftrightarrow> pbuf_wf s p \<and> pbuf_owned s p \<and> p + sizeof_t_pbuf + 42 \<le> pb_payload (pbuf s p) \<and>
     header_fits s p (-8)"

lemma udp_send_result:
  assumes room: "udp_room s p" and pcb: "pcb \<noteq> NULL" "u = udp_pcb s pcb"
    and av: "pbuf_avail s xs" "p \<notin> set xs"
    and route: "t_ip_route (up_remote_ip u) s = Some n" and up: "netif_up s n"
    and pl: "pl = pb_payload (pbuf s p)" and len: "len = pb_len (pbuf s p)"
  shows "\<exists>s' frame. t_udp_send pcb p s = Some (0, s') \<and> pbuf_avail s' (p # xs) \<and>
    s' = s\<lparr>mem := mem s', pbuf := pbuf s', pbuf_pool := pbuf_pool s', sent := sent s @ [frame]\<rparr> \<and>
    take 12 frame = get_mac_from_ip (Val (up_remote_ip u)) @ nif_hwaddr (netif s n) \<and>
    ip_parse frame = Some (nif_ip_addr (netif s n), up_remote_ip u, up_ttl u, up_tos u, T_IP_PROTO_UDP,
      udp_header (up_local_port u) (up_remote_port u) (len + 8) @ load_bytes pl (unat len) s)"
proof -
  have R: "pbuf_wf s p" "pbuf_owned s p" "p + 74 \<le> pl" "header_fits s p (-8)" "p \<in> set pbuf_slots"
    "pl + unat len \<le> p + 1546" "pb_tot_len (pbuf s p) = len" "pb_flags (pbuf s p) = T_PBUF_FLAG_POOL"
    using room unfolding udp_room_def pbuf_wf_def pl [symmetric] len [symmetric]
    by (simp_all add: sizeof_t_pbuf_def pbuf_slot_eq)
  have p: "p \<noteq> NULL" using pbuf_wf_pos [OF R(1)] by simp
  define h where "h = pl - 8"
  have h: "pl = h + 8" "p + 66 \<le> h" using R(3) by (simp_all add: h_def)
  define b1 where "b1 = (pbuf s p)\<lparr>pb_payload := h, pb_tot_len := len + 8, pb_len := len + 8\<rparr>"
  define s1 where "s1 = s\<lparr>pbuf := (pbuf s)(p := b1)\<rparr>"
  have h1: "t_pbuf_header p (- int T_UDP_HLEN) s = Some (0, s1)"
    using pbuf_header_moves [OF p R(8,4)] R(3)
    by (simp add: T_UDP_HLEN_def s1_def b1_def h_def nat_diff_distrib' pl [symmetric] len [symmetric] R(7))
  define t where "t = store16 (h + 4) (htons (len + 8)) (store16 (h + 6) 0
      (store16 (h + 2) (htons (up_remote_port u)) (store16 h (htons (up_local_port u)) s1)))"
  have t: "t = s\<lparr>mem := mem t, pbuf := (pbuf s)(p := b1)\<rparr>"
    by (simp add: t_def s1_def store16_def)
  have same: "pbuf t = (pbuf s)(p := b1)" "pbuf_pool t = pbuf_pool s" "netif t = netif s"
    "netif_list t = netif_list s" "netif_default t = netif_default s" "udp_pcb t = udp_pcb s" "sent t = sent s"
    by (subst t, simp)+
  have len8: "unat (len + 8) = unat len + 8"
    using unat_plus_small [of len 8] R(3,6) by simp
  have "header_fits s p (-8)" "pb_len b1 = len + 8" "pb_payload b1 = h" "pb_flags b1 = T_PBUF_FLAG_POOL"
    "pb_tot_len b1 = len + 8" using R(4,8) by (simp_all add: b1_def)
  then have room': "ip_room t p"
    using R(5,6) h len8
    by (simp add: ip_room_def pbuf_wf_def same sizeof_t_pbuf_def pbuf_slot_eq header_fits_def T_PBUF_BUFSIZE_def
        pl [symmetric])
  have up': "netif_up t n" "ip_via n (Val (up_remote_ip u)) t n" "n \<noteq> NULL"
    using up by (simp_all add: netif_up_def same ip_via_def)
  have "dst_reads (Val (up_remote_ip u)) (pb_payload (pbuf t p) - 20) (up_ttl u) T_IP_PROTO_UDP (up_remote_ip u) t"
    by simp
  from ip_output_parsed [OF room' up'(1,2) refl this, of "Some (nif_ip_addr (netif s n))" "up_tos u"]
  obtain t' frame where out:
    "t_ip_output n p (Some (nif_ip_addr (netif s n))) (Val (up_remote_ip u)) (up_ttl u) (up_tos u)
      T_IP_PROTO_UDP t = Some (0, t')"
    "t' = t\<lparr>mem := mem t', pbuf := (pbuf t)(p := (pbuf t p)\<lparr>pb_payload := pb_payload (pbuf t p) - 34,
        pb_tot_len := pb_len (pbuf t p) + 34, pb_len := pb_len (pbuf t p) + 34\<rparr>),
      sent := sent t @ [frame]\<rparr>"
    "take 12 frame = get_mac_from_ip (Val (up_remote_ip u)) @ nif_hwaddr (netif t n)"
    "ip_parse frame = Some (ip_source (Some (nif_ip_addr (netif s n))) n t, up_remote_ip u, up_ttl u, up_tos u,
      T_IP_PROTO_UDP, load_bytes (pb_payload (pbuf t p)) (unat (pb_len (pbuf t p))) t)" by blast
  define b2 where "b2 = b1\<lparr>pb_payload := pb_payload b1 - 34, pb_tot_len := pb_len b1 + 34, pb_len := pb_len b1 + 34\<rparr>"
  have t': "t' = s\<lparr>mem := mem t', pbuf := (pbuf s)(p := b2), sent := sent s @ [frame]\<rparr>"
    by (subst out(2), subst (1) t) (simp add: same b2_def)
  have same': "pbuf_pool t' = pbuf_pool s" "pbuf t' = (pbuf s)(p := b2)" by (subst t', simp)+
  have "pb_flags b2 = T_PBUF_FLAG_POOL" "pb_ref b2 = 1" "pb_next b2 = NULL"
    using R(2) by (simp_all add: b2_def b1_def pbuf_owned_def)
  from pbuf_returned [OF av(1) R(5) av(2) this same'(1)] same'(2) av(2) obtain c s' where fr:
    "t_pbuf_free p t' = Some (c, s')" "pbuf_avail s' (p # xs)" "s' = t'\<lparr>pbuf := pbuf s', pbuf_pool := pbuf_pool s'\<rparr>"
    by (metis fun_upd_apply)
  have acc: "accessible h 8" using R(5,6) h by (intro accessible_in_slot [of p]) (auto simp: sizeof_t_pbuf_def pbuf_slot_eq)
  have route': "t_ip_route (up_remote_ip u) (store16 (h + 6) 0
      (store16 (h + 2) (htons (up_remote_port u)) (store16 h (htons (up_local_port u)) s1))) = Some n"
    using route by (simp add: t_ip_route_def s1_def cong: if_cong)
  have b1: "pbuf s1 p = b1" "pb_payload b1 = h" "pb_tot_len b1 = len + 8" "udp_pcb s1 = udp_pcb s" "netif s1 = netif s"
    by (simp_all add: s1_def b1_def)
  have "t_udp_send pcb p s = do {
      (err, s) \<leftarrow> t_ip_output n p (Some (nif_ip_addr (netif s n))) (Val (up_remote_ip u)) (up_ttl u) (up_tos u)
         T_IP_PROTO_UDP t;
      (_, s) \<leftarrow> t_pbuf_free p s;
      Some (0, s) }"
    unfolding t_udp_send_def h1 t_def Let_def
    using pcb acc route' up'(3) by (simp add: b1)
  then have "t_udp_send pcb p s = Some (0, s')" unfolding out(1) by (simp add: fr(1))
  moreover have "s' = s\<lparr>mem := mem s', pbuf := pbuf s', pbuf_pool := pbuf_pool s', sent := sent s @ [frame]\<rparr>"
  proof -
    have "mem s' = mem t'" by (subst fr(3)) simp
    moreover have "t'\<lparr>pbuf := F, pbuf_pool := P\<rparr> = s\<lparr>mem := mem t', pbuf := F, pbuf_pool := P, sent := sent s @ [frame]\<rparr>"
      for F P by (subst t') simp
    ultimately show ?thesis using fr(3) by metis
  qed
  moreover have "load_bytes (pb_payload (pbuf t p)) (unat (pb_len (pbuf t p))) t =
      udp_header (up_local_port u) (up_remote_port u) (len + 8) @ load_bytes pl (unat len) s"
  proof -
    have "load_bytes (h + 8) (unat len) s1 = load_bytes pl (unat len) s"
      by (simp add: h(1) s1_def load_bytes_def)
    moreover have "pb_payload (pbuf t p) = h" "unat (pb_len (pbuf t p)) = 8 + unat len"
      using len8 by (simp_all add: same b1_def)
    ultimately show ?thesis using udp_header_written [OF t_def, of "unat len"] by (simp only:)
  qed
  ultimately show ?thesis using fr(2) out(3,4) by (simp only: same ip_source_def option.case) blast
qed

text \<open>C19: Sending consumes the client's buffer and emits one frame: a receiver that parses it finds the
  block's addresses, ports, time to live and type of service, the length of header and data, and the data.\<close>

theorem udp_send_spec:
  assumes "udp_room s p" and "pcb \<noteq> NULL" and "u = udp_pcb s pcb" and "pbuf_avail s xs" and "p \<notin> set xs"
    and "t_ip_route (up_remote_ip u) s = Some n" and "netif_up s n"
    and "pl = pb_payload (pbuf s p)" and "len = pb_len (pbuf s p)"
  shows "\<exists>s' frame. t_udp_send pcb p s = Some (0, s') \<and> pbuf_avail s' (p # xs) \<and>
    sent s' = sent s @ [frame] \<and> udp_pcb s' = udp_pcb s \<and> t_udp_pcbs s' = t_udp_pcbs s \<and>
    ip_parse frame = Some (nif_ip_addr (netif s n), up_remote_ip u, up_ttl u, up_tos u, T_IP_PROTO_UDP,
      udp_header (up_local_port u) (up_remote_port u) (len + 8) @ load_bytes pl (unat len) s)"
proof -
  from udp_send_result [OF assms] obtain s' frame where out: "t_udp_send pcb p s = Some (0, s')"
    "pbuf_avail s' (p # xs)"
    "s' = s\<lparr>mem := mem s', pbuf := pbuf s', pbuf_pool := pbuf_pool s', sent := sent s @ [frame]\<rparr>"
    "ip_parse frame = Some (nif_ip_addr (netif s n), up_remote_ip u, up_ttl u, up_tos u, T_IP_PROTO_UDP,
      udp_header (up_local_port u) (up_remote_port u) (len + 8) @ load_bytes pl (unat len) s)" by blast
  have "sent s' = sent s @ [frame]" "udp_pcb s' = udp_pcb s" "t_udp_pcbs s' = t_udp_pcbs s"
    by (subst out(3), simp)+
  with out(1,2,4) show ?thesis by blast
qed

text \<open>The connected block of the program's test, on a machine with one interface.\<close>

definition udp_ready :: udp_st where
  "udp_ready = upd_udp 0x500 (\<lambda>u. u\<lparr>up_local_ip := 0x7001A8C0, up_remote_ip := 0x6501A8C0,
     up_flags := T_UDP_FLAGS_CONNECTED, up_local_port := 3308, up_remote_port := 8837, up_ttl := T_UDP_TTL\<rparr>)
     ((two_buffers (online udp_boot))\<lparr>t_udp_pcbs := 0x500\<rparr>)"

lemma udp_ready_pcb:
  "udp_pcb udp_ready 0x500 = udp_zeroed\<lparr>up_local_ip := 0x7001A8C0, up_remote_ip := 0x6501A8C0,
     up_flags := T_UDP_FLAGS_CONNECTED, up_local_port := 3308, up_remote_port := 8837, up_ttl := T_UDP_TTL\<rparr>"
  "t_udp_pcbs udp_ready = 0x500"
proof -
  have "udp_pcb udp_boot = (\<lambda>_. udp_zeroed)" by (simp add: udp_boot_def arp_st.defs)
  moreover have "udp_pcb (two_buffers (online udp_boot)) = udp_pcb udp_boot"
    by (subst two_buffers_facts(10)) (simp add: online_def, subst pbuf_init_frame, simp)
  ultimately show "udp_pcb udp_ready 0x500 = udp_zeroed\<lparr>up_local_ip := 0x7001A8C0, up_remote_ip := 0x6501A8C0,
     up_flags := T_UDP_FLAGS_CONNECTED, up_local_port := 3308, up_remote_port := 8837, up_ttl := T_UDP_TTL\<rparr>"
    by (simp add: udp_ready_def)
qed (simp add: udp_ready_def)

theorem udp_send_spec_witness:
  "\<exists>s' frame. t_udp_send 0x500 pbuf_pool_memory udp_ready = Some (0, s') \<and> sent s' = [frame] \<and>
    (\<exists>data. ip_parse frame = Some (0x7001A8C0, 0x6501A8C0, 255, 0, 17, udp_header 3308 8837 108 @ data))"
proof -
  let ?s = "two_buffers (online udp_boot)" and ?p = pbuf_pool_memory
  note f = two_buffers_facts [of "online udp_boot"] and n = two_buffers_netif [of "online udp_boot"]
  have keep: "pbuf udp_ready = pbuf ?s" "pbuf_pool udp_ready = pbuf_pool ?s" "netif udp_ready = netif ?s"
    "netif_list udp_ready = netif_list ?s" "netif_default udp_ready = netif_default ?s" "sent udp_ready = sent ?s"
    by (simp_all add: udp_ready_def)
  have pl: "pb_payload (pbuf udp_ready ?p) = ?p + 74" "pb_len (pbuf udp_ready ?p) = 100" using f(3,4) keep by simp_all
  have room: "udp_room udp_ready ?p"
    using f(1,2) pl by (simp add: udp_room_def pbuf_wf_def pbuf_owned_def keep header_fits_def
        sizeof_t_pbuf_def T_PBUF_BUFSIZE_def)
  have av: "pbuf_avail udp_ready (drop 2 pbuf_slots)" using f(9) by (simp add: pbuf_avail_def keep)
  have fresh: "?p \<notin> set (drop 2 pbuf_slots)"
    by (auto simp: pbuf_slots_def T_PBUF_POOL_SIZE_def drop_map upt_rec pbuf_slot_eq)
  have up: "netif_up udp_ready 0x300" using online_facts(1) by (simp add: netif_up_def n keep)
  have ch: "chained (nif_link udp_ready) (netif_list udp_ready) [0x300]" and "netif_default udp_ready = 0x300"
    using online_facts(7,8) by (simp_all only: n keep)
  then have route: "t_ip_route (up_remote_ip (udp_pcb udp_ready 0x500)) udp_ready = Some 0x300"
    unfolding ip_route_value [OF ch] by simp
  from udp_send_spec [OF room _ refl av fresh route up refl refl]
  have "\<exists>s' frame. t_udp_send 0x500 ?p udp_ready = Some (0, s') \<and> sent s' = sent udp_ready @ [frame] \<and>
    ip_parse frame = Some (nif_ip_addr (netif udp_ready 0x300), up_remote_ip (udp_pcb udp_ready 0x500),
      up_ttl (udp_pcb udp_ready 0x500), up_tos (udp_pcb udp_ready 0x500), T_IP_PROTO_UDP,
      udp_header (up_local_port (udp_pcb udp_ready 0x500)) (up_remote_port (udp_pcb udp_ready 0x500))
        (pb_len (pbuf udp_ready ?p) + 8) @ load_bytes (pb_payload (pbuf udp_ready ?p))
        (unat (pb_len (pbuf udp_ready ?p))) udp_ready)" by (simp, blast)
  moreover have "sent udp_ready = []" "nif_ip_addr (netif udp_ready 0x300) = 0x7001A8C0"
    using online_facts(3,4) by (simp_all add: keep n)
  ultimately show ?thesis
    by (simp add: udp_ready_pcb pl T_IP_PROTO_UDP_def T_UDP_TTL_def udp_zeroed_def) blast
qed

section \<open>Receiving\<close>

lemma udp_moved:
  assumes "pbuf_wf s p" and "header_fits s p (int hl)" and "hl \<le> unat (pb_len (pbuf s p))"
    and "i = pb_payload (pbuf s p)"
  shows "t_pbuf_header p (int hl) s = Some (0, upd_pbuf p (\<lambda>b. b\<lparr>pb_payload := i + hl,
      pb_tot_len := pb_len b - of_nat hl, pb_len := pb_len b - of_nat hl\<rparr>) s)"
    and "unat (pb_len (pbuf s p) - of_nat hl) = unat (pb_len (pbuf s p)) - hl"
proof -
  have "pb_flags (pbuf s p) = T_PBUF_FLAG_POOL" "pb_tot_len (pbuf s p) = pb_len (pbuf s p)"
    using assms(1) by (simp_all add: pbuf_wf_def)
  then show "t_pbuf_header p (int hl) s = Some (0, upd_pbuf p (\<lambda>b. b\<lparr>pb_payload := i + hl,
      pb_tot_len := pb_len b - of_nat hl, pb_len := pb_len b - of_nat hl\<rparr>) s)"
    using pbuf_header_moves [OF _ _ assms(2)] pbuf_wf_pos [OF assms(1)] assms(4) by (simp add: nat_int_add)
  have "unat (of_nat hl :: u16) = hl"
    using assms(3) unsigned_less [of "pb_len (pbuf s p)", where ?'a = nat] by (intro unat_of_nat_lt) simp
  then show "unat (pb_len (pbuf s p) - of_nat hl) = unat (pb_len (pbuf s p)) - hl"
    using assms(3) by (simp add: unat_sub word_le_nat_alt)
qed

lemma udp_input_result:
  assumes "pbuf_wf s p" and "i = pb_payload (pbuf s p)" and "hl = unat (T_IPH_HL i s) * 4"
    and "header_fits s p (int hl)" and "20 \<le> hl" and "hl + 8 \<le> unat (pb_len (pbuf s p))"
    and "unat (ntohs (load16 (i + hl + 4) s)) \<le> unat (pb_len (pbuf s p)) - hl" and "udp_list s us"
    and "pcb = first_match (\<lambda>q. udp_matches (ntohs (load16 (i + hl + 2) s)) (load32 (i + 16) s) (udp_pcb s q)) us"
    and "t = upd_pbuf p (\<lambda>b. b\<lparr>pb_payload := i + hl, pb_tot_len := pb_len b - of_nat hl,
      pb_len := pb_len b - of_nat hl\<rparr>) s"
  shows "t_udp_input call_recv inp p s =
    (if pcb = NULL \<or> up_recv (udp_pcb s pcb) = No_udp_recv then Some (0, t)
     else map_option (Pair 0) (call_recv (up_recv (udp_pcb s pcb)) (up_recv_arg (udp_pcb s pcb)) pcb p (i + 12)
       (ntohs (load16 (i + hl) s)) t))"
proof -
  have "pb_tot_len (pbuf s p) = pb_len (pbuf s p)" "p \<in> set pbuf_slots" "p + sizeof_t_pbuf \<le> i"
    "i + unat (pb_len (pbuf s p)) \<le> p + pbuf_slot" using assms(1,2) by (simp_all add: pbuf_wf_def)
  then have acc: "accessible i 2" "accessible (i + hl) 6" "accessible (i + 12) 8"
    using assms(5,6) by (auto intro!: accessible_in_slot [of p])
  have hl: "hl \<le> unat (pb_len (pbuf s p))" using assms(6) by simp
  note mv = udp_moved [OF assms(1,4) hl assms(2), folded assms(10)]
  have ch: "chained (up_link t) (t_udp_pcbs t) us" using assms(8) by (simp add: udp_list_def assms(10))
  have same: "mem t = mem s" "udp_pcb t = udp_pcb s" "pb_payload (pbuf t p) = i + hl"
    "unat (pb_tot_len (pbuf t p)) = unat (pb_len (pbuf s p)) - hl" using mv(2) by (simp_all add: assms(10))
  have lds: "load16 a t = load16 a s" "load32 a t = load32 a s" for a by (simp_all add: load16_def load32_def same)
  have ok: "\<not> pb_tot_len (pbuf t p) < htons (load16 (i + hl + 4) t)"
    using assms(7) by (simp add: word_less_nat_alt same lds swap16.same_swap del: add_2_eq_Suc add_2_eq_Suc')
  have find: "find_from (up_link t) (\<lambda>q. udp_matches (ntohs (load16 (i + hl + 2) t)) (load32 (i + 16) t) (udp_pcb t q))
      (t_udp_pcbs t) = Some pcb"
    using find_from_chained [OF ch] by (simp only: lds same(2) assms(9))
  have e: "int (unat (T_IPH_HL i s)) * 4 = int hl" "T_UDP_HLEN + unat (T_IPH_HL i s) * 4 = hl + 8"
    "\<not> unat (pb_tot_len (pbuf s p)) < hl + 8"
    using assms(3,6) \<open>pb_tot_len (pbuf s p) = _\<close> by (simp_all add: T_UDP_HLEN_def)
  have "t_udp_input call_recv inp p s =
    (if pcb \<noteq> NULL \<and> up_recv (udp_pcb t pcb) \<noteq> No_udp_recv then do {
       s \<leftarrow> call_recv (up_recv (udp_pcb t pcb)) (up_recv_arg (udp_pcb t pcb)) pcb p (iph_src i)
         (ntohs (load16 (i + hl) t)) t;
       Some (0, s)
     } else Some (0, t))"
    unfolding t_udp_input_def assms(2) [symmetric] Let_def e mv(1)
    using pbuf_wf_pos [OF assms(1)] acc ok find e(3)
    by (simp add: same(3) del: add_2_eq_Suc add_2_eq_Suc')
  then show ?thesis by (simp add: same(2) lds map_conv_bind_option comp_def)
qed

text \<open>A datagram whose length field fits the packet is given to the first connected block bound to its
  destination, with its source port and the buffer at the UDP header, or dropped without a trace
  when there is no such block or the block has no receive function.\<close>

theorem udp_input_demux:
  assumes "pbuf_wf s p" and "i = pb_payload (pbuf s p)" and "hl = unat (T_IPH_HL i s) * 4"
    and "header_fits s p (int hl)" and "20 \<le> hl" and "hl + 8 \<le> unat (pb_len (pbuf s p))"
    and "unat (ntohs (load16 (i + hl + 4) s)) \<le> unat (pb_len (pbuf s p)) - hl" and "udp_list s us"
    and "pcb = first_match (\<lambda>q. udp_matches (ntohs (load16 (i + hl + 2) s)) (load32 (i + 16) s) (udp_pcb s q)) us"
    and "t = upd_pbuf p (\<lambda>b. b\<lparr>pb_payload := i + hl, pb_tot_len := pb_len b - of_nat hl,
      pb_len := pb_len b - of_nat hl\<rparr>) s"
  shows "t_udp_input call_recv inp p s =
    (if pcb = NULL \<or> up_recv (udp_pcb s pcb) = No_udp_recv then Some (0, t)
     else map_option (Pair 0) (call_recv (up_recv (udp_pcb s pcb)) (up_recv_arg (udp_pcb s pcb)) pcb p (i + 12)
       (ntohs (load16 (i + hl) s)) t))"
  by (rule udp_input_result [OF assms])

text \<open>A packet that is too short for the headers, or shorter than the datagram claims to be, is refused,
  and no block is looked at.\<close>

theorem udp_input_refuses:
  assumes "pbuf_wf s p" and "i = pb_payload (pbuf s p)" and "hl = unat (T_IPH_HL i s) * 4" and "accessible i 2"
    and "header_fits s p (int hl)"
    and "hl + 8 \<le> unat (pb_len (pbuf s p)) \<longrightarrow>
      unat (pb_len (pbuf s p)) - hl < unat (ntohs (load16 (i + hl + 4) s))"
  shows "\<exists>s'. t_udp_input call_recv inp p s = Some (-1, s') \<and>
    s' = (if unat (pb_len (pbuf s p)) < hl + 8 then s else upd_pbuf p (\<lambda>b. b\<lparr>pb_payload := i + hl,
      pb_tot_len := pb_len b - of_nat hl, pb_len := pb_len b - of_nat hl\<rparr>) s)"
proof -
  have w: "pb_tot_len (pbuf s p) = pb_len (pbuf s p)" "p \<in> set pbuf_slots" "p + sizeof_t_pbuf \<le> i"
    "i + unat (pb_len (pbuf s p)) \<le> p + pbuf_slot" using assms(1,2) by (simp_all add: pbuf_wf_def)
  show ?thesis
  proof (cases "unat (pb_len (pbuf s p)) < hl + 8")
    case True
    then show ?thesis using assms(2-4) w(1) pbuf_wf_pos [OF assms(1)]
      by (simp add: t_udp_input_def T_UDP_HLEN_def)
  next
    case False
    then have hl: "hl \<le> unat (pb_len (pbuf s p))" by simp
    define t where "t = upd_pbuf p (\<lambda>b. b\<lparr>pb_payload := i + hl, pb_tot_len := pb_len b - of_nat hl,
      pb_len := pb_len b - of_nat hl\<rparr>) s"
    note mv = udp_moved [OF assms(1,5) hl assms(2), folded t_def]
    have "accessible (i + hl) 6" using False w by (auto intro!: accessible_in_slot [of p])
    moreover have "pb_tot_len (pbuf t p) < htons (load16 (i + hl + 4) t)"
      using assms(6) False mv(2)
      by (simp add: word_less_nat_alt t_def load16_def swap16.same_swap del: add_2_eq_Suc add_2_eq_Suc')
    moreover have e: "int (unat (T_IPH_HL i s)) * 4 = int hl" "T_UDP_HLEN + unat (T_IPH_HL i s) * 4 = hl + 8"
      "\<not> unat (pb_tot_len (pbuf s p)) < hl + 8"
      using assms(3) False w(1) by (simp_all add: T_UDP_HLEN_def)
    moreover have "pb_payload (pbuf t p) = i + hl" by (simp add: t_def)
    ultimately have "t_udp_input call_recv inp p s = Some (-1, t)"
      using assms(4) pbuf_wf_pos [OF assms(1)]
      unfolding t_udp_input_def assms(2) [symmetric] Let_def e mv(1) by (simp del: add_2_eq_Suc add_2_eq_Suc')
    with False show ?thesis by (simp add: t_def)
  qed
qed

text \<open>A datagram from port 8837 for the block of \<open>udp_ready\<close>, and one whose length field is too large.\<close>

definition udp_asked :: "u16 \<Rightarrow> udp_st" where
  "udp_asked n = store_bytes (pbuf_pool_memory + 74)
     (0x45 # replicate 15 0 @ raw32 0x7001A8C0 @ udp_header 8837 3308 n) udp_ready"

lemma udp_asked_facts:
  "pbuf_wf (udp_asked n) pbuf_pool_memory" "pb_payload (pbuf (udp_asked n) pbuf_pool_memory) = pbuf_pool_memory + 74"
  "pb_len (pbuf (udp_asked n) pbuf_pool_memory) = 100"
  "unat (T_IPH_HL (pbuf_pool_memory + 74) (udp_asked n)) = 5"
  "load16 (pbuf_pool_memory + 94) (udp_asked n) = htons 8837"
  "load16 (pbuf_pool_memory + 96) (udp_asked n) = htons 3308"
  "load16 (pbuf_pool_memory + 98) (udp_asked n) = htons n"
  "load32 (pbuf_pool_memory + 90) (udp_asked n) = 0x7001A8C0"
proof -
  let ?p = pbuf_pool_memory and ?bs = "0x45 # replicate 15 0 @ raw32 0x7001A8C0 @ udp_header 8837 3308 n"
  note f = two_buffers_facts [of "online udp_boot"]
  have b: "pbuf (udp_asked n) = pbuf (two_buffers (online udp_boot))" by (simp add: udp_asked_def udp_ready_def)
  then show "pb_payload (pbuf (udp_asked n) ?p) = ?p + 74" "pb_len (pbuf (udp_asked n) ?p) = 100"
    "pbuf_wf (udp_asked n) ?p" using f(1,3,4) by (simp_all add: pbuf_wf_def)
  have m: "mem (udp_asked n) (?p + 74 + k) = ?bs ! k" if "k < 28" for k
    using that by (simp add: udp_asked_def mem_store_bytes udp_header_def be16_def raw32_def)
  have h: "htons v = u16_of (byte_of 1 v) (byte_of 0 v)" for v
    using htons_u16_of [of "byte_of 0 v" "byte_of 1 v"] by simp
  have ld: "load16 (?p + 74 + k) (udp_asked n) = u16_of (?bs ! k) (?bs ! (k + 1))" if "k < 27" for k
    using m [of k] m [of "k + 1"] that by (simp add: load16_def add.assoc)
  have nth: "?bs ! (20 + k) = udp_header 8837 3308 n ! k" for k
    by (simp add: nth_append raw32_def)
  have "load16 (?p + 74 + 20) (udp_asked n) = htons 8837" "load16 (?p + 74 + 22) (udp_asked n) = htons 3308"
    "load16 (?p + 74 + 24) (udp_asked n) = htons n"
    using ld [of 20] ld [of 22] ld [of 24] nth [of 0] nth [of 1] nth [of 2] nth [of 3] nth [of 4] nth [of 5]
    by (simp_all add: h udp_header_def be16_def eval_nat_numeral)
  then show "load16 (?p + 94) (udp_asked n) = htons 8837" "load16 (?p + 96) (udp_asked n) = htons 3308"
    "load16 (?p + 98) (udp_asked n) = htons n" by (simp_all add: add.assoc)
  have "load_bytes (?p + 74 + 16) 4 (udp_asked n) = raw32 0x7001A8C0"
  proof -
    have "load_bytes (?p + 74) 28 (udp_asked n) = ?bs"
      unfolding udp_asked_def by (rule load_store_bytes_n) (simp add: udp_header_def be16_def raw32_def)
    moreover have "take 4 (drop 16 ?bs) = raw32 0x7001A8C0" by (simp add: raw32_def)
    ultimately show ?thesis using load_bytes_sub [of 16 4 28 "?p + 74" "udp_asked n"] by simp
  qed
  then show "load32 (?p + 90) (udp_asked n) = 0x7001A8C0" by (simp add: load32_load_bytes add.assoc raw32_def)
  show "unat (T_IPH_HL (?p + 74) (udp_asked n)) = 5"
    using m [of 0] by (simp add: T_IPH_HL_def load16_def htons_u16_of high_byte)
qed

theorem udp_input_demux_witness:
  "t_udp_input (\<lambda>f arg pcb p addr port s. if pcb = 0x500 \<and> port = 8837 then Some s else None)
     0x300 pbuf_pool_memory (upd_udp 0x500 (\<lambda>u. u\<lparr>up_recv := Udp_recv_data\<rparr>) (udp_asked 18)) \<noteq> None"
proof -
  let ?s = "upd_udp 0x500 (\<lambda>u. u\<lparr>up_recv := Udp_recv_data\<rparr>) (udp_asked 18)" and ?p = pbuf_pool_memory
  note f = udp_asked_facts [of 18]
  have m: "mem ?s = mem (udp_asked 18)" "pbuf ?s = pbuf (udp_asked 18)" by simp_all
  have ld: "load16 a ?s = load16 a (udp_asked 18)" "load32 a ?s = load32 a (udp_asked 18)" for a
    by (simp_all add: load16_def load32_def)
  have hl: "unat (T_IPH_HL (?p + 74) ?s) = 5" using f(4) by (simp add: T_IPH_HL_def ld)
  have pcb: "udp_pcb ?s 0x500 = udp_zeroed\<lparr>up_local_ip := 0x7001A8C0, up_remote_ip := 0x6501A8C0,
     up_flags := T_UDP_FLAGS_CONNECTED, up_local_port := 3308, up_remote_port := 8837, up_ttl := T_UDP_TTL,
     up_recv := Udp_recv_data\<rparr>"
    using udp_ready_pcb by (simp add: udp_asked_def)
  have "pbuf_wf ?s ?p" "pb_payload (pbuf ?s ?p) = ?p + 74" "pb_len (pbuf ?s ?p) = 100"
    using f(1-3) by (simp_all add: pbuf_wf_def)
  moreover from this(2) have "header_fits ?s ?p (int 20)"
    by (simp add: header_fits_def sizeof_t_pbuf_def T_PBUF_BUFSIZE_def)
  moreover have "udp_list ?s [0x500]"
    using pcb udp_ready_pcb by (simp add: udp_list_def udp_asked_def udp_zeroed_def)
  moreover have "udp_matches (ntohs (load16 (?p + 74 + 20 + 2) ?s)) (load32 (?p + 74 + 16) ?s) (udp_pcb ?s 0x500)"
    unfolding pcb ld using f(6,8)
    by (simp add: udp_matches_def t_ip_addr_cmp_def T_UDP_FLAGS_CONNECTED_def pbuf_pool_memory_def)
  ultimately show ?thesis
    using udp_input_demux [of ?s ?p "?p + 74" 20 "[0x500]" "0x500" _
        "\<lambda>f arg pcb p addr port s. if pcb = 0x500 \<and> port = 8837 then Some s else None" "0x300"] hl pcb f(5,7)
    by (simp add: ld pbuf_pool_memory_def)
qed

theorem udp_input_refuses_witness:
  "\<exists>s'. t_udp_input (\<lambda>f arg pcb p addr port s. None) 0x300 pbuf_pool_memory (udp_asked 81) = Some (-1, s')"
proof -
  have "header_fits (udp_asked 81) pbuf_pool_memory (int 20)"
    by (simp add: header_fits_def udp_asked_facts sizeof_t_pbuf_def T_PBUF_BUFSIZE_def)
  moreover have "accessible (pbuf_pool_memory + 74) 2"
    using pbuf_wf_accessible [OF udp_asked_facts(1), of 2 81] by (simp add: udp_asked_facts)
  ultimately show ?thesis
    using udp_input_refuses [OF udp_asked_facts(1) refl refl, of 81]
    by (simp add: udp_asked_facts udp_asked_facts(7) [unfolded add.commute [of pbuf_pool_memory]])
qed

end
