(* ===== verification/Tcp.thy ===== *)
theory Tcp
  imports Udp
begin

text \<open>
  \<^verbatim>\<open>include/t_tcp.h\<close> and \<^verbatim>\<open>core/t_tcp.c\<close> without \<^verbatim>\<open>t_tcp_connect\<close> (see \<open>Tcp_Out\<close>): sequence numbers, header
  fields, control blocks and segments, their allocation and release.  The static variables of
  \<^verbatim>\<open>t_tcp.c\<close> and \<^verbatim>\<open>t_tcp_in.c\<close> are components of the state.
\<close>

section \<open>Constants\<close>

definition T_TCP_HLEN :: nat where "T_TCP_HLEN = 20"
definition T_TCP_PRIO_NORMAL :: u8 where "T_TCP_PRIO_NORMAL = 64"
definition T_TCP_TTL :: u8 where "T_TCP_TTL = 255"
definition T_TCP_SLOW_INTERVAL :: nat where "T_TCP_SLOW_INTERVAL = 2 * 250"
definition T_TCP_KEEPDEFAULT :: u32 where "T_TCP_KEEPDEFAULT = 7200000"
definition T_TCP_MSS :: u16 where "T_TCP_MSS = 1400"
definition T_TCP_SND_BUF :: u16 where "T_TCP_SND_BUF = 12 * T_TCP_MSS"
definition T_TCP_WND :: u16 where "T_TCP_WND = 10 * T_TCP_MSS"
definition T_TCP_SND_QUEUELEN :: u8 where "T_TCP_SND_QUEUELEN = 40"

definition TCP_FIN :: u8 where "TCP_FIN = 0x01"
definition TCP_SYN :: u8 where "TCP_SYN = 0x02"
definition TCP_PSH :: u8 where "TCP_PSH = 0x08"
definition TCP_ACK :: u8 where "TCP_ACK = 0x10"
definition TCP_FLAGS :: u16 where "TCP_FLAGS = 0x3f"

definition TF_ACK_DELAY :: u8 where "TF_ACK_DELAY = 0x01"
definition TF_ACK_NOW :: u8 where "TF_ACK_NOW = 0x02"

text \<open>Comparison of sequence numbers: the sign of the difference as a signed 32 bit number.\<close>

definition T_TCP_SEQ_LT :: "u32 \<Rightarrow> u32 \<Rightarrow> bool" where "T_TCP_SEQ_LT a b \<longleftrightarrow> sint (a - b) < 0"
definition T_TCP_SEQ_LEQ :: "u32 \<Rightarrow> u32 \<Rightarrow> bool" where "T_TCP_SEQ_LEQ a b \<longleftrightarrow> sint (a - b) \<le> 0"
definition T_TCP_SEQ_GT :: "u32 \<Rightarrow> u32 \<Rightarrow> bool" where "T_TCP_SEQ_GT a b \<longleftrightarrow> sint (a - b) > 0"
definition T_TCP_SEQ_GEQ :: "u32 \<Rightarrow> u32 \<Rightarrow> bool" where "T_TCP_SEQ_GEQ a b \<longleftrightarrow> sint (a - b) \<ge> 0"

section \<open>The header\<close>

text \<open>The fields of \<^verbatim>\<open>struct t_tcp_hdr\<close>, and the macros for the field with length and flags.\<close>

abbreviation (input) tcph_src :: "ptr \<Rightarrow> ptr" where "tcph_src h \<equiv> h"
abbreviation (input) tcph_dest :: "ptr \<Rightarrow> ptr" where "tcph_dest h \<equiv> h + 2"
abbreviation (input) tcph_seqno :: "ptr \<Rightarrow> ptr" where "tcph_seqno h \<equiv> h + 4"
abbreviation (input) tcph_ackno :: "ptr \<Rightarrow> ptr" where "tcph_ackno h \<equiv> h + 8"
abbreviation (input) tcph_hlf :: "ptr \<Rightarrow> ptr" where "tcph_hlf h \<equiv> h + 12"
abbreviation (input) tcph_wnd :: "ptr \<Rightarrow> ptr" where "tcph_wnd h \<equiv> h + 14"
abbreviation (input) tcph_chksum :: "ptr \<Rightarrow> ptr" where "tcph_chksum h \<equiv> h + 16"
abbreviation (input) tcph_urgp :: "ptr \<Rightarrow> ptr" where "tcph_urgp h \<equiv> h + 18"

definition T_TCPH_HDRLEN :: "ptr \<Rightarrow> 'a mem_st_scheme \<Rightarrow> u16" where
  "T_TCPH_HDRLEN phdr s = drop_bit 12 (ntohs (load16 (tcph_hlf phdr) s))"

definition T_TCPH_FLAGS :: "ptr \<Rightarrow> 'a mem_st_scheme \<Rightarrow> u16" where
  "T_TCPH_FLAGS phdr s = ntohs (load16 (tcph_hlf phdr) s) AND TCP_FLAGS"

definition T_TCPH_HDRLEN_SET :: "ptr \<Rightarrow> u16 \<Rightarrow> 'a mem_st_scheme \<Rightarrow> 'a mem_st_scheme" where
  "T_TCPH_HDRLEN_SET phdr len s = store16 (tcph_hlf phdr) (htons (push_bit 12 len OR T_TCPH_FLAGS phdr s)) s"

definition T_TCPH_FLAGS_SET :: "ptr \<Rightarrow> u8 \<Rightarrow> 'a mem_st_scheme \<Rightarrow> 'a mem_st_scheme" where
  "T_TCPH_FLAGS_SET phdr flags s = store16 (tcph_hlf phdr)
     (htons ((ntohs (load16 (tcph_hlf phdr) s) AND NOT TCP_FLAGS) OR ucast flags)) s"

definition T_TCPH_SET_FLAG :: "ptr \<Rightarrow> u8 \<Rightarrow> 'a mem_st_scheme \<Rightarrow> 'a mem_st_scheme" where
  "T_TCPH_SET_FLAG phdr flags s = store16 (tcph_hlf phdr)
     (htons (ntohs (load16 (tcph_hlf phdr) s) OR ucast flags)) s"

section \<open>Data\<close>

datatype tcp_state = CLOSED | LISTEN | SYN_SENT | SYN_RCVD | ESTABLISHED | FIN_WAIT_1 | FIN_WAIT_2
  | CLOSE_WAIT | CLOSING | LAST_ACK | TIME_WAIT

record t_tcp_seg =
  sg_next :: ptr
  sg_p :: ptr
  sg_dataptr :: ptr
  sg_len :: u16
  sg_tcphdr :: ptr

text \<open>The only function the repository installs as a callback of a TCP block is \<^verbatim>\<open>tcp_connected\<close> of
  \<^verbatim>\<open>user/s_main.c\<close>; the other callback fields stay null and are left out.\<close>

datatype tcp_connected_fn = No_connected | Tcp_connected

record t_tcp_pcb =
  tp_local_ip :: u32
  tp_remote_ip :: u32
  tp_so_options :: u16
  tp_tos :: u8
  tp_ttl :: u8
  tp_next :: ptr
  tp_state :: tcp_state
  tp_prio :: u8
  tp_callback_arg :: ptr
  tp_local_port :: u16
  tp_remote_port :: u16
  tp_flags :: u8
  tp_rcv_nxt :: u32
  tp_rcv_wnd :: u16
  tp_tmr :: u32
  tp_polltmr :: u8
  tp_pollinterval :: u8
  tp_rtime :: u16
  tp_mss :: u16
  tp_rttest :: u32
  tp_rtseq :: u32
  tp_sa :: u16
  tp_sv :: u16
  tp_rto :: u16
  tp_nrtx :: u8
  tp_lastack :: u32
  tp_dupacks :: u8
  tp_cwnd :: u16
  tp_ssthresh :: u16
  tp_snd_nxt :: u32
  tp_snd_max :: u32
  tp_snd_wnd :: u32
  tp_snd_wl1 :: u32
  tp_snd_wl2 :: u32
  tp_snd_lbb :: u32
  tp_acked :: u16
  tp_snd_buf :: u16
  tp_snd_queuelen :: u8
  tp_unsent :: ptr
  tp_unacked :: ptr
  tp_connected :: tcp_connected_fn
  tp_keepalive :: u32
  tp_keep_cnt :: u8

definition tcp_zeroed :: t_tcp_pcb where
  "tcp_zeroed = \<lparr>tp_local_ip = 0, tp_remote_ip = 0, tp_so_options = 0, tp_tos = 0, tp_ttl = 0,
     tp_next = NULL, tp_state = CLOSED, tp_prio = 0, tp_callback_arg = NULL, tp_local_port = 0,
     tp_remote_port = 0, tp_flags = 0, tp_rcv_nxt = 0, tp_rcv_wnd = 0, tp_tmr = 0, tp_polltmr = 0,
     tp_pollinterval = 0, tp_rtime = 0, tp_mss = 0, tp_rttest = 0, tp_rtseq = 0, tp_sa = 0,
     tp_sv = 0, tp_rto = 0, tp_nrtx = 0, tp_lastack = 0, tp_dupacks = 0, tp_cwnd = 0,
     tp_ssthresh = 0, tp_snd_nxt = 0, tp_snd_max = 0, tp_snd_wnd = 0, tp_snd_wl1 = 0,
     tp_snd_wl2 = 0, tp_snd_lbb = 0, tp_acked = 0, tp_snd_buf = 0, tp_snd_queuelen = 0,
     tp_unsent = NULL, tp_unacked = NULL, tp_connected = No_connected, tp_keepalive = 0, tp_keep_cnt = 0\<rparr>"

text \<open>
  The state: the heaps of blocks and segments, the variables of \<^verbatim>\<open>t_tcp.c\<close> (with the counters that are
  static in its functions), those of \<^verbatim>\<open>t_tcp_in.c\<close>, and \<open>stale_netif\<close> for the local
  variable \<^verbatim>\<open>netif\<close> that \<^verbatim>\<open>t_tcp_output_segment\<close> passes on without having set it when the block has a local address
  already.  Of a call before which \<open>k\<close> frames have been sent, \<open>stale_netif s k\<close> is the value found in the
  variable, or \<open>None\<close> when reading it has no defined behaviour, as the C standard has it.
\<close>

record tcp_st = udp_st +
  tcp_pcb :: "ptr \<Rightarrow> t_tcp_pcb"
  tcp_seg :: "ptr \<Rightarrow> t_tcp_seg"
  tcp_ticks :: u32
  tcp_active_pcbs :: ptr
  new_port_times :: int
  next_iss :: u32
  stale_netif :: "nat \<Rightarrow> ptr option"
  inseg :: t_tcp_seg
  in_tcphdr :: ptr
  in_iphdr :: ptr
  in_seqno :: u32
  in_ackno :: u32
  in_flags :: u8
  in_tcplen :: u16
  recv_flags :: u8
  recv_data :: ptr
  tcp_input_pcb :: ptr

abbreviation tp_link :: "'a tcp_st_scheme \<Rightarrow> ptr \<Rightarrow> ptr" where
  "tp_link s \<equiv> (\<lambda>p. tp_next (tcp_pcb s p))"

abbreviation sg_link :: "'a tcp_st_scheme \<Rightarrow> ptr \<Rightarrow> ptr" where
  "sg_link s \<equiv> (\<lambda>p. sg_next (tcp_seg s p))"

abbreviation upd_tcp :: "ptr \<Rightarrow> (t_tcp_pcb \<Rightarrow> t_tcp_pcb) \<Rightarrow> 'a tcp_st_scheme \<Rightarrow> 'a tcp_st_scheme" where
  "upd_tcp p f s \<equiv> s\<lparr>tcp_pcb := (tcp_pcb s)(p := f (tcp_pcb s p))\<rparr>"

abbreviation upd_seg :: "ptr \<Rightarrow> (t_tcp_seg \<Rightarrow> t_tcp_seg) \<Rightarrow> 'a tcp_st_scheme \<Rightarrow> 'a tcp_st_scheme" where
  "upd_seg g f s \<equiv> s\<lparr>tcp_seg := (tcp_seg s)(g := f (tcp_seg s g))\<rparr>"

lemma tcp_links_upd [simp]:
  "(\<lambda>p. tp_next (if p = q then b else f p)) = (\<lambda>p. tp_next (f p))(q := tp_next b)"
  "(\<lambda>p. sg_next (if p = q then c else g p)) = (\<lambda>p. sg_next (g p))(q := sg_next c)"
  by auto

lemma tcp_stores [simp]:
  "tcp_pcb (store8 a u s) = tcp_pcb s" "tcp_pcb (store16 a v s) = tcp_pcb s"
  "tcp_pcb (store32 a w s) = tcp_pcb s" "tcp_pcb (store_bytes a bs s) = tcp_pcb s"
  "tcp_seg (store8 a u s) = tcp_seg s" "tcp_seg (store16 a v s) = tcp_seg s"
  "tcp_seg (store32 a w s) = tcp_seg s" "tcp_seg (store_bytes a bs s) = tcp_seg s"
  "tcp_ticks (store8 a u s) = tcp_ticks s" "tcp_ticks (store16 a v s) = tcp_ticks s"
  "tcp_ticks (store32 a w s) = tcp_ticks s" "tcp_ticks (store_bytes a bs s) = tcp_ticks s"
  "tcp_active_pcbs (store8 a u s) = tcp_active_pcbs s" "tcp_active_pcbs (store16 a v s) = tcp_active_pcbs s"
  "tcp_active_pcbs (store32 a w s) = tcp_active_pcbs s" "tcp_active_pcbs (store_bytes a bs s) = tcp_active_pcbs s"
  "stale_netif (store8 a u s) = stale_netif s" "stale_netif (store16 a v s) = stale_netif s"
  "stale_netif (store32 a w s) = stale_netif s" "stale_netif (store_bytes a bs s) = stale_netif s"
  by (simp_all add: store8_def store16_def store32_def store_bytes_def)

definition tcp_boot :: tcp_st where
  "tcp_boot = udp_st.extend udp_boot
     \<lparr>tcp_pcb = (\<lambda>_. tcp_zeroed),
      tcp_seg = (\<lambda>_. \<lparr>sg_next = NULL, sg_p = NULL, sg_dataptr = NULL, sg_len = 0, sg_tcphdr = NULL\<rparr>),
      tcp_ticks = 0, tcp_active_pcbs = NULL, new_port_times = 0, next_iss = 6510, stale_netif = (\<lambda>_. Some NULL),
      inseg = \<lparr>sg_next = NULL, sg_p = NULL, sg_dataptr = NULL, sg_len = 0, sg_tcphdr = NULL\<rparr>,
      in_tcphdr = NULL, in_iphdr = NULL, in_seqno = 0, in_ackno = 0, in_flags = 0, in_tcplen = 0,
      recv_flags = 0, recv_data = NULL, tcp_input_pcb = NULL\<rparr>"

text \<open>The length of a segment in sequence space.\<close>

definition T_TCP_TCPLEN :: "ptr \<Rightarrow> 'a tcp_st_scheme \<Rightarrow> nat" where
  "T_TCP_TCPLEN seg s = unat (sg_len (tcp_seg s seg)) +
     (if T_TCPH_FLAGS (sg_tcphdr (tcp_seg s seg)) s AND ucast TCP_FIN \<noteq> 0 \<or>
         T_TCPH_FLAGS (sg_tcphdr (tcp_seg s seg)) s AND ucast TCP_SYN \<noteq> 0 then 1 else 0)"

definition T_TCP_REG :: "ptr \<Rightarrow> 'a tcp_st_scheme \<Rightarrow> 'a tcp_st_scheme" where
  "T_TCP_REG npcb s =
     (let s = upd_tcp npcb (\<lambda>b. b\<lparr>tp_next := tcp_active_pcbs s\<rparr>) s
      in s\<lparr>tcp_active_pcbs := npcb\<rparr>)"

section \<open>Operations\<close>

definition t_tcp_init :: "'a tcp_st_scheme \<Rightarrow> int \<times> 'a tcp_st_scheme" where
  "t_tcp_init s =
     (let s = s\<lparr>tcp_ticks := 0\<rparr>;
          s = s\<lparr>tcp_active_pcbs := NULL\<rparr>
      in (0, s))"

definition t_tcp_new_port :: "'a tcp_st_scheme \<Rightarrow> u16 \<times> 'a tcp_st_scheme" where
  "t_tcp_new_port s =
     (let s = s\<lparr>new_port_times := new_port_times s + 1\<rparr>
      in (of_int (4096 + new_port_times s), s))"

definition t_tcp_seg_free :: "ptr \<Rightarrow> 'a tcp_st_scheme \<Rightarrow> (u8 \<times> 'a tcp_st_scheme) option" where
  "t_tcp_seg_free seg s =
     (if seg \<noteq> NULL then do {
        (count, s) \<leftarrow> (if sg_p (tcp_seg s seg) \<noteq> NULL then t_pbuf_free (sg_p (tcp_seg s seg)) s
                       else Some (0, s));
        s \<leftarrow> t_memp_free T_MEMP_TCP_SEG seg s;
        Some (of_int count, s)
      } else Some (0, s))"

partial_function (option) segs_free_loop :: "ptr \<Rightarrow> u8 \<Rightarrow> 'a tcp_st_scheme \<Rightarrow> (u8 \<times> 'a tcp_st_scheme) option" where
  "segs_free_loop seg count s =
     (if seg \<noteq> NULL then
        let nxt = sg_next (tcp_seg s seg)
        in Option.bind (t_tcp_seg_free seg s) (\<lambda>(c, s). segs_free_loop nxt (count + c) s)
      else Some (count, s))"

definition t_tcp_segs_free :: "ptr \<Rightarrow> 'a tcp_st_scheme \<Rightarrow> (u8 \<times> 'a tcp_st_scheme) option" where
  "t_tcp_segs_free seg s = segs_free_loop seg 0 s"

definition t_tcp_next_iss :: "'a tcp_st_scheme \<Rightarrow> u32 \<times> 'a tcp_st_scheme" where
  "t_tcp_next_iss s =
     (let s = s\<lparr>next_iss := next_iss s + tcp_ticks s\<rparr>
      in (next_iss s, s))"

definition t_tcp_alloc :: "u8 \<Rightarrow> 'a tcp_st_scheme \<Rightarrow> ptr \<times> 'a tcp_st_scheme" where
  "t_tcp_alloc prio s =
     (let (pcb, s) = t_memp_malloc T_MEMP_TCP_PCB s
      in if pcb \<noteq> NULL then
           let s = upd_tcp pcb (\<lambda>_. tcp_zeroed) s;
               s = upd_tcp pcb (\<lambda>b. b\<lparr>tp_prio := T_TCP_PRIO_NORMAL, tp_snd_buf := T_TCP_SND_BUF,
                 tp_snd_queuelen := 0, tp_rcv_wnd := T_TCP_WND, tp_tos := 0, tp_ttl := T_TCP_TTL,
                 tp_mss := T_TCP_MSS, tp_rto := of_nat (3000 div T_TCP_SLOW_INTERVAL), tp_sa := 0,
                 tp_sv := of_nat (3000 div T_TCP_SLOW_INTERVAL), tp_rtime := 0, tp_cwnd := 1\<rparr>) s;
               (iss, s) = t_tcp_next_iss s;
               s = upd_tcp pcb (\<lambda>b. b\<lparr>tp_snd_wl2 := iss, tp_snd_nxt := iss, tp_snd_max := iss,
                 tp_lastack := iss, tp_snd_lbb := iss, tp_tmr := tcp_ticks s, tp_polltmr := 0,
                 tp_keepalive := T_TCP_KEEPDEFAULT, tp_keep_cnt := 0\<rparr>) s
           in (pcb, s)
         else (pcb, s))"

definition t_tcp_new :: "'a tcp_st_scheme \<Rightarrow> ptr \<times> 'a tcp_st_scheme" where
  "t_tcp_new s = t_tcp_alloc T_TCP_PRIO_NORMAL s"

section \<open>Sequence numbers and header fields\<close>

lemma sint_neg_iff: "sint (x :: u32) < 0 \<longleftrightarrow> 2 ^ 31 \<le> unat x"
proof -
  have "uint x < 2 ^ 32" using unsigned_less [of x, where ?'a = int] by simp
  then have "uint x div 2 ^ 31 = (if 2 ^ 31 \<le> uint x then 1 else 0)"
    using int_div_pos_eq [of "uint x" "2 ^ 31" 1 "uint x - 2 ^ 31"] by (simp add: div_pos_pos_trivial)
  then have "bit (uint x) 31 \<longleftrightarrow> 2 ^ 31 \<le> uint x" by (simp add: bit_iff_odd)
  moreover have "sint x < 0 \<longleftrightarrow> bit (uint x) 31"
    by (simp add: sint_uint signed_take_bit_eq_if_positive signed_take_bit_eq_if_negative)
  ultimately have "sint x < 0 \<longleftrightarrow> int (2 ^ 31) \<le> int (unat x)" by simp
  then show ?thesis unfolding of_nat_le_iff .
qed

lemma unat_neg: "unat (- x :: u32) = (if x = 0 then 0 else 2 ^ 32 - unat x)"
proof (cases "x = 0")
  case False
  have "unat x < 2 ^ 32" using unsigned_less [of x, where ?'a = nat] by simp
  moreover have "- x = of_nat (2 ^ 32 - unat x)"
    using \<open>unat x < 2 ^ 32\<close> by (simp add: of_nat_diff)
  moreover have "0 < unat x" using False by (simp add: unat_gt_0)
  ultimately show ?thesis using False by (simp only:) (subst unat_of_nat_lt, simp_all)
qed simp

lemma seq_lt_distance: "T_TCP_SEQ_LT a b \<longleftrightarrow> 0 < unat (b - a) \<and> unat (b - a) \<le> 2 ^ 31"
proof -
  have "unat (b - a) < 2 ^ 32" using unsigned_less [of "b - a", where ?'a = nat] by simp
  then show ?thesis
    unfolding T_TCP_SEQ_LT_def sint_neg_iff using unat_neg [of "b - a"] by (auto simp: unat_gt_0)
qed

lemma seq_lt_both: "T_TCP_SEQ_LT a b \<and> T_TCP_SEQ_LT b a \<longleftrightarrow> b = a + 2 ^ 31"
proof
  assume "T_TCP_SEQ_LT a b \<and> T_TCP_SEQ_LT b a"
  then have "unat (b - a) = 2 ^ 31"
    using unat_neg [of "b - a"] by (simp add: seq_lt_distance split: if_splits) (elim conjE, linarith)
  then have "b - a = 2 ^ 31" by (simp add: word_unat_eq_iff)
  then show "b = a + 2 ^ 31" by (simp add: algebra_simps)
qed (simp add: seq_lt_distance)

lemma seq_leq_iff: "T_TCP_SEQ_LEQ a b \<longleftrightarrow> T_TCP_SEQ_LT a b \<or> a = b"
  unfolding T_TCP_SEQ_LT_def T_TCP_SEQ_LEQ_def
  by (metis diff_0_right eq_iff_diff_eq_0 order_le_less sint_0 signed_word_eqI)

text \<open>C38: The comparison of sequence numbers looks at the distance modulo \<open>2 ^ 32\<close>: \<open>a\<close> is before \<open>b\<close> when
  \<open>b\<close> is at most half the number space ahead, whether or not the numbers wrap around in between.  It
  is antisymmetric but at exactly half the space, where each number is before the other.\<close>

theorem tcp_seq_lt_iff:
  "(T_TCP_SEQ_LT a b \<longleftrightarrow> 0 < unat (b - a) \<and> unat (b - a) \<le> 2 ^ 31) \<and>
   (T_TCP_SEQ_LT a b \<and> T_TCP_SEQ_LT b a \<longleftrightarrow> b = a + 2 ^ 31) \<and>
   (T_TCP_SEQ_LEQ a b \<longleftrightarrow> T_TCP_SEQ_LT a b \<or> a = b) \<and>
   (T_TCP_SEQ_GT a b \<longleftrightarrow> \<not> T_TCP_SEQ_LEQ a b) \<and> (T_TCP_SEQ_GEQ a b \<longleftrightarrow> \<not> T_TCP_SEQ_LT a b)"
  by (intro conjI seq_lt_distance seq_lt_both seq_leq_iff)
    (unfold T_TCP_SEQ_GT_def T_TCP_SEQ_GEQ_def T_TCP_SEQ_LEQ_def T_TCP_SEQ_LT_def not_le not_less, rule refl, rule refl)

section \<open>Header fields\<close>

text \<open>The field with length and flags as a function of its old value.\<close>

lemma hlf_after:
  "load16 (h + 12) (T_TCPH_FLAGS_SET h f s) = htons ((ntohs (load16 (h + 12) s) AND NOT TCP_FLAGS) OR ucast f)"
  "load16 (h + 12) (T_TCPH_HDRLEN_SET h n s) = htons (push_bit 12 n OR (ntohs (load16 (h + 12) s) AND TCP_FLAGS))"
  "load16 (h + 12) (T_TCPH_SET_FLAG h f s) = htons (ntohs (load16 (h + 12) s) OR ucast f)"
  by (simp_all add: T_TCPH_FLAGS_SET_def T_TCPH_HDRLEN_SET_def T_TCPH_SET_FLAG_def T_TCPH_FLAGS_def)

lemma TCP_FLAGS_mask: "TCP_FLAGS = mask 6"
  by (simp add: TCP_FLAGS_def mask_eq_exp_minus_1)

text \<open>Flags and header length are independent parts of one field: what is set last is what is read,
  and setting the length keeps the flags.  Only the low six bits are flags and only four bits count
  for the length.\<close>

theorem tcp_header_fields:
  "T_TCPH_FLAGS h (T_TCPH_FLAGS_SET h f s) = ucast f AND TCP_FLAGS \<and>
   T_TCPH_FLAGS h (T_TCPH_HDRLEN_SET h n s) = T_TCPH_FLAGS h s \<and>
   T_TCPH_HDRLEN h (T_TCPH_HDRLEN_SET h n s) = take_bit 4 n \<and>
   T_TCPH_FLAGS h (T_TCPH_SET_FLAG h f s) = T_TCPH_FLAGS h s OR (ucast f AND TCP_FLAGS)"
proof (intro conjI)
  show "T_TCPH_FLAGS h (T_TCPH_FLAGS_SET h f s) = ucast f AND TCP_FLAGS"
    unfolding T_TCPH_FLAGS_def hlf_after TCP_FLAGS_mask swap16.to_host_to_net
    by (rule bit_word_eqI) (auto simp: bit_simps)
  show "T_TCPH_FLAGS h (T_TCPH_HDRLEN_SET h n s) = T_TCPH_FLAGS h s"
    unfolding T_TCPH_FLAGS_def hlf_after TCP_FLAGS_mask swap16.to_host_to_net
    by (rule bit_word_eqI) (auto simp: bit_simps)
  show "T_TCPH_HDRLEN h (T_TCPH_HDRLEN_SET h n s) = take_bit 4 n"
    unfolding T_TCPH_HDRLEN_def hlf_after TCP_FLAGS_mask swap16.to_host_to_net
    by (rule bit_word_eqI) (auto simp: bit_simps dest: bit_imp_le_length)
  show "T_TCPH_FLAGS h (T_TCPH_SET_FLAG h f s) = T_TCPH_FLAGS h s OR (ucast f AND TCP_FLAGS)"
    unfolding T_TCPH_FLAGS_def hlf_after TCP_FLAGS_mask swap16.to_host_to_net
    by (rule bit_word_eqI) (auto simp: bit_simps)
qed

section \<open>Allocation and release\<close>

text \<open>Segments whose buffers are owned, all different, and in neither pool.\<close>

definition segs_held :: "'a tcp_st_scheme \<Rightarrow> ptr list \<Rightarrow> ptr list \<Rightarrow> ptr list \<Rightarrow> bool" where
  "segs_held s gs av xs \<longleftrightarrow> memp_avail T_MEMP_TCP_SEG s av \<and> pbuf_avail s xs \<and>
     set gs \<subseteq> memp_objs T_MEMP_TCP_SEG \<and> distinct (gs @ av) \<and>
     (\<forall>g \<in> set gs. memp_owned s g \<and> sg_p (tcp_seg s g) \<in> set pbuf_slots \<and> pbuf_owned s (sg_p (tcp_seg s g))) \<and>
     distinct (map (\<lambda>g. sg_p (tcp_seg s g)) gs @ xs)"

text \<open>Only the two pools may differ.\<close>

definition pools_only :: "'a tcp_st_scheme \<Rightarrow> 'a tcp_st_scheme \<Rightarrow> bool" where
  "pools_only s s' \<longleftrightarrow> (\<exists>tab nx n f q. s' = s\<lparr>memp_tab := tab, memp_next := nx, now_count := n,
     pbuf := f, pbuf_pool := q\<rparr>)"

lemma pools_only_refl: "pools_only s s"
  unfolding pools_only_def
  by (intro exI [of _ "memp_tab s"] exI [of _ "memp_next s"] exI [of _ "now_count s"] exI [of _ "pbuf s"]
    exI [of _ "pbuf_pool s"]) simp

lemma pools_only_trans:
  assumes "pools_only s t" and "pools_only t u"
  shows "pools_only s u"
proof -
  from assms(2) obtain tab nx n f q where u: "u = t\<lparr>memp_tab := tab, memp_next := nx, now_count := n,
      pbuf := f, pbuf_pool := q\<rparr>" unfolding pools_only_def by blast
  from assms(1) have "u = s\<lparr>memp_tab := tab, memp_next := nx, now_count := n, pbuf := f, pbuf_pool := q\<rparr>"
    unfolding pools_only_def u by (elim exE) simp
  then show ?thesis unfolding pools_only_def by blast
qed

lemma pools_onlyD:
  assumes "pools_only s s'"
  shows "mem s' = mem s" "netif s' = netif s" "sent s' = sent s" "tcp_pcb s' = tcp_pcb s" "tcp_seg s' = tcp_seg s"
    "tcp_active_pcbs s' = tcp_active_pcbs s" "udp_pcb s' = udp_pcb s" "t_udp_pcbs s' = t_udp_pcbs s"
    "netif_list s' = netif_list s" "netif_default s' = netif_default s" "in_tcphdr s' = in_tcphdr s"
  using assms unfolding pools_only_def by (elim exE, simp)+

text \<open>Of the pools of \<^verbatim>\<open>t_memp.c\<close>, only that of the segments differs.\<close>

definition seg_pool_only :: "'a tcp_st_scheme \<Rightarrow> 'a tcp_st_scheme \<Rightarrow> bool" where
  "seg_pool_only s s' \<longleftrightarrow> (\<forall>j. j \<noteq> T_MEMP_TCP_SEG \<longrightarrow> memp_tab s' j = memp_tab s j) \<and>
     (\<forall>e. e \<notin> set (memp_elems T_MEMP_TCP_SEG) \<longrightarrow> memp_next s' e = memp_next s e)"

lemma seg_pool_only_refl: "seg_pool_only s s"
  by (simp add: seg_pool_only_def)

lemma seg_pool_only_trans: "seg_pool_only s t \<Longrightarrow> seg_pool_only t u \<Longrightarrow> seg_pool_only s u"
  by (simp add: seg_pool_only_def)

lemma seg_free_result:
  assumes "segs_held s (g # gs) av xs"
  shows "\<exists>c s'. t_tcp_seg_free g s = Some (c, s') \<and> segs_held s' gs (g # av) (sg_p (tcp_seg s g) # xs) \<and>
    c = of_nat (Suc (length xs)) \<and> pools_only s s' \<and> (\<forall>y. y \<noteq> g \<longrightarrow> memp_owned s y \<longrightarrow> memp_owned s' y) \<and>
    (\<forall>y. y \<noteq> sg_p (tcp_seg s g) \<longrightarrow> pbuf s' y = pbuf s y) \<and> seg_pool_only s s'"
proof -
  let ?p = "sg_p (tcp_seg s g)"
  from assms have h: "memp_avail T_MEMP_TCP_SEG s av" "pbuf_avail s xs" "g \<in> memp_objs T_MEMP_TCP_SEG"
    "g \<notin> set av" "memp_owned s g" "?p \<in> set pbuf_slots" "pbuf_owned s ?p" "?p \<notin> set xs"
    by (simp_all add: segs_held_def)
  have pos: "g \<noteq> NULL" "?p \<noteq> NULL" using memp_objs_pos [OF h(3)] pbuf_slots_pos [OF h(6)] by simp_all
  let ?b = "(pbuf s ?p)\<lparr>pb_ref := 0, pb_next := pbuf_pool s\<rparr>"
  define t where "t = s\<lparr>pbuf := (pbuf s)(?p := ?b), pbuf_pool := ?p\<rparr>"
  note fr = pbuf_free_owned [OF h(2,6,8,7), folded t_def]
  have same: "memp_avail T_MEMP_TCP_SEG t av" "memp_owned t y = memp_owned s y" "tcp_seg t = tcp_seg s" for y
    using h(1) by (simp_all add: t_def memp_avail_def memp_owned_def)
  with h(5) have "memp_owned t g" by simp
  from memp_free_push [OF same(1) h(3,4) this] obtain s' where s': "t_memp_free T_MEMP_TCP_SEG g t = Some s'"
    "memp_avail T_MEMP_TCP_SEG s' (g # av)" "\<forall>y. y \<noteq> g \<longrightarrow> memp_owned t y \<longrightarrow> memp_owned s' y"
    "s' = t\<lparr>memp_tab := memp_tab s', memp_next := memp_next s', now_count := now_count t - 1\<rparr>"
    "memp_tab s' = (memp_tab t)(T_MEMP_TCP_SEG := g - sizeof_t_memp)"
    "memp_next s' = (memp_next t)(g - sizeof_t_memp := memp_tab t T_MEMP_TCP_SEG)" by blast
  have "g - sizeof_t_memp \<in> set (memp_elems T_MEMP_TCP_SEG)" using h(3) by (auto simp: memp_objs_def)
  then have pool: "seg_pool_only s s'" by (auto simp: seg_pool_only_def s'(5,6) t_def)
  have keep: "pbuf s' = pbuf t" "pbuf_pool s' = pbuf_pool t" "tcp_seg s' = tcp_seg s" by (subst s'(4), simp add: same)+
  have run: "t_tcp_seg_free g s = Some (of_nat (Suc (length xs)), s')"
    using pos fr(1) s'(1) by (simp add: t_tcp_seg_free_def)
  have "pbuf_avail s' (?p # xs)" using fr(2) by (simp add: pbuf_avail_def keep)
  moreover have other: "pbuf s' q = pbuf s q" if "q \<noteq> ?p" for q using that by (simp add: keep t_def)
  moreover have owned: "memp_owned s' y" if "y \<noteq> g" "memp_owned s y" for y using that s'(3) same(2) by blast
  moreover have "y \<noteq> g" if "y \<in> set gs" for y using that assms by (auto simp: segs_held_def)
  moreover have "sg_p (tcp_seg s y) \<noteq> ?p" if "y \<in> set gs" for y
    using that assms by (auto simp: segs_held_def image_iff)
  ultimately have "segs_held s' gs (g # av) (?p # xs)"
    using assms s'(2) by (auto simp: segs_held_def keep pbuf_owned_def)
  moreover have "s' = s\<lparr>memp_tab := memp_tab s', memp_next := memp_next s', now_count := now_count s - 1,
      pbuf := pbuf t, pbuf_pool := pbuf_pool t\<rparr>" by (subst s'(4)) (simp add: t_def)
  then have "pools_only s s'" unfolding pools_only_def by blast
  ultimately show ?thesis using run other owned pool by blast
qed

text \<open>Freeing the first segments of a queue leads to the rest of it.\<close>

lemma segs_free_prefix:
  "chained (sg_link s) g (gs @ hs) \<Longrightarrow> segs_held s gs av xs \<Longrightarrow>
   \<exists>c' s'. segs_free_loop g c s = segs_free_loop (case hs of [] \<Rightarrow> NULL | h # _ \<Rightarrow> h) c' s' \<and>
     segs_held s' [] (rev gs @ av) (rev (map (\<lambda>g. sg_p (tcp_seg s g)) gs) @ xs) \<and> pools_only s s' \<and>
     (\<forall>y. y \<notin> set gs \<longrightarrow> memp_owned s y \<longrightarrow> memp_owned s' y) \<and>
     (\<forall>y. y \<notin> set (map (\<lambda>g. sg_p (tcp_seg s g)) gs) \<longrightarrow> pbuf s' y = pbuf s y) \<and> seg_pool_only s s'"
proof (induction gs arbitrary: g c s av xs)
  case Nil
  then have "g = (case hs of [] \<Rightarrow> NULL | h # _ \<Rightarrow> h)" by (cases hs) auto
  then show ?case using Nil.prems(2) pools_only_refl [of s] seg_pool_only_refl [of s] by (intro exI [of _ c] exI [of _ s]) simp
next
  case (Cons h gs)
  then have h: "g = h" "h \<noteq> NULL" "chained (sg_link s) (sg_next (tcp_seg s h)) (gs @ hs)" by auto
  from seg_free_result [OF Cons.prems(2)] obtain d t where t: "t_tcp_seg_free h s = Some (d, t)"
    "segs_held t gs (h # av) (sg_p (tcp_seg s h) # xs)" "pools_only s t"
    "\<forall>y. y \<noteq> h \<longrightarrow> memp_owned s y \<longrightarrow> memp_owned t y" "\<forall>y. y \<noteq> sg_p (tcp_seg s h) \<longrightarrow> pbuf t y = pbuf s y" "seg_pool_only s t"
    by blast
  note same = pools_onlyD [OF t(3)]
  have "chained (sg_link t) (sg_next (tcp_seg s h)) (gs @ hs)" using h(3) by (simp add: same)
  from Cons.IH [OF this t(2), of "c + d"] obtain c' s' where
    "segs_free_loop (sg_next (tcp_seg s h)) (c + d) t = segs_free_loop (case hs of [] \<Rightarrow> NULL | h # _ \<Rightarrow> h) c' s'"
    "segs_held s' [] (rev gs @ h # av) (rev (map (\<lambda>g. sg_p (tcp_seg t g)) gs) @ sg_p (tcp_seg s h) # xs)"
    "pools_only t s'" "\<forall>y. y \<notin> set gs \<longrightarrow> memp_owned t y \<longrightarrow> memp_owned s' y"
    "\<forall>y. y \<notin> set (map (\<lambda>g. sg_p (tcp_seg t g)) gs) \<longrightarrow> pbuf s' y = pbuf t y" "seg_pool_only t s'" by blast
  moreover have "segs_free_loop g c s = segs_free_loop (sg_next (tcp_seg s h)) (c + d) t"
    using h t(1) by (subst segs_free_loop.simps) simp
  ultimately show ?case using pools_only_trans [OF t(3)] seg_pool_only_trans [OF t(6)] t(4,5)
    by (intro exI [of _ c'] exI [of _ s']) (simp add: same)
qed

lemma segs_free_result:
  assumes "chained (sg_link s) g gs" and "segs_held s gs av xs"
  shows "\<exists>c' s'. segs_free_loop g c s = Some (c', s') \<and>
     segs_held s' [] (rev gs @ av) (rev (map (\<lambda>g. sg_p (tcp_seg s g)) gs) @ xs) \<and> pools_only s s' \<and>
     (\<forall>y. y \<notin> set (map (\<lambda>g. sg_p (tcp_seg s g)) gs) \<longrightarrow> pbuf s' y = pbuf s y) \<and> seg_pool_only s s'"
proof -
  have "segs_free_loop NULL c' s' = Some (c', s')" for c' and s' :: "'a tcp_st_scheme"
    by (subst segs_free_loop.simps) simp
  then show ?thesis using segs_free_prefix [of s g gs "[]" av xs c] assms by (simp, blast)
qed

text \<open>A queue whose last segment has not got a buffer yet.\<close>

lemma segs_free_bare:
  assumes "chained (sg_link s) g (gs @ [h])" and "segs_held s gs av xs"
    and "sg_p (tcp_seg s h) = NULL" and "memp_owned s h" and "h \<in> memp_objs T_MEMP_TCP_SEG" and "h \<notin> set av"
  shows "\<exists>c' s'. segs_free_loop g c s = Some (c', s') \<and> memp_avail T_MEMP_TCP_SEG s' (h # rev gs @ av) \<and>
     pbuf_avail s' (rev (map (\<lambda>g. sg_p (tcp_seg s g)) gs) @ xs) \<and> pools_only s s' \<and>
     (\<forall>y. y \<notin> set (map (\<lambda>g. sg_p (tcp_seg s g)) gs) \<longrightarrow> pbuf s' y = pbuf s y)"
proof -
  from segs_free_prefix [OF assms(1,2), of c] obtain c1 t where t: "segs_free_loop g c s = segs_free_loop h c1 t"
    "segs_held t [] (rev gs @ av) (rev (map (\<lambda>g. sg_p (tcp_seg s g)) gs) @ xs)" "pools_only s t"
    "\<forall>y. y \<notin> set gs \<longrightarrow> memp_owned s y \<longrightarrow> memp_owned t y"
    "\<forall>y. y \<notin> set (map (\<lambda>g. sg_p (tcp_seg s g)) gs) \<longrightarrow> pbuf t y = pbuf s y" by auto
  note same = pools_onlyD [OF t(3)]
  have d: "h \<notin> set gs" using chained_distinct [OF assms(1)] by simp
  have av: "memp_avail T_MEMP_TCP_SEG t (rev gs @ av)" "pbuf_avail t (rev (map (\<lambda>g. sg_p (tcp_seg s g)) gs) @ xs)"
    using t(2) by (simp_all add: segs_held_def)
  have "h \<notin> set (rev gs @ av)" "memp_owned t h" using d t(4) assms(4,6) by simp_all
  from memp_free_push [OF av(1) assms(5) this] obtain u where u: "t_memp_free T_MEMP_TCP_SEG h t = Some u"
    "memp_avail T_MEMP_TCP_SEG u (h # rev gs @ av)"
    "u = t\<lparr>memp_tab := memp_tab u, memp_next := memp_next u, now_count := now_count t - 1\<rparr>" by blast
  have uf: "pbuf u = pbuf t" "pbuf_pool u = pbuf_pool t" "tcp_seg u = tcp_seg s" by (subst u(3), simp add: same)+
  have "pools_only t (t\<lparr>memp_tab := memp_tab u, memp_next := memp_next u, now_count := now_count t - 1, pbuf := pbuf t,
      pbuf_pool := pbuf_pool t\<rparr>)" unfolding pools_only_def by blast
  then have "pools_only t u" by (subst u(3)) simp
  moreover have "h \<noteq> NULL" "sg_next (tcp_seg s h) = NULL"
    using memp_objs_pos [OF assms(5)] chained_last_link [OF assms(1)] by simp_all
  then have "segs_free_loop h c1 t = Some (c1, u)"
    using u(1) assms(3) by (subst segs_free_loop.simps) (simp add: t_tcp_seg_free_def same Let_def segs_free_loop.simps)
  moreover have "pbuf_avail u (rev (map (\<lambda>g. sg_p (tcp_seg s g)) gs) @ xs)" using av(2) by (simp add: pbuf_avail_def uf)
  ultimately show ?thesis using t(1,5) u(2) pools_only_trans [OF t(3)] by (auto simp: uf)
qed

text \<open>C33: Freeing a queue of segments gives every segment and every buffer back to its pool and touches
  nothing else: no block, no segment field, no byte of data, no other buffer, and no other pool of \<^verbatim>\<open>t_memp.c\<close>.\<close>

theorem tcp_segs_free_conserves:
  assumes "chained (sg_link s) g gs" and "segs_held s gs av xs"
  shows "\<exists>c s'. t_tcp_segs_free g s = Some (c, s') \<and> memp_avail T_MEMP_TCP_SEG s' (rev gs @ av) \<and>
    pbuf_avail s' (rev (map (\<lambda>g. sg_p (tcp_seg s g)) gs) @ xs) \<and> pools_only s s' \<and>
    (\<forall>y. y \<notin> set (map (\<lambda>g. sg_p (tcp_seg s g)) gs) \<longrightarrow> pbuf s' y = pbuf s y) \<and>
    (\<forall>j. j \<noteq> T_MEMP_TCP_SEG \<longrightarrow> memp_tab s' j = memp_tab s j) \<and>
    (\<forall>e. e \<notin> set (memp_elems T_MEMP_TCP_SEG) \<longrightarrow> memp_next s' e = memp_next s e)"
  using segs_free_result [OF assms, of 0] unfolding t_tcp_segs_free_def segs_held_def seg_pool_only_def by blast

text \<open>A state with one segment in the first buffer, made by the operations themselves.\<close>

lemma one_seg_held:
  "\<exists>g av s. g \<noteq> NULL \<and> chained (sg_link (s :: tcp_st)) g [g] \<and> segs_held s [g] av (drop 2 pbuf_slots)"
proof -
  let ?t = "two_buffers (t_memp_init tcp_boot)" and ?p = pbuf_pool_memory
  note f = two_buffers_facts [of "t_memp_init tcp_boot"]
  have "memp_avail T_MEMP_TCP_SEG ?t (map (\<lambda>e. e + sizeof_t_memp) (memp_elems T_MEMP_TCP_SEG))"
    using memp_init_avail [of T_MEMP_TCP_SEG tcp_boot] by (subst f(10)) (simp add: memp_avail_def)
  moreover obtain e es where "memp_elems T_MEMP_TCP_SEG = e # es"
    using length_memp_elems [of T_MEMP_TCP_SEG] by (cases "memp_elems T_MEMP_TCP_SEG") simp_all
  ultimately obtain g av where av: "memp_avail T_MEMP_TCP_SEG ?t (g # av)" by auto
  from memp_malloc_next [OF av] obtain u where u: "memp_avail T_MEMP_TCP_SEG u av" "memp_owned u g"
    "u = ?t\<lparr>memp_tab := memp_tab u, memp_next := memp_next u, now_count := now_count ?t + 1\<rparr>" by blast
  have b: "pbuf u = pbuf ?t" "pbuf_pool u = pbuf_pool ?t" by (subst u(3), simp)+
  let ?s = "upd_seg g (\<lambda>v. v\<lparr>sg_next := NULL, sg_p := ?p\<rparr>) u"
  have g: "g \<in> memp_objs T_MEMP_TCP_SEG" "g \<notin> set av" "distinct av"
    using memp.avail_objs [OF av] memp.avail_distinct [OF av] by auto
  have "?p \<notin> set (drop 2 pbuf_slots)"
    by (auto simp: pbuf_slots_def T_PBUF_POOL_SIZE_def drop_map upt_rec pbuf_slot_eq)
  moreover have "?p \<in> set pbuf_slots" using f(1) by (simp add: pbuf_wf_def)
  moreover have "pbuf_owned ?s ?p" "pbuf_avail ?s (drop 2 pbuf_slots)"
    using f(2,9) by (simp_all add: pbuf_owned_def pbuf_avail_def b)
  moreover have "memp_avail T_MEMP_TCP_SEG ?s av" "memp_owned ?s g"
    using u(1,2) by (simp_all add: memp_avail_def memp_owned_def)
  ultimately have "segs_held ?s [g] av (drop 2 pbuf_slots)"
    using g by (simp add: segs_held_def distinct_drop)
  moreover have "g \<noteq> NULL" using memp_objs_pos [OF g(1)] .
  ultimately show ?thesis by (intro exI [of _ g] exI [of _ av] exI [of _ ?s]) simp
qed

theorem tcp_segs_free_conserves_witness:
  "\<exists>g (s :: tcp_st) c s'. g \<noteq> NULL \<and> t_tcp_segs_free g s = Some (c, s') \<and> pools_only s s'"
proof -
  obtain g av and s :: tcp_st where "g \<noteq> NULL" "chained (sg_link s) g [g]" "segs_held s [g] av (drop 2 pbuf_slots)"
    using one_seg_held by blast
  with tcp_segs_free_conserves [OF this(2,3)] show ?thesis by blast
qed

text \<open>A new block comes from its pool with the initial values of the sender: all sequence numbers at the
  initial one, an empty queue, a congestion window of one byte.  When the pool is empty, nothing changes.\<close>

theorem tcp_alloc_spec:
  "(memp_avail T_MEMP_TCP_PCB s [] \<longrightarrow> t_tcp_new s = (NULL, s)) \<and>
   (memp_avail T_MEMP_TCP_PCB s (x # xs) \<longrightarrow>
     (\<exists>s' iss. t_tcp_new s = (x, s') \<and> memp_avail T_MEMP_TCP_PCB s' xs \<and> iss = next_iss s + tcp_ticks s \<and>
       next_iss s' = iss \<and> (\<forall>y. y \<noteq> x \<longrightarrow> tcp_pcb s' y = tcp_pcb s y) \<and>
       tcp_pcb s' x = tcp_zeroed\<lparr>tp_prio := 64, tp_snd_buf := 16800, tp_rcv_wnd := 14000, tp_ttl := 255,
         tp_mss := 1400, tp_rto := 6, tp_sv := 6, tp_cwnd := 1, tp_snd_wl2 := iss, tp_snd_nxt := iss,
         tp_snd_max := iss, tp_lastack := iss, tp_snd_lbb := iss, tp_tmr := tcp_ticks s,
         tp_keepalive := 7200000\<rparr>))"
proof (intro conjI impI)
  show "t_tcp_new s = (NULL, s)" if "memp_avail T_MEMP_TCP_PCB s []"
    using memp_malloc_empty [OF that] by (simp add: t_tcp_new_def t_tcp_alloc_def)
  assume av: "memp_avail T_MEMP_TCP_PCB s (x # xs)"
  from memp_malloc_next [OF av] obtain t where t: "t_memp_malloc T_MEMP_TCP_PCB s = (x, t)"
    "memp_avail T_MEMP_TCP_PCB t xs"
    "t = s\<lparr>memp_tab := memp_tab t, memp_next := memp_next t, now_count := now_count s + 1\<rparr>" by blast
  have same: "tcp_pcb t = tcp_pcb s" "next_iss t = next_iss s" "tcp_ticks t = tcp_ticks s" by (subst t(3), simp)+
  have "x \<noteq> NULL" using memp.avail_objs [OF av] memp_objs_pos by auto
  then show "\<exists>s' iss. t_tcp_new s = (x, s') \<and> memp_avail T_MEMP_TCP_PCB s' xs \<and> iss = next_iss s + tcp_ticks s \<and>
       next_iss s' = iss \<and> (\<forall>y. y \<noteq> x \<longrightarrow> tcp_pcb s' y = tcp_pcb s y) \<and>
       tcp_pcb s' x = tcp_zeroed\<lparr>tp_prio := 64, tp_snd_buf := 16800, tp_rcv_wnd := 14000, tp_ttl := 255,
         tp_mss := 1400, tp_rto := 6, tp_sv := 6, tp_cwnd := 1, tp_snd_wl2 := iss, tp_snd_nxt := iss,
         tp_snd_max := iss, tp_lastack := iss, tp_snd_lbb := iss, tp_tmr := tcp_ticks s,
         tp_keepalive := 7200000\<rparr>"
    using t(1,2) unfolding t_tcp_new_def t_tcp_alloc_def t_tcp_next_iss_def
    by (simp add: same memp_avail_def T_TCP_PRIO_NORMAL_def T_TCP_SND_BUF_def T_TCP_WND_def T_TCP_MSS_def
        T_TCP_TTL_def T_TCP_SLOW_INTERVAL_def T_TCP_KEEPDEFAULT_def tcp_zeroed_def)
qed

theorem tcp_alloc_spec_witness:
  "\<exists>x s'. x \<noteq> NULL \<and> t_tcp_new (t_memp_init tcp_boot) = (x, s') \<and> tp_mss (tcp_pcb s' x) = 1400"
proof -
  obtain x xs where x: "x \<noteq> NULL" "memp_avail T_MEMP_TCP_PCB (t_memp_init tcp_boot) (x # xs)"
    using memp_avail_fresh by blast
  with tcp_alloc_spec [of "t_memp_init tcp_boot" x xs] show ?thesis by (intro exI [of _ x]) auto
qed

end
