(* ===== verification/Tcp_Out.thy ===== *)
theory Tcp_Out
  imports Tcp
begin

text \<open>
  \<^verbatim>\<open>core/t_tcp_out.c\<close> and \<^verbatim>\<open>t_tcp_connect\<close> of \<^verbatim>\<open>core/t_tcp.c\<close>: building segments, sending them within the
  window, empty acknowledgements, keepalive probes, and opening a connection.
\<close>

section \<open>Enqueueing\<close>

text \<open>Writing the common fields of a TCP header that is under construction.\<close>

definition tcp_ports :: "ptr \<Rightarrow> t_tcp_pcb \<Rightarrow> 'a tcp_st_scheme \<Rightarrow> 'a tcp_st_scheme" where
  "tcp_ports h b s =
     (let s = store16 (tcph_src h) (htons (tp_local_port b)) s
      in store16 (tcph_dest h) (htons (tp_remote_port b)) s)"

text \<open>
  The buffers of one segment: for options, for a copy of the data, or for a header and the data in
  place (which \<open>t_pbuf_cat\<close> copies all the same).  \<open>None\<close> as the first result is \<^verbatim>\<open>goto memerr\<close>.
\<close>

definition enqueue_buffers ::
    "ptr \<Rightarrow> u16 \<Rightarrow> u8 \<Rightarrow> ptr \<Rightarrow> ptr \<Rightarrow> u8 list option \<Rightarrow> u8 \<Rightarrow> u8 \<Rightarrow> 'a tcp_st_scheme
     \<Rightarrow> (u8 option \<times> 'a tcp_st_scheme) option" where
  "enqueue_buffers seg seglen copy arg ptr optdata optlen queuelen s =
     (if optdata \<noteq> None then do {
        (p, s) \<leftarrow> t_pbuf_alloc T_PBUF_TRANSPORT (ucast optlen) T_PBUF_FLAG_POOL s;
        let s = upd_seg seg (\<lambda>g. g\<lparr>sg_p := p\<rparr>) s;
        Some (if p = NULL then (None, s)
              else (Some (queuelen + 1), upd_seg seg (\<lambda>g. g\<lparr>sg_dataptr := pb_payload (pbuf s p)\<rparr>) s))
      }
      else if copy \<noteq> 0 then do {
        (p, s) \<leftarrow> t_pbuf_alloc T_PBUF_TRANSPORT seglen T_PBUF_FLAG_POOL s;
        let s = upd_seg seg (\<lambda>g. g\<lparr>sg_p := p\<rparr>) s;
        if p = NULL then Some (None, s)
        else do {
          s \<leftarrow> (if arg \<noteq> NULL then do {
                   defined (accessible (pb_payload (pbuf s p)) (unat seglen) \<and> accessible ptr (unat seglen));
                   Some (store_bytes (pb_payload (pbuf s p)) (load_bytes ptr (unat seglen) s) s)
                 } else Some s);
          Some (Some (queuelen + 1), upd_seg seg (\<lambda>g. g\<lparr>sg_dataptr := pb_payload (pbuf s p)\<rparr>) s)
        }
      }
      else do {
        (p, s) \<leftarrow> t_pbuf_alloc T_PBUF_TRANSPORT seglen T_PBUF_FLAG_POOL s;
        if p = NULL then Some (None, s)
        else do {
          let queuelen = queuelen + 1;
          let s = upd_pbuf p (\<lambda>b. b\<lparr>pb_payload := ptr\<rparr>) s;
          let s = upd_seg seg (\<lambda>g. g\<lparr>sg_dataptr := ptr\<rparr>) s;
          (q, s) \<leftarrow> t_pbuf_alloc T_PBUF_TRANSPORT 0 T_PBUF_FLAG_POOL s;
          let s = upd_seg seg (\<lambda>g. g\<lparr>sg_p := q\<rparr>) s;
          if q = NULL then do {
            (_, s) \<leftarrow> t_pbuf_free p s;
            Some (None, s)
          } else do {
            (_, s) \<leftarrow> t_pbuf_cat q p s;
            Some (Some (queuelen + 1), s)
          }
        }
      })"

text \<open>The header of one segment, in front of its data, and the options behind it; \<open>False\<close> is
  \<^verbatim>\<open>goto memerr\<close>.\<close>

definition enqueue_header ::
    "ptr \<Rightarrow> ptr \<Rightarrow> u32 \<Rightarrow> u16 \<Rightarrow> u8 \<Rightarrow> u8 list option \<Rightarrow> u8 \<Rightarrow> 'a tcp_st_scheme
     \<Rightarrow> (bool \<times> 'a tcp_st_scheme) option" where
  "enqueue_header pcb seg seqno seglen flags optdata optlen s = do {
     let s = upd_seg seg (\<lambda>g. g\<lparr>sg_len := seglen\<rparr>) s;
     (r, s) \<leftarrow> t_pbuf_header (sg_p (tcp_seg s seg)) (- int T_TCP_HLEN) s;
     if r \<noteq> 0 then Some (False, s)
     else do {
       let h = pb_payload (pbuf s (sg_p (tcp_seg s seg)));
       let s = upd_seg seg (\<lambda>g. g\<lparr>sg_tcphdr := h\<rparr>) s;
       defined (accessible h 20);
       let s = tcp_ports h (tcp_pcb s pcb) s;
       let s = store32 (tcph_seqno h) (htonl seqno) s;
       let s = store16 (tcph_urgp h) 0 s;
       let s = T_TCPH_FLAGS_SET h flags s;
       case optdata of
         None \<Rightarrow> Some (True, T_TCPH_HDRLEN_SET h 5 s)
       | Some opts \<Rightarrow> do {
           let s = T_TCPH_HDRLEN_SET h (5 + ucast optlen div 4) s;
           let n = unat optlen;
           defined (accessible (sg_dataptr (tcp_seg s seg)) n \<and> n \<le> length opts);
           Some (True, store_bytes (sg_dataptr (tcp_seg s seg)) (take n opts) s)
         }
     }
   }"

text \<open>
  The loop that cuts the data into segments.  Its result is \<open>Inl\<close> of the queue so far for the jump to
  \<^verbatim>\<open>memerr\<close>, and else the queue, the last segment with its length, and the new queue length.
\<close>

partial_function (option) enqueue_loop ::
    "ptr \<Rightarrow> ptr \<Rightarrow> u8 \<Rightarrow> u8 \<Rightarrow> u8 list option \<Rightarrow> u8 \<Rightarrow> u32 \<Rightarrow> u32 \<Rightarrow> ptr \<Rightarrow> u8 \<Rightarrow> ptr \<Rightarrow> ptr \<Rightarrow> u16
     \<Rightarrow> 'a tcp_st_scheme \<Rightarrow> ((ptr + ptr \<times> ptr \<times> u16 \<times> u8) \<times> 'a tcp_st_scheme) option" where
  "enqueue_loop pcb arg flags copy optdata optlen left seqno ptr queuelen useg queue seglen s =
     (if queue = NULL \<or> 0 < left then
        let seglen = (if ucast (tp_mss (tcp_pcb s pcb)) < left then tp_mss (tcp_pcb s pcb) else ucast left);
            (seg, s) = t_memp_malloc T_MEMP_TCP_SEG s
        in if seg = NULL then Some (Inl queue, s)
           else
             let s = upd_seg seg (\<lambda>g. g\<lparr>sg_next := NULL\<rparr>) s;
                 s = upd_seg seg (\<lambda>g. g\<lparr>sg_p := NULL\<rparr>) s;
                 (queue, s) = (if queue = NULL then (seg, s)
                               else (queue, upd_seg useg (\<lambda>g. g\<lparr>sg_next := seg\<rparr>) s))
             in Option.bind (enqueue_buffers seg seglen copy arg ptr optdata optlen queuelen s)
               (\<lambda>(r, s). case r of
                   None \<Rightarrow> Some (Inl queue, s)
                 | Some queuelen \<Rightarrow>
                     if T_TCP_SND_QUEUELEN < queuelen then Some (Inl queue, s)
                     else Option.bind (enqueue_header pcb seg seqno seglen flags optdata optlen s)
                       (\<lambda>(ok, s). if \<not> ok then Some (Inl queue, s)
                          else enqueue_loop pcb arg flags copy optdata optlen (left - ucast seglen)
                            (seqno + ucast seglen) (ptr + unat seglen) queuelen seg queue seglen s))
      else Some (Inr (queue, useg, seglen, queuelen), s))"

text \<open>Putting the new queue behind the unsent segments, merging its first segment into the last
  unsent one when both carry plain data and fit together.  The result is the last new segment, or
  null when it has been merged.\<close>

definition enqueue_link ::
    "ptr \<Rightarrow> u8 \<Rightarrow> ptr \<Rightarrow> ptr \<Rightarrow> 'a tcp_st_scheme \<Rightarrow> (ptr \<times> 'a tcp_st_scheme) option" where
  "enqueue_link pcb flags queue seg s = do {
     useg \<leftarrow> (if tp_unsent (tcp_pcb s pcb) = NULL then Some NULL
               else last_from (sg_link s) (tp_unsent (tcp_pcb s pcb)));
     if useg \<noteq> NULL \<and> T_TCP_TCPLEN useg s \<noteq> 0 \<and>
        T_TCPH_FLAGS (sg_tcphdr (tcp_seg s useg)) s AND ucast (TCP_SYN OR TCP_FIN) = 0 \<and>
        flags AND (TCP_SYN OR TCP_FIN) = 0 \<and>
        unat (sg_len (tcp_seg s useg)) + unat (sg_len (tcp_seg s queue)) \<le> unat (tp_mss (tcp_pcb s pcb))
     then do {
       (_, s) \<leftarrow> t_pbuf_header (sg_p (tcp_seg s queue)) (int T_TCP_HLEN) s;
       (_, s) \<leftarrow> t_pbuf_cat (sg_p (tcp_seg s useg)) (sg_p (tcp_seg s queue)) s;
       let s = upd_seg useg (\<lambda>g. g\<lparr>sg_len := sg_len g + sg_len (tcp_seg s queue)\<rparr>) s;
       let s = upd_seg useg (\<lambda>g. g\<lparr>sg_next := sg_next (tcp_seg s queue)\<rparr>) s;
       s \<leftarrow> t_memp_free T_MEMP_TCP_SEG queue s;
       Some (if seg = queue then NULL else seg, s)
     }
     else Some (seg,
       if useg = NULL then upd_tcp pcb (\<lambda>b. b\<lparr>tp_unsent := queue\<rparr>) s
       else upd_seg useg (\<lambda>g. g\<lparr>sg_next := queue\<rparr>) s)
   }"

text \<open>The option bytes are a local variable of the caller, \<open>None\<close> for the null pointer.\<close>

definition t_tcp_enqueue ::
    "ptr \<Rightarrow> ptr \<Rightarrow> u16 \<Rightarrow> u8 \<Rightarrow> u8 \<Rightarrow> u8 list option \<Rightarrow> u8 \<Rightarrow> 'a tcp_st_scheme \<Rightarrow> (int \<times> 'a tcp_st_scheme) option" where
  "t_tcp_enqueue pcb arg len flags copy optdata optlen s = do {
     defined (pcb \<noteq> NULL);
     if tp_snd_buf (tcp_pcb s pcb) < len then Some (-1, s)
     else if T_TCP_SND_QUEUELEN \<le> tp_snd_queuelen (tcp_pcb s pcb) then Some (-1, s)
     else do {
       (r, s) \<leftarrow> enqueue_loop pcb arg flags copy optdata optlen (ucast len) (tp_snd_lbb (tcp_pcb s pcb)) arg
         (tp_snd_queuelen (tcp_pcb s pcb)) NULL NULL 0 s;
       case r of
         Inl queue \<Rightarrow> do {
           (_, s) \<leftarrow> (if queue \<noteq> NULL then t_tcp_segs_free queue s else Some (0, s));
           Some (-1, s)
         }
       | Inr (queue, seg, seglen, queuelen) \<Rightarrow> do {
           (seg, s) \<leftarrow> enqueue_link pcb flags queue seg s;
           let len = (if flags AND TCP_SYN \<noteq> 0 \<or> flags AND TCP_FIN \<noteq> 0 then len + 1 else len);
           let s = upd_tcp pcb (\<lambda>b. b\<lparr>tp_snd_lbb := tp_snd_lbb b + ucast len\<rparr>) s;
           let s = upd_tcp pcb (\<lambda>b. b\<lparr>tp_snd_buf := tp_snd_buf b - len\<rparr>) s;
           let s = upd_tcp pcb (\<lambda>b. b\<lparr>tp_snd_queuelen := queuelen\<rparr>) s;
           Some (0, if seg \<noteq> NULL \<and> 0 < seglen \<and> sg_tcphdr (tcp_seg s seg) \<noteq> NULL
                    then T_TCPH_SET_FLAG (sg_tcphdr (tcp_seg s seg)) TCP_PSH s else s)
         }
     }
   }"

definition ERR_BUF :: int where "ERR_BUF = -2"
definition ERR_CONN :: int where "ERR_CONN = -6"

definition t_tcp_write :: "ptr \<Rightarrow> ptr \<Rightarrow> u16 \<Rightarrow> u8 \<Rightarrow> 'a tcp_st_scheme \<Rightarrow> (int \<times> 'a tcp_st_scheme) option" where
  "t_tcp_write pcb arg len copy s = do {
     defined (pcb \<noteq> NULL);
     if tp_state (tcp_pcb s pcb) = ESTABLISHED \<or> tp_state (tcp_pcb s pcb) = CLOSE_WAIT \<or>
        tp_state (tcp_pcb s pcb) = SYN_SENT \<or> tp_state (tcp_pcb s pcb) = SYN_RCVD
     then if 0 < len then t_tcp_enqueue pcb arg len 0 copy None 0 s
          else Some (0, s)
     else Some (ERR_CONN, s)
   }"

section \<open>Sending\<close>

text \<open>The interface for a segment; a block without a local address gets that of the interface.  With a
  local address the variable \<^verbatim>\<open>netif\<close> is not set, and is read nevertheless.\<close>

definition segment_route :: "ptr \<Rightarrow> 'a tcp_st_scheme \<Rightarrow> (bool \<times> ptr \<times> 'a tcp_st_scheme) option" where
  "segment_route pcb s =
     (if ip_addr_isany (tp_local_ip (tcp_pcb s pcb)) then do {
        n \<leftarrow> t_ip_route (tp_remote_ip (tcp_pcb s pcb)) s;
        Some (if n = NULL then (False, n, s)
              else (True, n, upd_tcp pcb (\<lambda>b. b\<lparr>tp_local_ip := nif_ip_addr (netif s n)\<rparr>) s))
      } else do {
        n \<leftarrow> stale_netif s (length (sent s));
        Some (True, n, s)
      })"

text \<open>Timers, the buffer cut to the segment, the checksum, and the call of IP.\<close>

definition segment_send :: "ptr \<Rightarrow> ptr \<Rightarrow> ptr \<Rightarrow> 'a tcp_st_scheme \<Rightarrow> 'a tcp_st_scheme option" where
  "segment_send seg pcb n s = do {
     let h = sg_tcphdr (tcp_seg s seg);
     let s = upd_tcp pcb (\<lambda>b. b\<lparr>tp_rtime := 0\<rparr>) s;
     let s = (if tp_rttest (tcp_pcb s pcb) = 0 then
                let s = upd_tcp pcb (\<lambda>b. b\<lparr>tp_rttest := tcp_ticks s\<rparr>) s
                in upd_tcp pcb (\<lambda>b. b\<lparr>tp_rtseq := ntohl (load32 (tcph_seqno h) s)\<rparr>) s
              else s);
     let p = sg_p (tcp_seg s seg);
     defined (p \<noteq> NULL);
     let len = (of_int (int h - int (pb_payload (pbuf s p))) :: u16);
     let s = upd_pbuf p (\<lambda>b. b\<lparr>pb_len := pb_len b - len\<rparr>) s;
     let s = upd_pbuf p (\<lambda>b. b\<lparr>pb_tot_len := pb_tot_len b - len\<rparr>) s;
     let s = upd_pbuf p (\<lambda>b. b\<lparr>pb_payload := h\<rparr>) s;
     let s = store16 (tcph_chksum h) 0 s;
     c \<leftarrow> t_inet_chksum_pseudo p (tp_local_ip (tcp_pcb s pcb)) (tp_remote_ip (tcp_pcb s pcb))
       T_IP_PROTO_TCP (pb_tot_len (pbuf s p)) s;
     let s = store16 (tcph_chksum h) c s;
     (_, s) \<leftarrow> t_ip_output n p (Some (tp_local_ip (tcp_pcb s pcb))) (Val (tp_remote_ip (tcp_pcb s pcb)))
       (tp_ttl (tcp_pcb s pcb)) (tp_tos (tcp_pcb s pcb)) T_IP_PROTO_TCP s;
     Some s
   }"

definition t_tcp_output_segment :: "ptr \<Rightarrow> ptr \<Rightarrow> 'a tcp_st_scheme \<Rightarrow> 'a tcp_st_scheme option" where
  "t_tcp_output_segment seg pcb s = do {
     let h = sg_tcphdr (tcp_seg s seg);
     defined (accessible h 20);
     let s = store32 (tcph_ackno h) (htonl (tp_rcv_nxt (tcp_pcb s pcb))) s;
     let s = (if tp_rcv_wnd (tcp_pcb s pcb) < tp_mss (tcp_pcb s pcb) then store16 (tcph_wnd h) 0 s
              else store16 (tcph_wnd h) (htons (tp_rcv_wnd (tcp_pcb s pcb))) s);
     (go, n, s) \<leftarrow> segment_route pcb s;
     if \<not> go then Some s else segment_send seg pcb n s
   }"

text \<open>Is the segment within the window?  The sum is computed modulo \<open>2 ^ 32\<close>.\<close>

definition seg_end :: "ptr \<Rightarrow> ptr \<Rightarrow> 'a tcp_st_scheme \<Rightarrow> u32" where
  "seg_end seg pcb s = ntohl (load32 (tcph_seqno (sg_tcphdr (tcp_seg s seg))) s) - tp_lastack (tcp_pcb s pcb) +
     ucast (sg_len (tcp_seg s seg))"

text \<open>Where a sent segment goes: onto the queue of unacknowledged segments, or back to the pools when
  it does not use sequence space.  \<open>useg\<close> is the last unacknowledged segment.\<close>

definition output_done :: "ptr \<Rightarrow> ptr \<Rightarrow> ptr \<Rightarrow> 'a tcp_st_scheme \<Rightarrow> (ptr \<times> 'a tcp_st_scheme) option" where
  "output_done seg useg pcb s =
     (if 0 < T_TCP_TCPLEN seg s then do {
        let s = upd_seg seg (\<lambda>g. g\<lparr>sg_next := NULL\<rparr>) s;
        if tp_unacked (tcp_pcb s pcb) = NULL then
          Some (seg, upd_tcp pcb (\<lambda>b. b\<lparr>tp_unacked := seg\<rparr>) s)
        else do {
          defined (useg \<noteq> NULL);
          Some (if T_TCP_SEQ_LT (ntohl (load32 (tcph_seqno (sg_tcphdr (tcp_seg s seg))) s))
                     (ntohl (load32 (tcph_seqno (sg_tcphdr (tcp_seg s useg))) s))
                then let s = upd_seg seg (\<lambda>g. g\<lparr>sg_next := tp_unacked (tcp_pcb s pcb)\<rparr>) s
                     in (useg, upd_tcp pcb (\<lambda>b. b\<lparr>tp_unacked := seg\<rparr>) s)
                else let s = upd_seg useg (\<lambda>g. g\<lparr>sg_next := seg\<rparr>) s
                     in (sg_next (tcp_seg s useg), s))
        }
      } else do {
        (_, s) \<leftarrow> t_tcp_seg_free seg s;
        Some (useg, s)
      })"

partial_function (option) output_loop ::
    "u32 \<Rightarrow> ptr \<Rightarrow> ptr \<Rightarrow> ptr \<Rightarrow> 'a tcp_st_scheme \<Rightarrow> 'a tcp_st_scheme option" where
  "output_loop wnd seg useg pcb s =
     (if seg \<noteq> NULL \<and> seg_end seg pcb s \<le> wnd then
        let s = upd_tcp pcb (\<lambda>b. b\<lparr>tp_unsent := sg_next (tcp_seg s seg)\<rparr>) s;
            s = (if tp_state (tcp_pcb s pcb) \<noteq> SYN_SENT then
                   let s = T_TCPH_SET_FLAG (sg_tcphdr (tcp_seg s seg)) TCP_ACK s
                   in upd_tcp pcb (\<lambda>b. b\<lparr>tp_flags := tp_flags b AND NOT (TF_ACK_DELAY OR TF_ACK_NOW)\<rparr>) s
                 else s)
        in Option.bind (t_tcp_output_segment seg pcb s)
          (\<lambda>s. let s = upd_tcp pcb (\<lambda>b. b\<lparr>tp_snd_nxt :=
                     ntohl (load32 (tcph_seqno (sg_tcphdr (tcp_seg s seg))) s) + of_nat (T_TCP_TCPLEN seg s)\<rparr>) s;
                   s = (if T_TCP_SEQ_LT (tp_snd_max (tcp_pcb s pcb)) (tp_snd_nxt (tcp_pcb s pcb))
                        then upd_tcp pcb (\<lambda>b. b\<lparr>tp_snd_max := tp_snd_nxt b\<rparr>) s else s)
               in Option.bind (output_done seg useg pcb s)
                 (\<lambda>(useg, s). output_loop wnd (tp_unsent (tcp_pcb s pcb)) useg pcb s))
      else Some s)"

text \<open>The header of a segment without data, used for acknowledgements and keepalive probes.\<close>

definition send_empty_ack :: "ptr \<Rightarrow> 'a tcp_st_scheme \<Rightarrow> (int \<times> 'a tcp_st_scheme) option" where
  "send_empty_ack pcb s = do {
     n \<leftarrow> t_ip_route (tp_local_ip (tcp_pcb s pcb)) s;
     (p, s) \<leftarrow> t_pbuf_alloc T_PBUF_IP (of_nat T_TCP_HLEN) T_PBUF_FLAG_POOL s;
     if p = NULL then Some (ERR_BUF, s)
     else do {
       let s = upd_tcp pcb (\<lambda>b. b\<lparr>tp_flags := tp_flags b AND NOT (TF_ACK_DELAY OR TF_ACK_NOW)\<rparr>) s;
       let h = pb_payload (pbuf s p);
       defined (accessible h 20);
       let s = tcp_ports h (tcp_pcb s pcb) s;
       let s = store32 (tcph_seqno h) (htonl (tp_snd_nxt (tcp_pcb s pcb))) s;
       let s = store32 (tcph_ackno h) (htonl (tp_rcv_nxt (tcp_pcb s pcb))) s;
       let s = T_TCPH_FLAGS_SET h TCP_ACK s;
       let s = store16 (tcph_wnd h) (htons (tp_rcv_wnd (tcp_pcb s pcb))) s;
       let s = store16 (tcph_urgp h) 0 s;
       let s = T_TCPH_HDRLEN_SET h 5 s;
       let s = store16 (tcph_chksum h) 0 s;
       c \<leftarrow> t_inet_chksum_pseudo p (tp_local_ip (tcp_pcb s pcb)) (tp_remote_ip (tcp_pcb s pcb))
         T_IP_PROTO_TCP (pb_tot_len (pbuf s p)) s;
       let s = store16 (tcph_chksum h) c s;
       (_, s) \<leftarrow> t_ip_output n p (Some (tp_local_ip (tcp_pcb s pcb))) (Val (tp_remote_ip (tcp_pcb s pcb)))
         (tp_ttl (tcp_pcb s pcb)) (tp_tos (tcp_pcb s pcb)) T_IP_PROTO_TCP s;
       (_, s) \<leftarrow> t_pbuf_free p s;
       Some (0, s)
     }
   }"

definition t_tcp_output :: "ptr \<Rightarrow> 'a tcp_st_scheme \<Rightarrow> (int \<times> 'a tcp_st_scheme) option" where
  "t_tcp_output pcb s = do {
     defined (pcb \<noteq> NULL);
     let wnd = min (tp_snd_wnd (tcp_pcb s pcb)) (ucast (tp_cwnd (tcp_pcb s pcb)));
     let seg = tp_unsent (tcp_pcb s pcb);
     useg \<leftarrow> (if tp_unacked (tcp_pcb s pcb) \<noteq> NULL
               then last_from (sg_link s) (tp_unacked (tcp_pcb s pcb)) else Some NULL);
     if tp_flags (tcp_pcb s pcb) AND TF_ACK_NOW \<noteq> 0 \<and> (seg = NULL \<or> wnd < seg_end seg pcb s)
     then send_empty_ack pcb s
     else do {
       s \<leftarrow> output_loop wnd seg useg pcb s;
       Some (0, s)
     }
   }"

definition tcp_keepalive :: "ptr \<Rightarrow> 'a tcp_st_scheme \<Rightarrow> 'a tcp_st_scheme option" where
  "tcp_keepalive pcb s = do {
     (p, s) \<leftarrow> t_pbuf_alloc T_PBUF_IP (of_nat T_TCP_HLEN) T_PBUF_FLAG_POOL s;
     if p = NULL then Some s
     else do {
       defined (pcb \<noteq> NULL);
       let h = pb_payload (pbuf s p);
       defined (accessible h 20);
       let s = tcp_ports h (tcp_pcb s pcb) s;
       let s = store32 (tcph_seqno h) (htonl (tp_snd_nxt (tcp_pcb s pcb) - 1)) s;
       let s = store32 (tcph_ackno h) (htonl (tp_rcv_nxt (tcp_pcb s pcb))) s;
       let s = store16 (tcph_wnd h) (htons (tp_rcv_wnd (tcp_pcb s pcb))) s;
       let s = store16 (tcph_urgp h) 0 s;
       let s = T_TCPH_HDRLEN_SET h 5 s;
       let s = store16 (tcph_chksum h) 0 s;
       c \<leftarrow> t_inet_chksum_pseudo p (tp_local_ip (tcp_pcb s pcb)) (tp_remote_ip (tcp_pcb s pcb))
         T_IP_PROTO_TCP (pb_tot_len (pbuf s p)) s;
       let s = store16 (tcph_chksum h) c s;
       (_, s) \<leftarrow> t_ip_output NULL p (Some (tp_local_ip (tcp_pcb s pcb))) (Val (tp_remote_ip (tcp_pcb s pcb)))
         (tp_ttl (tcp_pcb s pcb)) 0 T_IP_PROTO_TCP s;
       (_, s) \<leftarrow> t_pbuf_free p s;
       Some s
     }
   }"

section \<open>Opening a connection\<close>

definition t_tcp_connect ::
    "ptr \<Rightarrow> u32 \<Rightarrow> u16 \<Rightarrow> tcp_connected_fn \<Rightarrow> 'a tcp_st_scheme \<Rightarrow> (int \<times> 'a tcp_st_scheme) option" where
  "t_tcp_connect pcb ipaddr port connected s = do {
     defined (pcb \<noteq> NULL);
     let s = upd_tcp pcb (\<lambda>b. b\<lparr>tp_remote_ip := ipaddr\<rparr>) s;
     let s = upd_tcp pcb (\<lambda>b. b\<lparr>tp_remote_port := port\<rparr>) s;
     let s = (if tp_local_port (tcp_pcb s pcb) = 0 then
                let (lport, s) = t_tcp_new_port s
                in upd_tcp pcb (\<lambda>b. b\<lparr>tp_local_port := lport\<rparr>) s
              else s);
     let (iss, s) = t_tcp_next_iss s;
     let s = upd_tcp pcb (\<lambda>b. b\<lparr>tp_rcv_nxt := 0, tp_snd_nxt := iss, tp_lastack := iss - 1,
       tp_snd_lbb := iss - 1, tp_rcv_wnd := T_TCP_WND, tp_snd_wnd := ucast T_TCP_WND, tp_mss := T_TCP_MSS,
       tp_cwnd := 1, tp_ssthresh := T_TCP_MSS * 10, tp_state := SYN_SENT, tp_connected := connected\<rparr>) s;
     let s = T_TCP_REG pcb s;
     let mss = ucast (tp_mss (tcp_pcb s pcb));
     let optdata = htonl (push_bit 24 2 OR push_bit 16 4 OR push_bit 8 (mss div 256) OR (mss AND 255));
     (ret, s) \<leftarrow> t_tcp_enqueue pcb NULL 0 TCP_SYN 0 (Some (raw32 optdata)) 4 s;
     if ret = 0 then do {
       (_, s) \<leftarrow> t_tcp_output pcb s;
       Some (ret, s)
     } else Some (ret, s)
   }"

end
