(* ===== verification/Tcp_Send.thy ===== *)
theory Tcp_Send
  imports Tcp_Out
begin

text \<open>
  What the sending half of TCP puts on the wire: the common last steps of all senders (checksum with
  pseudo header, IP output), segments, acknowledgements and keepalive probes.
\<close>

lemma tcp_set_frame [simp]:
  "tcp_pcb (T_TCPH_HDRLEN_SET h n s) = tcp_pcb s" "tcp_pcb (T_TCPH_FLAGS_SET h f s) = tcp_pcb s"
  "tcp_pcb (T_TCPH_SET_FLAG h f s) = tcp_pcb s" "tcp_pcb (tcp_ports h b s) = tcp_pcb s"
  "tcp_seg (T_TCPH_HDRLEN_SET h n s) = tcp_seg s" "tcp_seg (T_TCPH_FLAGS_SET h f s) = tcp_seg s"
  "tcp_seg (T_TCPH_SET_FLAG h f s) = tcp_seg s" "tcp_seg (tcp_ports h b s) = tcp_seg s"
  "pbuf (T_TCPH_HDRLEN_SET h n t) = pbuf t" "pbuf (T_TCPH_FLAGS_SET h f t) = pbuf t"
  "pbuf (T_TCPH_SET_FLAG h f t) = pbuf t" "pbuf (tcp_ports h b t) = pbuf t"
  by (simp_all add: T_TCPH_HDRLEN_SET_def T_TCPH_FLAGS_SET_def T_TCPH_SET_FLAG_def tcp_ports_def)

section \<open>The header on the wire\<close>

definition be32 :: "u32 \<Rightarrow> u8 list" where
  "be32 v = raw32 (htonl v)"

text \<open>\<open>hlf\<close> is the field with length and flags; the checksum is in the byte order of the memory.\<close>

definition tcp_header :: "u16 \<Rightarrow> u16 \<Rightarrow> u32 \<Rightarrow> u32 \<Rightarrow> u16 \<Rightarrow> u16 \<Rightarrow> u16 \<Rightarrow> u8 list" where
  "tcp_header src dst seq ack hlf wnd c = be16 src @ be16 dst @ be32 seq @ be32 ack @ be16 hlf @ be16 wnd @
     [byte_of 0 c, byte_of 1 c] @ [0, 0]"

text \<open>What a receiver checks: header, data and pseudo header sum up.\<close>

definition tcp_sum_ok :: "u32 \<Rightarrow> u32 \<Rightarrow> u8 list \<Rightarrow> bool" where
  "tcp_sum_ok src dst msg \<longleftrightarrow>
     chksum_of (bsum True msg + pseudo_sum src dst T_IP_PROTO_TCP (of_nat (length msg))) = 0"

lemma length_be32 [simp]: "length (be32 v) = 4"
  by (simp add: be32_def)

lemma length_tcp_header [simp]: "length (tcp_header src dst seq ack hlf wnd c) = 20"
  by (simp add: tcp_header_def)

lemma tcp_header_parts:
  "load_bytes h (20 + m) s = load_bytes h 2 s @ load_bytes (h + 2) 2 s @ load_bytes (h + 4) 4 s @
     load_bytes (h + 8) 4 s @ load_bytes (h + 12) 2 s @ load_bytes (h + 14) 2 s @ load_bytes (h + 16) 2 s @
     load_bytes (h + 18) 2 s @ load_bytes (h + 20) m s"
  using load_bytes_parts [of h "[2, 2, 4, 4, 2, 2, 2, 2, m]" s]
  by (simp add: add.assoc del: add_2_eq_Suc add_2_eq_Suc')

text \<open>The fields of the header at \<open>h\<close>, as the host sees them.\<close>

definition tcp_fields :: "ptr \<Rightarrow> 'a mem_st_scheme \<Rightarrow> u16 \<times> u16 \<times> u32 \<times> u32 \<times> u16 \<times> u16 \<times> u16 \<times> u16" where
  "tcp_fields h s = (ntohs (load16 h s), ntohs (load16 (h + 2) s), ntohl (load32 (h + 4) s), ntohl (load32 (h + 8) s),
     ntohs (load16 (h + 12) s), ntohs (load16 (h + 14) s), load16 (h + 16) s, load16 (h + 18) s)"

lemma load_be16: "load_bytes a 2 s = be16 (ntohs (load16 a s))"
  unfolding load_bytes_16 be16_def swap16.same_swap by simp

lemma load_be32: "load_bytes a 4 s = be32 (ntohl (load32 a s))"
  unfolding load_bytes_32 be32_def by simp

lemma tcp_message:
  assumes "tcp_fields h s = (sp, dp, seq, ack, hlf, wnd, c, 0)"
  shows "load_bytes h (20 + m) s = tcp_header sp dp seq ack hlf wnd c @ load_bytes (h + 20) m s"
proof -
  have "ntohs (load16 h s) = sp" "ntohs (load16 (h + 2) s) = dp" "ntohl (load32 (h + 4) s) = seq"
    "ntohl (load32 (h + 8) s) = ack" "ntohs (load16 (h + 12) s) = hlf" "ntohs (load16 (h + 14) s) = wnd"
    "load16 (h + 16) s = c" "load16 (h + 18) s = 0"
    using assms by (simp_all add: tcp_fields_def)
  moreover have "byte_of 0 (0 :: u16) = 0" "byte_of 1 (0 :: u16) = 0" by (simp_all add: byte_of_def)
  ultimately show ?thesis
    unfolding tcp_header_parts tcp_header_def
    by (simp only: load_be16 [of h] load_be16 [of "h + 2"] load_be16 [of "h + 12"] load_be16 [of "h + 14"]
        load_be32 load_bytes_16 [of "h + 16"] load_bytes_16 [of "h + 18"] append.assoc append.simps)
qed

lemma hlf_flags: "push_bit 12 n OR ((x AND NOT TCP_FLAGS OR f) AND TCP_FLAGS) = push_bit 12 n OR (f AND TCP_FLAGS)"
  by (rule bit_word_eqI) (auto simp: bit_simps)

text \<open>The header of an acknowledgement as \<open>send_empty_ack\<close> builds it: its stores determine every field.\<close>

definition ack_stores :: "ptr \<Rightarrow> t_tcp_pcb \<Rightarrow> 'a tcp_st_scheme \<Rightarrow> 'a tcp_st_scheme" where
  "ack_stores h b s = store16 (h + 16) 0 (T_TCPH_HDRLEN_SET h 5 (store16 (h + 18) 0
     (store16 (h + 14) (htons (tp_rcv_wnd b)) (T_TCPH_FLAGS_SET h TCP_ACK (store32 (h + 8) (htonl (tp_rcv_nxt b))
     (store32 (h + 4) (htonl (tp_snd_nxt b)) (tcp_ports h b s)))))))"

lemma ack_stores_fields:
  "tcp_fields h (ack_stores h b s) = (tp_local_port b, tp_remote_port b, tp_snd_nxt b, tp_rcv_nxt b, 0x5010,
     tp_rcv_wnd b, 0, 0)"
proof -
  have "push_bit 12 5 OR ((x AND NOT TCP_FLAGS OR ucast TCP_ACK) AND TCP_FLAGS) = (0x5010 :: u16)" for x
    unfolding hlf_flags by (simp add: TCP_ACK_def TCP_FLAGS_def)
  then show ?thesis
    by (simp add: ack_stores_def tcp_fields_def tcp_ports_def T_TCPH_FLAGS_SET_def T_TCPH_HDRLEN_SET_def
        T_TCPH_FLAGS_def mem_simps del: add_2_eq_Suc add_2_eq_Suc')
qed

lemma ack_stores_frame: "ack_stores h b s = s\<lparr>mem := mem (ack_stores h b s)\<rparr>"
  by (simp add: ack_stores_def tcp_ports_def T_TCPH_FLAGS_SET_def T_TCPH_HDRLEN_SET_def store16_def store32_def)

lemma ip_route_frame:
  "netif t = netif s \<Longrightarrow> netif_list t = netif_list s \<Longrightarrow> netif_default t = netif_default s \<Longrightarrow>
   t_ip_route d t = t_ip_route d s"
  by (simp only: t_ip_route_def)

lemma tcp_fields_chksum:
  "tcp_fields h t = (sp, dp, seq, ack, hlf, wnd, z, u) \<Longrightarrow>
   tcp_fields h (store16 (h + 16) c t) = (sp, dp, seq, ack, hlf, wnd, c, u)"
  by (simp add: tcp_fields_def mem_simps del: add_2_eq_Suc add_2_eq_Suc')

lemma tcp_message_20:
  assumes "tcp_fields h t = (sp, dp, seq, ack, hlf, wnd, z, 0)"
  shows "load_bytes h 20 (store16 (h + 16) c t) = tcp_header sp dp seq ack hlf wnd c"
  using tcp_message [OF tcp_fields_chksum [OF assms], of 0 c] by (simp add: load_bytes_def)

section \<open>The last steps of every sender\<close>

lemma tcp_checked_send:
  assumes room: "ip_room t p" and up: "netif_up t n" and via: "ip_via inp (Val rip) t n"
    and h: "h = pb_payload (pbuf t p)" and len: "20 \<le> unat (pb_len (pbuf t p))"
    and single: "pb_next (pbuf t p) = NULL" and zero: "load16 (h + 16) t = 0"
  shows "\<exists>s' frame c. t_inet_chksum_pseudo p lip rip T_IP_PROTO_TCP (pb_tot_len (pbuf t p)) t = Some c \<and>
    t_ip_output inp p (Some lip) (Val rip) ttl tos T_IP_PROTO_TCP (store16 (h + 16) c t) = Some (0, s') \<and>
    s' = t\<lparr>mem := mem s', pbuf := (pbuf t)(p := (pbuf t p)\<lparr>pb_payload := h - 34,
        pb_tot_len := pb_len (pbuf t p) + 34, pb_len := pb_len (pbuf t p) + 34\<rparr>),
      sent := sent t @ [frame]\<rparr> \<and>
    (\<forall>a. a < h - 34 \<or> h \<le> a \<longrightarrow> mem s' a = mem (store16 (h + 16) c t) a) \<and>
    ip_parse frame = Some (lip, rip, ttl, tos, T_IP_PROTO_TCP,
      load_bytes h (unat (pb_len (pbuf t p))) (store16 (h + 16) c t)) \<and>
    tcp_sum_ok lip rip (load_bytes h (unat (pb_len (pbuf t p))) (store16 (h + 16) c t))"
proof -
  let ?n = "unat (pb_len (pbuf t p))"
  note R = ip_roomD [OF room, folded h]
  have acc: "accessible h ?n" using R(2,5,6) by (intro accessible_in_slot [of p]) (auto simp: sizeof_t_pbuf_def pbuf_slot_eq)
  have p: "p \<noteq> NULL" using R(4) by simp
  have "16 + 2 \<le> ?n" using len by simp
  from inet_pseudo_verifies [OF p single h refl acc _ this zero, of lip rip T_IP_PROTO_TCP "pb_tot_len (pbuf t p)"]
  obtain c where c: "t_inet_chksum_pseudo p lip rip T_IP_PROTO_TCP (pb_tot_len (pbuf t p)) t = Some c"
    "c = chksum_of (bsum True (load_bytes h ?n t) + pseudo_sum lip rip T_IP_PROTO_TCP (pb_tot_len (pbuf t p)))"
    by auto
  define u where "u = store16 (h + 16) c t"
  have u: "u = t\<lparr>mem := mem u\<rparr>" by (simp add: u_def store16_def)
  have same: "pbuf u = pbuf t" "sent u = sent t" "netif u = netif t" by (subst u, simp)+
  have room': "ip_room u p" using room by (simp add: ip_room_def pbuf_wf_def same)
  have up': "netif_up u n" using up by (simp add: netif_up_def same)
  have route: "t_ip_route d u = t_ip_route d t" for d by (rule ip_route_frame; subst u; simp)
  have via': "ip_via inp (Val rip) u n" using via by (auto simp: ip_via_def route)
  have "dst_reads (Val rip) (pb_payload (pbuf u p) - 20) ttl T_IP_PROTO_TCP rip u" by simp
  from ip_output_parsed [OF room' up' via' refl this, of "Some lip" tos] obtain s' frame where out:
    "t_ip_output inp p (Some lip) (Val rip) ttl tos T_IP_PROTO_TCP u = Some (0, s')"
    "s' = u\<lparr>mem := mem s', pbuf := (pbuf u)(p := (pbuf u p)\<lparr>pb_payload := pb_payload (pbuf u p) - 34,
        pb_tot_len := pb_len (pbuf u p) + 34, pb_len := pb_len (pbuf u p) + 34\<rparr>),
      sent := sent u @ [frame]\<rparr>"
    "\<forall>a. a < pb_payload (pbuf u p) - 34 \<or> pb_payload (pbuf u p) \<le> a \<longrightarrow> mem s' a = mem u a"
    "ip_parse frame = Some (ip_source (Some lip) n u, rip, ttl, tos, T_IP_PROTO_TCP,
      load_bytes (pb_payload (pbuf u p)) (unat (pb_len (pbuf u p))) u)" by blast
  have "s' = t\<lparr>mem := mem s', pbuf := (pbuf t)(p := (pbuf t p)\<lparr>pb_payload := h - 34,
        pb_tot_len := pb_len (pbuf t p) + 34, pb_len := pb_len (pbuf t p) + 34\<rparr>), sent := sent t @ [frame]\<rparr>"
    by (subst out(2), subst (1) u) (simp add: same h)
  moreover have "tcp_sum_ok lip rip (load_bytes h ?n u)"
  proof -
    have "of_nat ?n = pb_tot_len (pbuf t p)" using R(7) by simp
    moreover have "bsum True (load_bytes h ?n u) = bsum True (load_bytes h ?n t) + unat c"
      unfolding u_def using len zero by (intro bsum_store16) simp_all
    ultimately show ?thesis unfolding tcp_sum_ok_def length_load_bytes
      using chksum_of_closes [of "bsum True (load_bytes h ?n t) + pseudo_sum lip rip T_IP_PROTO_TCP (pb_tot_len (pbuf t p))"]
      by (simp add: c(2) algebra_simps)
  qed
  ultimately show ?thesis using out(1,3,4) c(1) unfolding u_def [symmetric]
    by (intro exI [of _ s'] exI [of _ frame] exI [of _ c])
      (simp only: same ip_source_def option.case u_def [symmetric] h [symmetric])
qed

section \<open>Acknowledgements and probes\<close>

text \<open>A fresh buffer with room for the IP header and a TCP header without data.\<close>

lemma empty_segment_buffer:
  assumes av: "pbuf_avail s (x # xs)"
  shows "\<exists>b1. t_pbuf_alloc T_PBUF_IP (of_nat T_TCP_HLEN) T_PBUF_FLAG_POOL s =
      Some (x, s\<lparr>pbuf_pool := pb_next (pbuf s x), pbuf := (pbuf s)(x := b1)\<rparr>) \<and>
    pbuf_avail (s\<lparr>pbuf_pool := pb_next (pbuf s x), pbuf := (pbuf s)(x := b1)\<rparr>) xs \<and>
    pb_payload b1 = x + 66 \<and> pb_tot_len b1 = 20 \<and> pb_len b1 = 20 \<and> pb_next b1 = NULL \<and> pb_ref b1 = 1 \<and>
    pb_flags b1 = T_PBUF_FLAG_POOL"
proof -
  have adm: "alloc_admissible (T_PBUF_IP, of_nat T_TCP_HLEN, T_PBUF_FLAG_POOL)"
    by (simp add: alloc_admissible_def T_PBUF_IP_def T_TCP_HLEN_def T_PBUF_BUFSIZE_def)
  let ?b = "(pbuf s x)\<lparr>pb_next := NULL, pb_ref := 1, pb_payload := x + sizeof_t_pbuf + unat T_PBUF_IP,
      pb_tot_len := of_nat T_TCP_HLEN, pb_len := of_nat T_TCP_HLEN\<rparr>"
  show ?thesis
    using pbuf_alloc_next [OF adm av] pbuf_avail_head(4) [OF av]
    by (intro exI [of _ ?b]) (simp add: sizeof_t_pbuf_def T_PBUF_IP_def T_TCP_HLEN_def)
qed

text \<open>Writing a header without data into the buffer, sending it, and giving the buffer back.\<close>

lemma empty_segment_sent:
  assumes av: "pbuf_avail s (x # xs)" and x: "x \<in> set pbuf_slots" "x \<notin> set xs"
    and s1: "pbuf_avail s1 xs" "pbuf s1 = (pbuf s)(x := b1)"
    and b1: "pb_payload b1 = h" "pb_tot_len b1 = 20" "pb_len b1 = 20" "pb_next b1 = NULL" "pb_ref b1 = 1"
      "pb_flags b1 = T_PBUF_FLAG_POOL" and h: "h = x + 66"
    and t: "t = s1\<lparr>mem := mem t\<rparr>" and zero: "load16 (h + 16) t = 0"
    and up: "netif_up t n" and via: "ip_via inp (Val rip) t n"
  shows "\<exists>c u s' k frame. t_inet_chksum_pseudo x lip rip T_IP_PROTO_TCP (pb_tot_len (pbuf t x)) t = Some c \<and>
    t_ip_output inp x (Some lip) (Val rip) ttl tos T_IP_PROTO_TCP (store16 (h + 16) c t) = Some (0, u) \<and>
    t_pbuf_free x u = Some (k, s') \<and> pbuf_avail s' (x # xs) \<and>
    s' = s1\<lparr>mem := mem s', pbuf := pbuf s', pbuf_pool := pbuf_pool s', sent := sent s1 @ [frame]\<rparr> \<and>
    ip_parse frame = Some (lip, rip, ttl, tos, T_IP_PROTO_TCP, load_bytes h 20 (store16 (h + 16) c t)) \<and>
    tcp_sum_ok lip rip (load_bytes h 20 (store16 (h + 16) c t))"
proof -
  have same: "pbuf t = (pbuf s)(x := b1)" "sent t = sent s1" "pbuf_pool t = pbuf_pool s1"
    by (subst t, simp add: s1)+
  have room: "ip_room t x"
    using x(1) b1 h by (simp add: ip_room_def pbuf_wf_def same sizeof_t_pbuf_def pbuf_slot_eq)
  have "h = pb_payload (pbuf t x)" "20 \<le> unat (pb_len (pbuf t x))" "pb_next (pbuf t x) = NULL"
    using b1 by (simp_all add: same)
  from tcp_checked_send [OF room up via this zero, of lip ttl tos] obtain u frame c where out:
    "t_inet_chksum_pseudo x lip rip T_IP_PROTO_TCP (pb_tot_len (pbuf t x)) t = Some c"
    "t_ip_output inp x (Some lip) (Val rip) ttl tos T_IP_PROTO_TCP (store16 (h + 16) c t) = Some (0, u)"
    "u = t\<lparr>mem := mem u, pbuf := (pbuf t)(x := (pbuf t x)\<lparr>pb_payload := h - 34,
        pb_tot_len := pb_len (pbuf t x) + 34, pb_len := pb_len (pbuf t x) + 34\<rparr>), sent := sent t @ [frame]\<rparr>"
    "ip_parse frame = Some (lip, rip, ttl, tos, T_IP_PROTO_TCP,
      load_bytes h (unat (pb_len (pbuf t x))) (store16 (h + 16) c t))"
    "tcp_sum_ok lip rip (load_bytes h (unat (pb_len (pbuf t x))) (store16 (h + 16) c t))" by blast
  define b2 where "b2 = b1\<lparr>pb_payload := h - 34, pb_tot_len := pb_len b1 + 34, pb_len := pb_len b1 + 34\<rparr>"
  have u: "u = s1\<lparr>mem := mem u, pbuf := (pbuf s)(x := b2), sent := sent s1 @ [frame]\<rparr>"
    by (subst out(3), subst (1) t) (simp add: same b2_def)
  have same': "pbuf_pool u = pbuf_pool s1" "pbuf u = (pbuf s)(x := b2)" by (subst u, simp)+
  have "pb_flags b2 = T_PBUF_FLAG_POOL" "pb_ref b2 = 1" "pb_next b2 = NULL" using b1 by (simp_all add: b2_def)
  moreover have "pbuf u y = pbuf s1 y" if "y \<in> set xs" for y using that x(2) by (auto simp: same' s1(2))
  ultimately obtain k s' where fr: "t_pbuf_free x u = Some (k, s')" "pbuf_avail s' (x # xs)"
    "s' = u\<lparr>pbuf := pbuf s', pbuf_pool := pbuf_pool s'\<rparr>"
    using pbuf_returned [OF s1(1) x, of b2 u] same' by auto
  have "s' = s1\<lparr>mem := mem s', pbuf := pbuf s', pbuf_pool := pbuf_pool s', sent := sent s1 @ [frame]\<rparr>"
  proof -
    have "mem s' = mem u" by (subst fr(3)) simp
    moreover have "u\<lparr>pbuf := F, pbuf_pool := P\<rparr> = s1\<lparr>mem := mem u, pbuf := F, pbuf_pool := P, sent := sent s1 @ [frame]\<rparr>"
      for F P by (subst u) simp
    ultimately show ?thesis using fr(3) by metis
  qed
  moreover have "unat (pb_len (pbuf t x)) = 20" using b1 by (simp add: same)
  ultimately show ?thesis using out(1,2,4,5) fr(1,2) by metis
qed

lemma send_empty_ack_result:
  assumes pcb: "b = tcp_pcb s pcb" and av: "pbuf_avail s (x # xs)"
    and route: "t_ip_route (tp_local_ip b) s = Some m" and via: "ip_via m (Val (tp_remote_ip b)) s n" and up: "netif_up s n"
  shows "\<exists>s' frame c. send_empty_ack pcb s = Some (0, s') \<and> pbuf_avail s' (x # xs) \<and>
    s' = s\<lparr>mem := mem s', pbuf := pbuf s', pbuf_pool := pbuf_pool s', sent := sent s @ [frame],
      tcp_pcb := (tcp_pcb s)(pcb := b\<lparr>tp_flags := tp_flags b AND NOT (TF_ACK_DELAY OR TF_ACK_NOW)\<rparr>)\<rparr> \<and>
    ip_parse frame = Some (tp_local_ip b, tp_remote_ip b, tp_ttl b, tp_tos b, T_IP_PROTO_TCP,
      tcp_header (tp_local_port b) (tp_remote_port b) (tp_snd_nxt b) (tp_rcv_nxt b) 0x5010 (tp_rcv_wnd b) c) \<and>
    tcp_sum_ok (tp_local_ip b) (tp_remote_ip b)
      (tcp_header (tp_local_port b) (tp_remote_port b) (tp_snd_nxt b) (tp_rcv_nxt b) 0x5010 (tp_rcv_wnd b) c)"
proof -
  note x = pbuf_avail_head [OF av]
  from empty_segment_buffer [OF av] obtain b1 where a:
    "t_pbuf_alloc T_PBUF_IP (of_nat T_TCP_HLEN) T_PBUF_FLAG_POOL s =
      Some (x, s\<lparr>pbuf_pool := pb_next (pbuf s x), pbuf := (pbuf s)(x := b1)\<rparr>)"
    "pbuf_avail (s\<lparr>pbuf_pool := pb_next (pbuf s x), pbuf := (pbuf s)(x := b1)\<rparr>) xs"
    "pb_payload b1 = x + 66" "pb_tot_len b1 = 20" "pb_len b1 = 20" "pb_next b1 = NULL" "pb_ref b1 = 1"
    "pb_flags b1 = T_PBUF_FLAG_POOL" by blast
  define h where "h = x + 66"
  define b' where "b' = b\<lparr>tp_flags := tp_flags b AND NOT (TF_ACK_DELAY OR TF_ACK_NOW)\<rparr>"
  define s1 where "s1 = s\<lparr>pbuf_pool := pb_next (pbuf s x), pbuf := (pbuf s)(x := b1), tcp_pcb := (tcp_pcb s)(pcb := b')\<rparr>"
  define t where "t = ack_stores h b' s1"
  have t: "t = s1\<lparr>mem := mem t\<rparr>" unfolding t_def by (rule ack_stores_frame)
  have s1: "pbuf_avail s1 xs" "pbuf s1 = (pbuf s)(x := b1)"
    using a(2) by (simp_all add: s1_def pbuf_avail_def)
  have same: "netif t = netif s" "netif_list t = netif_list s" "netif_default t = netif_default s"
    "tcp_pcb t = (tcp_pcb s)(pcb := b')" "pbuf t = (pbuf s)(x := b1)"
    by (subst t, simp add: s1_def)+
  have flds: "tcp_fields h t = (tp_local_port b, tp_remote_port b, tp_snd_nxt b, tp_rcv_nxt b, 0x5010, tp_rcv_wnd b, 0, 0)"
    unfolding t_def ack_stores_fields by (simp add: b'_def)
  then have zero: "load16 (h + 16) t = 0" by (simp add: tcp_fields_def)
  have up': "netif_up t n" using up by (simp add: netif_up_def same)
  have via': "ip_via m (Val (tp_remote_ip b)) t n"
    using via ip_route_frame [OF same(1-3)] by (auto simp: ip_via_def)
  from empty_segment_sent [OF av x(1,2) s1 a(3) [folded h_def] a(4-8) h_def t zero up' via',
      of "tp_local_ip b" "tp_ttl b" "tp_tos b"]
  obtain c u s' k frame where out:
    "t_inet_chksum_pseudo x (tp_local_ip b) (tp_remote_ip b) T_IP_PROTO_TCP (pb_tot_len (pbuf t x)) t = Some c"
    "t_ip_output m x (Some (tp_local_ip b)) (Val (tp_remote_ip b)) (tp_ttl b) (tp_tos b) T_IP_PROTO_TCP
      (store16 (h + 16) c t) = Some (0, u)"
    "t_pbuf_free x u = Some (k, s')" "pbuf_avail s' (x # xs)"
    "s' = s1\<lparr>mem := mem s', pbuf := pbuf s', pbuf_pool := pbuf_pool s', sent := sent s1 @ [frame]\<rparr>"
    "ip_parse frame = Some (tp_local_ip b, tp_remote_ip b, tp_ttl b, tp_tos b, T_IP_PROTO_TCP,
      load_bytes h 20 (store16 (h + 16) c t))"
    "tcp_sum_ok (tp_local_ip b) (tp_remote_ip b) (load_bytes h 20 (store16 (h + 16) c t))" by blast
  have "accessible h 20" using x(1) h_def
    by (intro accessible_in_slot [of x]) (auto simp: sizeof_t_pbuf_def pbuf_slot_eq)
  then have "send_empty_ack pcb s = do {
      c \<leftarrow> t_inet_chksum_pseudo x (tp_local_ip (tcp_pcb t pcb)) (tp_remote_ip (tcp_pcb t pcb))
         T_IP_PROTO_TCP (pb_tot_len (pbuf t x)) t;
      let s = store16 (tcph_chksum h) c t;
      (_, s) \<leftarrow> t_ip_output m x (Some (tp_local_ip (tcp_pcb s pcb))) (Val (tp_remote_ip (tcp_pcb s pcb)))
         (tp_ttl (tcp_pcb s pcb)) (tp_tos (tcp_pcb s pcb)) T_IP_PROTO_TCP s;
      (_, s) \<leftarrow> t_pbuf_free x s;
      Some (0, s) }"
    unfolding send_empty_ack_def route [unfolded pcb] a(1) t_def ack_stores_def Let_def
    using x(3) by (simp add: s1_def b'_def pcb a(3) h_def)
  also have "\<dots> = Some (0, s')"
    using out(1-3) by (simp add: same b'_def)
  finally have run: "send_empty_ack pcb s = Some (0, s')" .
  have "s' = s\<lparr>mem := mem s', pbuf := pbuf s', pbuf_pool := pbuf_pool s', sent := sent s @ [frame],
      tcp_pcb := (tcp_pcb s)(pcb := b')\<rparr>" by (subst out(5)) (simp add: s1_def)
  moreover have "load_bytes h 20 (store16 (h + 16) c t) =
      tcp_header (tp_local_port b) (tp_remote_port b) (tp_snd_nxt b) (tp_rcv_nxt b) 0x5010 (tp_rcv_wnd b) c"
    by (rule tcp_message_20 [OF flds])
  ultimately show ?thesis using run out(4,6,7) unfolding b'_def by metis
qed

text \<open>The header of a keepalive probe: its flags are those that the buffer happens to contain.\<close>

definition probe_stores :: "ptr \<Rightarrow> t_tcp_pcb \<Rightarrow> 'a tcp_st_scheme \<Rightarrow> 'a tcp_st_scheme" where
  "probe_stores h b s = store16 (h + 16) 0 (T_TCPH_HDRLEN_SET h 5 (store16 (h + 18) 0
     (store16 (h + 14) (htons (tp_rcv_wnd b)) (store32 (h + 8) (htonl (tp_rcv_nxt b))
     (store32 (h + 4) (htonl (tp_snd_nxt b - 1)) (tcp_ports h b s))))))"

lemma probe_stores_fields:
  "tcp_fields h (probe_stores h b s) = (tp_local_port b, tp_remote_port b, tp_snd_nxt b - 1, tp_rcv_nxt b,
     push_bit 12 5 OR T_TCPH_FLAGS h s, tp_rcv_wnd b, 0, 0)"
  by (simp add: probe_stores_def tcp_fields_def tcp_ports_def T_TCPH_HDRLEN_SET_def
        T_TCPH_FLAGS_def mem_simps del: add_2_eq_Suc add_2_eq_Suc')

lemma probe_stores_frame: "probe_stores h b s = s\<lparr>mem := mem (probe_stores h b s)\<rparr>"
  by (simp add: probe_stores_def tcp_ports_def T_TCPH_HDRLEN_SET_def store16_def store32_def)

lemma tcp_keepalive_result:
  assumes pcb: "b = tcp_pcb s pcb" "pcb \<noteq> NULL" and av: "pbuf_avail s (x # xs)"
    and via: "ip_via NULL (Val (tp_remote_ip b)) s n" and up: "netif_up s n"
  shows "\<exists>s' frame c. tcp_keepalive pcb s = Some s' \<and> pbuf_avail s' (x # xs) \<and>
    s' = s\<lparr>mem := mem s', pbuf := pbuf s', pbuf_pool := pbuf_pool s', sent := sent s @ [frame]\<rparr> \<and>
    ip_parse frame = Some (tp_local_ip b, tp_remote_ip b, tp_ttl b, 0, T_IP_PROTO_TCP,
      tcp_header (tp_local_port b) (tp_remote_port b) (tp_snd_nxt b - 1) (tp_rcv_nxt b)
        (push_bit 12 5 OR T_TCPH_FLAGS (x + 66) s) (tp_rcv_wnd b) c)"
proof -
  note x = pbuf_avail_head [OF av]
  from empty_segment_buffer [OF av] obtain b1 where a:
    "t_pbuf_alloc T_PBUF_IP (of_nat T_TCP_HLEN) T_PBUF_FLAG_POOL s =
      Some (x, s\<lparr>pbuf_pool := pb_next (pbuf s x), pbuf := (pbuf s)(x := b1)\<rparr>)"
    "pbuf_avail (s\<lparr>pbuf_pool := pb_next (pbuf s x), pbuf := (pbuf s)(x := b1)\<rparr>) xs"
    "pb_payload b1 = x + 66" "pb_tot_len b1 = 20" "pb_len b1 = 20" "pb_next b1 = NULL" "pb_ref b1 = 1"
    "pb_flags b1 = T_PBUF_FLAG_POOL" by blast
  define h where "h = x + 66"
  define s1 where "s1 = s\<lparr>pbuf_pool := pb_next (pbuf s x), pbuf := (pbuf s)(x := b1)\<rparr>"
  define t where "t = probe_stores h b s1"
  have t: "t = s1\<lparr>mem := mem t\<rparr>" unfolding t_def by (rule probe_stores_frame)
  have s1: "pbuf_avail s1 xs" "pbuf s1 = (pbuf s)(x := b1)" using a(2) by (simp_all add: s1_def)
  have same: "netif t = netif s" "netif_list t = netif_list s" "netif_default t = netif_default s"
    "tcp_pcb t = tcp_pcb s" "pbuf t = (pbuf s)(x := b1)"
    by (subst t, simp add: s1_def)+
  have flds: "tcp_fields h t = (tp_local_port b, tp_remote_port b, tp_snd_nxt b - 1, tp_rcv_nxt b,
      push_bit 12 5 OR T_TCPH_FLAGS h s1, tp_rcv_wnd b, 0, 0)"
    unfolding t_def by (rule probe_stores_fields)
  then have zero: "load16 (h + 16) t = 0" by (simp add: tcp_fields_def)
  have up': "netif_up t n" using up by (simp add: netif_up_def same)
  have via': "ip_via NULL (Val (tp_remote_ip b)) t n"
    using via ip_route_frame [OF same(1-3)] by (auto simp: ip_via_def)
  from empty_segment_sent [OF av x(1,2) s1 a(3) [folded h_def] a(4-8) h_def t zero up' via',
      of "tp_local_ip b" "tp_ttl b" 0]
  obtain c u s' k frame where out:
    "t_inet_chksum_pseudo x (tp_local_ip b) (tp_remote_ip b) T_IP_PROTO_TCP (pb_tot_len (pbuf t x)) t = Some c"
    "t_ip_output NULL x (Some (tp_local_ip b)) (Val (tp_remote_ip b)) (tp_ttl b) 0 T_IP_PROTO_TCP
      (store16 (h + 16) c t) = Some (0, u)"
    "t_pbuf_free x u = Some (k, s')" "pbuf_avail s' (x # xs)"
    "s' = s1\<lparr>mem := mem s', pbuf := pbuf s', pbuf_pool := pbuf_pool s', sent := sent s1 @ [frame]\<rparr>"
    "ip_parse frame = Some (tp_local_ip b, tp_remote_ip b, tp_ttl b, 0, T_IP_PROTO_TCP,
      load_bytes h 20 (store16 (h + 16) c t))" by blast
  have "accessible h 20" using x(1) h_def
    by (intro accessible_in_slot [of x]) (auto simp: sizeof_t_pbuf_def pbuf_slot_eq)
  then have "tcp_keepalive pcb s = do {
      c \<leftarrow> t_inet_chksum_pseudo x (tp_local_ip (tcp_pcb t pcb)) (tp_remote_ip (tcp_pcb t pcb))
         T_IP_PROTO_TCP (pb_tot_len (pbuf t x)) t;
      let s = store16 (tcph_chksum h) c t;
      (_, s) \<leftarrow> t_ip_output NULL x (Some (tp_local_ip (tcp_pcb s pcb))) (Val (tp_remote_ip (tcp_pcb s pcb)))
         (tp_ttl (tcp_pcb s pcb)) 0 T_IP_PROTO_TCP s;
      (_, s) \<leftarrow> t_pbuf_free x s;
      Some s }"
    unfolding tcp_keepalive_def a(1) t_def probe_stores_def Let_def
    using x(3) pcb(2) by (simp add: s1_def pcb(1) a(3) h_def)
  also have "\<dots> = Some s'" using out(1-3) by (simp add: same pcb(1))
  finally have run: "tcp_keepalive pcb s = Some s'" .
  have "s' = s\<lparr>mem := mem s', pbuf := pbuf s', pbuf_pool := pbuf_pool s', sent := sent s @ [frame]\<rparr>"
    by (subst out(5)) (simp add: s1_def)
  moreover have "T_TCPH_FLAGS h s1 = T_TCPH_FLAGS (x + 66) s"
    by (simp add: T_TCPH_FLAGS_def h_def s1_def load16_def)
  ultimately show ?thesis using run out(4,6) tcp_message_20 [OF flds, of c] by metis
qed

text \<open>C39: A keepalive probe repeats the last acknowledged sequence number with the block's addresses and
  window, and borrows one buffer; but its flags are whatever the buffer contained, for the code sets
  the header length only.\<close>

theorem tcp_keepalive_spec:
  assumes "b = tcp_pcb s pcb" and "pcb \<noteq> NULL" and "pbuf_avail s (x # xs)"
    and "ip_via NULL (Val (tp_remote_ip b)) s n" and "netif_up s n"
  shows "\<exists>s' frame c. tcp_keepalive pcb s = Some s' \<and> pbuf_avail s' (x # xs) \<and>
    sent s' = sent s @ [frame] \<and> tcp_pcb s' = tcp_pcb s \<and>
    ip_parse frame = Some (tp_local_ip b, tp_remote_ip b, tp_ttl b, 0, T_IP_PROTO_TCP,
      tcp_header (tp_local_port b) (tp_remote_port b) (tp_snd_nxt b - 1) (tp_rcv_nxt b)
        (push_bit 12 5 OR T_TCPH_FLAGS (x + 66) s) (tp_rcv_wnd b) c)"
proof -
  from tcp_keepalive_result [OF assms] obtain s' frame c where out: "tcp_keepalive pcb s = Some s'"
    "pbuf_avail s' (x # xs)"
    "s' = s\<lparr>mem := mem s', pbuf := pbuf s', pbuf_pool := pbuf_pool s', sent := sent s @ [frame]\<rparr>"
    "ip_parse frame = Some (tp_local_ip b, tp_remote_ip b, tp_ttl b, 0, T_IP_PROTO_TCP,
      tcp_header (tp_local_port b) (tp_remote_port b) (tp_snd_nxt b - 1) (tp_rcv_nxt b)
        (push_bit 12 5 OR T_TCPH_FLAGS (x + 66) s) (tp_rcv_wnd b) c)" by blast
  have "sent s' = sent s @ [frame]" "tcp_pcb s' = tcp_pcb s" by (subst out(3), simp)+
  with out(1,2,4) show ?thesis by blast
qed

lemma online_route: "t_ip_route d (online s) = Some 0x300"
  unfolding ip_route_value [OF online_facts(7) [of s]] by (simp add: online_facts(8))

lemma pbuf_slots_Cons: "pbuf_slots = pbuf_pool_memory # tl pbuf_slots"
  by (simp add: pbuf_slots_def T_PBUF_POOL_SIZE_def upt_conv_Cons del: upt_Suc)

theorem tcp_keepalive_spec_witness:
  "\<exists>s'. tcp_keepalive 0x500 (online tcp_boot) = Some s' \<and> length (sent s') = 1"
proof -
  have av: "pbuf_avail (online tcp_boot) (pbuf_pool_memory # tl pbuf_slots)"
    using online_facts(2) by (simp flip: pbuf_slots_Cons)
  have "ip_via NULL (Val d) (online tcp_boot) 0x300" for d by (simp add: ip_via_def online_route)
  from tcp_keepalive_spec [OF refl _ av this online_facts(1), of "0x500"] show ?thesis
    using online_facts(3) [of tcp_boot] by auto
qed

section \<open>What cannot be sent\<close>

lemma enqueue_refuses:
  assumes "pcb \<noteq> NULL" and "tp_snd_buf (tcp_pcb s pcb) < len \<or> 40 \<le> tp_snd_queuelen (tcp_pcb s pcb)"
  shows "t_tcp_enqueue pcb arg len flags copy opts optlen s = Some (-1, s)"
  using assms by (auto simp: t_tcp_enqueue_def T_TCP_SND_QUEUELEN_def)

text \<open>Writing on a block that is not open is an error of its own; writing nothing is no error; data
  that does not fit into the send buffer, or a full queue, is refused.  In all these cases the state is
  as before: no part of the data is queued.\<close>

theorem tcp_write_refuses:
  assumes "pcb \<noteq> NULL" and "b = tcp_pcb s pcb" and "open = (tp_state b \<in> {ESTABLISHED, CLOSE_WAIT, SYN_SENT, SYN_RCVD})"
  shows "(\<not> open \<longrightarrow> t_tcp_write pcb arg len copy s = Some (ERR_CONN, s)) \<and>
    (open \<and> len = 0 \<longrightarrow> t_tcp_write pcb arg len copy s = Some (0, s)) \<and>
    (open \<and> 0 < len \<and> (tp_snd_buf b < len \<or> 40 \<le> tp_snd_queuelen b) \<longrightarrow>
      t_tcp_write pcb arg len copy s = Some (-1, s))"
  using assms enqueue_refuses [of pcb s len arg 0 copy None 0] by (auto simp: t_tcp_write_def)

theorem tcp_write_refuses_witness:
  "t_tcp_write 0x500 0x100 10 1 tcp_boot = Some (ERR_CONN, tcp_boot)"
proof -
  have "tp_state (tcp_pcb tcp_boot 0x500) = CLOSED" by (simp add: tcp_boot_def udp_st.defs tcp_zeroed_def)
  with tcp_write_refuses [of "0x500" "tcp_pcb tcp_boot 0x500" tcp_boot False "0x100" 10 1] show ?thesis by simp
qed

end
