(* ===== verification/Tcp_Segment.thy ===== *)
theory Tcp_Segment
  imports Tcp_Send
begin

text \<open>
  Sending queued segments: what \<^verbatim>\<open>t_tcp_output_segment\<close> does to a segment, its buffer and its block, and
  the frame that it puts on the wire.
\<close>

section \<open>Segments\<close>

text \<open>
  A segment that is ready to be sent: its header is in its buffer at or behind the payload pointer
  (behind it when it has been sent before), and it has room for the lower headers.  \<open>n\<close> is the
  interface it leaves by and \<open>lip\<close> the source address: those of the route when the block has no
  local address yet, and otherwise the local address and whatever the variable that was not set holds.
\<close>

definition seg_buffer :: "ptr \<Rightarrow> 'a tcp_st_scheme \<Rightarrow> 'a tcp_st_scheme" where
  "seg_buffer seg s =
     (let p = sg_p (tcp_seg s seg); h = sg_tcphdr (tcp_seg s seg);
          d = of_int (int h - int (pb_payload (pbuf s p)))
      in upd_pbuf p (\<lambda>b. b\<lparr>pb_len := pb_len b - d, pb_tot_len := pb_tot_len b - d, pb_payload := h\<rparr>) s)"

definition seg_via :: "t_tcp_pcb \<Rightarrow> 'a tcp_st_scheme \<Rightarrow> ptr \<Rightarrow> u32 \<Rightarrow> ptr \<Rightarrow> bool" where
  "seg_via b s m lip n \<longleftrightarrow>
     (if tp_local_ip b = 0 then t_ip_route (tp_remote_ip b) s = Some m \<and> m \<noteq> NULL \<and> lip = nif_ip_addr (netif s m)
      else stale_netif s (length (sent s)) = Some m \<and> lip = tp_local_ip b) \<and> ip_via m (Val (tp_remote_ip b)) s n"

text \<open>The block after sending the segment that starts at \<open>seqno\<close>.\<close>

definition seg_sent_pcb :: "u32 \<Rightarrow> u32 \<Rightarrow> u32 \<Rightarrow> t_tcp_pcb \<Rightarrow> t_tcp_pcb" where
  "seg_sent_pcb lip ticks seqno b =
     (if tp_rttest b = 0 then b\<lparr>tp_local_ip := lip, tp_rtime := 0, tp_rttest := ticks, tp_rtseq := seqno\<rparr>
      else b\<lparr>tp_local_ip := lip, tp_rtime := 0\<rparr>)"

definition adv_wnd :: "t_tcp_pcb \<Rightarrow> u16" where
  "adv_wnd b = (if tp_rcv_wnd b < tp_mss b then 0 else tp_rcv_wnd b)"

lemma output_segment_unfold:
  assumes "h = sg_tcphdr (tcp_seg s seg)" and "b = tcp_pcb s pcb" and "accessible h 20"
  shows "t_tcp_output_segment seg pcb s = do {
    (go, n, s) \<leftarrow> segment_route pcb (store16 (h + 14) (htons (adv_wnd b)) (store32 (h + 8) (htonl (tp_rcv_nxt b)) s));
    if \<not> go then Some s else segment_send seg pcb n s }"
proof -
  have "htons 0 = 0" by (simp add: htons_def)
  with assms show ?thesis unfolding t_tcp_output_segment_def adv_wnd_def
    by (cases "tp_rcv_wnd b < tp_mss b") (simp_all add: Let_def)
qed

lemma segment_send_unfold:
  assumes g: "h = sg_tcphdr (tcp_seg s seg)" "p = sg_p (tcp_seg s seg)" and p: "p \<noteq> NULL"
    and seq: "ntohl (load32 (h + 4) s) = seq"
    and b: "b' = seg_sent_pcb lip (tcp_ticks s) seq b" "tcp_pcb s pcb = b\<lparr>tp_local_ip := lip\<rparr>"
    and t: "t = store16 (h + 16) 0 (s\<lparr>tcp_pcb := (tcp_pcb s)(pcb := b'), pbuf := (pbuf s)(p := pbuf (seg_buffer seg s) p)\<rparr>)"
  shows "segment_send seg pcb n s = do {
      c \<leftarrow> t_inet_chksum_pseudo p (tp_local_ip (tcp_pcb t pcb)) (tp_remote_ip (tcp_pcb t pcb))
         T_IP_PROTO_TCP (pb_tot_len (pbuf t p)) t;
      let s = store16 (tcph_chksum h) c t;
      (_, s) \<leftarrow> t_ip_output n p (Some (tp_local_ip (tcp_pcb s pcb))) (Val (tp_remote_ip (tcp_pcb s pcb)))
         (tp_ttl (tcp_pcb s pcb)) (tp_tos (tcp_pcb s pcb)) T_IP_PROTO_TCP s;
      Some s }"
proof -
  define r where "r = (let s = upd_tcp pcb (\<lambda>b. b\<lparr>tp_rtime := 0\<rparr>) s
     in if tp_rttest (tcp_pcb s pcb) = 0 then
                let s = upd_tcp pcb (\<lambda>b. b\<lparr>tp_rttest := tcp_ticks s\<rparr>) s
                in upd_tcp pcb (\<lambda>b. b\<lparr>tp_rtseq := ntohl (load32 (tcph_seqno h) s)\<rparr>) s
              else s)"
  have ld: "load32 x (s\<lparr>tcp_pcb := F\<rparr>) = load32 x s" for x F by (simp add: load32_def)
  have r: "r = s\<lparr>tcp_pcb := (tcp_pcb s)(pcb := b')\<rparr>"
    using seq by (simp add: r_def b seg_sent_pcb_def Let_def ld)
  define len where "len = (of_int (int h - int (pb_payload (pbuf s p))) :: u16)"
  have t: "t = store16 (tcph_chksum h) 0 (upd_pbuf p (\<lambda>b. b\<lparr>pb_payload := h\<rparr>)
      (upd_pbuf p (\<lambda>b. b\<lparr>pb_tot_len := pb_tot_len b - len\<rparr>) (upd_pbuf p (\<lambda>b. b\<lparr>pb_len := pb_len b - len\<rparr>) r)))"
    unfolding t r seg_buffer_def Let_def g [symmetric] len_def by simp
  have same: "sg_p (tcp_seg r seg) = p" "pbuf r p = pbuf s p" by (simp_all add: r g)
  show ?thesis
    unfolding segment_send_def Let_def g [symmetric] r_def [unfolded Let_def, symmetric] same len_def [symmetric]
    using p by (simp add: t same(2))
qed

lemma output_segment_result:
  assumes b: "b = tcp_pcb s pcb" and g: "g = tcp_seg s seg" "h = sg_tcphdr g" "p = sg_p g"
    and room: "ip_room (seg_buffer seg s) p" and pb: "pb = pbuf (seg_buffer seg s) p" "l = unat (pb_len pb)"
    and fit: "20 \<le> l" "pb_next pb = NULL"
    and via: "seg_via b s m lip n" and up: "netif_up s n"
    and f: "tcp_fields h s = (sp, dp, seq, a, hlf, w, z, 0)"
  shows "\<exists>s' frame c. t_tcp_output_segment seg pcb s = Some s' \<and>
    s' = s\<lparr>mem := mem s', pbuf := (pbuf s)(p := pb\<lparr>pb_payload := h - 34, pb_tot_len := pb_len pb + 34,
        pb_len := pb_len pb + 34\<rparr>), sent := sent s @ [frame],
      tcp_pcb := (tcp_pcb s)(pcb := seg_sent_pcb lip (tcp_ticks s) seq b)\<rparr> \<and>
    tcp_fields h s' = (sp, dp, seq, tp_rcv_nxt b, hlf, adv_wnd b, c, 0) \<and>
    (\<forall>x. x < h - 34 \<or> h + 20 \<le> x \<longrightarrow> mem s' x = mem s x) \<and>
    ip_parse frame = Some (lip, tp_remote_ip b, tp_ttl b, tp_tos b, T_IP_PROTO_TCP,
      tcp_header sp dp seq (tp_rcv_nxt b) hlf (adv_wnd b) c @ load_bytes (h + 20) (l - 20) s) \<and>
    tcp_sum_ok lip (tp_remote_ip b)
      (tcp_header sp dp seq (tp_rcv_nxt b) hlf (adv_wnd b) c @ load_bytes (h + 20) (l - 20) s)"
proof -
  note R = ip_roomD [OF room, folded pb]
  have pay: "pb_payload pb = h" by (simp add: pb seg_buffer_def g Let_def)
  define b' where "b' = seg_sent_pcb lip (tcp_ticks s) seq b"
  define s1 where "s1 = store16 (h + 14) (htons (adv_wnd b)) (store32 (h + 8) (htonl (tp_rcv_nxt b)) s)"
  define s2 where "s2 = s1\<lparr>tcp_pcb := (tcp_pcb s)(pcb := b'), pbuf := (pbuf s)(p := pb)\<rparr>"
  define t where "t = store16 (h + 16) 0 s2"
  have t: "t = s\<lparr>mem := mem t, pbuf := (pbuf s)(p := pb), tcp_pcb := (tcp_pcb s)(pcb := b')\<rparr>"
    by (simp add: t_def s2_def s1_def store16_def store32_def)
  have same: "netif t = netif s" "netif_list t = netif_list s" "netif_default t = netif_default s"
    "pbuf t = (pbuf s)(p := pb)" "sent t = sent s" "tcp_pcb t = (tcp_pcb s)(pcb := b')"
    by (subst t, simp)+
  have lds: "load16 x (s2\<lparr>mem := M\<rparr>) = load16 x (s1\<lparr>mem := M\<rparr>)" for x M by (simp add: load16_def)
  have flds: "tcp_fields h t = (sp, dp, seq, tp_rcv_nxt b, hlf, adv_wnd b, 0, 0)"
  proof -
    have "tcp_fields h s2 = tcp_fields h s1" by (simp add: tcp_fields_def s2_def load16_def load32_def)
    moreover have "tcp_fields h s1 = (sp, dp, seq, tp_rcv_nxt b, hlf, adv_wnd b, z, 0)"
      using f by (simp add: tcp_fields_def s1_def mem_simps del: add_2_eq_Suc add_2_eq_Suc')
    ultimately show ?thesis unfolding t_def by (intro tcp_fields_chksum) simp
  qed
  then have zero: "load16 (h + 16) t = 0" by (simp add: tcp_fields_def)
  have room': "ip_room t p" using room by (simp add: ip_room_def pbuf_wf_def same pb)
  have up': "netif_up t n" using up by (simp add: netif_up_def same)
  have via': "ip_via m (Val (tp_remote_ip b)) t n"
    using via ip_route_frame [OF same(1-3)] by (auto simp: ip_via_def seg_via_def)
  have pt: "h = pb_payload (pbuf t p)" "20 \<le> unat (pb_len (pbuf t p))" "pb_next (pbuf t p) = NULL"
    using fit pay pb(2) by (simp_all add: same)
  from tcp_checked_send [OF room' up' via' pt zero, of lip "tp_ttl b" "tp_tos b"] obtain s' frame c where out:
    "t_inet_chksum_pseudo p lip (tp_remote_ip b) T_IP_PROTO_TCP (pb_tot_len (pbuf t p)) t = Some c"
    "t_ip_output m p (Some lip) (Val (tp_remote_ip b)) (tp_ttl b) (tp_tos b) T_IP_PROTO_TCP
      (store16 (h + 16) c t) = Some (0, s')"
    "s' = t\<lparr>mem := mem s', pbuf := (pbuf t)(p := (pbuf t p)\<lparr>pb_payload := h - 34,
        pb_tot_len := pb_len (pbuf t p) + 34, pb_len := pb_len (pbuf t p) + 34\<rparr>), sent := sent t @ [frame]\<rparr>"
    "\<forall>x. x < h - 34 \<or> h \<le> x \<longrightarrow> mem s' x = mem (store16 (h + 16) c t) x"
    "ip_parse frame = Some (lip, tp_remote_ip b, tp_ttl b, tp_tos b, T_IP_PROTO_TCP,
      load_bytes h (unat (pb_len (pbuf t p))) (store16 (h + 16) c t))"
    "tcp_sum_ok lip (tp_remote_ip b) (load_bytes h (unat (pb_len (pbuf t p))) (store16 (h + 16) c t))" by blast
  note cf = tcp_fields_chksum [OF flds, of c]
  have mem_t: "mem (store16 (h + 16) c t) x = mem s x" if "x < h \<or> h + 20 \<le> x" for x
    using that by (auto simp: t_def s2_def s1_def mem_simps)
  have msg: "load_bytes h (unat (pb_len (pbuf t p))) (store16 (h + 16) c t) =
      tcp_header sp dp seq (tp_rcv_nxt b) hlf (adv_wnd b) c @ load_bytes (h + 20) (l - 20) s"
  proof -
    have "load_bytes (h + 20) (l - 20) (store16 (h + 16) c t) = load_bytes (h + 20) (l - 20) s"
      by (rule load_bytes_cong) (simp add: mem_t)
    then show ?thesis using tcp_message [OF cf, of "l - 20"] fit(1) by (simp add: same pb(2))
  qed
  have "t_ip_route d s1 = t_ip_route d s" for d by (rule ip_route_frame) (simp_all add: s1_def)
  then have s1: "tcp_pcb s1 = tcp_pcb s" "netif s1 = netif s" "stale_netif s1 = stale_netif s" "sent s1 = sent s"
    "t_ip_route d s1 = t_ip_route d s" for d
    by (simp_all add: s1_def)
  have go: "segment_route pcb s1 = Some (True, m, s1\<lparr>tcp_pcb := (tcp_pcb s)(pcb := b\<lparr>tp_local_ip := lip\<rparr>)\<rparr>)"
  proof (cases "tp_local_ip b = 0")
    case True
    then show ?thesis using via unfolding segment_route_def seg_via_def s1 b [symmetric] by (simp add: ip_addr_isany_def b)
  next
    case False
    have "s1\<lparr>tcp_pcb := (tcp_pcb s)(pcb := b)\<rparr> = s1" using s1(1) b by simp
    with False show ?thesis using via unfolding segment_route_def seg_via_def s1 b [symmetric] by (simp add: ip_addr_isany_def)
  qed
  have seq: "ntohl (load32 (h + 4) s) = seq" using f by (simp add: tcp_fields_def)
  have acc: "accessible h 20" using R(2,5,6) fit pay pb(2)
    by (intro accessible_in_slot [of p]) (auto simp: sizeof_t_pbuf_def pbuf_slot_eq)
  define s3 where "s3 = s1\<lparr>tcp_pcb := (tcp_pcb s)(pcb := b\<lparr>tp_local_ip := lip\<rparr>)\<rparr>"
  have "t_tcp_output_segment seg pcb s = segment_send seg pcb m s3"
    unfolding output_segment_unfold [OF g(2) [unfolded g(1)] b acc] s1_def [symmetric] s3_def by (simp add: go)
  also have "\<dots> = do {
      c \<leftarrow> t_inet_chksum_pseudo p (tp_local_ip (tcp_pcb t pcb)) (tp_remote_ip (tcp_pcb t pcb))
         T_IP_PROTO_TCP (pb_tot_len (pbuf t p)) t;
      let s = store16 (tcph_chksum h) c t;
      (_, s) \<leftarrow> t_ip_output m p (Some (tp_local_ip (tcp_pcb s pcb))) (Val (tp_remote_ip (tcp_pcb s pcb)))
         (tp_ttl (tcp_pcb s pcb)) (tp_tos (tcp_pcb s pcb)) T_IP_PROTO_TCP s;
      Some s }"
  proof (rule segment_send_unfold)
    have "load32 (h + 4) s3 = load32 (h + 4) s"
      by (simp add: s3_def s1_def load32_def store16_def store32_def)
    then show "ntohl (load32 (h + 4) s3) = seq" using seq by simp
    have "pbuf (seg_buffer seg s3) p = pb" by (simp add: s3_def s1_def pb seg_buffer_def Let_def)
    then show "t = store16 (h + 16) 0 (s3\<lparr>tcp_pcb := (tcp_pcb s3)(pcb := b'),
        pbuf := (pbuf s3)(p := pbuf (seg_buffer seg s3) p)\<rparr>)"
      unfolding t_def s2_def s3_def by (simp add: s1_def)
  qed (use R in \<open>simp_all add: s3_def s1_def g b'_def\<close>)
  also have "\<dots> = Some s'"
  proof -
    have "tcp_pcb (store16 (h + 16) c t) pcb = b'" "tcp_pcb t pcb = b'" by (simp_all add: same)
    moreover have "tp_local_ip b' = lip" "tp_remote_ip b' = tp_remote_ip b" "tp_ttl b' = tp_ttl b" "tp_tos b' = tp_tos b"
      by (simp_all add: b'_def seg_sent_pcb_def)
    ultimately show ?thesis by (simp only: out(1,2) Option.bind.simps Let_def prod.case)
  qed
  finally have "t_tcp_output_segment seg pcb s = Some s'" .
  moreover have "s' = s\<lparr>mem := mem s', pbuf := (pbuf s)(p := pb\<lparr>pb_payload := h - 34, pb_tot_len := pb_len pb + 34,
        pb_len := pb_len pb + 34\<rparr>), sent := sent s @ [frame], tcp_pcb := (tcp_pcb s)(pcb := b')\<rparr>"
    by (subst out(3), subst (1) t) (simp add: same)
  moreover have "tcp_fields h s' = (sp, dp, seq, tp_rcv_nxt b, hlf, adv_wnd b, c, 0)"
  proof -
    have m: "mem s' (h + k) = mem (store16 (h + 16) c t) (h + k)" for k using out(4) by simp
    have "tcp_fields h s' = tcp_fields h (store16 (h + 16) c t)"
      using m m [of 0] by (simp add: tcp_fields_def load16_def load32_def add.assoc del: add_2_eq_Suc add_2_eq_Suc' add_Suc_right)
    then show ?thesis using cf by simp
  qed
  moreover have "\<forall>x. x < h - 34 \<or> h + 20 \<le> x \<longrightarrow> mem s' x = mem s x"
  proof (intro allI impI)
    fix x assume "x < h - 34 \<or> h + 20 \<le> x"
    then have "x < h - 34 \<or> h \<le> x" "x < h \<or> h + 20 \<le> x" by linarith+
    then show "mem s' x = mem s x" using out(4) mem_t by metis
  qed
  ultimately show ?thesis using out(5,6) unfolding msg b'_def by blast
qed

text \<open>Without a value to read, sending a segment of a block with a local address has no defined behaviour.\<close>

lemma output_segment_undefined:
  assumes "tp_local_ip (tcp_pcb s pcb) \<noteq> 0" and "stale_netif s (length (sent s)) = None"
  shows "t_tcp_output_segment seg pcb s = None"
proof (cases "accessible (sg_tcphdr (tcp_seg s seg)) 20")
  case True
  then show ?thesis using assms unfolding output_segment_unfold [OF refl refl True]
    by (simp add: segment_route_def ip_addr_isany_def)
qed (simp add: t_tcp_output_segment_def Let_def)

text \<open>Whatever value is read, it is no interface, so that the destination is looked up, or an interface that can send.\<close>

definition netif_usable :: "t_tcp_pcb \<Rightarrow> 'a tcp_st_scheme \<Rightarrow> bool" where
  "netif_usable b s \<longleftrightarrow> (\<forall>k. \<exists>m n. stale_netif s k = Some m \<and> ip_via m (Val (tp_remote_ip b)) s n \<and> netif_up s n)"

lemma netif_usable_frame:
  assumes "netif t = netif s" and "netif_list t = netif_list s" and "netif_default t = netif_default s"
    and "stale_netif t = stale_netif s" and "tp_remote_ip c = tp_remote_ip b"
  shows "netif_usable c t = netif_usable b s"
  using ip_route_frame [OF assms(1-3)] assms(1,4,5) by (simp add: netif_usable_def ip_via_def netif_up_def)

lemma netif_usable_via:
  assumes "netif_usable b s" and "tp_local_ip b \<noteq> 0"
  obtains m n where "seg_via b s m (tp_local_ip b) n" "netif_up s n"
proof -
  from assms(1) obtain m n where "stale_netif s (length (sent s)) = Some m" "ip_via m (Val (tp_remote_ip b)) s n" "netif_up s n"
    unfolding netif_usable_def by blast
  with assms(2) show ?thesis by (intro that [of m n]) (simp_all add: seg_via_def)
qed

end
