(* ===== verification/Tcp_Connect.thy ===== *)
theory Tcp_Connect
  imports Tcp_Segment
begin

text \<open>
  Opening a connection: what \<^verbatim>\<open>t_tcp_connect\<close> does to a fresh block, from the choice of the numbers to the
  SYN on the wire.
\<close>

section \<open>Queueing a segment with options\<close>

lemma enqueue_option_buffer:
  assumes av: "pbuf_avail s (x # xs)"
  shows "\<exists>b1. enqueue_buffers seg seglen copy arg ptr (Some opts) 4 ql s = Some (Some (ql + 1),
      s\<lparr>pbuf_pool := pb_next (pbuf s x), pbuf := (pbuf s)(x := b1),
        tcp_seg := (tcp_seg s)(seg := (tcp_seg s seg)\<lparr>sg_p := x, sg_dataptr := x + 86\<rparr>)\<rparr>) \<and>
    pbuf_avail (s\<lparr>pbuf_pool := pb_next (pbuf s x), pbuf := (pbuf s)(x := b1),
        tcp_seg := (tcp_seg s)(seg := (tcp_seg s seg)\<lparr>sg_p := x, sg_dataptr := x + 86\<rparr>)\<rparr>) xs \<and>
    pb_payload b1 = x + 86 \<and> pb_tot_len b1 = 4 \<and> pb_len b1 = 4 \<and> pb_next b1 = NULL \<and> pb_ref b1 = 1 \<and>
    pb_flags b1 = T_PBUF_FLAG_POOL"
proof -
  note h = pbuf_avail_head [OF av]
  have adm: "alloc_admissible (T_PBUF_TRANSPORT, 4, T_PBUF_FLAG_POOL)"
    by (simp add: alloc_admissible_def T_PBUF_TRANSPORT_def T_PBUF_BUFSIZE_def)
  let ?b = "(pbuf s x)\<lparr>pb_next := NULL, pb_ref := 1, pb_payload := x + 86, pb_tot_len := 4, pb_len := 4\<rparr>"
  let ?s = "s\<lparr>pbuf_pool := pb_next (pbuf s x), pbuf := (pbuf s)(x := ?b)\<rparr>"
  have e: "x + sizeof_t_pbuf + unat T_PBUF_TRANSPORT = x + 86" by (simp add: sizeof_t_pbuf_def T_PBUF_TRANSPORT_def)
  have a: "t_pbuf_alloc T_PBUF_TRANSPORT 4 T_PBUF_FLAG_POOL s = Some (x, ?s)" "pbuf_avail ?s xs"
    using pbuf_alloc_next [OF adm av, unfolded e] by (simp_all only:)
  have "enqueue_buffers seg seglen copy arg ptr (Some opts) 4 ql s = Some (Some (ql + 1),
      s\<lparr>pbuf_pool := pb_next (pbuf s x), pbuf := (pbuf s)(x := ?b),
        tcp_seg := (tcp_seg s)(seg := (tcp_seg s seg)\<lparr>sg_p := x, sg_dataptr := x + 86\<rparr>)\<rparr>)"
    using a(1) h(3) by (simp add: enqueue_buffers_def Let_def)
  moreover have "pbuf_avail (s\<lparr>pbuf_pool := pb_next (pbuf s x), pbuf := (pbuf s)(x := ?b),
        tcp_seg := (tcp_seg s)(seg := (tcp_seg s seg)\<lparr>sg_p := x, sg_dataptr := x + 86\<rparr>)\<rparr>) xs"
    using a(2) by (simp add: pbuf_avail_def)
  ultimately show ?thesis using h(4) by (intro exI [of _ ?b]) simp
qed

definition syn_stores :: "ptr \<Rightarrow> t_tcp_pcb \<Rightarrow> u32 \<Rightarrow> u8 list \<Rightarrow> 'a tcp_st_scheme \<Rightarrow> 'a tcp_st_scheme" where
  "syn_stores h b seqno opts s = store_bytes (h + 20) opts (T_TCPH_HDRLEN_SET h 6 (T_TCPH_FLAGS_SET h TCP_SYN
     (store16 (h + 18) 0 (store32 (h + 4) (htonl seqno) (tcp_ports h b s)))))"

lemma syn_stores_frame: "syn_stores h b q opts s = s\<lparr>mem := mem (syn_stores h b q opts s)\<rparr>"
  by (simp add: syn_stores_def tcp_ports_def T_TCPH_FLAGS_SET_def T_TCPH_HDRLEN_SET_def store16_def store32_def
      store_bytes_def)

lemma syn_stores_fields:
  "\<exists>a w z. tcp_fields h (syn_stores h b q opts s) = (tp_local_port b, tp_remote_port b, q, a, 0x6002, w, z, 0)"
proof -
  have "push_bit 12 6 OR ((x AND NOT TCP_FLAGS OR ucast TCP_SYN) AND TCP_FLAGS) = (0x6002 :: u16)" for x
    unfolding hlf_flags by (simp add: TCP_SYN_def TCP_FLAGS_def)
  then show ?thesis
    by (simp add: syn_stores_def tcp_fields_def tcp_ports_def T_TCPH_FLAGS_SET_def T_TCPH_HDRLEN_SET_def
        T_TCPH_FLAGS_def mem_simps del: add_2_eq_Suc add_2_eq_Suc')
qed

lemma enqueue_option_header:
  assumes seg: "sg_p (tcp_seg s seg) = x" "sg_dataptr (tcp_seg s seg) = x + 86" and x: "x \<in> set pbuf_slots"
    and b1: "pbuf s x = b1" "pb_payload b1 = x + 86" "pb_flags b1 = T_PBUF_FLAG_POOL" and opts: "length opts = 4"
  shows "enqueue_header pcb seg seqno seglen TCP_SYN (Some opts) 4 s = Some (True,
    syn_stores (x + 66) (tcp_pcb s pcb) seqno opts (s\<lparr>pbuf := (pbuf s)(x := b1\<lparr>pb_payload := x + 66,
        pb_tot_len := pb_tot_len b1 + 20, pb_len := pb_len b1 + 20\<rparr>),
      tcp_seg := (tcp_seg s)(seg := (tcp_seg s seg)\<lparr>sg_len := seglen, sg_tcphdr := x + 66\<rparr>)\<rparr>))"
proof -
  let ?s = "upd_seg seg (\<lambda>g. g\<lparr>sg_len := seglen\<rparr>) s"
  have p: "x \<noteq> NULL" using pbuf_slots_pos [OF x] by simp
  have n: "nat (66 + int x) = x + 66" by simp
  have "header_fits ?s x (- int T_TCP_HLEN)"
    using b1 by (simp add: header_fits_def T_TCP_HLEN_def sizeof_t_pbuf_def T_PBUF_BUFSIZE_def)
  from pbuf_header_moves [OF p _ this] have h: "t_pbuf_header x (- int T_TCP_HLEN) ?s =
      Some (0, upd_pbuf x (\<lambda>b. b\<lparr>pb_payload := x + 66, pb_tot_len := pb_tot_len b + 20, pb_len := pb_len b + 20\<rparr>) ?s)"
    using b1 n by (simp add: T_TCP_HLEN_def)
  have acc: "accessible (x + 66) 20" "accessible (x + 86) 4"
    using x by (auto intro!: accessible_in_slot [of x] simp: sizeof_t_pbuf_def pbuf_slot_eq)
  have "(5 :: u16) + ucast (4 :: u8) div 4 = 6" by simp
  moreover have e: "x + 66 + 20 = x + 86" by simp
  ultimately show ?thesis
    unfolding enqueue_header_def Let_def syn_stores_def e using h seg acc opts b1 by simp
qed


lemma seg_all:
  "v\<lparr>sg_next := a, sg_p := p, sg_dataptr := d, sg_len := l, sg_tcphdr := h\<rparr> =
   \<lparr>sg_next = a, sg_p = p, sg_dataptr = d, sg_len = l, sg_tcphdr = h\<rparr>"
  by (cases v) simp

lemma enqueue_syn_result:
  assumes b: "b = tcp_pcb s pcb" "pcb \<noteq> NULL" "tp_unsent b = NULL" "tp_snd_queuelen b < 40"
    and av: "memp_avail T_MEMP_TCP_SEG s (g # gs)" "pbuf_avail s (x # xs)" and opts: "length opts = 4"
  shows "\<exists>s' b1 a w z. t_tcp_enqueue pcb NULL 0 TCP_SYN 0 (Some opts) 4 s = Some (0, s') \<and>
    s' = s\<lparr>memp_tab := memp_tab s', memp_next := memp_next s', now_count := now_count s', mem := mem s',
      pbuf := (pbuf s)(x := b1), pbuf_pool := pbuf_pool s',
      tcp_seg := (tcp_seg s)(g := \<lparr>sg_next = NULL, sg_p = x, sg_dataptr = x + 86, sg_len = 0, sg_tcphdr = x + 66\<rparr>),
      tcp_pcb := (tcp_pcb s)(pcb := b\<lparr>tp_unsent := g, tp_snd_lbb := tp_snd_lbb b + 1,
        tp_snd_buf := tp_snd_buf b - 1, tp_snd_queuelen := tp_snd_queuelen b + 1\<rparr>)\<rparr> \<and>
    memp_avail T_MEMP_TCP_SEG s' gs \<and> pbuf_avail s' xs \<and>
    (\<forall>j us. j \<noteq> T_MEMP_TCP_SEG \<longrightarrow> memp_avail j s us \<longrightarrow> memp_avail j s' us) \<and>
    pb_payload b1 = x + 66 \<and> pb_tot_len b1 = 24 \<and> pb_len b1 = 24 \<and> pb_next b1 = NULL \<and> pb_ref b1 = 1 \<and>
    pb_flags b1 = T_PBUF_FLAG_POOL \<and>
    tcp_fields (x + 66) s' = (tp_local_port b, tp_remote_port b, tp_snd_lbb b, a, 0x6002, w, z, 0) \<and>
    load_bytes (x + 86) 4 s' = opts"
proof -
  note h = pbuf_avail_head [OF av(2)]
  from memp_malloc_next [OF av(1)] obtain t where t: "t_memp_malloc T_MEMP_TCP_SEG s = (g, t)"
    "memp_avail T_MEMP_TCP_SEG t gs"
    "t = s\<lparr>memp_tab := memp_tab t, memp_next := memp_next t, now_count := now_count s + 1\<rparr>" by blast
  have g: "g \<noteq> NULL" using memp.avail_objs [OF av(1)] memp_objs_pos by auto
  have tf: "pbuf t = pbuf s" "pbuf_pool t = pbuf_pool s" "tcp_pcb t = tcp_pcb s" "tcp_seg t = tcp_seg s"
    by (subst t(3), simp)+
  define t1 where "t1 = upd_seg g (\<lambda>v. v\<lparr>sg_next := NULL, sg_p := NULL\<rparr>) t"
  have same: "pbuf t1 = pbuf s" "pbuf_pool t1 = pbuf_pool s" "tcp_pcb t1 = tcp_pcb s"
    "tcp_seg t1 = (tcp_seg s)(g := (tcp_seg s g)\<lparr>sg_next := NULL, sg_p := NULL\<rparr>)"
    by (simp_all add: t1_def tf)
  have av1: "pbuf_avail t1 (x # xs)" using av(2) by (simp add: pbuf_avail_def same)
  let ?ql = "tp_snd_queuelen b"
  from enqueue_option_buffer [OF av1, of g 0 0 NULL NULL opts ?ql] obtain b0 where eb:
    "enqueue_buffers g 0 0 NULL NULL (Some opts) 4 ?ql t1 = Some (Some (?ql + 1),
      t1\<lparr>pbuf_pool := pb_next (pbuf t1 x), pbuf := (pbuf t1)(x := b0),
        tcp_seg := (tcp_seg t1)(g := (tcp_seg t1 g)\<lparr>sg_p := x, sg_dataptr := x + 86\<rparr>)\<rparr>)"
    "pbuf_avail (t1\<lparr>pbuf_pool := pb_next (pbuf t1 x), pbuf := (pbuf t1)(x := b0),
        tcp_seg := (tcp_seg t1)(g := (tcp_seg t1 g)\<lparr>sg_p := x, sg_dataptr := x + 86\<rparr>)\<rparr>) xs"
    "pb_payload b0 = x + 86" "pb_tot_len b0 = 4" "pb_len b0 = 4" "pb_next b0 = NULL" "pb_ref b0 = 1"
    "pb_flags b0 = T_PBUF_FLAG_POOL" by blast
  define t2 where "t2 = t1\<lparr>pbuf_pool := pb_next (pbuf t1 x), pbuf := (pbuf t1)(x := b0),
        tcp_seg := (tcp_seg t1)(g := (tcp_seg t1 g)\<lparr>sg_p := x, sg_dataptr := x + 86\<rparr>)\<rparr>"
  define b1 where "b1 = b0\<lparr>pb_payload := x + 66, pb_tot_len := pb_tot_len b0 + 20, pb_len := pb_len b0 + 20\<rparr>"
  define t3 where "t3 = syn_stores (x + 66) b (tp_snd_lbb b) opts (t2\<lparr>pbuf := (pbuf t2)(x := b1),
      tcp_seg := (tcp_seg t2)(g := (tcp_seg t2 g)\<lparr>sg_len := 0, sg_tcphdr := x + 66\<rparr>)\<rparr>)"
  have "sg_p (tcp_seg t2 g) = x" "sg_dataptr (tcp_seg t2 g) = x + 86" "pbuf t2 x = b0" "tcp_pcb t2 pcb = b"
    by (simp_all add: t2_def same b)
  from enqueue_option_header [OF this(1,2) h(1) this(3) eb(3,8) opts, of pcb "tp_snd_lbb b" 0] this(4)
  have eh: "enqueue_header pcb g (tp_snd_lbb b) 0 TCP_SYN (Some opts) 4 t2 = Some (True, t3)"
    unfolding t3_def b1_def by simp
  have ql: "\<not> T_TCP_SND_QUEUELEN < ?ql + 1" "\<not> T_TCP_SND_QUEUELEN \<le> ?ql"
    using b(4) by (simp_all add: T_TCP_SND_QUEUELEN_def, unat_arith)
  have t3f: "t3 = s\<lparr>memp_tab := memp_tab t, memp_next := memp_next t, now_count := now_count s + 1, mem := mem t3,
      pbuf := (pbuf s)(x := b1), pbuf_pool := pb_next (pbuf s x),
      tcp_seg := (tcp_seg s)(g := \<lparr>sg_next = NULL, sg_p = x, sg_dataptr = x + 86, sg_len = 0, sg_tcphdr = x + 66\<rparr>)\<rparr>"
  proof -
    have "t3 = t2\<lparr>mem := mem t3, pbuf := (pbuf t2)(x := b1),
        tcp_seg := (tcp_seg t2)(g := (tcp_seg t2 g)\<lparr>sg_len := 0, sg_tcphdr := x + 66\<rparr>)\<rparr>"
      unfolding t3_def by (subst syn_stores_frame) simp
    also have "\<dots> = t\<lparr>mem := mem t3, pbuf := (pbuf s)(x := b1), pbuf_pool := pb_next (pbuf s x),
      tcp_seg := (tcp_seg s)(g := \<lparr>sg_next = NULL, sg_p = x, sg_dataptr = x + 86, sg_len = 0, sg_tcphdr = x + 66\<rparr>)\<rparr>"
      by (rule tcp_st.equality) (simp_all add: t2_def t1_def tf seg_all)
    finally show ?thesis by (subst (asm) t(3)) simp
  qed
  have loop: "enqueue_loop pcb NULL TCP_SYN 0 (Some opts) 4 0 (tp_snd_lbb b) NULL ?ql NULL NULL 0 s =
      Some (Inr (g, g, 0, ?ql + 1), t3)"
  proof -
    have stop: "enqueue_loop pcb NULL TCP_SYN 0 (Some opts) 4 0 q 0 (?ql + 1) g g 0 t3 =
        Some (Inr (g, g, 0, ?ql + 1), t3)" for q
      using g by (subst enqueue_loop.simps) simp
    show ?thesis using g ql eh stop [of "tp_snd_lbb b"]
      by (subst enqueue_loop.simps) (simp add: t(1) eb(1) [folded t2_def, unfolded t1_def])
  qed
  have link: "enqueue_link pcb TCP_SYN g g t3 = Some (g, upd_tcp pcb (\<lambda>b. b\<lparr>tp_unsent := g\<rparr>) t3)"
  proof -
    have "tp_unsent (tcp_pcb t3 pcb) = NULL" using b by (subst t3f) simp
    then show ?thesis by (simp add: enqueue_link_def Let_def)
  qed
  define s' where "s' = t3\<lparr>tcp_pcb := (tcp_pcb s)(pcb := b\<lparr>tp_unsent := g, tp_snd_lbb := tp_snd_lbb b + 1,
        tp_snd_buf := tp_snd_buf b - 1, tp_snd_queuelen := ?ql + 1\<rparr>)\<rparr>"
  have t3p: "tcp_pcb t3 = tcp_pcb s" "memp_tab t3 = memp_tab t" "memp_next t3 = memp_next t"
    "now_count t3 = now_count s + 1" "pbuf_pool t3 = pb_next (pbuf s x)" "pbuf t3 = (pbuf s)(x := b1)"
    by (subst t3f, simp)+
  have "TCP_SYN \<noteq> 0 \<and> TCP_SYN AND TCP_SYN \<noteq> 0" by (simp add: TCP_SYN_def)
  then have run: "t_tcp_enqueue pcb NULL 0 TCP_SYN 0 (Some opts) 4 s = Some (0, s')"
    using b(2) ql loop link by (simp add: t_tcp_enqueue_def Let_def b(1) t3p s'_def)
  have m: "mem s' = mem t3" by (simp add: s'_def)
  have fr: "s' = s\<lparr>memp_tab := memp_tab s', memp_next := memp_next s', now_count := now_count s', mem := mem s',
      pbuf := (pbuf s)(x := b1), pbuf_pool := pbuf_pool s',
      tcp_seg := (tcp_seg s)(g := \<lparr>sg_next = NULL, sg_p = x, sg_dataptr = x + 86, sg_len = 0, sg_tcphdr = x + 66\<rparr>),
      tcp_pcb := (tcp_pcb s)(pcb := b\<lparr>tp_unsent := g, tp_snd_lbb := tp_snd_lbb b + 1,
        tp_snd_buf := tp_snd_buf b - 1, tp_snd_queuelen := tp_snd_queuelen b + 1\<rparr>)\<rparr>"
    unfolding s'_def by (subst (1) t3f) (simp add: t3p)
  have av': "memp_avail T_MEMP_TCP_SEG s' gs" "pbuf_avail s' xs"
    "\<forall>j us. j \<noteq> T_MEMP_TCP_SEG \<longrightarrow> memp_avail j s us \<longrightarrow> memp_avail j s' us"
  proof -
    have "memp_tab s' = memp_tab t" "memp_next s' = memp_next t" by (simp_all add: s'_def t3p)
    then show "memp_avail T_MEMP_TCP_SEG s' gs" using t(2) by (simp add: memp_avail_def)
    have "memp_avail j t us" if "j \<noteq> T_MEMP_TCP_SEG" "memp_avail j s us" for j us
      using memp_malloc_other [OF av(1) that(2)] that(1) t(1) by auto
    with \<open>memp_tab s' = memp_tab t\<close> \<open>memp_next s' = memp_next t\<close>
    show "\<forall>j us. j \<noteq> T_MEMP_TCP_SEG \<longrightarrow> memp_avail j s us \<longrightarrow> memp_avail j s' us" by (simp add: memp_avail_def)
    have "pbuf s' = (pbuf s)(x := b1)" "pbuf_pool s' = pb_next (pbuf s x)" by (simp_all add: s'_def t3p)
    moreover have "pbuf_avail t2 xs" using eb(2) by (simp add: t2_def)
    ultimately show "pbuf_avail s' xs" using h(2) by (auto simp: pbuf_avail_def t2_def same)
  qed
  obtain a w z where "tcp_fields (x + 66) t3 = (tp_local_port b, tp_remote_port b, tp_snd_lbb b, a, 0x6002, w, z, 0)"
    using syn_stores_fields unfolding t3_def by blast
  then have fl: "tcp_fields (x + 66) s' = (tp_local_port b, tp_remote_port b, tp_snd_lbb b, a, 0x6002, w, z, 0)"
    by (simp add: tcp_fields_def load16_def load32_def m)
  have "load_bytes (x + 86) 4 t3 = opts"
  proof -
    have e: "x + 66 + 20 = x + 86" by simp
    show ?thesis unfolding t3_def syn_stores_def e by (rule load_store_bytes_n) (simp add: opts)
  qed
  then have "load_bytes (x + 86) 4 s' = opts" by (simp add: load_bytes_def m)
  with run fr av' fl eb(3-8) show ?thesis
    by (intro exI [of _ s'] exI [of _ b1] exI [of _ a] exI [of _ w] exI [of _ z]) (simp add: b1_def)
qed

section \<open>Sending the SYN\<close>

lemma seg_buffer_frame:
  "tcp_seg t = tcp_seg s \<Longrightarrow> pbuf t = pbuf s \<Longrightarrow> pbuf (seg_buffer g t) = pbuf (seg_buffer g s)"
  by (simp add: seg_buffer_def Let_def)

lemma seg_via_frame:
  assumes "netif t = netif s" and "netif_list t = netif_list s" and "netif_default t = netif_default s"
    and "stale_netif t = stale_netif s" and "sent t = sent s" and "tp_local_ip c = tp_local_ip b" and "tp_remote_ip c = tp_remote_ip b"
  shows "seg_via c t m lip n = seg_via b s m lip n"
  using ip_route_frame [OF assms(1-3)] assms by (simp add: seg_via_def ip_via_def)

text \<open>The block after sending a SYN that starts at \<open>seq\<close> from the address \<open>lip\<close>.\<close>

definition syn_sent_pcb :: "u32 \<Rightarrow> u32 \<Rightarrow> u32 \<Rightarrow> ptr \<Rightarrow> t_tcp_pcb \<Rightarrow> t_tcp_pcb" where
  "syn_sent_pcb lip ticks seq g b = (seg_sent_pcb lip ticks seq b)\<lparr>tp_unsent := NULL, tp_unacked := g,
     tp_snd_nxt := seq + 1, tp_snd_max := (if T_TCP_SEQ_LT (tp_snd_max b) (seq + 1) then seq + 1 else tp_snd_max b)\<rparr>"

lemma output_syn_result:
  assumes b: "b = tcp_pcb s pcb" "pcb \<noteq> NULL" "tp_unsent b = g" "tp_unacked b = NULL"
      "tp_flags b AND TF_ACK_NOW = 0" "tp_state b = SYN_SENT" and g: "g \<noteq> NULL"
    and v: "tcp_seg s g = \<lparr>sg_next = NULL, sg_p = x, sg_dataptr = d, sg_len = 0, sg_tcphdr = h\<rparr>"
    and f: "tcp_fields h s = (sp, dp, seq, a, 0x6002, w, z, 0)"
    and win: "seq - tp_lastack b \<le> min (tp_snd_wnd b) (ucast (tp_cwnd b))"
    and pb: "pbuf s x = b1" "pb_payload b1 = h" "pb_len b1 = 24" "pb_next b1 = NULL" and room: "ip_room s x"
    and via: "seg_via b s m lip n" and up: "netif_up s n"
  shows "\<exists>s' frame c. t_tcp_output pcb s = Some (0, s') \<and>
    s' = s\<lparr>mem := mem s', pbuf := (pbuf s)(x := b1\<lparr>pb_payload := h - 34, pb_tot_len := 58, pb_len := 58\<rparr>),
      sent := sent s @ [frame], tcp_pcb := (tcp_pcb s)(pcb := syn_sent_pcb lip (tcp_ticks s) seq g b)\<rparr> \<and>
    ip_parse frame = Some (lip, tp_remote_ip b, tp_ttl b, tp_tos b, T_IP_PROTO_TCP,
      tcp_header sp dp seq (tp_rcv_nxt b) 0x6002 (adv_wnd b) c @ load_bytes (h + 20) 4 s) \<and>
    tcp_sum_ok lip (tp_remote_ip b)
      (tcp_header sp dp seq (tp_rcv_nxt b) 0x6002 (adv_wnd b) c @ load_bytes (h + 20) 4 s)"
proof -
  let ?b = "b\<lparr>tp_unsent := NULL\<rparr>"
  define t where "t = s\<lparr>tcp_pcb := (tcp_pcb s)(pcb := ?b)\<rparr>"
  have same: "tcp_seg t = tcp_seg s" "pbuf t = pbuf s" "netif t = netif s" "netif_list t = netif_list s"
    "netif_default t = netif_default s" "stale_netif t = stale_netif s" "mem t = mem s" "tcp_ticks t = tcp_ticks s"
    "sent t = sent s" "tcp_pcb t pcb = ?b"
    by (simp_all add: t_def)
  have seqn: "ntohl (load32 (h + 4) s) = seq" using f by (simp add: tcp_fields_def)
  have end_: "seg_end g pcb s = seq - tp_lastack b" using seqn by (simp add: seg_end_def v b(1) [symmetric])
  have sb: "pbuf (seg_buffer g t) = (pbuf s)(x := b1)"
    using pb by (cases b1) (simp add: seg_buffer_def Let_def same v)
  have room': "ip_room (seg_buffer g t) x"
    using room pb(1) by (simp add: ip_room_def pbuf_wf_def sb)
  have f': "tcp_fields h t = (sp, dp, seq, a, 0x6002, w, z, 0)"
    using f by (simp add: tcp_fields_def load16_def load32_def same)
  have via': "seg_via ?b t m lip n" using via seg_via_frame [of t s ?b b] same by simp
  have up': "netif_up t n" using up by (simp add: netif_up_def same)
  have o: "h = sg_tcphdr (tcp_seg t g)" "x = sg_p (tcp_seg t g)" "b1 = pbuf (seg_buffer g t) x"
    "(24::nat) = unat (pb_len b1)" "20 \<le> (24::nat)" by (simp_all add: same v sb pb)
  from output_segment_result [OF same(10) [symmetric] refl o(1,2) room' o(3-5) pb(4) via' up' f'] obtain u frame c where out:
    "t_tcp_output_segment g pcb t = Some u"
    "u = t\<lparr>mem := mem u, pbuf := (pbuf t)(x := b1\<lparr>pb_payload := h - 34, pb_tot_len := pb_len b1 + 34,
        pb_len := pb_len b1 + 34\<rparr>), sent := sent t @ [frame],
      tcp_pcb := (tcp_pcb t)(pcb := seg_sent_pcb lip (tcp_ticks t) seq ?b)\<rparr>"
    "tcp_fields h u = (sp, dp, seq, tp_rcv_nxt ?b, 0x6002, adv_wnd ?b, c, 0)"
    "ip_parse frame = Some (lip, tp_remote_ip ?b, tp_ttl ?b, tp_tos ?b, T_IP_PROTO_TCP,
      tcp_header sp dp seq (tp_rcv_nxt ?b) 0x6002 (adv_wnd ?b) c @ load_bytes (h + 20) (24 - 20) t)"
    "tcp_sum_ok lip (tp_remote_ip ?b)
      (tcp_header sp dp seq (tp_rcv_nxt ?b) 0x6002 (adv_wnd ?b) c @ load_bytes (h + 20) (24 - 20) t)"
    by blast
  define b2 where "b2 = seg_sent_pcb lip (tcp_ticks s) seq ?b"
  define s' where "s' = u\<lparr>tcp_pcb := (tcp_pcb s)(pcb := syn_sent_pcb lip (tcp_ticks s) seq g b)\<rparr>"
  have u: "tcp_seg u = tcp_seg s" "tcp_pcb u = (tcp_pcb s)(pcb := b2)"
    by (subst out(2), simp add: t_def b2_def)+
  have q: "ntohl (load32 (h + 4) (u\<lparr>tcp_pcb := F\<rparr>)) = seq" "T_TCP_TCPLEN g (u\<lparr>tcp_pcb := F\<rparr>) = 1"
    "T_TCP_TCPLEN g u = 1" "ntohl (load32 (h + 4) u) = seq" for F
  proof -
    show k: "ntohl (load32 (h + 4) u) = seq" using out(3) by (simp add: tcp_fields_def)
    have l: "ntohs (load16 (h + 12) u) = 0x6002" using out(3) by (simp add: tcp_fields_def)
    have e: "load32 y (u\<lparr>tcp_pcb := F\<rparr>) = load32 y u" "load16 y (u\<lparr>tcp_pcb := F\<rparr>) = load16 y u" for y
      by (simp_all add: load32_def load16_def)
    show "ntohl (load32 (h + 4) (u\<lparr>tcp_pcb := F\<rparr>)) = seq" using k e by simp
    show "T_TCP_TCPLEN g (u\<lparr>tcp_pcb := F\<rparr>) = 1" "T_TCP_TCPLEN g u = 1"
      using l e by (simp_all add: T_TCP_TCPLEN_def T_TCPH_FLAGS_def u v TCP_FIN_def TCP_SYN_def TCP_FLAGS_def)
  qed
  have b2: "tp_snd_max b2 = tp_snd_max b" "tp_unacked b2 = NULL" "tp_unsent b2 = NULL"
    using b(4) by (simp_all add: b2_def seg_sent_pcb_def)
  have stop: "output_loop wnd NULL useg pcb r = Some r" for wnd useg and r :: "'a tcp_st_scheme"
    by (subst output_loop.simps) simp
  have "output_loop wnd g NULL pcb s = Some s'" if "seq - tp_lastack b \<le> wnd" for wnd
  proof -
    define b3 where "b3 = b2\<lparr>tp_snd_nxt := seq + 1\<rparr>"
    define b4 where "b4 = (if T_TCP_SEQ_LT (tp_snd_max b) (seq + 1) then b3\<lparr>tp_snd_max := seq + 1\<rparr> else b3)"
    have t: "upd_tcp pcb (\<lambda>b. b\<lparr>tp_unsent := sg_next (tcp_seg s g)\<rparr>) s = t" by (simp add: t_def v b(1))
    have n: "upd_tcp pcb (\<lambda>b. b\<lparr>tp_snd_nxt := ntohl (load32 (tcph_seqno (sg_tcphdr (tcp_seg u g))) u) +
        of_nat (T_TCP_TCPLEN g u)\<rparr>) u = u\<lparr>tcp_pcb := (tcp_pcb s)(pcb := b3)\<rparr>"
      using q(3,4) by (simp add: u v b3_def)
    have b34: "tp_unacked b4 = NULL" "tp_unsent b4 = NULL" "tp_snd_max b3 = tp_snd_max b" "tp_snd_nxt b3 = seq + 1"
      "b4\<lparr>tp_unacked := g\<rparr> = syn_sent_pcb lip (tcp_ticks s) seq g b"
      using b(4) by (simp_all add: b4_def b3_def b2 b2_def syn_sent_pcb_def seg_sent_pcb_def)
    have m: "(let s = u\<lparr>tcp_pcb := (tcp_pcb s)(pcb := b3)\<rparr> in
        if T_TCP_SEQ_LT (tp_snd_max (tcp_pcb s pcb)) (tp_snd_nxt (tcp_pcb s pcb))
        then upd_tcp pcb (\<lambda>b. b\<lparr>tp_snd_max := tp_snd_nxt b\<rparr>) s else s) = u\<lparr>tcp_pcb := (tcp_pcb s)(pcb := b4)\<rparr>"
      using b34(3,4) by (simp add: b4_def Let_def)
    have "(tcp_seg s)(g := (tcp_seg s g)\<lparr>sg_next := NULL\<rparr>) = tcp_seg s" using v by auto
    then have w: "u\<lparr>tcp_pcb := F, tcp_seg := (tcp_seg s)(g := (tcp_seg s g)\<lparr>sg_next := NULL\<rparr>)\<rparr> = u\<lparr>tcp_pcb := F\<rparr>" for F
      using u(1) by simp
    have d: "output_done g NULL pcb (u\<lparr>tcp_pcb := (tcp_pcb s)(pcb := b4)\<rparr>) = Some (g, s')"
      using q(2) b34(1,5) by (simp add: output_done_def u w s'_def)
    have "tp_unsent (tcp_pcb s' pcb) = NULL" by (simp add: s'_def syn_sent_pcb_def)
    moreover have "tp_state ?b = SYN_SENT" using b(6) by simp
    ultimately show ?thesis using stop that g d
      by (subst output_loop.simps) (simp only: end_ t same(10) out(1) n m [unfolded Let_def] simp_thms if_True if_False
        Let_def Option.bind.simps prod.case)
  qed
  then have run: "t_tcp_output pcb s = Some (0, s')"
    using b win by (simp add: t_tcp_output_def Let_def)
  have "s' = s\<lparr>mem := mem s', pbuf := (pbuf s)(x := b1\<lparr>pb_payload := h - 34, pb_tot_len := 58, pb_len := 58\<rparr>),
      sent := sent s @ [frame], tcp_pcb := (tcp_pcb s)(pcb := syn_sent_pcb lip (tcp_ticks s) seq g b)\<rparr>"
    unfolding s'_def by (subst out(2)) (simp add: t_def pb)
  moreover have "load_bytes (h + 20) (24 - 20) t = load_bytes (h + 20) 4 s" "adv_wnd ?b = adv_wnd b"
    by (simp_all add: load_bytes_def same adv_wnd_def)
  then have "ip_parse frame = Some (lip, tp_remote_ip b, tp_ttl b, tp_tos b, T_IP_PROTO_TCP,
      tcp_header sp dp seq (tp_rcv_nxt b) 0x6002 (adv_wnd b) c @ load_bytes (h + 20) 4 s)"
    "tcp_sum_ok lip (tp_remote_ip b)
      (tcp_header sp dp seq (tp_rcv_nxt b) 0x6002 (adv_wnd b) c @ load_bytes (h + 20) 4 s)"
    using out(4,5) by simp_all
  ultimately show ?thesis using run by blast
qed


section \<open>Connecting\<close>

text \<open>The block before the SYN is queued, for a local port \<open>lp\<close> and an initial sequence number \<open>iss\<close>.\<close>

definition connect_pcb :: "u32 \<Rightarrow> u16 \<Rightarrow> tcp_connected_fn \<Rightarrow> u16 \<Rightarrow> u32 \<Rightarrow> ptr \<Rightarrow> t_tcp_pcb \<Rightarrow> t_tcp_pcb" where
  "connect_pcb ip port conn lp iss nxt b = b\<lparr>tp_remote_ip := ip, tp_remote_port := port, tp_local_port := lp,
     tp_rcv_nxt := 0, tp_snd_nxt := iss, tp_lastack := iss - 1, tp_snd_lbb := iss - 1, tp_rcv_wnd := 14000,
     tp_snd_wnd := 14000, tp_mss := 1400, tp_cwnd := 1, tp_ssthresh := 14000, tp_state := SYN_SENT,
     tp_connected := conn, tp_next := nxt\<rparr>"

definition connect_port :: "t_tcp_pcb \<Rightarrow> 'a tcp_st_scheme \<Rightarrow> u16" where
  "connect_port b s = (if tp_local_port b = 0 then of_int (4097 + new_port_times s) else tp_local_port b)"

definition connect_start :: "ptr \<Rightarrow> u32 \<Rightarrow> u16 \<Rightarrow> tcp_connected_fn \<Rightarrow> 'a tcp_st_scheme \<Rightarrow> 'a tcp_st_scheme" where
  "connect_start pcb ip port conn s =
     (let b = tcp_pcb s pcb; iss = next_iss s + tcp_ticks s
      in s\<lparr>new_port_times := (if tp_local_port b = 0 then new_port_times s + 1 else new_port_times s),
         next_iss := iss, tcp_active_pcbs := pcb,
         tcp_pcb := (tcp_pcb s)(pcb := connect_pcb ip port conn (connect_port b s) iss (tcp_active_pcbs s) b)\<rparr>)"

lemma syn_options: "raw32 (htonl (push_bit 24 2 OR push_bit 16 4 OR push_bit 8 (1400 div 256) OR (1400 AND 255))) = [2, 4, 5, 0x78]"
  by code_simp

lemma connect_prepares:
  assumes "pcb \<noteq> NULL"
  shows "t_tcp_connect pcb ip port conn s = do {
    (ret, s) \<leftarrow> t_tcp_enqueue pcb NULL 0 TCP_SYN 0 (Some [2, 4, 5, 0x78]) 4 (connect_start pcb ip port conn s);
    if ret = 0 then do { (_, s) \<leftarrow> t_tcp_output pcb s; Some (ret, s) } else Some (ret, s) }"
proof -
  define s1 where "s1 = (let s = upd_tcp pcb (\<lambda>b. b\<lparr>tp_remote_ip := ip\<rparr>) s;
      s = upd_tcp pcb (\<lambda>b. b\<lparr>tp_remote_port := port\<rparr>) s
    in if tp_local_port (tcp_pcb s pcb) = 0 then
                let (lport, s) = t_tcp_new_port s
                in upd_tcp pcb (\<lambda>b. b\<lparr>tp_local_port := lport\<rparr>) s
              else s)"
  define s2 where "s2 = (let (iss, s) = t_tcp_next_iss s1;
      s = upd_tcp pcb (\<lambda>b. b\<lparr>tp_rcv_nxt := 0, tp_snd_nxt := iss, tp_lastack := iss - 1,
       tp_snd_lbb := iss - 1, tp_rcv_wnd := T_TCP_WND, tp_snd_wnd := ucast T_TCP_WND, tp_mss := T_TCP_MSS,
       tp_cwnd := 1, tp_ssthresh := T_TCP_MSS * 10, tp_state := SYN_SENT, tp_connected := conn\<rparr>) s
    in T_TCP_REG pcb s)"
  have s1: "s1 = s\<lparr>new_port_times := (if tp_local_port (tcp_pcb s pcb) = 0 then new_port_times s + 1 else new_port_times s),
     tcp_pcb := (tcp_pcb s)(pcb := (tcp_pcb s pcb)\<lparr>tp_remote_ip := ip, tp_remote_port := port,
       tp_local_port := connect_port (tcp_pcb s pcb) s\<rparr>)\<rparr>"
    by (rule tcp_st.equality) (simp_all add: s1_def Let_def t_tcp_new_port_def connect_port_def)
  have s2: "s2 = connect_start pcb ip port conn s"
    unfolding s2_def s1
    by (rule tcp_st.equality) (simp_all add: Let_def t_tcp_next_iss_def connect_start_def connect_pcb_def
      T_TCP_REG_def T_TCP_WND_def T_TCP_MSS_def)
  then have mss: "ucast (tp_mss (tcp_pcb s2 pcb)) = (1400 :: u32)" by (simp add: connect_start_def connect_pcb_def Let_def)
  have "t_tcp_connect pcb ip port conn s = (let mss = ucast (tp_mss (tcp_pcb s2 pcb));
       optdata = htonl (push_bit 24 2 OR push_bit 16 4 OR push_bit 8 (mss div 256) OR (mss AND 255))
     in do {
       (ret, s) \<leftarrow> t_tcp_enqueue pcb NULL 0 TCP_SYN 0 (Some (raw32 optdata)) 4 s2;
       if ret = 0 then do { (_, s) \<leftarrow> t_tcp_output pcb s; Some (ret, s) } else Some (ret, s) })"
    using assms unfolding t_tcp_connect_def s2_def s1_def Let_def t_tcp_next_iss_def t_tcp_new_port_def
    by (cases "tp_local_port (tcp_pcb s pcb) = 0") simp_all
  then show ?thesis unfolding Let_def mss [unfolded s2] s2 syn_options .
qed

lemma connect_result:
  assumes b: "b = tcp_pcb s pcb" "pcb \<noteq> NULL" "tp_unsent b = NULL" "tp_unacked b = NULL" "tp_snd_queuelen b < 40"
      "tp_flags b AND TF_ACK_NOW = 0" "tp_local_ip b = 0"
    and av: "memp_avail T_MEMP_TCP_SEG s (g # gs)" "pbuf_avail s (x # xs)"
    and route: "t_ip_route ip s = Some m" "m \<noteq> NULL" "lip = nif_ip_addr (netif s m)" "ip_via m (Val ip) s n"
    and up: "netif_up s n" and iss: "iss = next_iss s + tcp_ticks s" and lp: "lp = connect_port b s"
  shows "\<exists>s' frame c b'. t_tcp_connect pcb ip port conn s = Some (0, s') \<and>
    tcp_pcb s' = (tcp_pcb s)(pcb := b') \<and>
    b' = syn_sent_pcb lip (tcp_ticks s) (iss - 1) g ((connect_pcb ip port conn lp iss (tcp_active_pcbs s) b)\<lparr>
      tp_unsent := g, tp_snd_lbb := iss, tp_snd_buf := tp_snd_buf b - 1, tp_snd_queuelen := tp_snd_queuelen b + 1\<rparr>) \<and>
    tcp_active_pcbs s' = pcb \<and> next_iss s' = iss \<and> sg_next (tcp_seg s' g) = NULL \<and>
    memp_avail T_MEMP_TCP_SEG s' gs \<and> pbuf_avail s' xs \<and> sent s' = sent s @ [frame] \<and>
    netif s' = netif s \<and> netif_list s' = netif_list s \<and> netif_default s' = netif_default s \<and>
    (\<forall>j us. j \<noteq> T_MEMP_TCP_SEG \<longrightarrow> memp_avail j s us \<longrightarrow> memp_avail j s' us) \<and>
    ip_parse frame = Some (lip, ip, tp_ttl b, tp_tos b, T_IP_PROTO_TCP,
      tcp_header lp port (iss - 1) 0 0x6002 14000 c @ [2, 4, 5, 0x78]) \<and>
    tcp_sum_ok lip ip (tcp_header lp port (iss - 1) 0 0x6002 14000 c @ [2, 4, 5, 0x78])"
proof -
  define s1 where "s1 = connect_start pcb ip port conn s"
  define b1 where "b1 = connect_pcb ip port conn lp iss (tcp_active_pcbs s) b"
  have s1: "s1 = s\<lparr>new_port_times := new_port_times s1, next_iss := iss, tcp_active_pcbs := pcb,
      tcp_pcb := (tcp_pcb s)(pcb := b1)\<rparr>"
    by (simp add: s1_def connect_start_def Let_def b1_def b(1) iss lp)
  have same: "pbuf s1 = pbuf s" "netif s1 = netif s" "netif_list s1 = netif_list s" "netif_default s1 = netif_default s"
    "tcp_ticks s1 = tcp_ticks s" "sent s1 = sent s" "tcp_pcb s1 = (tcp_pcb s)(pcb := b1)"
    "memp_tab s1 = memp_tab s" "memp_next s1 = memp_next s" "pbuf_pool s1 = pbuf_pool s"
    "tcp_active_pcbs s1 = pcb" "next_iss s1 = iss"
    by (subst s1, simp)+
  have p1: "tp_unsent b1 = NULL" "tp_unacked b1 = NULL" "tp_snd_queuelen b1 < 40" "tp_flags b1 AND TF_ACK_NOW = 0"
    "tp_local_ip b1 = 0" "tp_remote_ip b1 = ip" "tp_snd_lbb b1 = iss - 1" "tp_lastack b1 = iss - 1" "tp_snd_wnd b1 = 14000"
    "tp_cwnd b1 = 1" "tp_state b1 = SYN_SENT" "tp_local_port b1 = lp" "tp_remote_port b1 = port" "tp_rcv_nxt b1 = 0"
    "tp_rcv_wnd b1 = 14000" "tp_mss b1 = 1400" "tp_ttl b1 = tp_ttl b" "tp_tos b1 = tp_tos b"
    "tp_snd_buf b1 = tp_snd_buf b" "tp_snd_queuelen b1 = tp_snd_queuelen b"
    using b by (simp_all add: b1_def connect_pcb_def)
  have av1: "memp_avail T_MEMP_TCP_SEG s1 (g # gs)" "pbuf_avail s1 (x # xs)"
    using av by (simp_all add: memp_avail_def pbuf_avail_def same)
  have "b1 = tcp_pcb s1 pcb" by (simp add: same)
  from enqueue_syn_result [OF this b(2) p1(1,3) av1, of "[2, 4, 5, 0x78]"] obtain s2 c1 a w z where e:
    "t_tcp_enqueue pcb NULL 0 TCP_SYN 0 (Some [2, 4, 5, 0x78]) 4 s1 = Some (0, s2)"
    "s2 = s1\<lparr>memp_tab := memp_tab s2, memp_next := memp_next s2, now_count := now_count s2, mem := mem s2,
      pbuf := (pbuf s1)(x := c1), pbuf_pool := pbuf_pool s2,
      tcp_seg := (tcp_seg s1)(g := \<lparr>sg_next = NULL, sg_p = x, sg_dataptr = x + 86, sg_len = 0, sg_tcphdr = x + 66\<rparr>),
      tcp_pcb := (tcp_pcb s1)(pcb := b1\<lparr>tp_unsent := g, tp_snd_lbb := tp_snd_lbb b1 + 1,
        tp_snd_buf := tp_snd_buf b1 - 1, tp_snd_queuelen := tp_snd_queuelen b1 + 1\<rparr>)\<rparr>"
    "memp_avail T_MEMP_TCP_SEG s2 gs" "pbuf_avail s2 xs"
    "\<forall>j us. j \<noteq> T_MEMP_TCP_SEG \<longrightarrow> memp_avail j s1 us \<longrightarrow> memp_avail j s2 us"
    "pb_payload c1 = x + 66" "pb_tot_len c1 = 24" "pb_len c1 = 24" "pb_next c1 = NULL" "pb_ref c1 = 1"
    "pb_flags c1 = T_PBUF_FLAG_POOL"
    "tcp_fields (x + 66) s2 = (tp_local_port b1, tp_remote_port b1, tp_snd_lbb b1, a, 0x6002, w, z, 0)"
    "load_bytes (x + 86) 4 s2 = [2, 4, 5, 0x78]" by auto
  define b2 where "b2 = b1\<lparr>tp_unsent := g, tp_snd_lbb := iss, tp_snd_buf := tp_snd_buf b - 1,
    tp_snd_queuelen := tp_snd_queuelen b + 1\<rparr>"
  have same2: "pbuf s2 = (pbuf s)(x := c1)" "netif s2 = netif s" "netif_list s2 = netif_list s"
    "netif_default s2 = netif_default s" "tcp_ticks s2 = tcp_ticks s" "sent s2 = sent s" "tcp_pcb s2 = (tcp_pcb s)(pcb := b2)"
    "tcp_seg s2 g = \<lparr>sg_next = NULL, sg_p = x, sg_dataptr = x + 86, sg_len = 0, sg_tcphdr = x + 66\<rparr>"
    "tcp_active_pcbs s2 = pcb" "next_iss s2 = iss"
    by (subst e(2), simp add: same b2_def p1)+
  have x: "x \<in> set pbuf_slots" "x \<notin> set xs" using pbuf_avail_head [OF av(2)] by blast+
  have p2: "b2 = tcp_pcb s2 pcb" "tp_unsent b2 = g" "tp_unacked b2 = NULL" "tp_flags b2 AND TF_ACK_NOW = 0"
    "tp_state b2 = SYN_SENT" by (simp_all add: same2 b2_def p1)
  have g: "g \<noteq> NULL" using memp.avail_objs [OF av(1)] memp_objs_pos by auto
  have "(1 :: u32) \<le> 14000" by simp
  then have win: "tp_snd_lbb b1 - tp_lastack b2 \<le> min (tp_snd_wnd b2) (ucast (tp_cwnd b2))"
    by (simp add: b2_def p1)
  have pb: "pbuf s2 x = c1" by (simp add: same2)
  have room: "ip_room s2 x"
    using x(1) e(6-11) by (simp add: ip_room_def pbuf_wf_def pb sizeof_t_pbuf_def pbuf_slot_eq)
  have "t_ip_route d s2 = t_ip_route d s" for d by (rule ip_route_frame) (simp_all add: same2)
  then have via: "seg_via b2 s2 m lip n" using route by (simp add: seg_via_def ip_via_def same2 b2_def p1)
  have up2: "netif_up s2 n" using up by (simp add: netif_up_def same2)
  from output_syn_result [OF p2(1) b(2) p2(2-5) g same2(8) e(12) win pb e(6,8,9) room via up2] obtain s' frame c where o:
    "t_tcp_output pcb s2 = Some (0, s')"
    "s' = s2\<lparr>mem := mem s', pbuf := (pbuf s2)(x := c1\<lparr>pb_payload := x + 66 - 34, pb_tot_len := 58, pb_len := 58\<rparr>),
      sent := sent s2 @ [frame], tcp_pcb := (tcp_pcb s2)(pcb := syn_sent_pcb lip (tcp_ticks s2) (tp_snd_lbb b1) g b2)\<rparr>"
    "ip_parse frame = Some (lip, tp_remote_ip b2, tp_ttl b2, tp_tos b2, T_IP_PROTO_TCP,
      tcp_header (tp_local_port b1) (tp_remote_port b1) (tp_snd_lbb b1) (tp_rcv_nxt b2) 0x6002 (adv_wnd b2) c @
        load_bytes (x + 66 + 20) 4 s2)"
    "tcp_sum_ok lip (tp_remote_ip b2)
      (tcp_header (tp_local_port b1) (tp_remote_port b1) (tp_snd_lbb b1) (tp_rcv_nxt b2) 0x6002 (adv_wnd b2) c @
        load_bytes (x + 66 + 20) 4 s2)" by blast
  have "x + 66 + 20 = x + 86" by simp
  note o34 = o(3,4) [unfolded this e(13)]
  have vals: "tp_remote_ip b2 = ip" "tp_ttl b2 = tp_ttl b" "tp_tos b2 = tp_tos b" "tp_rcv_nxt b2 = 0" "adv_wnd b2 = 14000"
    by (simp_all add: b2_def p1 adv_wnd_def)
  have run: "t_tcp_connect pcb ip port conn s = Some (0, s')"
    unfolding connect_prepares [OF b(2)] s1_def [symmetric] e(1) by (simp add: o(1))
  have "tcp_pcb s' = (tcp_pcb s)(pcb := syn_sent_pcb lip (tcp_ticks s) (iss - 1) g b2)"
    "tcp_active_pcbs s' = pcb" "next_iss s' = iss" "tcp_seg s' = tcp_seg s2" "sent s' = sent s @ [frame]"
    "memp_tab s' = memp_tab s2" "memp_next s' = memp_next s2" "pbuf_pool s' = pbuf_pool s2"
    "pbuf s' = (pbuf s2)(x := c1\<lparr>pb_payload := x + 66 - 34, pb_tot_len := 58, pb_len := 58\<rparr>)"
    "netif s' = netif s" "netif_list s' = netif_list s" "netif_default s' = netif_default s"
    by (subst o(2), simp add: same2 p1)+
  note same3 = this
  have "memp_avail T_MEMP_TCP_SEG s' gs" using e(3) by (simp add: memp_avail_def same3)
  moreover have "pbuf_avail s' xs" using e(4) x(2) by (auto simp: pbuf_avail_def same3)
  moreover have "\<forall>j us. j \<noteq> T_MEMP_TCP_SEG \<longrightarrow> memp_avail j s us \<longrightarrow> memp_avail j s' us"
    using e(5) by (simp add: memp_avail_def same same3)
  ultimately show ?thesis using run same3(1-5,10-12) o34 unfolding vals p1 b1_def [symmetric] b2_def [symmetric]
    by (intro exI [of _ s'] exI [of _ frame] exI [of _ c] exI [of _ "syn_sent_pcb lip (tcp_ticks s) (iss - 1) g b2"])
      (simp add: same2)
qed

text \<open>C1: Opening a connection with a fresh block puts exactly one frame on the wire, a SYN with a correct
  checksum, the sequence number before the initial one, the full receive window and the option for
  the maximum segment size of 1400 bytes.  The block becomes the first active one, in state
  \<^verbatim>\<open>SYN_SENT\<close>, takes the address of the interface, and keeps the SYN as its only unacknowledged segment;
  one segment and one buffer leave their pools, and no other block changes.\<close>

theorem tcp_connect_spec:
  assumes "b = tcp_pcb s pcb" "pcb \<noteq> NULL" "tp_unsent b = NULL" "tp_unacked b = NULL" "tp_snd_queuelen b < 40"
      "tp_flags b AND TF_ACK_NOW = 0" "tp_local_ip b = 0"
    and "memp_avail T_MEMP_TCP_SEG s (g # gs)" "pbuf_avail s (x # xs)"
    and "t_ip_route ip s = Some m" "m \<noteq> NULL" "lip = nif_ip_addr (netif s m)" "ip_via m (Val ip) s n"
    and "netif_up s n" and "iss = next_iss s + tcp_ticks s"
    and "lp = (if tp_local_port b = 0 then of_int (4097 + new_port_times s) else tp_local_port b)"
  shows "\<exists>s' frame c. t_tcp_connect pcb ip port conn s = Some (0, s') \<and>
    tp_state (tcp_pcb s' pcb) = SYN_SENT \<and> tp_connected (tcp_pcb s' pcb) = conn \<and>
    tp_local_ip (tcp_pcb s' pcb) = lip \<and> tp_local_port (tcp_pcb s' pcb) = lp \<and>
    tp_remote_ip (tcp_pcb s' pcb) = ip \<and> tp_remote_port (tcp_pcb s' pcb) = port \<and>
    tp_lastack (tcp_pcb s' pcb) = iss - 1 \<and> tp_snd_nxt (tcp_pcb s' pcb) = iss \<and> tp_snd_lbb (tcp_pcb s' pcb) = iss \<and>
    tp_unsent (tcp_pcb s' pcb) = NULL \<and> tp_unacked (tcp_pcb s' pcb) = g \<and> sg_next (tcp_seg s' g) = NULL \<and>
    tcp_active_pcbs s' = pcb \<and> tp_next (tcp_pcb s' pcb) = tcp_active_pcbs s \<and>
    (\<forall>q. q \<noteq> pcb \<longrightarrow> tcp_pcb s' q = tcp_pcb s q) \<and>
    memp_avail T_MEMP_TCP_SEG s' gs \<and> pbuf_avail s' xs \<and> sent s' = sent s @ [frame] \<and>
    ip_parse frame = Some (lip, ip, tp_ttl b, tp_tos b, T_IP_PROTO_TCP,
      tcp_header lp port (iss - 1) 0 0x6002 14000 c @ [2, 4, 5, 0x78]) \<and>
    tcp_sum_ok lip ip (tcp_header lp port (iss - 1) 0 0x6002 14000 c @ [2, 4, 5, 0x78])"
proof -
  have "lp = connect_port b s" using assms(16) by (simp add: connect_port_def)
  from connect_result [OF assms(1-15) this] obtain s' frame c where o:
    "t_tcp_connect pcb ip port conn s = Some (0, s')" "tcp_active_pcbs s' = pcb" "sg_next (tcp_seg s' g) = NULL"
    "tcp_pcb s' = (tcp_pcb s)(pcb := syn_sent_pcb lip (tcp_ticks s) (iss - 1) g
      ((connect_pcb ip port conn lp iss (tcp_active_pcbs s) b)\<lparr>
      tp_unsent := g, tp_snd_lbb := iss, tp_snd_buf := tp_snd_buf b - 1, tp_snd_queuelen := tp_snd_queuelen b + 1\<rparr>))"
    "memp_avail T_MEMP_TCP_SEG s' gs" "pbuf_avail s' xs" "sent s' = sent s @ [frame]"
    "ip_parse frame = Some (lip, ip, tp_ttl b, tp_tos b, T_IP_PROTO_TCP,
      tcp_header lp port (iss - 1) 0 0x6002 14000 c @ [2, 4, 5, 0x78])"
    "tcp_sum_ok lip ip (tcp_header lp port (iss - 1) 0 0x6002 14000 c @ [2, 4, 5, 0x78])" by blast
  then show ?thesis
    by (intro exI [of _ s'] exI [of _ frame] exI [of _ c]) (simp add: syn_sent_pcb_def seg_sent_pcb_def connect_pcb_def)
qed

lemma online_memp: "memp_avail i (online s) av = memp_avail i s av"
proof -
  have "memp_tab (t_pbuf_init s) = memp_tab s" "memp_next (t_pbuf_init s) = memp_next s"
    by (subst pbuf_init_frame, simp)+
  then show ?thesis by (simp add: memp_avail_def online_def)
qed

lemma tcp_online_frame: "tcp_pcb (online s) = tcp_pcb s" "next_iss (online s) = next_iss s"
    "tcp_ticks (online s) = tcp_ticks s" "new_port_times (online s) = new_port_times s"
    "tcp_active_pcbs (online s) = tcp_active_pcbs s" 
  unfolding online_def by (simp, subst pbuf_init_frame, simp)+

text \<open>A state with full pools and one interface.\<close>

abbreviation tcp_start :: tcp_st where "tcp_start \<equiv> online (t_memp_init tcp_boot)"

lemma tcp_start_facts:
  "\<exists>g gs. g \<noteq> NULL \<and> memp_avail T_MEMP_TCP_SEG tcp_start (g # gs)"
  "pbuf_avail tcp_start (pbuf_pool_memory # tl pbuf_slots)" "tcp_pcb tcp_start = (\<lambda>_. tcp_zeroed)"
  "next_iss tcp_start = 6510" "tcp_ticks tcp_start = 0" "new_port_times tcp_start = 0" "tcp_active_pcbs tcp_start = NULL"
proof -
  show "\<exists>g gs. g \<noteq> NULL \<and> memp_avail T_MEMP_TCP_SEG tcp_start (g # gs)"
    using memp_avail_fresh by (auto simp: online_memp)
  show "pbuf_avail tcp_start (pbuf_pool_memory # tl pbuf_slots)"
    using online_facts(2) by (simp flip: pbuf_slots_Cons)
  show "tcp_pcb tcp_start = (\<lambda>_. tcp_zeroed)" "next_iss tcp_start = 6510" "tcp_ticks tcp_start = 0"
    "new_port_times tcp_start = 0" "tcp_active_pcbs tcp_start = NULL"
    unfolding tcp_online_frame by (subst memp_init_frame, simp add: tcp_boot_def udp_st.defs)+
qed

theorem tcp_connect_spec_witness:
  "\<exists>s' frame c. t_tcp_connect 0x500 0x6401A8C0 8080 Tcp_connected tcp_start = Some (0, s') \<and> sent s' = [frame] \<and>
     ip_parse frame = Some (0x7001A8C0, 0x6401A8C0, 0, 0, T_IP_PROTO_TCP,
       tcp_header 4097 8080 6509 0 0x6002 14000 c @ [2, 4, 5, 0x78])"
proof -
  obtain g gs where g: "memp_avail T_MEMP_TCP_SEG tcp_start (g # gs)" using tcp_start_facts(1) by blast
  have r: "t_ip_route d tcp_start = Some 0x300" for d by (rule online_route)
  then have "ip_via 0x300 (Val 0x6401A8C0) tcp_start 0x300" by (simp add: ip_via_def)
  from tcp_connect_spec [OF refl _ _ _ _ _ _ g tcp_start_facts(2) r _ refl this online_facts(1) refl refl,
      of "0x500" 8080 Tcp_connected]
  show ?thesis
    by (simp add: tcp_start_facts online_facts tcp_zeroed_def) blast
qed

text \<open>C36: When there is no segment for the SYN, the call reports the failure, but only after it has put the
  block into state \<^verbatim>\<open>SYN_SENT\<close> and onto the active list, where it stays with nothing to send.\<close>

theorem tcp_connect_no_segment:
  assumes "pcb \<noteq> NULL" and "memp_avail T_MEMP_TCP_SEG s []" and "tp_snd_queuelen (tcp_pcb s pcb) < 40"
  shows "\<exists>s'. t_tcp_connect pcb ip port conn s = Some (-1, s') \<and> tp_state (tcp_pcb s' pcb) = SYN_SENT \<and>
    tcp_active_pcbs s' = pcb \<and> tp_unsent (tcp_pcb s' pcb) = tp_unsent (tcp_pcb s pcb) \<and>
    tp_unacked (tcp_pcb s' pcb) = tp_unacked (tcp_pcb s pcb) \<and> sent s' = sent s"
proof -
  define s1 where "s1 = connect_start pcb ip port conn s"
  have s1: "memp_tab s1 = memp_tab s" "memp_next s1 = memp_next s" "tcp_active_pcbs s1 = pcb" "sent s1 = sent s"
    "tp_state (tcp_pcb s1 pcb) = SYN_SENT" "tp_unsent (tcp_pcb s1 pcb) = tp_unsent (tcp_pcb s pcb)"
    "tp_unacked (tcp_pcb s1 pcb) = tp_unacked (tcp_pcb s pcb)"
    "tp_snd_queuelen (tcp_pcb s1 pcb) = tp_snd_queuelen (tcp_pcb s pcb)"
    by (simp_all add: s1_def connect_start_def connect_pcb_def Let_def)
  have "memp_avail T_MEMP_TCP_SEG s1 []" using assms(2) by (simp add: memp_avail_def s1)
  from memp_malloc_empty [OF this] have m: "t_memp_malloc T_MEMP_TCP_SEG s1 = (NULL, s1)" .
  have "\<not> T_TCP_SND_QUEUELEN \<le> tp_snd_queuelen (tcp_pcb s1 pcb)"
    using assms(3) by (simp add: s1 T_TCP_SND_QUEUELEN_def not_le)
  with assms(1) have "t_tcp_enqueue pcb NULL 0 TCP_SYN 0 (Some [2, 4, 5, 0x78]) 4 s1 = Some (-1, s1)"
    unfolding t_tcp_enqueue_def by (subst enqueue_loop.simps) (simp add: m)
  then have "t_tcp_connect pcb ip port conn s = Some (-1, s1)"
    unfolding connect_prepares [OF assms(1)] s1_def [symmetric] by simp
  with s1 show ?thesis by blast
qed

theorem tcp_connect_no_segment_witness:
  "\<exists>s'. t_tcp_connect 0x500 1 80 No_connected tcp_boot = Some (-1, s') \<and> tcp_active_pcbs s' = 0x500"
proof -
  have "memp_avail T_MEMP_TCP_SEG tcp_boot []" by (simp add: memp_avail_def tcp_boot_def udp_st.defs udp_boot_def
      arp_st.defs arp_boot_def netif_st.defs netif_boot_def pbuf_st.defs pbuf_boot_def memp_st.defs memp_boot_def)
  from tcp_connect_no_segment [OF _ this, of "0x500" 1 80 No_connected] show ?thesis
    by (auto simp: tcp_boot_def udp_st.defs tcp_zeroed_def)
qed

end
