(* ===== verification/Tcp_Write.thy ===== *)
theory Tcp_Write
  imports Tcp_Connect
begin

text \<open>
  Writing data on a connection: how \<^verbatim>\<open>t_tcp_write\<close> cuts it into segments (\<open>t_tcp_enqueue\<close> of
  \<^verbatim>\<open>core/t_tcp_out.c\<close> with data instead of options).
\<close>

section \<open>Cutting data\<close>

text \<open>The pieces the data is cut into: at most \<open>m\<close> bytes each, all but the last with exactly \<open>m\<close>.\<close>

function cut :: "nat \<Rightarrow> u8 list \<Rightarrow> u8 list list" where
  "cut m bs = (if bs = [] \<or> m = 0 then [] else take m bs # cut m (drop m bs))"
  by auto
termination by (relation "measure (\<lambda>(m, bs). length bs)") auto

declare cut.simps [simp del]

lemma cut_Nil [simp]: "cut m [] = []"
  by (subst cut.simps) simp

lemma cut_Cons: "bs \<noteq> [] \<Longrightarrow> 0 < m \<Longrightarrow> cut m bs = take m bs # cut m (drop m bs)"
  by (subst cut.simps) simp

lemma cut_short: "bs \<noteq> [] \<Longrightarrow> length bs < m \<Longrightarrow> cut m bs = [bs]"
  by (subst cut_Cons) auto

lemma cut_one: "bs \<noteq> [] \<Longrightarrow> 0 < m \<Longrightarrow> length (hd (cut m bs)) < m \<Longrightarrow> cut m bs = [bs]"
  using cut_Cons [of bs m] by (intro cut_short) (auto simp: min_def split: if_splits)

lemma cut_sound: "0 < m \<Longrightarrow> concat (cut m bs) = bs \<and> (\<forall>p \<in> set (cut m bs). p \<noteq> [] \<and> length p \<le> m)"
proof (induction "length bs" arbitrary: bs rule: less_induct)
  case less
  show ?case
  proof (cases "bs = []")
    case False
    have c: "cut m bs = take m bs # cut m (drop m bs)" using False less.prems by (rule cut_Cons)
    have "concat (cut m (drop m bs)) = drop m bs \<and> (\<forall>p \<in> set (cut m (drop m bs)). p \<noteq> [] \<and> length p \<le> m)"
      using False less.prems by (intro less.hyps) (cases bs, auto)
    then show ?thesis unfolding c using False less.prems by simp
  qed simp
qed

lemma length_cut: "0 < m \<Longrightarrow> length (cut m bs) = (length bs + m - 1) div m"
proof (induction "length bs" arbitrary: bs rule: less_induct)
  case less
  show ?case
  proof (cases "bs = []")
    case False
    have c: "cut m bs = take m bs # cut m (drop m bs)" using False less.prems by (rule cut_Cons)
    have "length (cut m (drop m bs)) = (length (drop m bs) + m - 1) div m"
      using False less.prems by (intro less.hyps) (cases bs, auto)
    moreover have "length bs + m - 1 = (length bs - 1) + m" using False by (cases bs) auto
    then have "(length bs + m - 1) div m = Suc ((length bs - 1) div m)" using less.prems by (metis Suc_eq_plus1 div_add_self2 less_irrefl)
    moreover have "(length bs - m + m - 1) div m = (length bs - 1) div m"
    proof (cases "length bs \<le> m")
      case True
      then have "length bs - 1 < m" "length bs - m + m - 1 < m" using less.prems by linarith+
      then show ?thesis by simp
    qed simp
    ultimately show ?thesis unfolding c by (simp only: list.size length_drop add_0_right add_Suc_right)
  qed (use less.prems in simp)
qed

section \<open>Queued segments\<close>

definition data_seg :: "t_tcp_pcb \<Rightarrow> u32 \<Rightarrow> u16 \<Rightarrow> u8 list \<Rightarrow> ptr \<Rightarrow> ptr \<Rightarrow> ptr \<Rightarrow> 'a tcp_st_scheme \<Rightarrow> bool" where
  "data_seg b seq hlf bs nxt g x s \<longleftrightarrow>
     tcp_seg s g = \<lparr>sg_next = nxt, sg_p = x, sg_dataptr = x + 86, sg_len = of_nat (length bs), sg_tcphdr = x + 66\<rparr> \<and>
     pb_payload (pbuf s x) = x + 66 \<and> pb_len (pbuf s x) = of_nat (20 + length bs) \<and>
     pb_tot_len (pbuf s x) = of_nat (20 + length bs) \<and> pb_next (pbuf s x) = NULL \<and> pb_ref (pbuf s x) = 1 \<and>
     pb_flags (pbuf s x) = T_PBUF_FLAG_POOL \<and>
     (\<exists>a w z. tcp_fields (x + 66) s = (tp_local_port b, tp_remote_port b, seq, a, hlf, w, z, 0)) \<and>
     load_bytes (x + 86) (length bs) s = bs"

text \<open>Linked segments at \<open>gs\<close> with their buffers \<open>xs\<close>, one for each piece, with consecutive numbers from \<open>seq\<close> on;
  only the last has the flags \<open>f\<close>.\<close>

fun queued :: "t_tcp_pcb \<Rightarrow> u16 \<Rightarrow> u32 \<Rightarrow> u8 list list \<Rightarrow> ptr list \<Rightarrow> ptr list \<Rightarrow> 'a tcp_st_scheme \<Rightarrow> bool" where
  "queued b f seq [] gs xs s = (gs = [] \<and> xs = [])"
| "queued b f seq (bs # ps) (g # gs) (x # xs) s =
     (data_seg b seq (if ps = [] then f else 0x5000) bs (case gs of [] \<Rightarrow> NULL | g' # _ \<Rightarrow> g') g x s \<and>
      queued b f (seq + of_nat (length bs)) ps gs xs s)"
| "queued b f seq ps gs xs s = False"

lemma tcp_fields_frame:
  assumes "\<And>k. k < 20 \<Longrightarrow> mem t (h + k) = mem s (h + k)"
  shows "tcp_fields h t = tcp_fields h s"
  using assms assms [of 0]
  by (simp add: tcp_fields_def load16_def load32_def add.assoc del: add_2_eq_Suc add_2_eq_Suc' add_Suc_right)

lemma data_seg_frame:
  assumes "data_seg b seq hlf bs nxt g x s" and "tcp_seg t g = tcp_seg s g" and "pbuf t x = pbuf s x"
    and m: "\<And>y. x + 66 \<le> y \<Longrightarrow> y < x + pbuf_slot \<Longrightarrow> mem t y = mem s y" and n: "length bs \<le> 1460"
  shows "data_seg b seq hlf bs nxt g x t"
proof -
  have "tcp_fields (x + 66) t = tcp_fields (x + 66) s" by (rule tcp_fields_frame, rule m) (simp_all add: pbuf_slot_eq)
  moreover have "load_bytes (x + 86) (length bs) t = load_bytes (x + 86) (length bs) s"
    using m n by (intro load_bytes_cong) (simp add: pbuf_slot_eq)
  ultimately show ?thesis using assms(1-3) by (simp add: data_seg_def)
qed

lemma queued_frame:
  assumes "queued b f seq ps gs xs s" and "\<And>g. g \<in> set gs \<Longrightarrow> tcp_seg t g = tcp_seg s g"
    and "\<And>x. x \<in> set xs \<Longrightarrow> pbuf t x = pbuf s x"
    and "\<forall>x \<in> set xs. \<forall>y. x + 66 \<le> y \<and> y < x + pbuf_slot \<longrightarrow> mem t y = mem s y"
    and "\<forall>p \<in> set ps. length p \<le> 1460"
  shows "queued b f seq ps gs xs t"
  using assms
proof (induction b f seq ps gs xs s rule: queued.induct)
  case (2 b f seq bs ps g gs x xs s)
  from "2.prems"(1) have q: "data_seg b seq (if ps = [] then f else 0x5000) bs (case gs of [] \<Rightarrow> NULL | g' # _ \<Rightarrow> g') g x s"
    "queued b f (seq + of_nat (length bs)) ps gs xs s" by (simp_all only: queued.simps)
  have "queued b f (seq + of_nat (length bs)) ps gs xs t"
    by (rule "2.IH" [OF q(2)]) (use "2.prems"(2-5) in simp_all)
  moreover have "data_seg b seq (if ps = [] then f else 0x5000) bs (case gs of [] \<Rightarrow> NULL | g' # _ \<Rightarrow> g') g x t"
    by (rule data_seg_frame [OF q(1)]) (use "2.prems"(2-5) in simp_all)
  ultimately show ?case by (simp only: queued.simps)
qed simp_all

lemma queued_lengths: "queued b f seq ps gs xs s \<Longrightarrow> length gs = length ps \<and> length xs = length ps"
  by (induction b f seq ps gs xs s rule: queued.induct) auto

section \<open>One segment\<close>

definition data_stores :: "ptr \<Rightarrow> t_tcp_pcb \<Rightarrow> u32 \<Rightarrow> 'a tcp_st_scheme \<Rightarrow> 'a tcp_st_scheme" where
  "data_stores h b seqno s = T_TCPH_HDRLEN_SET h 5 (T_TCPH_FLAGS_SET h 0
     (store16 (h + 18) 0 (store32 (h + 4) (htonl seqno) (tcp_ports h b s))))"

lemma data_stores_frame: "data_stores h b q s = s\<lparr>mem := mem (data_stores h b q s)\<rparr>"
  by (simp add: data_stores_def tcp_ports_def T_TCPH_FLAGS_SET_def T_TCPH_HDRLEN_SET_def store16_def store32_def)

lemma data_stores_fields:
  "\<exists>a w z. tcp_fields h (data_stores h b q s) = (tp_local_port b, tp_remote_port b, q, a, 0x5000, w, z, 0)"
proof -
  have "push_bit 12 5 OR ((x AND NOT TCP_FLAGS OR ucast (0 :: u8)) AND TCP_FLAGS) = (0x5000 :: u16)" for x
    unfolding hlf_flags by simp
  then show ?thesis
    by (simp add: data_stores_def tcp_fields_def tcp_ports_def T_TCPH_FLAGS_SET_def T_TCPH_HDRLEN_SET_def
        T_TCPH_FLAGS_def mem_simps del: add_2_eq_Suc add_2_eq_Suc')
qed

lemma data_stores_outside: "y < h \<or> h + 20 \<le> y \<Longrightarrow> mem (data_stores h b q s) y = mem s y"
  by (auto simp: data_stores_def tcp_ports_def T_TCPH_FLAGS_SET_def T_TCPH_HDRLEN_SET_def mem_simps)

lemma enqueue_copy_buffer:
  assumes av: "pbuf_avail s (x # xs)" and c: "copy \<noteq> 0" "arg \<noteq> NULL"
    and bs: "length bs = unat seglen" "unat seglen \<le> 1460" "accessible ptr (unat seglen)" "load_bytes ptr (unat seglen) s = bs"
    and ur: "user_range ptr (unat seglen)"
  shows "\<exists>b1 t. enqueue_buffers seg seglen copy arg ptr None ol ql s = Some (Some (ql + 1), t) \<and>
    t = s\<lparr>mem := mem t, pbuf_pool := pb_next (pbuf s x), pbuf := (pbuf s)(x := b1),
        tcp_seg := (tcp_seg s)(seg := (tcp_seg s seg)\<lparr>sg_p := x, sg_dataptr := x + 86\<rparr>)\<rparr> \<and>
    pbuf_avail t xs \<and> (\<forall>y. y < x + 86 \<or> x + 86 + length bs \<le> y \<longrightarrow> mem t y = mem s y) \<and> load_bytes (x + 86) (length bs) t = bs \<and>
    pb_payload b1 = x + 86 \<and> pb_tot_len b1 = seglen \<and> pb_len b1 = seglen \<and> pb_next b1 = NULL \<and> pb_ref b1 = 1 \<and>
    pb_flags b1 = T_PBUF_FLAG_POOL"
proof -
  note h = pbuf_avail_head [OF av]
  have adm: "alloc_admissible (T_PBUF_TRANSPORT, seglen, T_PBUF_FLAG_POOL)"
    using bs(2) unat_add_small [of seglen T_PBUF_TRANSPORT]
    by (simp add: alloc_admissible_def T_PBUF_TRANSPORT_def T_PBUF_BUFSIZE_def)
  let ?b = "(pbuf s x)\<lparr>pb_next := NULL, pb_ref := 1, pb_payload := x + 86, pb_tot_len := seglen, pb_len := seglen\<rparr>"
  define u where "u = s\<lparr>pbuf_pool := pb_next (pbuf s x), pbuf := (pbuf s)(x := ?b)\<rparr>"
  have e: "x + sizeof_t_pbuf + unat T_PBUF_TRANSPORT = x + 86" by (simp add: sizeof_t_pbuf_def T_PBUF_TRANSPORT_def)
  have a: "t_pbuf_alloc T_PBUF_TRANSPORT seglen T_PBUF_FLAG_POOL s = Some (x, u)" "pbuf_avail u xs"
    using pbuf_alloc_next [OF adm av, unfolded e] unfolding u_def by (simp_all only:)
  have acc: "accessible (x + 86) (unat seglen)"
    using h(1) bs(2) by (intro accessible_in_slot [of x]) (simp_all add: sizeof_t_pbuf_def pbuf_slot_eq)
  have same: "load_bytes ptr (unat seglen) (upd_seg seg F u) = bs" for F
    using bs(4) by (simp add: load_bytes_def u_def)
  define t where "t = store_bytes (x + 86) bs (u\<lparr>tcp_seg := (tcp_seg s)(seg := (tcp_seg s seg)\<lparr>sg_p := x, sg_dataptr := x + 86\<rparr>)\<rparr>)"
  have "enqueue_buffers seg seglen copy arg ptr None ol ql s = Some (Some (ql + 1), t)"
    using a(1) h(3) c acc bs(3) same unfolding enqueue_buffers_def t_def
    by (simp add: Let_def) (simp add: u_def store_bytes_def)
  moreover have "t = s\<lparr>mem := mem t, pbuf_pool := pb_next (pbuf s x), pbuf := (pbuf s)(x := ?b),
        tcp_seg := (tcp_seg s)(seg := (tcp_seg s seg)\<lparr>sg_p := x, sg_dataptr := x + 86\<rparr>)\<rparr>"
    by (simp add: t_def u_def store_bytes_def)
  moreover have "pbuf_avail t xs" using a(2) by (simp add: pbuf_avail_def t_def)
  moreover have "\<forall>y. y < x + 86 \<or> x + 86 + length bs \<le> y \<longrightarrow> mem t y = mem s y" by (auto simp: t_def u_def mem_simps)
  moreover have "load_bytes (x + 86) (length bs) t = bs" by (simp add: t_def)
  ultimately show ?thesis using h(4) by (intro exI [of _ ?b] exI [of _ t]) simp
qed

lemma enqueue_data_header:
  assumes seg: "sg_p (tcp_seg s seg) = x" and x: "x \<in> set pbuf_slots"
    and b1: "pbuf s x = b1" "pb_payload b1 = x + 86" "pb_flags b1 = T_PBUF_FLAG_POOL"
  shows "enqueue_header pcb seg seqno seglen 0 None ol s = Some (True,
    data_stores (x + 66) (tcp_pcb s pcb) seqno (s\<lparr>pbuf := (pbuf s)(x := b1\<lparr>pb_payload := x + 66,
        pb_tot_len := pb_tot_len b1 + 20, pb_len := pb_len b1 + 20\<rparr>),
      tcp_seg := (tcp_seg s)(seg := (tcp_seg s seg)\<lparr>sg_len := seglen, sg_tcphdr := x + 66\<rparr>)\<rparr>))"
proof -
  let ?s = "upd_seg seg (\<lambda>g. g\<lparr>sg_len := seglen\<rparr>) s"
  have p: "x \<noteq> NULL" using pbuf_slots_pos [OF x] by simp
  have n: "nat (66 + int x) = x + 66" by simp
  have "header_fits ?s x (- int T_TCP_HLEN)"
    using b1 by (simp add: header_fits_def T_TCP_HLEN_def sizeof_t_pbuf_def T_PBUF_BUFSIZE_def)
  from pbuf_header_moves [OF p _ this] have h: "t_pbuf_header x (- int T_TCP_HLEN) ?s =
      Some (0, upd_pbuf x (\<lambda>b. b\<lparr>pb_payload := x + 66, pb_tot_len := pb_tot_len b + 20, pb_len := pb_len b + 20\<rparr>) ?s)"
    using b1 n by (simp add: T_TCP_HLEN_def)
  have acc: "accessible (x + 66) 20"
    using x by (auto intro!: accessible_in_slot [of x] simp: sizeof_t_pbuf_def pbuf_slot_eq)
  show ?thesis unfolding enqueue_header_def Let_def data_stores_def using h seg acc b1 by simp
qed

definition linked_seg :: "ptr \<Rightarrow> ptr \<Rightarrow> ptr \<Rightarrow> (ptr \<Rightarrow> t_tcp_seg) \<Rightarrow> (ptr \<Rightarrow> t_tcp_seg)" where
  "linked_seg queue useg g f = (if queue = NULL then f else f(useg := (f useg)\<lparr>sg_next := g\<rparr>))"

text \<open>The first half of an iteration: a segment is allocated and linked behind the queue.\<close>

lemma enqueue_linked:
  assumes more: "queue = NULL \<or> 0 < left" and useg: "queue \<noteq> NULL \<longrightarrow> useg \<noteq> g"
    and m: "tp_mss (tcp_pcb s pcb) = m" and sl: "seglen = (if ucast m < left then m else ucast left)"
    and av: "memp_avail T_MEMP_TCP_SEG s (g # gs)" and q: "queue' = (if queue = NULL then g else queue)"
  shows "\<exists>t. enqueue_loop pcb arg 0 copy None ol left seqno ptr ql useg queue sl' s =
      Option.bind (enqueue_buffers g seglen copy arg ptr None ol ql t) (\<lambda>(r, s). case r of
          None \<Rightarrow> Some (Inl queue', s)
        | Some queuelen \<Rightarrow>
            if T_TCP_SND_QUEUELEN < queuelen then Some (Inl queue', s)
            else Option.bind (enqueue_header pcb g seqno seglen 0 None ol s)
              (\<lambda>(ok, s). if \<not> ok then Some (Inl queue', s)
                 else enqueue_loop pcb arg 0 copy None ol (left - ucast seglen) (seqno + ucast seglen)
                   (ptr + unat seglen) queuelen g queue' seglen s)) \<and>
    t = s\<lparr>memp_tab := memp_tab t, memp_next := memp_next t, now_count := now_count t,
      tcp_seg := (linked_seg queue useg g (tcp_seg s))(g := (tcp_seg s g)\<lparr>sg_next := NULL, sg_p := NULL\<rparr>)\<rparr> \<and>
    memp_avail T_MEMP_TCP_SEG t gs \<and> memp_owned t g \<and> (\<forall>y. memp_owned s y \<longrightarrow> memp_owned t y)"
proof -
  from memp_malloc_next [OF av] obtain u where u: "t_memp_malloc T_MEMP_TCP_SEG s = (g, u)"
    "memp_avail T_MEMP_TCP_SEG u gs" "memp_owned u g" "\<forall>y. memp_owned s y \<longrightarrow> memp_owned u y"
    "u = s\<lparr>memp_tab := memp_tab u, memp_next := memp_next u, now_count := now_count s + 1\<rparr>" by blast
  have g: "g \<noteq> NULL" using memp.avail_objs [OF av] memp_objs_pos by auto
  have uf: "tcp_pcb u = tcp_pcb s" "tcp_seg u = tcp_seg s" by (subst u(5), simp)+
  define t1 where "t1 = upd_seg g (\<lambda>v. v\<lparr>sg_p := NULL\<rparr>) (upd_seg g (\<lambda>v. v\<lparr>sg_next := NULL\<rparr>) u)"
  define t where "t = t1\<lparr>tcp_seg := linked_seg queue useg g (tcp_seg t1)\<rparr>"
  have link: "(if queue = NULL then (g, t1) else (queue, upd_seg useg (\<lambda>v. v\<lparr>sg_next := g\<rparr>) t1)) = (queue', t)"
    by (simp add: t_def linked_seg_def q)
  have seg: "tcp_seg t = (linked_seg queue useg g (tcp_seg s))(g := (tcp_seg s g)\<lparr>sg_next := NULL, sg_p := NULL\<rparr>)"
    using useg by (auto simp: t_def t1_def uf linked_seg_def)
  have p: "memp_tab t = memp_tab u" "memp_next t = memp_next u" "now_count t = now_count u" by (simp_all add: t_def t1_def)
  have e: "t = u\<lparr>tcp_seg := tcp_seg t\<rparr>" by (simp add: t_def t1_def)
  have nc: "now_count u = now_count s + 1" by (subst u(5), simp)
  have "t = s\<lparr>memp_tab := memp_tab t, memp_next := memp_next t, now_count := now_count t, tcp_seg := tcp_seg t\<rparr>"
    unfolding p by (subst e, subst u(5)) (simp add: nc)
  moreover note seg
  moreover have "memp_avail T_MEMP_TCP_SEG t gs" "memp_owned t g" "\<forall>y. memp_owned s y \<longrightarrow> memp_owned t y"
    using u(2-4) by (simp_all add: memp_avail_def memp_owned_def p)
  ultimately show ?thesis using more g
    by (intro exI [of _ t], subst enqueue_loop.simps) (simp only: m sl [symmetric] u(1) Let_def prod.case if_True simp_thms
        if_False t1_def [symmetric] link)
qed

text \<open>The second half: the data is copied into a buffer, and the header is put in front of it.\<close>

lemma enqueue_filled:
  assumes av: "pbuf_avail s (x # xs)" and nx: "sg_next (tcp_seg s g) = NULL" and c: "copy \<noteq> 0" "arg \<noteq> NULL"
    and bs: "length bs = unat seglen" "unat seglen \<le> 1460" "load_bytes ptr (unat seglen) s = bs"
    and ur: "user_range ptr (unat seglen)"
  shows "\<exists>u t b1. enqueue_buffers g seglen copy arg ptr None ol ql s = Some (Some (ql + 1), u) \<and>
    enqueue_header pcb g seqno seglen 0 None ol u = Some (True, t) \<and>
    t = s\<lparr>mem := mem t, pbuf := (pbuf s)(x := b1), pbuf_pool := pb_next (pbuf s x), tcp_seg := (tcp_seg s)(g :=
        \<lparr>sg_next = NULL, sg_p = x, sg_dataptr = x + 86, sg_len = seglen, sg_tcphdr = x + 66\<rparr>)\<rparr> \<and>
    pbuf_avail t xs \<and> (\<forall>y. y < x + 66 \<or> x + pbuf_slot \<le> y \<longrightarrow> mem t y = mem s y) \<and>
    data_seg (tcp_pcb s pcb) seqno 0x5000 bs NULL g x t"
proof -
  note h = pbuf_avail_head [OF av]
  have acc: "accessible ptr (unat seglen)" using ur by (simp add: accessible_def)
  from enqueue_copy_buffer [OF av c bs(1,2) acc bs(3) ur, of g ol ql] obtain b0 u where eb:
    "enqueue_buffers g seglen copy arg ptr None ol ql s = Some (Some (ql + 1), u)"
    "u = s\<lparr>mem := mem u, pbuf_pool := pb_next (pbuf s x), pbuf := (pbuf s)(x := b0),
        tcp_seg := (tcp_seg s)(g := (tcp_seg s g)\<lparr>sg_p := x, sg_dataptr := x + 86\<rparr>)\<rparr>"
    "pbuf_avail u xs" "\<forall>y. y < x + 86 \<or> x + 86 + length bs \<le> y \<longrightarrow> mem u y = mem s y"
    "load_bytes (x + 86) (length bs) u = bs"
    "pb_payload b0 = x + 86" "pb_tot_len b0 = seglen" "pb_len b0 = seglen" "pb_next b0 = NULL" "pb_ref b0 = 1"
    "pb_flags b0 = T_PBUF_FLAG_POOL" by blast
  have u: "tcp_pcb u = tcp_pcb s" "pbuf u = (pbuf s)(x := b0)" "sg_p (tcp_seg u g) = x" "pbuf_pool u = pb_next (pbuf s x)"
    "tcp_seg u = (tcp_seg s)(g := (tcp_seg s g)\<lparr>sg_p := x, sg_dataptr := x + 86\<rparr>)" "pbuf u x = b0"
    by (subst eb(2), simp)+
  define b1 where "b1 = b0\<lparr>pb_payload := x + 66, pb_tot_len := pb_tot_len b0 + 20, pb_len := pb_len b0 + 20\<rparr>"
  define t where "t = data_stores (x + 66) (tcp_pcb s pcb) seqno (u\<lparr>pbuf := (pbuf u)(x := b1),
      tcp_seg := (tcp_seg u)(g := (tcp_seg u g)\<lparr>sg_len := seglen, sg_tcphdr := x + 66\<rparr>)\<rparr>)"
  from enqueue_data_header [OF u(3) h(1) u(6) eb(6,11), of pcb seqno seglen ol]
  have eh: "enqueue_header pcb g seqno seglen 0 None ol u = Some (True, t)" unfolding t_def b1_def u(1) .
  have seg: "(tcp_seg s g)\<lparr>sg_p := x, sg_dataptr := x + 86, sg_len := seglen, sg_tcphdr := x + 66\<rparr> =
      \<lparr>sg_next = NULL, sg_p = x, sg_dataptr = x + 86, sg_len = seglen, sg_tcphdr = x + 66\<rparr>"
    using nx by (cases "tcp_seg s g") simp
  have tf: "t = s\<lparr>mem := mem t, pbuf := (pbuf s)(x := b1), pbuf_pool := pb_next (pbuf s x), tcp_seg := (tcp_seg s)(g :=
        \<lparr>sg_next = NULL, sg_p = x, sg_dataptr = x + 86, sg_len = seglen, sg_tcphdr = x + 66\<rparr>)\<rparr>"
  proof -
    have "t = u\<lparr>mem := mem t, pbuf := (pbuf s)(x := b1), tcp_seg := (tcp_seg s)(g :=
        \<lparr>sg_next = NULL, sg_p = x, sg_dataptr = x + 86, sg_len = seglen, sg_tcphdr = x + 66\<rparr>)\<rparr>"
      unfolding t_def by (subst data_stores_frame) (simp add: u(2,5) seg)
    also have "\<dots> = s\<lparr>mem := mem t, pbuf := (pbuf s)(x := b1), pbuf_pool := pb_next (pbuf s x), tcp_seg := (tcp_seg s)(g :=
        \<lparr>sg_next = NULL, sg_p = x, sg_dataptr = x + 86, sg_len = seglen, sg_tcphdr = x + 66\<rparr>)\<rparr>"
      by (subst eb(2), rule tcp_st.equality) simp_all
    finally show ?thesis .
  qed
  have p: "pbuf_pool t = pb_next (pbuf s x)" "pbuf t = (pbuf s)(x := b1)"
    "tcp_seg t g = \<lparr>sg_next = NULL, sg_p = x, sg_dataptr = x + 86, sg_len = seglen, sg_tcphdr = x + 66\<rparr>"
    by (subst tf, simp)+
  have mo: "mem t y = mem s y" if "y < x + 66 \<or> x + pbuf_slot \<le> y" for y
  proof -
    have "mem t y = mem u y" using that unfolding t_def by (subst data_stores_outside) (auto simp: pbuf_slot_eq)
    also have "\<dots> = mem s y" using that eb(4) bs(1,2) by (auto simp: pbuf_slot_eq)
    finally show ?thesis .
  qed
  have pt: "pbuf_avail t xs" using eb(3) h(2) by (auto simp: pbuf_avail_def p u(2,4))
  have ds: "data_seg (tcp_pcb s pcb) seqno 0x5000 bs NULL g x t"
  proof -
    have "load_bytes (x + 86) (length bs) t = load_bytes (x + 86) (length bs) u"
      by (rule load_bytes_cong) (simp add: t_def data_stores_outside)
    then have "load_bytes (x + 86) (length bs) t = bs" using eb(5) by simp
    moreover have "\<exists>a w z. tcp_fields (x + 66) t = (tp_local_port (tcp_pcb s pcb), tp_remote_port (tcp_pcb s pcb), seqno, a, 0x5000, w, z, 0)"
      unfolding t_def by (rule data_stores_fields)
    ultimately show ?thesis using eb(6-11) by (simp add: data_seg_def p bs(1) b1_def add.commute)
  qed
  show ?thesis using eb(1) eh tf mo pt ds by blast
qed

lemma enqueue_step:
  assumes more: "queue = NULL \<or> 0 < left" and useg: "queue \<noteq> NULL \<longrightarrow> useg \<noteq> g"
    and m: "tp_mss (tcp_pcb s pcb) = m" and sl: "seglen = (if ucast m < left then m else ucast left)"
    and av: "memp_avail T_MEMP_TCP_SEG s (g # gs)" "pbuf_avail s (x # xs)" and ql: "ql < 40"
    and c: "copy \<noteq> 0" "arg \<noteq> NULL"
    and bs: "length bs = unat seglen" "unat seglen \<le> 1460" "load_bytes ptr (unat seglen) s = bs"
    and ur: "user_range ptr (unat seglen)"
  shows "\<exists>t b1. enqueue_loop pcb arg 0 copy None ol left seqno ptr ql useg queue sl' s =
      enqueue_loop pcb arg 0 copy None ol (left - ucast seglen) (seqno + ucast seglen) (ptr + unat seglen) (ql + 1) g
        (if queue = NULL then g else queue) seglen t \<and>
    t = s\<lparr>memp_tab := memp_tab t, memp_next := memp_next t, now_count := now_count t, mem := mem t,
      pbuf := (pbuf s)(x := b1), pbuf_pool := pbuf_pool t, tcp_seg := (linked_seg queue useg g (tcp_seg s))(g :=
        \<lparr>sg_next = NULL, sg_p = x, sg_dataptr = x + 86, sg_len = seglen, sg_tcphdr = x + 66\<rparr>)\<rparr> \<and>
    memp_avail T_MEMP_TCP_SEG t gs \<and> memp_owned t g \<and> (\<forall>y. memp_owned s y \<longrightarrow> memp_owned t y) \<and>
    pbuf_avail t xs \<and> (\<forall>y. y < x + 66 \<or> x + pbuf_slot \<le> y \<longrightarrow> mem t y = mem s y) \<and>
    data_seg (tcp_pcb s pcb) seqno 0x5000 bs NULL g x t"
proof -
  define queue' where "queue' = (if queue = NULL then g else queue)"
  from enqueue_linked [OF more useg m sl av(1) queue'_def, of arg copy ol seqno ptr ql sl'] obtain u where
    u: "enqueue_loop pcb arg 0 copy None ol left seqno ptr ql useg queue sl' s =
      Option.bind (enqueue_buffers g seglen copy arg ptr None ol ql u) (\<lambda>(r, s). case r of
          None \<Rightarrow> Some (Inl queue', s)
        | Some queuelen \<Rightarrow>
            if T_TCP_SND_QUEUELEN < queuelen then Some (Inl queue', s)
            else Option.bind (enqueue_header pcb g seqno seglen 0 None ol s)
              (\<lambda>(ok, s). if \<not> ok then Some (Inl queue', s)
                 else enqueue_loop pcb arg 0 copy None ol (left - ucast seglen) (seqno + ucast seglen)
                   (ptr + unat seglen) queuelen g queue' seglen s))"
    "u = s\<lparr>memp_tab := memp_tab u, memp_next := memp_next u, now_count := now_count u,
      tcp_seg := (linked_seg queue useg g (tcp_seg s))(g := (tcp_seg s g)\<lparr>sg_next := NULL, sg_p := NULL\<rparr>)\<rparr>"
    "memp_avail T_MEMP_TCP_SEG u gs" "memp_owned u g" "\<forall>y. memp_owned s y \<longrightarrow> memp_owned u y" by blast
  have uf: "pbuf u = pbuf s" "pbuf_pool u = pbuf_pool s" "mem u = mem s" "tcp_pcb u = tcp_pcb s" "sg_next (tcp_seg u g) = NULL"
    "(tcp_seg u)(g := v) = (linked_seg queue useg g (tcp_seg s))(g := v)" for v
    by (subst u(2), simp)+
  have pre: "pbuf_avail u (x # xs)" "load_bytes ptr (unat seglen) u = bs"
    using av(2) bs(3) by (simp_all add: pbuf_avail_def load_bytes_def uf)
  from enqueue_filled [OF pre(1) uf(5) c bs(1,2) pre(2) ur, of ol ql pcb seqno] obtain v t b1 where
    t: "enqueue_buffers g seglen copy arg ptr None ol ql u = Some (Some (ql + 1), v)"
    "enqueue_header pcb g seqno seglen 0 None ol v = Some (True, t)"
    "t = u\<lparr>mem := mem t, pbuf := (pbuf u)(x := b1), pbuf_pool := pb_next (pbuf u x), tcp_seg := (tcp_seg u)(g :=
        \<lparr>sg_next = NULL, sg_p = x, sg_dataptr = x + 86, sg_len = seglen, sg_tcphdr = x + 66\<rparr>)\<rparr>"
    "pbuf_avail t xs" "\<forall>y. y < x + 66 \<or> x + pbuf_slot \<le> y \<longrightarrow> mem t y = mem u y"
    "data_seg (tcp_pcb u pcb) seqno 0x5000 bs NULL g x t" by blast
  have p: "memp_tab t = memp_tab u" "memp_next t = memp_next u" "now_count t = now_count u" "pbuf_pool t = pb_next (pbuf s x)"
    by (subst t(3), simp add: uf)+
  have "\<not> T_TCP_SND_QUEUELEN < ql + 1" using ql by (simp add: T_TCP_SND_QUEUELEN_def) unat_arith
  then have "enqueue_loop pcb arg 0 copy None ol left seqno ptr ql useg queue sl' s =
      enqueue_loop pcb arg 0 copy None ol (left - ucast seglen) (seqno + ucast seglen) (ptr + unat seglen) (ql + 1) g queue' seglen t"
    unfolding u(1) by (simp add: t(1,2))
  moreover have "t = s\<lparr>memp_tab := memp_tab t, memp_next := memp_next t, now_count := now_count t, mem := mem t,
      pbuf := (pbuf s)(x := b1), pbuf_pool := pbuf_pool t, tcp_seg := (linked_seg queue useg g (tcp_seg s))(g :=
        \<lparr>sg_next = NULL, sg_p = x, sg_dataptr = x + 86, sg_len = seglen, sg_tcphdr = x + 66\<rparr>)\<rparr>"
    unfolding p by (subst t(3), subst (1) u(2)) (simp add: uf)
  moreover have "memp_avail T_MEMP_TCP_SEG t gs" "memp_owned t g" "\<forall>y. memp_owned s y \<longrightarrow> memp_owned t y"
    using u(3-5) by (simp_all add: memp_avail_def memp_owned_def p)
  ultimately show ?thesis using t(4-6) unfolding uf queue'_def by blast
qed

section \<open>All segments\<close>

lemma data_seg_relink:
  assumes "data_seg b seq hlf bs nxt g x s" and "tcp_seg t g = (tcp_seg s g)\<lparr>sg_next := nxt'\<rparr>" and "pbuf t x = pbuf s x"
    and m: "\<And>y. x + 66 \<le> y \<Longrightarrow> y < x + pbuf_slot \<Longrightarrow> mem t y = mem s y" and n: "length bs \<le> 1460"
  shows "data_seg b seq hlf bs nxt' g x t"
proof -
  let ?s = "s\<lparr>tcp_seg := (tcp_seg s)(g := (tcp_seg s g)\<lparr>sg_next := nxt'\<rparr>)\<rparr>"
  have "data_seg b seq hlf bs nxt' g x ?s"
    using assms(1) by (simp add: data_seg_def tcp_fields_def load16_def load32_def load_bytes_def)
  then show ?thesis by (rule data_seg_frame) (use assms in simp_all)
qed

lemma seglen_min:
  assumes "sl = (if ucast (m :: u16) < (left :: u32) then m else ucast left)"
  shows "unat sl = min (unat m) (unat left)" "unat (left - ucast sl) = unat left - unat sl"
proof -
  have up: "unat (ucast (v :: u16) :: u32) = unat v" for v
  proof -
    have "unat v < 2 ^ 16" using unsigned_less [of v] by simp
    then show ?thesis by (simp add: unsigned_ucast_eq take_bit_nat_eq_self)
  qed
  note m = up [of m]
  show u: "unat sl = min (unat m) (unat left)"
  proof (cases "ucast m < left")
    case True
    then show ?thesis using assms m by (simp add: word_less_nat_alt)
  next
    case False
    then have "unat left \<le> unat m" using m by (simp add: word_less_nat_alt)
    moreover have "unat m < 2 ^ 16" using unsigned_less [of m] by simp
    then have "unat left < 2 ^ 16" using calculation by linarith
    then have "unat (ucast left :: u16) = unat left" by (simp add: unsigned_ucast_eq take_bit_nat_eq_self)
    ultimately show ?thesis using assms False by simp
  qed
  show "unat (left - ucast sl) = unat left - unat sl" using u up [of sl] by (simp add: unat_sub word_le_nat_alt)
qed

lemma user_range_slot: "user_range a n \<Longrightarrow> x \<in> set pbuf_slots \<Longrightarrow> i < n \<Longrightarrow> a + i < x \<or> x + pbuf_slot \<le> a + i"
proof -
  assume u: "user_range a n" and x: "x \<in> set pbuf_slots" and i: "i < n"
  from x obtain k where k: "x = pbuf_pool_memory + k * pbuf_slot" "k < T_PBUF_POOL_SIZE" by (rule pbuf_slotsE)
  then have "Suc k * pbuf_slot \<le> T_PBUF_POOL_SIZE * pbuf_slot" by (intro mult_le_mono1) simp
  then have "x + pbuf_slot \<le> pbuf_pool_memory + T_PBUF_POOL_SIZE * pbuf_slot" "pbuf_pool_memory \<le> x" using k by simp_all
  moreover have "memp_memory \<le> pbuf_pool_memory" by (simp add: memp_memory_def pbuf_pool_memory_def)
  ultimately show ?thesis using u i unfolding user_range_def by linarith
qed

lemma enqueue_loop_result:
  assumes "tp_mss (tcp_pcb s pcb) = m" and "0 < m" and "unat m \<le> 1460" and "copy \<noteq> 0" and "arg \<noteq> NULL"
    and "load_bytes ptr (unat left) s = bs" and "user_range ptr (unat left)" and "cut (unat m) bs = ps"
    and "length gs = length ps" and "length xs = length ps"
    and "memp_avail T_MEMP_TCP_SEG s (gs @ gs')" and "pbuf_avail s (xs @ xs')"
    and "unat ql + length ps \<le> 40" and "queue = NULL \<longrightarrow> bs \<noteq> []" and "queue \<noteq> NULL \<longrightarrow> useg \<notin> set gs"
  shows "\<exists>s'. enqueue_loop pcb arg 0 copy None ol left seqno ptr ql useg queue sl s = Some (Inr
      (if queue = NULL then hd gs else queue, if gs = [] then useg else last gs,
       if gs = [] then sl else of_nat (length (last ps)), ql + of_nat (length ps)), s') \<and>
    s' = s\<lparr>memp_tab := memp_tab s', memp_next := memp_next s', now_count := now_count s', mem := mem s',
      pbuf := pbuf s', pbuf_pool := pbuf_pool s', tcp_seg := tcp_seg s'\<rparr> \<and>
    memp_avail T_MEMP_TCP_SEG s' gs' \<and> pbuf_avail s' xs' \<and> queued (tcp_pcb s pcb) 0x5000 seqno ps gs xs s' \<and>
    (\<forall>g. g \<notin> set gs \<longrightarrow> tcp_seg s' g = linked_seg (if gs = [] then NULL else queue) useg (hd gs) (tcp_seg s) g) \<and>
    (\<forall>x. x \<notin> set xs \<longrightarrow> pbuf s' x = pbuf s x) \<and>
    (\<forall>y. (\<forall>x \<in> set xs. y < x + 66 \<or> x + pbuf_slot \<le> y) \<longrightarrow> mem s' y = mem s y)"
  using assms
proof (induction gs arbitrary: s left seqno ptr ql useg queue sl bs ps xs)
  case Nil
  then have "ps = []" "xs = []" by simp_all
  moreover have "bs = []" using Nil.prems(2,8) \<open>ps = []\<close> by (cases "bs = []") (auto simp: cut_Cons unat_gt_0)
  moreover from this have "left = 0" using Nil.prems(6) by (metis length_load_bytes list.size(3) unat_eq_zero)
  moreover have "queue \<noteq> NULL" using Nil.prems(14) \<open>bs = []\<close> by blast
  moreover from this have "enqueue_loop pcb arg 0 copy None ol 0 seqno ptr ql useg queue sl s =
      Some (Inr (queue, useg, sl, ql), s)"
    by (subst enqueue_loop.simps) simp
  ultimately show ?case using Nil.prems(11,12) by (intro exI [of _ s]) (simp add: linked_seg_def)
next
  case (Cons g gs)
  note P = Cons.prems
  have len: "length bs = unat left" using P(6) by auto
  obtain x xs1 where xs: "xs = x # xs1" using P(9,10) by (cases xs) auto
  have m: "0 < unat m" using P(2) by (simp add: unat_gt_0)
  have bs: "bs \<noteq> []" using P(8,9) by auto
  define b1 where "b1 = take (unat m) bs"
  define bs' where "bs' = drop (unat m) bs"
  define ps1 where "ps1 = cut (unat m) bs'"
  have ps: "ps = b1 # ps1" using P(8) cut_Cons [OF bs m] by (simp add: b1_def bs'_def ps1_def)
  define seglen where "seglen = (if ucast m < left then m else ucast left)"
  note sm = seglen_min [OF seglen_def]
  have l1: "length b1 = unat seglen" using len by (simp add: b1_def sm(1))
  have l1': "of_nat (length b1) = seglen" "of_nat (length b1) = (ucast seglen :: u32)" unfolding l1
    by simp_all
  have ld1: "load_bytes ptr (unat seglen) s = b1"
    using take_load_bytes [of "unat m" ptr "unat left" s] P(6) by (simp add: b1_def sm(1))
  have ur: "user_range ptr (unat seglen)" "user_range (ptr + unat seglen) (unat (left - ucast seglen))"
    using P(7) sm(1) unfolding sm(2) by (auto simp: user_range_def)
  have av: "memp_avail T_MEMP_TCP_SEG s (g # (gs @ gs'))" "pbuf_avail s (x # (xs1 @ xs'))" using P(11,12) xs by simp_all
  have q40: "ql < 40" using P(13) ps by (simp add: word_less_nat_alt)
  have uq: "unat (ql + 1) = Suc (unat ql)" using q40 unat_add_small [of ql 1] by (simp add: word_less_nat_alt)
  have more: "queue = NULL \<or> 0 < left" using bs len by (cases "left = 0") (auto simp: word_gt_0)
  have ug: "queue \<noteq> NULL \<longrightarrow> useg \<noteq> g" using P(15) by simp
  have s60: "unat seglen \<le> 1460" using P(3) sm(1) by simp
  from enqueue_step [OF more ug P(1) seglen_def av q40 P(4,5) l1 s60 ld1 ur(1), of ol seqno sl] obtain t c1 where st:
    "enqueue_loop pcb arg 0 copy None ol left seqno ptr ql useg queue sl s =
      enqueue_loop pcb arg 0 copy None ol (left - ucast seglen) (seqno + ucast seglen) (ptr + unat seglen) (ql + 1) g
        (if queue = NULL then g else queue) seglen t"
    "t = s\<lparr>memp_tab := memp_tab t, memp_next := memp_next t, now_count := now_count t, mem := mem t,
      pbuf := (pbuf s)(x := c1), pbuf_pool := pbuf_pool t, tcp_seg := (linked_seg queue useg g (tcp_seg s))(g :=
        \<lparr>sg_next = NULL, sg_p = x, sg_dataptr = x + 86, sg_len = seglen, sg_tcphdr = x + 66\<rparr>)\<rparr>"
    "memp_avail T_MEMP_TCP_SEG t (gs @ gs')" "pbuf_avail t (xs1 @ xs')"
    "\<forall>y. y < x + 66 \<or> x + pbuf_slot \<le> y \<longrightarrow> mem t y = mem s y"
    "data_seg (tcp_pcb s pcb) seqno 0x5000 b1 NULL g x t" by blast
  have tf: "tcp_pcb t = tcp_pcb s" "pbuf t = (pbuf s)(x := c1)" "tcp_seg t = (linked_seg queue useg g (tcp_seg s))(g :=
        \<lparr>sg_next = NULL, sg_p = x, sg_dataptr = x + 86, sg_len = seglen, sg_tcphdr = x + 66\<rparr>)" by (subst st(2), simp)+
  have slots: "set (x # xs1) \<subseteq> set pbuf_slots" "x \<notin> set xs1" using P(12) xs pbuf_avail_head(2) [OF av(2)]
    by (auto simp: pbuf_avail_def)
  have gs: "g \<notin> set gs" "g \<noteq> NULL" using memp.avail_distinct [OF av(1)] memp.avail_objs [OF av(1)] memp_objs_pos by auto
  have ld': "load_bytes (ptr + unat seglen) (unat (left - ucast seglen)) t = bs'"
  proof -
    have "load_bytes (ptr + unat seglen) (unat (left - ucast seglen)) t = load_bytes (ptr + unat seglen) (unat left - unat seglen) s"
      unfolding sm(2)
    proof (rule load_bytes_cong)
      fix i assume i: "i < unat left - unat seglen"
      from user_range_slot [OF ur(2), of x i] i slots(1) sm(2)
      have "ptr + unat seglen + i < x + 66 \<or> x + pbuf_slot \<le> ptr + unat seglen + i" by auto
      then show "mem t (ptr + unat seglen + i) = mem s (ptr + unat seglen + i)" using st(5) by blast
    qed
    also have "\<dots> = drop (unat seglen) bs" unfolding P(6) [symmetric] by (rule drop_load_bytes [symmetric]) (simp add: sm(1))
    also have "\<dots> = bs'" unfolding bs'_def using len by (simp add: sm(1) min_def)
    finally show ?thesis .
  qed
  have pre: "tp_mss (tcp_pcb t pcb) = m" "length gs = length ps1" "length xs1 = length ps1" "unat (ql + 1) + length ps1 \<le> 40"
    using P(1,9,10,13) by (simp_all add: tf ps xs uq)
  have q': "(if queue = NULL then g else queue) = NULL \<longrightarrow> bs' \<noteq> []" "(if queue = NULL then g else queue) \<noteq> NULL \<longrightarrow> g \<notin> set gs"
    using gs by simp_all
  from Cons.IH [OF pre(1) P(2-5) ld' ur(2) ps1_def [symmetric] pre(2,3) st(3,4) pre(4) q', of "seqno + ucast seglen" seglen] obtain s' where
    ih: "enqueue_loop pcb arg 0 copy None ol (left - ucast seglen) (seqno + ucast seglen) (ptr + unat seglen) (ql + 1) g
        (if queue = NULL then g else queue) seglen t = Some (Inr (if (if queue = NULL then g else queue) = NULL then hd gs
          else if queue = NULL then g else queue, if gs = [] then g else last gs,
       if gs = [] then seglen else of_nat (length (last ps1)), ql + 1 + of_nat (length ps1)), s')"
    "s' = t\<lparr>memp_tab := memp_tab s', memp_next := memp_next s', now_count := now_count s', mem := mem s',
      pbuf := pbuf s', pbuf_pool := pbuf_pool s', tcp_seg := tcp_seg s'\<rparr>"
    "memp_avail T_MEMP_TCP_SEG s' gs'" "pbuf_avail s' xs'"
    "queued (tcp_pcb t pcb) 0x5000 (seqno + ucast seglen) ps1 gs xs1 s'"
    "\<forall>g'. g' \<notin> set gs \<longrightarrow> tcp_seg s' g' = linked_seg (if gs = [] then NULL else if queue = NULL then g else queue) g (hd gs) (tcp_seg t) g'"
    "\<forall>x. x \<notin> set xs1 \<longrightarrow> pbuf s' x = pbuf t x"
    "\<forall>y. (\<forall>x \<in> set xs1. y < x + 66 \<or> x + pbuf_slot \<le> y) \<longrightarrow> mem s' y = mem t y"
    by blast
  have ps1: "ps1 = [] \<longleftrightarrow> gs = []" using pre(2) by auto
  have "data_seg (tcp_pcb s pcb) seqno 0x5000 b1 (case gs of [] \<Rightarrow> NULL | g' # _ \<Rightarrow> g') g x s'"
  proof (rule data_seg_relink [OF st(6)])
    show "tcp_seg s' g = (tcp_seg t g)\<lparr>sg_next := (case gs of [] \<Rightarrow> NULL | g' # _ \<Rightarrow> g')\<rparr>"
      using ih(6) gs by (simp add: linked_seg_def tf split: list.splits)
    show "pbuf s' x = pbuf t x" using ih(7) slots(2) by blast
    show "length b1 \<le> 1460" using s60 l1 by simp
    fix y assume y: "x + 66 \<le> y" "y < x + pbuf_slot"
    have "y < x' + 66 \<or> x' + pbuf_slot \<le> y" if "x' \<in> set xs1" for x'
    proof -
      have "x' \<in> set pbuf_slots" "x \<in> set pbuf_slots" "x \<noteq> x'" using that slots by auto
      from slots_apart [OF this(2,1,3)] y show ?thesis by linarith
    qed
    then show "mem s' y = mem t y" using ih(8) by blast
  qed
  then have q: "queued (tcp_pcb s pcb) 0x5000 seqno ps (g # gs) xs s'"
    using ih(5) by (simp add: ps xs l1' tf ps1)
  have run: "enqueue_loop pcb arg 0 copy None ol left seqno ptr ql useg queue sl s = Some (Inr
      (if queue = NULL then hd (g # gs) else queue, if g # gs = [] then useg else last (g # gs),
       if g # gs = [] then sl else of_nat (length (last ps)), ql + of_nat (length ps)), s')"
    unfolding st(1) ih(1) using gs ps1 l1' by (simp add: ps)
  have fr: "s' = s\<lparr>memp_tab := memp_tab s', memp_next := memp_next s', now_count := now_count s', mem := mem s',
      pbuf := pbuf s', pbuf_pool := pbuf_pool s', tcp_seg := tcp_seg s'\<rparr>"
    by (subst ih(2), subst st(2)) simp
  have sg: "tcp_seg s' g' = linked_seg queue useg g (tcp_seg s) g'" if "g' \<notin> set (g # gs)" for g'
    using ih(6) that by (auto simp: linked_seg_def tf)
  have pb: "pbuf s' x' = pbuf s x'" if "x' \<notin> set xs" for x' using ih(7) that by (simp add: xs tf)
  have me: "mem s' y = mem s y" if "\<forall>x \<in> set xs. y < x + 66 \<or> x + pbuf_slot \<le> y" for y
  proof -
    have "mem s' y = mem t y" using ih(8) that by (simp add: xs)
    also have "\<dots> = mem s y" using st(5) that by (metis xs list.set_intros(1))
    finally show ?thesis .
  qed
  show ?case using run fr ih(3,4) q sg pb me by (intro exI [of _ s']) simp
qed

section \<open>Writing\<close>

lemma set_flag_fields:
  "tcp_fields h s = (sp, dp, seq, a, hlf, w, c, u) \<Longrightarrow>
   tcp_fields h (T_TCPH_SET_FLAG h f s) = (sp, dp, seq, a, hlf OR ucast f, w, c, u)"
  by (simp add: tcp_fields_def T_TCPH_SET_FLAG_def mem_simps del: add_2_eq_Suc add_2_eq_Suc')

lemma set_flag_outside: "y < h + 12 \<or> h + 14 \<le> y \<Longrightarrow> mem (T_TCPH_SET_FLAG h f s) y = mem s y"
  by (auto simp: T_TCPH_SET_FLAG_def mem_simps)

lemma set_flag_frame: "T_TCPH_SET_FLAG h f s = s\<lparr>mem := mem (T_TCPH_SET_FLAG h f s)\<rparr>"
  by (simp add: T_TCPH_SET_FLAG_def store16_def)

lemma data_seg_flag:
  assumes "data_seg b seq hlf bs nxt g x s" and "hlf' = hlf OR ucast f"
  shows "data_seg b seq hlf' bs nxt g x (T_TCPH_SET_FLAG (x + 66) f s)"
proof -
  have "load_bytes (x + 86) (length bs) (T_TCPH_SET_FLAG (x + 66) f s) = load_bytes (x + 86) (length bs) s"
    by (rule load_bytes_cong) (simp add: set_flag_outside)
  then show ?thesis using assms set_flag_fields [of "x + 66" s] unfolding data_seg_def by (simp, blast)
qed

lemma slots_distinct_apart:
  assumes "set (x # xs) \<subseteq> set pbuf_slots" and "x \<notin> set xs" and "x' \<in> set xs" and "x + 66 \<le> y" and "y < x + pbuf_slot"
  shows "y < x' + 66 \<or> x' + pbuf_slot \<le> y"
proof -
  have "x' \<in> set pbuf_slots" "x \<in> set pbuf_slots" "x \<noteq> x'" using assms by auto
  from slots_apart [OF this(2,1,3)] assms(4,5) show ?thesis by linarith
qed

lemma queued_push:
  assumes "queued b 0x5000 seq ps gs xs s" and "ps \<noteq> []" and "distinct xs" and "set xs \<subseteq> set pbuf_slots"
    and "\<forall>p \<in> set ps. length p \<le> 1460"
  shows "sg_tcphdr (tcp_seg s (last gs)) = last xs + 66"
    and "queued b 0x5008 seq ps gs xs (T_TCPH_SET_FLAG (last xs + 66) TCP_PSH s)"
proof -
  have "sg_tcphdr (tcp_seg s (last gs)) = last xs + 66 \<and> queued b 0x5008 seq ps gs xs (T_TCPH_SET_FLAG (last xs + 66) TCP_PSH s)"
    using assms
  proof (induction ps arbitrary: seq gs xs)
    case (Cons bs ps)
    from Cons.prems(1) obtain g gs1 x xs1 where gx: "gs = g # gs1" "xs = x # xs1" by (cases gs; cases xs) auto
    from Cons.prems(1) have q: "data_seg b seq 0x5000 bs (case gs1 of [] \<Rightarrow> NULL | g' # _ \<Rightarrow> g') g x s"
      "queued b 0x5000 (seq + of_nat (length bs)) ps gs1 xs1 s" by (simp_all add: gx)
    show ?case
    proof (cases "ps = []")
      case True
      then have "gs1 = []" "xs1 = []" using q(2) by simp_all
      moreover have "data_seg b seq 0x5008 bs NULL g x (T_TCPH_SET_FLAG (x + 66) TCP_PSH s)"
        using q(1) \<open>gs1 = []\<close> by (intro data_seg_flag [where hlf = "0x5000"]) (simp_all add: TCP_PSH_def)
      ultimately show ?thesis using True q(1) by (simp add: gx data_seg_def)
    next
      case False
      then have ne: "xs1 \<noteq> []" "gs1 \<noteq> []" using queued_lengths [OF q(2)] by auto
      have ih: "sg_tcphdr (tcp_seg s (last gs1)) = last xs1 + 66 \<and>
          queued b 0x5008 (seq + of_nat (length bs)) ps gs1 xs1 (T_TCPH_SET_FLAG (last xs1 + 66) TCP_PSH s)"
        using Cons.prems q(2) False by (intro Cons.IH) (simp_all add: gx)
      have "data_seg b seq 0x5000 bs (case gs1 of [] \<Rightarrow> NULL | g' # _ \<Rightarrow> g') g x (T_TCPH_SET_FLAG (last xs1 + 66) TCP_PSH s)"
      proof (rule data_seg_frame [OF q(1)])
        fix y assume y: "x + 66 \<le> y" "y < x + pbuf_slot"
        have "last xs1 \<in> set xs1" using ne by simp
        from slots_distinct_apart [OF _ _ this y] Cons.prems(3,4) gx have "y < last xs1 + 66 \<or> last xs1 + pbuf_slot \<le> y" by simp
        then show "mem (T_TCPH_SET_FLAG (last xs1 + 66) TCP_PSH s) y = mem s y"
          by (intro set_flag_outside) (auto simp: pbuf_slot_eq)
      qed (use Cons.prems(5) in simp_all)
      then show ?thesis using ih ne False by (simp add: gx)
    qed
  qed simp
  then show "sg_tcphdr (tcp_seg s (last gs)) = last xs + 66"
    "queued b 0x5008 seq ps gs xs (T_TCPH_SET_FLAG (last xs + 66) TCP_PSH s)" by blast+
qed

text \<open>Writing, with the linking of the new segments behind the unsent ones left open: it makes \<open>N\<close> the first unsent
  segment and may change segments that are not new.\<close>

lemma tcp_write_linked:
  fixes s :: "'a tcp_st_scheme"
  assumes b: "b = tcp_pcb s pcb" "pcb \<noteq> NULL" "tp_state b \<in> {ESTABLISHED, CLOSE_WAIT, SYN_SENT, SYN_RCVD}"
    and mss: "0 < tp_mss b" "unat (tp_mss b) \<le> 1460"
    and data: "data = load_bytes arg (unat len) s" "user_range arg (unat len)" "0 < len" "len \<le> tp_snd_buf b" "copy \<noteq> 0"
    and ps: "ps = cut (unat (tp_mss b)) data" "unat (tp_snd_queuelen b) + length ps \<le> 40"
    and av: "memp_avail T_MEMP_TCP_SEG s (gs @ gs')" "pbuf_avail s (xs @ xs')" "length gs = length ps" "length xs = length ps"
    and link: "\<And>t :: 'a tcp_st_scheme. tcp_pcb t = tcp_pcb s \<Longrightarrow> queued b 0x5000 (tp_snd_lbb b) ps gs xs t \<Longrightarrow> \<forall>g. g \<notin> set gs \<longrightarrow> tcp_seg t g = tcp_seg s g \<Longrightarrow>
        \<forall>x. x \<notin> set xs \<longrightarrow> pbuf t x = pbuf s x \<Longrightarrow> \<forall>y. (\<forall>x \<in> set xs. y < x + 66 \<or> x + pbuf_slot \<le> y) \<longrightarrow> mem t y = mem s y \<Longrightarrow>
        enqueue_link pcb 0 (hd gs) (last gs) t = Some (last gs,
          upd_tcp pcb (\<lambda>b. b\<lparr>tp_unsent := N\<rparr>) (t\<lparr>tcp_seg := (\<lambda>g. F g (tcp_seg t g))\<rparr>))"
      "\<forall>g \<in> set gs. \<forall>v. F g v = v"
  shows "\<exists>s'. t_tcp_write pcb arg len copy s = Some (0, s') \<and> queued b 0x5008 (tp_snd_lbb b) ps gs xs s' \<and>
    concat ps = data \<and> (\<forall>p \<in> set ps. length p \<le> unat (tp_mss b)) \<and>
    tcp_pcb s' = (tcp_pcb s)(pcb := b\<lparr>tp_unsent := N, tp_snd_lbb := tp_snd_lbb b + ucast len,
      tp_snd_buf := tp_snd_buf b - len, tp_snd_queuelen := tp_snd_queuelen b + of_nat (length ps)\<rparr>) \<and>
    memp_avail T_MEMP_TCP_SEG s' gs' \<and> pbuf_avail s' xs' \<and>
    (\<forall>g. g \<notin> set gs \<longrightarrow> tcp_seg s' g = F g (tcp_seg s g)) \<and> (\<forall>x. x \<notin> set xs \<longrightarrow> pbuf s' x = pbuf s x) \<and>
    (\<forall>y. (\<forall>x \<in> set xs. y < x + 66 \<or> x + pbuf_slot \<le> y) \<longrightarrow> mem s' y = mem s y) \<and>
    s' = s\<lparr>memp_tab := memp_tab s', memp_next := memp_next s', now_count := now_count s', mem := mem s',
      pbuf := pbuf s', pbuf_pool := pbuf_pool s', tcp_seg := tcp_seg s', tcp_pcb := tcp_pcb s'\<rparr>"
proof -
  have m: "0 < unat (tp_mss b)" using mss(1) by (simp add: unat_gt_0)
  have "length data = unat len" "0 < unat len" using data(1,3) by (simp_all add: unat_gt_0)
  then have dl: "data \<noteq> []" by auto
  note cs = cut_sound [OF m, of data, folded ps(1)]
  have psne: "ps \<noteq> []" using cs dl by auto
  then have ne: "gs \<noteq> []" "xs \<noteq> []" using av(3,4) by auto
  have small: "\<forall>p \<in> set ps. length p \<le> 1460" using cs mss(2) by auto
  have u: "unat (ucast len :: u32) = unat len"
  proof -
    have "unat len < 2 ^ 16" using unsigned_less [of len] by simp
    then show ?thesis by (simp add: unsigned_ucast_eq take_bit_nat_eq_self)
  qed
  have arg: "arg \<noteq> NULL" using data(2) by (simp add: user_range_def)
  have pre: "tp_mss (tcp_pcb s pcb) = tp_mss b" "load_bytes arg (unat (ucast len :: u32)) s = data"
    "user_range arg (unat (ucast len :: u32))" "NULL = NULL \<longrightarrow> data \<noteq> []" "NULL \<noteq> NULL \<longrightarrow> NULL \<notin> set gs" "(gs = []) = False"
    using b(1) data(1,2) dl ne by (simp_all add: u)
  from enqueue_loop_result [OF pre(1) mss data(5) arg pre(2,3) ps(1) [symmetric] av(3,4,1,2) ps(2) pre(4,5), of 0 "tp_snd_lbb b" 0,
      unfolded pre(6) simp_thms if_True if_False, folded b(1)]
  obtain t where t: "enqueue_loop pcb arg 0 copy None 0 (ucast len) (tp_snd_lbb b) arg (tp_snd_queuelen b) NULL NULL 0 s =
      Some (Inr (hd gs, last gs, of_nat (length (last ps)), tp_snd_queuelen b + of_nat (length ps)), t)"
    "t = s\<lparr>memp_tab := memp_tab t, memp_next := memp_next t, now_count := now_count t, mem := mem t,
      pbuf := pbuf t, pbuf_pool := pbuf_pool t, tcp_seg := tcp_seg t\<rparr>"
    "memp_avail T_MEMP_TCP_SEG t gs'" "pbuf_avail t xs'" "queued b 0x5000 (tp_snd_lbb b) ps gs xs t"
    "\<forall>g. g \<notin> set gs \<longrightarrow> tcp_seg t g = linked_seg NULL NULL (hd gs) (tcp_seg s) g" "\<forall>x. x \<notin> set xs \<longrightarrow> pbuf t x = pbuf s x"
    "\<forall>y. (\<forall>x \<in> set xs. y < x + 66 \<or> x + pbuf_slot \<le> y) \<longrightarrow> mem t y = mem s y"
    by blast
  have tf: "tcp_pcb t = tcp_pcb s" by (subst t(2), simp)
  have "\<forall>g. g \<notin> set gs \<longrightarrow> tcp_seg t g = tcp_seg s g" using t(6) by (simp add: linked_seg_def)
  note lk = link(1) [OF tf t(5) this t(7,8)]
  have slots: "distinct xs" "set xs \<subseteq> set pbuf_slots" using av(2) chained_distinct
    by (fastforce simp: pbuf_avail_def)+
  note qp = queued_push [OF t(5) psne slots small]
  have "last gs \<in> set (gs @ gs')" using last_in_set [OF ne(1)] by simp
  then have gl: "last gs \<noteq> NULL" using memp.avail_objs [OF av(1)] memp_objs_pos by blast
  have sl: "0 < (of_nat (length (last ps)) :: u16)"
  proof -
    have "last ps \<in> set ps" using psne by simp
    then have "last ps \<noteq> []" "length (last ps) \<le> 1460" using cs small by auto
    then show ?thesis by (simp add: word_less_nat_alt unat_of_nat_lt)
  qed
  define c where "c = b\<lparr>tp_unsent := N, tp_snd_lbb := tp_snd_lbb b + ucast len,
      tp_snd_buf := tp_snd_buf b - len, tp_snd_queuelen := tp_snd_queuelen b + of_nat (length ps)\<rparr>"
  define v where "v = t\<lparr>tcp_seg := (\<lambda>g. F g (tcp_seg t g)), tcp_pcb := (tcp_pcb s)(pcb := c)\<rparr>"
  define s' where "s' = T_TCPH_SET_FLAG (last xs + 66) TCP_PSH v"
  have "0 < length ps" using psne by simp
  with ps(2) have "unat (tp_snd_queuelen b) < 40" by linarith
  then have q40: "\<not> tp_snd_buf b < len" "\<not> T_TCP_SND_QUEUELEN \<le> tp_snd_queuelen b"
    using data(4) by (simp, simp add: T_TCP_SND_QUEUELEN_def word_le_nat_alt)
  have tv: "tcp_seg v = (\<lambda>g. F g (tcp_seg t g))" "F (last gs) (tcp_seg t (last gs)) = tcp_seg t (last gs)"
    using link(2) last_in_set [OF ne(1)] by (simp_all add: v_def)
  have enq: "t_tcp_enqueue pcb arg len 0 copy None 0 s = Some (0, s')"
    using b(2) q40 qp(1) gl sl unfolding t_tcp_enqueue_def b(1) [symmetric]
    by (simp add: t(1) lk Let_def tf b(1) [symmetric] v_def [unfolded c_def, symmetric] s'_def tv)
  have run: "t_tcp_write pcb arg len copy s = Some (0, s')"
    using b(2,3) data(3) enq unfolding t_tcp_write_def b(1) [symmetric] by auto
  have mv: "mem v = mem t" by (simp add: v_def)
  have s'f: "s' = v\<lparr>mem := mem s'\<rparr>" unfolding s'_def by (rule set_flag_frame)
  have ms: "mem s' = mem (T_TCPH_SET_FLAG (last xs + 66) TCP_PSH t)"
    by (simp add: s'_def T_TCPH_SET_FLAG_def mem_simps load16_def mv)
  have same: "tcp_seg s' = (\<lambda>g. F g (tcp_seg t g))" "pbuf s' = pbuf t" "pbuf_pool s' = pbuf_pool t" "memp_tab s' = memp_tab t"
    "memp_next s' = memp_next t" "tcp_pcb s' = (tcp_pcb s)(pcb := c)" "now_count s' = now_count t" by (subst s'f, simp add: v_def)+
  then have "queued b 0x5008 (tp_snd_lbb b) ps gs xs s'" using ms
    by (intro queued_frame [OF qp(2)]) (simp_all add: small link(2))
  moreover have "memp_avail T_MEMP_TCP_SEG s' gs'" "pbuf_avail s' xs'" using t(3,4) by (simp_all add: memp_avail_def pbuf_avail_def same)
  moreover have "s' = s\<lparr>memp_tab := memp_tab s', memp_next := memp_next s', now_count := now_count s', mem := mem s',
      pbuf := pbuf s', pbuf_pool := pbuf_pool s', tcp_seg := tcp_seg s', tcp_pcb := tcp_pcb s'\<rparr>"
    by (subst s'f, unfold v_def, subst t(2)) (simp add: same s'f [symmetric])
  moreover have "\<forall>g. g \<notin> set gs \<longrightarrow> tcp_seg s' g = F g (tcp_seg s g)" "\<forall>x. x \<notin> set xs \<longrightarrow> pbuf s' x = pbuf s x"
    using t(6,7) by (simp_all add: same linked_seg_def)
  moreover have "mem s' y = mem s y" if "\<forall>x \<in> set xs. y < x + 66 \<or> x + pbuf_slot \<le> y" for y
  proof -
    have "y < last xs + 66 \<or> last xs + pbuf_slot \<le> y" using that ne(2) by simp
    then have "mem s' y = mem t y" unfolding ms by (intro set_flag_outside) (auto simp: pbuf_slot_eq)
    with t(8) that show ?thesis by simp
  qed
  ultimately show ?thesis using run cs same(6) unfolding c_def by blast
qed

lemma tcp_write_result:
  fixes s :: "'a tcp_st_scheme"
  assumes b: "b = tcp_pcb s pcb" "pcb \<noteq> NULL" "tp_state b \<in> {ESTABLISHED, CLOSE_WAIT, SYN_SENT, SYN_RCVD}" "tp_unsent b = NULL"
    and mss: "0 < tp_mss b" "unat (tp_mss b) \<le> 1460"
    and data: "data = load_bytes arg (unat len) s" "user_range arg (unat len)" "0 < len" "len \<le> tp_snd_buf b" "copy \<noteq> 0"
    and ps: "ps = cut (unat (tp_mss b)) data" "unat (tp_snd_queuelen b) + length ps \<le> 40"
    and av: "memp_avail T_MEMP_TCP_SEG s (gs @ gs')" "pbuf_avail s (xs @ xs')" "length gs = length ps" "length xs = length ps"
  shows "\<exists>s'. t_tcp_write pcb arg len copy s = Some (0, s') \<and> queued b 0x5008 (tp_snd_lbb b) ps gs xs s' \<and>
    concat ps = data \<and> (\<forall>p \<in> set ps. length p \<le> unat (tp_mss b)) \<and>
    tcp_pcb s' = (tcp_pcb s)(pcb := b\<lparr>tp_unsent := hd gs, tp_snd_lbb := tp_snd_lbb b + ucast len,
      tp_snd_buf := tp_snd_buf b - len, tp_snd_queuelen := tp_snd_queuelen b + of_nat (length ps)\<rparr>) \<and>
    memp_avail T_MEMP_TCP_SEG s' gs' \<and> pbuf_avail s' xs' \<and>
    (\<forall>g. g \<notin> set gs \<longrightarrow> tcp_seg s' g = tcp_seg s g) \<and> (\<forall>x. x \<notin> set xs \<longrightarrow> pbuf s' x = pbuf s x) \<and>
    (\<forall>y. (\<forall>x \<in> set xs. y < x + 66 \<or> x + pbuf_slot \<le> y) \<longrightarrow> mem s' y = mem s y) \<and>
    s' = s\<lparr>memp_tab := memp_tab s', memp_next := memp_next s', now_count := now_count s', mem := mem s',
      pbuf := pbuf s', pbuf_pool := pbuf_pool s', tcp_seg := tcp_seg s', tcp_pcb := tcp_pcb s'\<rparr>"
proof -
  have "enqueue_link pcb 0 (hd gs) (last gs) t = Some (last gs, upd_tcp pcb (\<lambda>b. b\<lparr>tp_unsent := hd gs\<rparr>) (t\<lparr>tcp_seg := (\<lambda>g. tcp_seg t g)\<rparr>))"
    if "tcp_pcb t = tcp_pcb s" for t :: "'a tcp_st_scheme"
    using b(1,4) that by (simp add: enqueue_link_def Let_def)
  from tcp_write_linked [OF b(1-3) mss data ps av, where F = "\<lambda>_ v. v", OF this] show ?thesis by simp
qed

section \<open>Behind unsent data\<close>

lemma data_seg_flags:
  assumes "data_seg b seq hlf bs nxt g x s" and "hlf \<in> {0x5000, 0x5008}"
  shows "T_TCPH_FLAGS (sg_tcphdr (tcp_seg s g)) s AND ucast (TCP_SYN OR TCP_FIN) = 0"
    and "T_TCP_TCPLEN g s = unat (sg_len (tcp_seg s g))"
proof -
  have h: "sg_tcphdr (tcp_seg s g) = x + 66" "ntohs (load16 (x + 66 + 12) s) = hlf"
    using assms(1) by (auto simp: data_seg_def tcp_fields_def)
  show "T_TCPH_FLAGS (sg_tcphdr (tcp_seg s g)) s AND ucast (TCP_SYN OR TCP_FIN) = 0"
    using assms(2) unfolding h(1) T_TCPH_FLAGS_def h(2) by (auto simp: TCP_FLAGS_def TCP_SYN_def TCP_FIN_def)
  show "T_TCP_TCPLEN g s = unat (sg_len (tcp_seg s g))"
    using assms(2) unfolding T_TCP_TCPLEN_def h(1) T_TCPH_FLAGS_def h(2)
    by (auto simp: TCP_FLAGS_def TCP_SYN_def TCP_FIN_def)
qed

lemma queued_chained:
  "queued b f seq ps gs xs s \<Longrightarrow> NULL \<notin> set gs \<Longrightarrow> chained (sg_link s) (case gs of [] \<Rightarrow> NULL | g # _ \<Rightarrow> g) gs"
proof (induction b f seq ps gs xs s rule: queued.induct)
  case (2 b f seq bs ps g gs x xs s)
  then have "sg_next (tcp_seg s g) = (case gs of [] \<Rightarrow> NULL | g' # _ \<Rightarrow> g')" by (simp add: data_seg_def)
  with 2 show ?case by simp
qed simp_all

text \<open>The new segments go behind the last unsent one, \<open>u\<close>, when their first piece does not fit into it.\<close>

lemma tcp_write_appended:
  fixes s :: "'a tcp_st_scheme"
  assumes b: "b = tcp_pcb s pcb" "pcb \<noteq> NULL" "tp_state b \<in> {ESTABLISHED, CLOSE_WAIT, SYN_SENT, SYN_RCVD}"
    and mss: "0 < tp_mss b" "unat (tp_mss b) \<le> 1460"
    and data: "data = load_bytes arg (unat len) s" "user_range arg (unat len)" "0 < len" "len \<le> tp_snd_buf b" "copy \<noteq> 0"
    and ps: "ps = cut (unat (tp_mss b)) data" "unat (tp_snd_queuelen b) + length ps \<le> 40"
    and av: "memp_avail T_MEMP_TCP_SEG s (gs @ gs')" "pbuf_avail s (xs @ xs')" "length gs = length ps" "length xs = length ps"
    and u: "chained (sg_link s) (tp_unsent b) (ls @ [u])" "data_seg b seq hlf old NULL u xu s"
      "length old \<le> 1460" "xu \<in> set pbuf_slots" "xu \<notin> set xs" "set (ls @ [u]) \<inter> set gs = {}"
    and full: "unat (tp_mss b) < length old + length (hd ps)"
  shows "\<exists>s'. t_tcp_write pcb arg len copy s = Some (0, s') \<and> queued b 0x5008 (tp_snd_lbb b) ps gs xs s' \<and>
    chained (sg_link s') (tp_unsent b) (ls @ u # gs) \<and> data_seg b seq hlf old (hd gs) u xu s' \<and>
    tcp_pcb s' = (tcp_pcb s)(pcb := b\<lparr>tp_snd_lbb := tp_snd_lbb b + ucast len,
      tp_snd_buf := tp_snd_buf b - len, tp_snd_queuelen := tp_snd_queuelen b + of_nat (length ps)\<rparr>) \<and>
    memp_avail T_MEMP_TCP_SEG s' gs' \<and> pbuf_avail s' xs' \<and>
    s' = s\<lparr>memp_tab := memp_tab s', memp_next := memp_next s', now_count := now_count s', mem := mem s',
      pbuf := pbuf s', pbuf_pool := pbuf_pool s', tcp_seg := tcp_seg s', tcp_pcb := tcp_pcb s'\<rparr>"
proof -
  define F :: "ptr \<Rightarrow> t_tcp_seg \<Rightarrow> t_tcp_seg" where "F = (\<lambda>g v. if g = u then v\<lparr>sg_next := hd gs\<rparr> else v)"
  have m: "0 < unat (tp_mss b)" using mss(1) by (simp add: unat_gt_0)
  note cs = cut_sound [OF m, of data, folded ps(1)]
  have "length data = unat len" "0 < unat len" using data(1,3) by (simp_all add: unat_gt_0)
  then have "ps \<noteq> []" using cs by auto
  then obtain p0 pr where p0: "ps = p0 # pr" by (cases ps) auto
  then obtain g0 gr x0 xr where g0: "gs = g0 # gr" "xs = x0 # xr" using av(3,4) by (cases gs; cases xs) auto
  have p60: "length p0 \<le> 1460" using cs mss(2) by (auto simp: p0)
  have un: "tp_unsent b \<noteq> NULL" "u \<notin> set gs" "u \<noteq> NULL" "u \<notin> set ls"
    using u(1,6) chained_distinct [OF u(1)] chained_not_NULL [OF u(1)] by (auto split: list.splits)
  have lk: "enqueue_link pcb 0 (hd gs) (last gs) t = Some (last gs,
      upd_tcp pcb (\<lambda>b. b\<lparr>tp_unsent := tp_unsent (tcp_pcb s pcb)\<rparr>) (t\<lparr>tcp_seg := (\<lambda>g. F g (tcp_seg t g))\<rparr>))"
    if t: "tcp_pcb t = tcp_pcb s" "queued b 0x5000 (tp_snd_lbb b) ps gs xs t" "\<forall>g. g \<notin> set gs \<longrightarrow> tcp_seg t g = tcp_seg s g"
      for t :: "'a tcp_st_scheme"
  proof -
    have "chained (sg_link t) (tp_unsent b) (ls @ [u])"
      using u(1) by (rule chained_cong [THEN iffD1, rotated]) (use t(3) u(6) in auto)
    then have lf: "last_from (sg_link t) (tp_unsent (tcp_pcb t pcb)) = Some u"
      using last_from_chained by (fastforce simp: t(1) b(1) [symmetric])
    have su: "tcp_seg t u = tcp_seg s u" using t(3) un(2) by blast
    have "sg_len (tcp_seg t g0) = of_nat (length p0)" using t(2) by (simp add: g0 p0 data_seg_def)
    moreover have "sg_len (tcp_seg t u) = of_nat (length old)" using u(2) by (simp add: su data_seg_def)
    ultimately have "\<not> unat (sg_len (tcp_seg t u)) + unat (sg_len (tcp_seg t (hd gs))) \<le> unat (tp_mss (tcp_pcb t pcb))"
      using full u(3) p60 by (simp add: g0 p0 t(1) b(1) [symmetric] unat_of_nat_lt)
    then have "enqueue_link pcb 0 (hd gs) (last gs) t = Some (last gs, upd_seg u (\<lambda>g. g\<lparr>sg_next := hd gs\<rparr>) t)"
      using un(1,3) by (simp add: enqueue_link_def lf) (simp add: t(1) b(1) [symmetric])
    moreover have "upd_seg u (\<lambda>g. g\<lparr>sg_next := hd gs\<rparr>) t =
        upd_tcp pcb (\<lambda>b. b\<lparr>tp_unsent := tp_unsent (tcp_pcb s pcb)\<rparr>) (t\<lparr>tcp_seg := (\<lambda>g. F g (tcp_seg t g))\<rparr>)"
      by (rule tcp_st.equality) (auto simp: F_def t(1) fun_eq_iff)
    ultimately show ?thesis by simp
  qed
  have Fg: "\<forall>g \<in> set gs. \<forall>v. F g v = v" using un(2) by (auto simp: F_def)
  from tcp_write_linked [OF b mss data ps av lk Fg] obtain s' where s': "t_tcp_write pcb arg len copy s = Some (0, s')"
    "queued b 0x5008 (tp_snd_lbb b) ps gs xs s'"
    "tcp_pcb s' = (tcp_pcb s)(pcb := b\<lparr>tp_unsent := tp_unsent (tcp_pcb s pcb), tp_snd_lbb := tp_snd_lbb b + ucast len,
      tp_snd_buf := tp_snd_buf b - len, tp_snd_queuelen := tp_snd_queuelen b + of_nat (length ps)\<rparr>)"
    "memp_avail T_MEMP_TCP_SEG s' gs'" "pbuf_avail s' xs'" "\<forall>g. g \<notin> set gs \<longrightarrow> tcp_seg s' g = F g (tcp_seg s g)"
    "\<forall>x. x \<notin> set xs \<longrightarrow> pbuf s' x = pbuf s x"
    "\<forall>y. (\<forall>x \<in> set xs. y < x + 66 \<or> x + pbuf_slot \<le> y) \<longrightarrow> mem s' y = mem s y"
    "s' = s\<lparr>memp_tab := memp_tab s', memp_next := memp_next s', now_count := now_count s', mem := mem s',
      pbuf := pbuf s', pbuf_pool := pbuf_pool s', tcp_seg := tcp_seg s', tcp_pcb := tcp_pcb s'\<rparr>"
    by blast
  have su: "tcp_seg s' u = (tcp_seg s u)\<lparr>sg_next := hd gs\<rparr>" using s'(6) un(2) by (simp add: F_def)
  have ds: "data_seg b seq hlf old (hd gs) u xu s'"
  proof (rule data_seg_relink [OF u(2) su])
    fix y assume y: "xu + 66 \<le> y" "y < xu + pbuf_slot"
    have "\<forall>x \<in> set xs. y < x + 66 \<or> x + pbuf_slot \<le> y"
      using av(2) u(4,5) slots_distinct_apart [of xu xs _ y] y by (auto simp: pbuf_avail_def)
    then show "mem s' y = mem s y" using s'(8) by blast
  qed (use s'(7) u(3,5) in auto)
  have "NULL \<notin> set gs" using memp.avail_objs [OF av(1)] memp_objs_pos by fastforce
  with queued_chained [OF s'(2)] have cg: "chained (sg_link s') g0 gs" by (simp add: g0)
  have "chained (sg_link s') (tp_unsent b) (ls @ u # gs)"
  proof -
    have "chained ((sg_link s')(u := NULL)) (tp_unsent b) (ls @ [u])"
    proof (rule chained_cong [THEN iffD1, OF _ u(1)])
      fix z assume "z \<in> set (ls @ [u])"
      then have "z \<notin> set gs" using u(6) by blast
      then show "sg_link s z = ((sg_link s')(u := NULL)) z" using s'(6) u(2) by (simp add: F_def data_seg_def)
    qed
    moreover have "chained ((sg_link s')(u := NULL)) g0 gs" using cg un(2) by simp
    ultimately have "chained (((sg_link s')(u := NULL))(u := g0)) (tp_unsent b) (ls @ u # gs)"
      using chained_redirect [of "(sg_link s')(u := NULL)" _ ls u "[]" g0 gs] un(2,4) by blast
    moreover have "((sg_link s')(u := NULL))(u := g0) = sg_link s'" using su by (auto simp: g0 fun_eq_iff)
    ultimately show ?thesis by simp
  qed
  moreover have "tcp_pcb s' = (tcp_pcb s)(pcb := b\<lparr>tp_snd_lbb := tp_snd_lbb b + ucast len,
      tp_snd_buf := tp_snd_buf b - len, tp_snd_queuelen := tp_snd_queuelen b + of_nat (length ps)\<rparr>)"
    unfolding s'(3) b(1) by simp
  ultimately show ?thesis using s'(1,2,4,5,9) ds by blast
qed

text \<open>Merging: the header is taken off again, the data is appended to the buffer of the last unsent segment, and
  the new segment goes back to its pool.  Its buffer does not.\<close>

lemma enqueue_link_merged:
  assumes q: "data_seg b' seq' 0x5000 data NULL g x t" and u: "data_seg b' seq hlf old NULL u xu t" "hlf \<in> {0x5000, 0x5008}"
    and ch: "chained (sg_link t) (tp_unsent (tcp_pcb t pcb)) (ls @ [u])"
    and fit: "old \<noteq> []" "length old + length data \<le> unat (tp_mss (tcp_pcb t pcb))" "length old + length data \<le> 1460"
    and slots: "x \<in> set pbuf_slots" "xu \<in> set pbuf_slots" "x \<noteq> xu" and "u \<noteq> g"
    and av: "memp_avail T_MEMP_TCP_SEG t gs" "g \<in> memp_objs T_MEMP_TCP_SEG" "g \<notin> set gs" "memp_owned t g"
  shows "\<exists>s'. enqueue_link pcb 0 g g t = Some (NULL, s') \<and> memp_avail T_MEMP_TCP_SEG s' (g # gs) \<and>
    data_seg b' seq hlf (old @ data) NULL u xu s' \<and> pbuf_owned s' x \<and>
    (\<forall>h. h \<noteq> u \<longrightarrow> tcp_seg s' h = tcp_seg t h) \<and> (\<forall>y. y \<noteq> x \<longrightarrow> y \<noteq> xu \<longrightarrow> pbuf s' y = pbuf t y) \<and>
    pbuf_pool s' = pbuf_pool t \<and>
    s' = t\<lparr>memp_tab := memp_tab s', memp_next := memp_next s', now_count := now_count s', mem := mem s',
      pbuf := pbuf s', tcp_seg := tcp_seg s'\<rparr>"
proof -
  note qd = q [unfolded data_seg_def] and ud = u(1) [unfolded data_seg_def]
  have un: "tp_unsent (tcp_pcb t pcb) \<noteq> NULL" "u \<noteq> NULL"
    using ch chained_not_NULL [OF ch] by (cases ls; auto)+
  have lf: "last_from (sg_link t) (tp_unsent (tcp_pcb t pcb)) = Some u" using last_from_chained [OF ch] by simp
  have xp: "x \<noteq> NULL" "xu \<noteq> NULL" using pbuf_slots_pos slots(1,2) by fastforce+
  have lens: "unat (of_nat (length old) :: u16) = length old" "unat (of_nat (length data) :: u16) = length data"
    using fit(3) by (simp_all add: unat_of_nat_lt)
  define t1 where "t1 = upd_pbuf x (\<lambda>b. b\<lparr>pb_payload := x + 86, pb_tot_len := of_nat (length data), pb_len := of_nat (length data)\<rparr>) t"
  have h: "t_pbuf_header x (int T_TCP_HLEN) t = Some (0, t1)"
  proof -
    have "header_fits t x (int T_TCP_HLEN)" using qd by (simp add: header_fits_def T_TCP_HLEN_def sizeof_t_pbuf_def T_PBUF_BUFSIZE_def)
    from pbuf_header_moves [OF xp(1) _ this] qd show ?thesis by (simp add: t1_def T_TCP_HLEN_def nat_add_distrib add.commute)
  qed
  have uxu: "unat (20 + of_nat (length old) :: u16) = 20 + length old"
    using fit(3) by (simp add: unat_of_nat_lt unat_word_ariths)
  define t2 where "t2 = upd_pbuf xu (\<lambda>b. b\<lparr>pb_len := pb_len b + of_nat (length data), pb_tot_len := pb_tot_len b + of_nat (length data)\<rparr>)
    (store_bytes (xu + 86 + length old) data t1)"
  have c: "t_pbuf_cat xu x t1 = Some (0, t2)"
  proof -
    have "accessible (xu + 86 + length old) (length data)" "accessible (x + 86) (length data)"
      by (rule accessible_in_slot [OF slots(2)], use fit(3) in \<open>simp_all add: sizeof_t_pbuf_def pbuf_slot_eq\<close>)
        (rule accessible_in_slot [OF slots(1)], use fit(3) in \<open>simp_all add: sizeof_t_pbuf_def pbuf_slot_eq\<close>)
    moreover have "load_bytes (x + 86) (length data) t1 = data" using qd by (simp add: t1_def load_bytes_def)
    moreover have "pbuf t1 xu = pbuf t xu" using slots(3) by (simp add: t1_def)
    ultimately show ?thesis using xp slots(3) ud lens(2) uxu
      by (simp add: t_pbuf_cat_def Let_def t2_def) (simp add: t1_def store_bytes_def add_ac)
  qed
  define t3 where "t3 = t2\<lparr>tcp_seg := (tcp_seg t)(u := (tcp_seg t u)\<lparr>sg_len := of_nat (length old + length data)\<rparr>)\<rparr>"
  have ts: "tcp_seg t2 = tcp_seg t" "memp_tab t2 = memp_tab t" "memp_next t2 = memp_next t" by (simp_all add: t2_def t1_def store_bytes_def)
  have t3: "t2\<lparr>tcp_seg := (tcp_seg t)(u := \<lparr>sg_next = 0, sg_p = xu, sg_dataptr = xu + 86,
      sg_len = of_nat (length old) + of_nat (length data), sg_tcphdr = xu + 66\<rparr>)\<rparr> = t3"
    using ud by (simp add: t3_def)
  have gu: "g \<noteq> u" "u \<noteq> g" "tcp_seg t1 = tcp_seg t" using \<open>u \<noteq> g\<close> by (simp_all add: t1_def)
  have av3: "memp_avail T_MEMP_TCP_SEG t3 gs" "memp_owned t3 g"
    using av(1,4) by (simp_all add: t3_def memp_avail_def memp_owned_def ts)
  from memp_free_push [OF av3(1) av(2,3) av3(2)] obtain s' where s': "t_memp_free T_MEMP_TCP_SEG g t3 = Some s'"
    "memp_avail T_MEMP_TCP_SEG s' (g # gs)"
    "s' = t3\<lparr>memp_tab := memp_tab s', memp_next := memp_next s', now_count := now_count t3 - 1\<rparr>" by blast
  have sf: "tcp_seg s' = tcp_seg t3" "pbuf s' = pbuf t3" "mem s' = mem t3" "pbuf_pool s' = pbuf_pool t3" by (subst s'(3), simp)+
  have m3: "mem t3 = mem t2" "pbuf t3 = pbuf t2" "pbuf_pool t3 = pbuf_pool t" by (simp_all add: t3_def t2_def t1_def store_bytes_def)
  have run: "enqueue_link pcb 0 g g t = Some (NULL, s')"
    using un(2) fit(1,2) qd ud data_seg_flags [OF u] s'(1)
    by (simp add: enqueue_link_def un(1) lf lens h c Let_def ts gu t3)
  have mo: "mem t2 y = mem t y" if "y < xu + 86 + length old" for y using that by (simp add: t2_def t1_def mem_store_bytes)
  have "data_seg b' seq hlf (old @ data) NULL u xu s'"
  proof -
    have "tcp_fields (xu + 66) s' = tcp_fields (xu + 66) t" by (rule tcp_fields_frame) (simp add: sf m3 mo)
    moreover have "load_bytes (xu + 86) (length old) s' = load_bytes (xu + 86) (length old) t"
      by (rule load_bytes_cong) (simp add: sf m3 mo)
    moreover have "load_bytes (xu + 86 + length old) (length data) s' = data"
    proof -
      have "load_bytes (xu + 86 + length old) (length data) s' = load_bytes (xu + 86 + length old) (length data) (store_bytes (xu + 86 + length old) data t1)"
        by (rule load_bytes_cong) (simp add: sf m3 t2_def)
      then show ?thesis by simp
    qed
    moreover have "pbuf s' xu = (pbuf t xu)\<lparr>pb_len := pb_len (pbuf t xu) + of_nat (length data), pb_tot_len := pb_tot_len (pbuf t xu) + of_nat (length data)\<rparr>"
      using slots(3) by (simp add: sf m3 t2_def t1_def store_bytes_def)
    ultimately show ?thesis using ud by (simp add: data_seg_def sf t3_def load_bytes_split)
  qed
  moreover have "pbuf_owned s' x" using qd slots(3) by (simp add: pbuf_owned_def sf m3 t2_def t1_def store_bytes_def)
  moreover have "\<forall>h. h \<noteq> u \<longrightarrow> tcp_seg s' h = tcp_seg t h" by (simp add: sf t3_def)
  moreover have "\<forall>y. y \<noteq> x \<longrightarrow> y \<noteq> xu \<longrightarrow> pbuf s' y = pbuf t y" by (simp add: sf m3 t2_def t1_def store_bytes_def)
  moreover have "s' = t\<lparr>memp_tab := memp_tab s', memp_next := memp_next s', now_count := now_count s', mem := mem s',
      pbuf := pbuf s', tcp_seg := tcp_seg s'\<rparr>"
  proof -
    have "now_count s' = now_count t - 1" by (subst s'(3)) (simp add: t3_def t2_def t1_def store_bytes_def)
    then show ?thesis by (subst s'(3)) (rule tcp_st.equality, simp_all add: sf t3_def t2_def t1_def store_bytes_def)
  qed
  moreover have "pbuf_pool s' = pbuf_pool t" by (simp add: sf(4) m3(3))
  ultimately show ?thesis using run s'(2) by (intro exI [of _ s']) blast
qed

lemma tcp_write_merged:
  assumes b: "b = tcp_pcb s pcb" "pcb \<noteq> NULL" "tp_state b \<in> {ESTABLISHED, CLOSE_WAIT, SYN_SENT, SYN_RCVD}"
    and mss: "0 < tp_mss b" "unat (tp_mss b) \<le> 1460"
    and data: "data = load_bytes arg (unat len) s" "user_range arg (unat len)" "0 < len" "len \<le> tp_snd_buf b" "copy \<noteq> 0"
    and ql: "unat (tp_snd_queuelen b) < 40"
    and av: "memp_avail T_MEMP_TCP_SEG s (g # gs)" "pbuf_avail s (x # xs)"
    and u: "chained (sg_link s) (tp_unsent b) (ls @ [u])" "data_seg b seq hlf old NULL u xu s" "hlf \<in> {0x5000, 0x5008}"
      "old \<noteq> []" "xu \<in> set pbuf_slots" "xu \<notin> set (x # xs)" "g \<notin> set (ls @ [u])"
    and fit: "length old + length data \<le> unat (tp_mss b)"
  shows "\<exists>s'. t_tcp_write pcb arg len copy s = Some (0, s') \<and> chained (sg_link s') (tp_unsent b) (ls @ [u]) \<and>
    data_seg b seq hlf (old @ data) NULL u xu s' \<and>
    tcp_pcb s' = (tcp_pcb s)(pcb := b\<lparr>tp_snd_lbb := tp_snd_lbb b + ucast len,
      tp_snd_buf := tp_snd_buf b - len, tp_snd_queuelen := tp_snd_queuelen b + 1\<rparr>) \<and>
    memp_avail T_MEMP_TCP_SEG s' (g # gs) \<and> pbuf_avail s' xs \<and> pbuf_owned s' x \<and>
    s' = s\<lparr>memp_tab := memp_tab s', memp_next := memp_next s', now_count := now_count s', mem := mem s',
      pbuf := pbuf s', pbuf_pool := pbuf_pool s', tcp_seg := tcp_seg s', tcp_pcb := tcp_pcb s'\<rparr>"
proof -
  have u32: "unat (ucast len :: u32) = unat len"
  proof -
    have "unat len < 2 ^ 16" using unsigned_less [of len] by simp
    then show ?thesis by (simp add: unsigned_ucast_eq take_bit_nat_eq_self)
  qed
  have dl: "length data = unat len" "0 < unat len" using data(1,3) by (simp_all add: unat_gt_0)
  have fl: "unat len < unat (tp_mss b)" using fit dl(1) u(4) by (cases old) auto
  define seglen where "seglen = (if ucast (tp_mss b) < (ucast len :: u32) then tp_mss b else ucast (ucast len :: u32))"
  note sm = seglen_min [OF seglen_def]
  have sl: "unat seglen = unat len" using sm(1) fl by (simp add: u32)
  then have sle: "seglen = len" by (rule unsigned_word_eqI)
  have arg: "arg \<noteq> NULL" using data(2) by (simp add: user_range_def)
  have q40: "tp_snd_queuelen b < 40" using ql by (simp add: word_less_nat_alt)
  have pre: "NULL = NULL \<or> 0 < (ucast len :: u32)" "NULL \<noteq> NULL \<longrightarrow> NULL \<noteq> g" "tp_mss (tcp_pcb s pcb) = tp_mss b"
    "length data = unat seglen" "unat seglen \<le> 1460" "load_bytes arg (unat seglen) s = data" "user_range arg (unat seglen)"
    "(if NULL = NULL then g else NULL) = g"
    using data(1,2) dl fl mss(2) b(1) by (simp_all add: sl)
  from enqueue_step [OF pre(1-3) seglen_def av q40 data(5) arg pre(4-7), of 0 "tp_snd_lbb b" 0, unfolded pre(8) sle]
  obtain t b1 where t: "enqueue_loop pcb arg 0 copy None 0 (ucast len) (tp_snd_lbb b) arg (tp_snd_queuelen b) NULL NULL 0 s =
      enqueue_loop pcb arg 0 copy None 0 (ucast len - ucast len) (tp_snd_lbb b + ucast len) (arg + unat len) (tp_snd_queuelen b + 1) g
        g len t"
    "t = s\<lparr>memp_tab := memp_tab t, memp_next := memp_next t, now_count := now_count t, mem := mem t,
      pbuf := (pbuf s)(x := b1), pbuf_pool := pbuf_pool t, tcp_seg := (linked_seg NULL NULL g (tcp_seg s))(g :=
        \<lparr>sg_next = NULL, sg_p = x, sg_dataptr = x + 86, sg_len = len, sg_tcphdr = x + 66\<rparr>)\<rparr>"
    "memp_avail T_MEMP_TCP_SEG t gs" "memp_owned t g" "pbuf_avail t xs"
    "\<forall>y. y < x + 66 \<or> x + pbuf_slot \<le> y \<longrightarrow> mem t y = mem s y"
    "data_seg (tcp_pcb s pcb) (tp_snd_lbb b) 0x5000 data NULL g x t" by blast
  have gn: "g \<noteq> NULL" "g \<in> memp_objs T_MEMP_TCP_SEG" "g \<notin> set gs"
    using memp.avail_distinct [OF av(1)] memp.avail_objs [OF av(1)] memp_objs_pos by auto
  have xs: "x \<in> set pbuf_slots" "x \<notin> set xs" using pbuf_avail_head [OF av(2)] by simp_all
  have tf: "tcp_pcb t = tcp_pcb s" "pbuf t = (pbuf s)(x := b1)" "g' \<noteq> g \<Longrightarrow> tcp_seg t g' = tcp_seg s g'" for g'
    by (subst t(2), simp add: linked_seg_def)+
  have loop: "enqueue_loop pcb arg 0 copy None 0 (ucast len) (tp_snd_lbb b) arg (tp_snd_queuelen b) NULL NULL 0 s =
      Some (Inr (g, g, len, tp_snd_queuelen b + 1), t)"
    unfolding t(1) using gn(1) by (subst enqueue_loop.simps) simp
  have xux: "xu \<noteq> x" using u(6) by simp
  have ug: "u \<noteq> g" using u(7) by auto
  have l60: "length old + length data \<le> 1460" using fit mss(2) by simp
  have dt: "data_seg b seq hlf old NULL u xu t"
  proof (rule data_seg_frame [OF u(2)])
    fix y assume y: "xu + 66 \<le> y" "y < xu + pbuf_slot"
    from slots_apart [OF u(5) xs(1) xux] y have "y < x + 66 \<or> x + pbuf_slot \<le> y" by linarith
    with t(6) show "mem t y = mem s y" by blast
  qed (use tf ug xux l60 in simp_all)
  have ch: "chained (sg_link t) (tp_unsent (tcp_pcb t pcb)) (ls @ [u])"
    unfolding tf(1) b(1) [symmetric]
  proof (rule chained_cong [THEN iffD1, OF _ u(1)])
    fix h assume "h \<in> set (ls @ [u])"
    then have "h \<noteq> g" using u(7) by blast
    then show "sg_link s h = sg_link t h" by (simp add: tf(3))
  qed
  have mt: "tp_mss (tcp_pcb t pcb) = tp_mss b" by (simp add: tf b(1))
  from enqueue_link_merged [OF t(7) [folded b(1)] dt u(3) ch u(4) fit [folded mt] l60 xs(1) u(5) not_sym [OF xux] ug t(3) gn(2,3) t(4)]
  obtain v where v: "enqueue_link pcb 0 g g t = Some (NULL, v)" "memp_avail T_MEMP_TCP_SEG v (g # gs)"
    "data_seg b seq hlf (old @ data) NULL u xu v" "pbuf_owned v x" "\<forall>h. h \<noteq> u \<longrightarrow> tcp_seg v h = tcp_seg t h"
    "\<forall>y. y \<noteq> x \<longrightarrow> y \<noteq> xu \<longrightarrow> pbuf v y = pbuf t y" "pbuf_pool v = pbuf_pool t"
    "v = t\<lparr>memp_tab := memp_tab v, memp_next := memp_next v, now_count := now_count v, mem := mem v,
      pbuf := pbuf v, tcp_seg := tcp_seg v\<rparr>" by blast
  define s' where "s' = v\<lparr>tcp_pcb := (tcp_pcb s)(pcb := b\<lparr>tp_snd_lbb := tp_snd_lbb b + ucast len,
      tp_snd_buf := tp_snd_buf b - len, tp_snd_queuelen := tp_snd_queuelen b + 1\<rparr>)\<rparr>"
  have tv: "tcp_pcb v = tcp_pcb s" by (subst v(8), simp add: tf)
  have "\<not> tp_snd_buf b < len" "\<not> T_TCP_SND_QUEUELEN \<le> tp_snd_queuelen b"
    using data(4) ql by (simp, simp add: T_TCP_SND_QUEUELEN_def word_le_nat_alt)
  then have "t_tcp_enqueue pcb arg len 0 copy None 0 s = Some (0, s')"
    using b(2) unfolding t_tcp_enqueue_def b(1) [symmetric]
    by (simp add: loop v(1) Let_def tv b(1) [symmetric] s'_def [symmetric])
  then have run: "t_tcp_write pcb arg len copy s = Some (0, s')"
    using b(2,3) data(3) unfolding t_tcp_write_def b(1) [symmetric] by auto
  have same: "tcp_seg s' = tcp_seg v" "pbuf s' = pbuf v" "pbuf_pool s' = pbuf_pool v" "mem s' = mem v" "memp_tab s' = memp_tab v"
    "memp_next s' = memp_next v" "now_count s' = now_count v" by (simp_all add: s'_def)
  have "chained (sg_link s') (tp_unsent b) (ls @ [u])"
  proof (rule chained_cong [THEN iffD1, OF _ u(1)])
    fix h assume "h \<in> set (ls @ [u])"
    then have hg: "h \<noteq> g" using u(7) by blast
    show "sg_link s h = sg_link s' h"
      using v(3,5) u(2) tf(3) [OF hg] by (cases "h = u") (simp_all add: same data_seg_def)
  qed
  moreover have "data_seg b seq hlf (old @ data) NULL u xu s'"
    by (rule data_seg_frame [OF v(3)]) (use l60 in \<open>simp_all add: same\<close>)
  moreover have "memp_avail T_MEMP_TCP_SEG s' (g # gs)" "pbuf_owned s' x"
    using v(2,4) by (simp_all add: memp_avail_def pbuf_owned_def same)
  moreover have "pbuf_avail s' xs"
  proof -
    have "\<forall>y \<in> set xs. pbuf s' y = pbuf t y" using v(6) xs(2) u(6) by (auto simp: same)
    then show ?thesis using t(5) chained_cong [of xs "pb_link s'" "pb_link t"] by (simp add: pbuf_avail_def same v(7))
  qed
  moreover have "s' = s\<lparr>memp_tab := memp_tab s', memp_next := memp_next s', now_count := now_count s', mem := mem s',
      pbuf := pbuf s', pbuf_pool := pbuf_pool s', tcp_seg := tcp_seg s', tcp_pcb := tcp_pcb s'\<rparr>"
    unfolding s'_def by (subst v(8), subst t(2)) (simp add: v(7))
  moreover have "tcp_pcb s' = (tcp_pcb s)(pcb := b\<lparr>tp_snd_lbb := tp_snd_lbb b + ucast len,
      tp_snd_buf := tp_snd_buf b - len, tp_snd_queuelen := tp_snd_queuelen b + 1\<rparr>)" by (simp add: s'_def)
  ultimately show ?thesis using run by blast
qed


text \<open>An open connection with full pools: nothing is queued, and the peer has acknowledged all.\<close>

definition open_block :: t_tcp_pcb where
  "open_block = tcp_zeroed\<lparr>tp_state := ESTABLISHED, tp_local_ip := 0x7001A8C0, tp_remote_ip := 0x6401A8C0, tp_local_port := 4097,
     tp_remote_port := 8080, tp_mss := 1400, tp_snd_buf := 16800, tp_snd_wnd := 14000, tp_cwnd := 1400, tp_rcv_wnd := 14000,
     tp_snd_lbb := 6510, tp_lastack := 6510\<rparr>"

definition tcp_open :: tcp_st where
  "tcp_open = tcp_start\<lparr>tcp_pcb := (\<lambda>_. open_block)\<rparr>"

lemma tcp_open_facts:
  "\<exists>gs gs'. length gs = 2 \<and> gs' \<noteq> [] \<and> memp_avail T_MEMP_TCP_SEG tcp_open (gs @ gs')"
  "\<exists>xs xs'. length xs = 2 \<and> xs' \<noteq> [] \<and> pbuf_avail tcp_open (xs @ xs')"
  "tcp_pcb tcp_open = (\<lambda>_. open_block)"
proof -
  have "memp_avail T_MEMP_TCP_SEG tcp_start (map (\<lambda>e. e + sizeof_t_memp) (memp_elems T_MEMP_TCP_SEG))"
    unfolding online_memp by (rule memp_init_avail)
  then have "memp_avail T_MEMP_TCP_SEG tcp_open (map (\<lambda>e. e + sizeof_t_memp) (memp_elems T_MEMP_TCP_SEG))"
    by (simp add: tcp_open_def memp_avail_def)
  moreover have "2 < length (map (\<lambda>e. e + sizeof_t_memp) (memp_elems T_MEMP_TCP_SEG))" by simp
  ultimately show "\<exists>gs gs'. length gs = 2 \<and> gs' \<noteq> [] \<and> memp_avail T_MEMP_TCP_SEG tcp_open (gs @ gs')"
    by (metis append_take_drop_id length_take min.absorb4 drop_eq_Nil not_less)
  have "pbuf_avail tcp_open pbuf_slots" using online_facts(2) [of "t_memp_init tcp_boot"] by (simp add: tcp_open_def pbuf_avail_def)
  moreover have "2 < length pbuf_slots" by (simp add: T_PBUF_POOL_SIZE_def)
  ultimately show "\<exists>xs xs'. length xs = 2 \<and> xs' \<noteq> [] \<and> pbuf_avail tcp_open (xs @ xs')"
    by (metis append_take_drop_id length_take min.absorb4 drop_eq_Nil not_less)
  show "tcp_pcb tcp_open = (\<lambda>_. open_block)" by (simp add: tcp_open_def)
qed

lemma cut_two: "length bs = 2000 \<Longrightarrow> cut 1400 bs = [take 1400 bs, drop 1400 bs]"
  by (subst cut_Cons) (auto simp: cut_Cons)


end
