(* ===== verification/Tcp_Data.thy ===== *)
theory Tcp_Data
  imports Tcp_Write
begin

text \<open>
  Sending queued data: the loop of \<^verbatim>\<open>t_tcp_output\<close> over the unsent segments (\<^verbatim>\<open>core/t_tcp_out.c\<close>), and writing and
  sending together.
\<close>

section \<open>Sending one segment\<close>

text \<open>The segment that was sent last has a number that is not behind \<open>seq\<close>, in a buffer not among \<open>xs\<close>.\<close>

definition sent_before :: "ptr \<Rightarrow> u32 \<Rightarrow> ptr list \<Rightarrow> 'a tcp_st_scheme \<Rightarrow> bool" where
  "sent_before useg seq xs s \<longleftrightarrow> (\<exists>x \<in> set pbuf_slots. x \<notin> set xs \<and> sg_tcphdr (tcp_seg s useg) = x + 66 \<and>
     \<not> T_TCP_SEQ_LT seq (ntohl (load32 (x + 70) s)))"

definition data_frame :: "t_tcp_pcb \<Rightarrow> u32 \<Rightarrow> u16 \<Rightarrow> u8 list \<Rightarrow> u8 list \<Rightarrow> bool" where
  "data_frame b seq hlf bs frame \<longleftrightarrow> (\<exists>c. let msg = tcp_header (tp_local_port b) (tp_remote_port b) seq (tp_rcv_nxt b) hlf (adv_wnd b) c @ bs
     in ip_parse frame = Some (tp_local_ip b, tp_remote_ip b, tp_ttl b, tp_tos b, T_IP_PROTO_TCP, msg) \<and>
       tcp_sum_ok (tp_local_ip b) (tp_remote_ip b) msg)"

text \<open>What sending changes in a block: the two queues, the next number, and the bookkeeping of the timers.\<close>

definition moved :: "ptr \<Rightarrow> ptr \<Rightarrow> u32 \<Rightarrow> t_tcp_pcb \<Rightarrow> t_tcp_pcb \<Rightarrow> bool" where
  "moved unsent unacked nxt b b' \<longleftrightarrow> (\<exists>mx rtime rttest rtseq flags. b' = b\<lparr>tp_unsent := unsent, tp_unacked := unacked,
     tp_snd_nxt := nxt, tp_snd_max := mx, tp_rtime := rtime, tp_rttest := rttest, tp_rtseq := rtseq, tp_flags := flags\<rparr>)"

lemma output_data_step:
  assumes b: "b = tcp_pcb s pcb" "tp_state b \<noteq> SYN_SENT" "tp_local_ip b \<noteq> 0" and g: "g \<noteq> NULL"
    and ds: "data_seg b seq hlf bs nxt g x s" and hlf: "hlf \<in> {0x5000, 0x5008}" and x: "x \<in> set pbuf_slots"
    and bs: "bs \<noteq> []" "length bs \<le> 1460"
    and via: "seg_via b s m (tp_local_ip b) n" and up: "netif_up s n"
    and fits: "seq - tp_lastack b + of_nat (length bs) \<le> wnd"
    and useg: "tp_unacked b \<noteq> NULL \<longrightarrow> useg \<noteq> NULL \<and> useg \<noteq> g \<and> sent_before useg seq [x] s"
  shows "\<exists>s' frame b'. output_loop wnd g useg pcb s = output_loop wnd nxt g pcb s' \<and>
    data_frame b seq (hlf OR 0x10) bs frame \<and>
    s' = s\<lparr>mem := mem s', pbuf := pbuf s', sent := sent s @ [frame], tcp_pcb := (tcp_pcb s)(pcb := b'),
      tcp_seg := (linked_seg (tp_unacked b) useg g (tcp_seg s))(g := (tcp_seg s g)\<lparr>sg_next := NULL\<rparr>)\<rparr> \<and>
    moved nxt (if tp_unacked b = NULL then g else tp_unacked b) (seq + of_nat (length bs)) b b' \<and>
    (\<forall>y. y \<noteq> x \<longrightarrow> pbuf s' y = pbuf s y) \<and> (\<forall>y. y < x + 32 \<or> x + 86 \<le> y \<longrightarrow> mem s' y = mem s y) \<and>
    ntohl (load32 (x + 70) s') = seq \<and> pb_next (pbuf s' x) = NULL \<and> pb_ref (pbuf s' x) = 1 \<and>
    pb_flags (pbuf s' x) = T_PBUF_FLAG_POOL"
proof -
  let ?n = "length bs"
  from ds have sg: "tcp_seg s g = \<lparr>sg_next = nxt, sg_p = x, sg_dataptr = x + 86, sg_len = of_nat ?n, sg_tcphdr = x + 66\<rparr>"
    and pb: "pb_payload (pbuf s x) = x + 66" "pb_len (pbuf s x) = of_nat (20 + ?n)" "pb_tot_len (pbuf s x) = of_nat (20 + ?n)"
      "pb_next (pbuf s x) = NULL" "pb_ref (pbuf s x) = 1" "pb_flags (pbuf s x) = T_PBUF_FLAG_POOL"
    and ld: "load_bytes (x + 86) ?n s = bs" by (simp_all add: data_seg_def)
  from ds obtain a w z where f: "tcp_fields (x + 66) s = (tp_local_port b, tp_remote_port b, seq, a, hlf, w, z, 0)"
    by (auto simp: data_seg_def)
  have tk: "take_bit 16 ?n = ?n" using bs(2) by (simp add: take_bit_nat_eq_self)
  have un: "unat (of_nat ?n :: u16) = ?n" "unat (of_nat (20 + ?n) :: u16) = 20 + ?n" "ucast (of_nat ?n :: u16) = (of_nat ?n :: u32)"
    using bs(2) by (rule_tac [1-2] unat_of_nat_lt, simp_all add: unsigned_of_nat tk)
  have seqn: "ntohl (load32 (x + 66 + 4) s) = seq" using f by (simp add: tcp_fields_def)
  have end_: "seg_end g pcb s = seq - tp_lastack b + of_nat ?n" using seqn by (simp add: seg_end_def sg b(1) [symmetric] un(3))
  define b0 where "b0 = b\<lparr>tp_unsent := nxt, tp_flags := tp_flags b AND NOT (TF_ACK_DELAY OR TF_ACK_NOW)\<rparr>"
  define t where "t = (T_TCPH_SET_FLAG (x + 66) TCP_ACK s)\<lparr>tcp_pcb := (tcp_pcb s)(pcb := b0)\<rparr>"
  have same: "tcp_seg t = tcp_seg s" "pbuf t = pbuf s" "netif t = netif s" "netif_list t = netif_list s"
    "netif_default t = netif_default s" "stale_netif t = stale_netif s" "tcp_ticks t = tcp_ticks s"
    "sent t = sent s" "tcp_pcb t pcb = b0" "mem t = mem (T_TCPH_SET_FLAG (x + 66) TCP_ACK s)"
    by (simp_all add: t_def, (subst set_flag_frame, simp)+)
  have acks: "(let s = upd_tcp pcb (\<lambda>b. b\<lparr>tp_unsent := sg_next (tcp_seg s g)\<rparr>) s
      in if tp_state (tcp_pcb s pcb) \<noteq> SYN_SENT then
                   let s = T_TCPH_SET_FLAG (sg_tcphdr (tcp_seg s g)) TCP_ACK s
                   in upd_tcp pcb (\<lambda>b. b\<lparr>tp_flags := tp_flags b AND NOT (TF_ACK_DELAY OR TF_ACK_NOW)\<rparr>) s
                 else s) = t"
    using b(2) by (simp add: t_def b0_def sg b(1) [symmetric] T_TCPH_SET_FLAG_def store16_def load16_def)
  have f': "tcp_fields (x + 66) t = (tp_local_port b, tp_remote_port b, seq, a, hlf OR 0x10, w, z, 0)"
  proof -
    have "tcp_fields (x + 66) t = tcp_fields (x + 66) (T_TCPH_SET_FLAG (x + 66) TCP_ACK s)"
      by (rule tcp_fields_frame) (simp add: same)
    then show ?thesis using set_flag_fields [OF f, of TCP_ACK] by (simp add: TCP_ACK_def)
  qed
  have sb: "pbuf (seg_buffer g t) = pbuf s"
  proof -
    define v where "v = pbuf s x"
    have "pbuf (seg_buffer g t) = (pbuf s)(x := v\<lparr>pb_len := pb_len v, pb_tot_len := pb_tot_len v, pb_payload := pb_payload v\<rparr>)"
      by (simp add: seg_buffer_def Let_def same sg pb(1) v_def)
    moreover have "v\<lparr>pb_len := pb_len v, pb_tot_len := pb_tot_len v, pb_payload := pb_payload v\<rparr> = v" by (cases v) simp
    ultimately show ?thesis by (simp add: v_def)
  qed
  have pl: "unat (pb_len (pbuf s x)) = 20 + ?n" unfolding pb(2) by (rule un(2))
  have tl: "pb_tot_len (pbuf s x) = pb_len (pbuf s x)" using pb(2,3) by (simp only:)
  have room: "ip_room (seg_buffer g t) x"
    using pb(1,6) x bs(2) pl tl by (simp add: ip_room_def pbuf_wf_def sb pbuf_slot_eq sizeof_t_pbuf_def)
  have via': "seg_via b0 t m (tp_local_ip b) n" using via seg_via_frame [of t s b0 b] same by (simp add: b0_def)
  have up': "netif_up t n" using up by (simp add: netif_up_def same)
  have o: "x + 66 = sg_tcphdr (tcp_seg t g)" "x = sg_p (tcp_seg t g)" "pbuf s x = pbuf (seg_buffer g t) x"
    "20 + ?n = unat (pb_len (pbuf s x))" "20 \<le> 20 + ?n" by (simp_all add: same sg sb pl)
  from output_segment_result [OF same(9) [symmetric] refl o(1,2) room o(3-5) pb(4) via' up' f'] obtain u frame c where out:
    "t_tcp_output_segment g pcb t = Some u"
    "u = t\<lparr>mem := mem u, pbuf := (pbuf t)(x := (pbuf s x)\<lparr>pb_payload := x + 66 - 34, pb_tot_len := pb_len (pbuf s x) + 34,
        pb_len := pb_len (pbuf s x) + 34\<rparr>), sent := sent t @ [frame],
      tcp_pcb := (tcp_pcb t)(pcb := seg_sent_pcb (tp_local_ip b) (tcp_ticks t) seq b0)\<rparr>"
    "tcp_fields (x + 66) u = (tp_local_port b, tp_remote_port b, seq, tp_rcv_nxt b0, hlf OR 0x10, adv_wnd b0, c, 0)"
    "\<forall>y. y < x + 66 - 34 \<or> x + 66 + 20 \<le> y \<longrightarrow> mem u y = mem t y"
    "ip_parse frame = Some (tp_local_ip b, tp_remote_ip b0, tp_ttl b0, tp_tos b0, T_IP_PROTO_TCP,
      tcp_header (tp_local_port b) (tp_remote_port b) seq (tp_rcv_nxt b0) (hlf OR 0x10) (adv_wnd b0) c @ load_bytes (x + 66 + 20) (20 + ?n - 20) t)"
    "tcp_sum_ok (tp_local_ip b) (tp_remote_ip b0)
      (tcp_header (tp_local_port b) (tp_remote_port b) seq (tp_rcv_nxt b0) (hlf OR 0x10) (adv_wnd b0) c @ load_bytes (x + 66 + 20) (20 + ?n - 20) t)"
    by blast
  have b0: "tp_remote_ip b0 = tp_remote_ip b" "tp_ttl b0 = tp_ttl b" "tp_tos b0 = tp_tos b" "tp_rcv_nxt b0 = tp_rcv_nxt b"
    "adv_wnd b0 = adv_wnd b" by (simp_all add: b0_def adv_wnd_def)
  have e20: "x + 66 + 20 = x + 86" by simp
  have "load_bytes (x + 86) ?n t = bs"
    using ld load_bytes_cong [of ?n t "x + 86" s] by (simp add: same(10) set_flag_outside)
  then have frame: "data_frame b seq (hlf OR 0x10) bs frame"
    using out(5,6) unfolding e20 b0 by (auto simp: data_frame_def Let_def)
  define b2 where "b2 = seg_sent_pcb (tp_local_ip b) (tcp_ticks s) seq b0"
  define b3 where "b3 = b2\<lparr>tp_snd_nxt := seq + of_nat ?n\<rparr>"
  define b4 where "b4 = (if T_TCP_SEQ_LT (tp_snd_max b3) (tp_snd_nxt b3) then b3\<lparr>tp_snd_max := tp_snd_nxt b3\<rparr> else b3)"
  define v where "v = u\<lparr>tcp_pcb := (tcp_pcb s)(pcb := b4)\<rparr>"
  have u: "tcp_seg u = tcp_seg s" "pbuf u = (pbuf s)(x := (pbuf s x)\<lparr>pb_payload := x + 66 - 34,
      pb_tot_len := pb_len (pbuf s x) + 34, pb_len := pb_len (pbuf s x) + 34\<rparr>)"
    by (subst out(2), simp add: same(1,2))+
  have up: "tcp_pcb u = (tcp_pcb s)(pcb := b2)" by (subst out(2), simp add: same(7) b2_def, simp add: t_def)
  have ldu: "load32 y (u\<lparr>tcp_pcb := F\<rparr>) = load32 y u" "load16 y (u\<lparr>tcp_pcb := F\<rparr>) = load16 y u"
    "load32 y (u\<lparr>tcp_pcb := F, tcp_seg := G\<rparr>) = load32 y u" for y F G by (simp_all add: load32_def load16_def)
  have k: "ntohl (load32 (x + 66 + 4) u) = seq" "ntohs (load16 (x + 66 + 12) u) = hlf OR 0x10" using out(3) by (simp_all add: tcp_fields_def)
  have tl: "T_TCP_TCPLEN g (u\<lparr>tcp_pcb := F\<rparr>) = ?n" "T_TCP_TCPLEN g u = ?n" for F
    using k(2) hlf ldu(2) by (auto simp: T_TCP_TCPLEN_def T_TCPH_FLAGS_def u sg TCP_FIN_def TCP_SYN_def TCP_FLAGS_def un(1))
  have mu: "mem u y = mem s y" if "y < x + 32 \<or> x + 86 \<le> y" for y
    using out(4) that by (auto simp: same(10) set_flag_outside)
  have n: "upd_tcp pcb (\<lambda>b. b\<lparr>tp_snd_nxt := ntohl (load32 (tcph_seqno (sg_tcphdr (tcp_seg u g))) u) +
      of_nat (T_TCP_TCPLEN g u)\<rparr>) u = u\<lparr>tcp_pcb := (tcp_pcb s)(pcb := b3)\<rparr>"
    using k(1) by (simp add: u(1) up sg b3_def tl)
  have mx: "(let s = u\<lparr>tcp_pcb := (tcp_pcb s)(pcb := b3)\<rparr> in
      if T_TCP_SEQ_LT (tp_snd_max (tcp_pcb s pcb)) (tp_snd_nxt (tcp_pcb s pcb))
      then upd_tcp pcb (\<lambda>b. b\<lparr>tp_snd_max := tp_snd_nxt b\<rparr>) s else s) = v"
    by (simp add: v_def b4_def Let_def)
  define b' where "b' = b4\<lparr>tp_unacked := (if tp_unacked b = NULL then g else tp_unacked b)\<rparr>"
  define s' where "s' = u\<lparr>tcp_pcb := (tcp_pcb s)(pcb := b'),
      tcp_seg := (linked_seg (tp_unacked b) useg g (tcp_seg s))(g := (tcp_seg s g)\<lparr>sg_next := NULL\<rparr>)\<rparr>"
  have b4: "tp_unacked b4 = tp_unacked b" "tp_unsent b4 = nxt"
    by (simp_all add: b4_def b3_def b2_def seg_sent_pcb_def b0_def)
  have dn: "output_done g useg pcb v = Some (g, s')"
  proof (cases "tp_unacked b = NULL")
    case True
    then show ?thesis using tl(1) bs(1) b4(1) by (simp add: output_done_def v_def u(1) s'_def b'_def linked_seg_def)
  next
    case False
    with useg obtain x' where x': "x' \<in> set pbuf_slots" "x' \<noteq> x" "sg_tcphdr (tcp_seg s useg) = x' + 66"
      "\<not> T_TCP_SEQ_LT seq (ntohl (load32 (x' + 70) s))" and ug: "useg \<noteq> NULL" "useg \<noteq> g" by (auto simp: sent_before_def)
    have "mem u (x' + 70 + i) = mem s (x' + 70 + i)" if "i < 4" for i
      using mu slots_apart [OF x'(1) x x'(2)] that by (auto simp: pbuf_slot_eq)
    from this [of 0] this [of 1] this [of 2] this [of 3] have "load32 (x' + 70) u = load32 (x' + 70) s" by (simp add: load32_def)
    with x'(4) have nlt: "\<not> T_TCP_SEQ_LT seq (ntohl (load32 (x' + 70) u))" by simp
    have "b4\<lparr>tp_unacked := tp_unacked b\<rparr> = b4" using b4(1) by (cases b4) simp
    then have bb: "b' = b4" using False by (simp add: b'_def)
    have e: "x + 66 + 4 = x + 70" "x' + 66 + 4 = x' + 70" by simp_all
    have "(tcp_seg s)(g := (tcp_seg s g)\<lparr>sg_next := NULL\<rparr>, useg := (tcp_seg s useg)\<lparr>sg_next := g\<rparr>) =
        (linked_seg (tp_unacked b) useg g (tcp_seg s))(g := (tcp_seg s g)\<lparr>sg_next := NULL\<rparr>)"
      using False ug by (auto simp: linked_seg_def)
    moreover have "sg_next (linked_seg (tp_unacked b) useg g (tcp_seg s) useg) = g" using False by (simp add: linked_seg_def)
    ultimately show ?thesis using tl(1) bs(1) b4(1) False ug nlt k(1) unfolding output_done_def
      by (simp add: v_def u(1) s'_def bb ldu sg x'(3) e)
  qed
  have "output_loop wnd g useg pcb s = output_loop wnd nxt g pcb s'"
  proof -
    have "tp_unsent (tcp_pcb s' pcb) = nxt" using b4 by (simp add: s'_def b'_def)
    then show ?thesis using g fits
      by (subst output_loop.simps) (simp only: end_ acks [unfolded Let_def] out(1) n mx [unfolded Let_def] dn simp_thms if_True if_False
        Let_def Option.bind.simps prod.case)
  qed
  moreover have "s' = s\<lparr>mem := mem s', pbuf := pbuf s', sent := sent s @ [frame], tcp_pcb := (tcp_pcb s)(pcb := b'),
      tcp_seg := (linked_seg (tp_unacked b) useg g (tcp_seg s))(g := (tcp_seg s g)\<lparr>sg_next := NULL\<rparr>)\<rparr>"
  proof -
    have "mem s' = mem u" "pbuf s' = pbuf u" by (simp_all add: s'_def)
    moreover have "u\<lparr>tcp_pcb := F, tcp_seg := G\<rparr> = s\<lparr>mem := mem u, pbuf := pbuf u, sent := sent s @ [frame], tcp_pcb := F, tcp_seg := G\<rparr>" for F G
      by (subst (1) out(2)) (simp add: t_def u(2) T_TCPH_SET_FLAG_def store16_def)
    ultimately show ?thesis by (simp only: s'_def)
  qed
  moreover have "moved nxt (if tp_unacked b = NULL then g else tp_unacked b) (seq + of_nat ?n) b b'"
  proof -
    have "b' = b\<lparr>tp_unsent := nxt, tp_unacked := (if tp_unacked b = NULL then g else tp_unacked b),
      tp_snd_nxt := seq + of_nat ?n, tp_snd_max := tp_snd_max b', tp_rtime := tp_rtime b',
      tp_rttest := tp_rttest b', tp_rtseq := tp_rtseq b', tp_flags := tp_flags b'\<rparr>"
      by (simp add: b'_def b4_def b3_def b2_def seg_sent_pcb_def b0_def)
    then show ?thesis unfolding moved_def by blast
  qed
  moreover have "\<forall>y. y \<noteq> x \<longrightarrow> pbuf s' y = pbuf s y" "\<forall>y. y < x + 32 \<or> x + 86 \<le> y \<longrightarrow> mem s' y = mem s y"
    "pb_next (pbuf s' x) = NULL" "pb_ref (pbuf s' x) = 1" "pb_flags (pbuf s' x) = T_PBUF_FLAG_POOL"
    using mu pb(4-6) by (simp_all add: s'_def u(2))
  moreover have "ntohl (load32 (x + 70) s') = seq"
  proof -
    have "x + 70 = x + 66 + 4" by simp
    then show ?thesis using k(1) by (simp only: s'_def ldu)
  qed
  ultimately show ?thesis using frame by blast
qed

section \<open>Sending a queue\<close>

text \<open>How many of the pieces end within a window of \<open>w\<close> bytes when the first begins at \<open>d\<close>.\<close>

fun in_window :: "nat \<Rightarrow> nat \<Rightarrow> u8 list list \<Rightarrow> nat" where
  "in_window w d [] = 0"
| "in_window w d (p # ps) = (if d + length p \<le> w then Suc (in_window w (d + length p) ps) else 0)"

text \<open>One frame for each piece, with consecutive numbers; only the last has the flags \<open>f\<close>.\<close>

fun data_frames :: "t_tcp_pcb \<Rightarrow> u16 \<Rightarrow> u32 \<Rightarrow> u8 list list \<Rightarrow> u8 list list \<Rightarrow> bool" where
  "data_frames b f seq [] fs = (fs = [])"
| "data_frames b f seq (p # ps) fs = (case fs of [] \<Rightarrow> False
   | fr # fs \<Rightarrow> data_frame b seq (if ps = [] then f else 0x5010) p fr \<and> data_frames b f (seq + of_nat (length p)) ps fs)"

lemma in_window_le: "in_window w d ps \<le> length ps"
  by (induction ps arbitrary: d) auto

text \<open>Blocks of the same connection: what the header of a segment is made of.\<close>

definition same_conn :: "t_tcp_pcb \<Rightarrow> t_tcp_pcb \<Rightarrow> bool" where
  "same_conn b b' \<longleftrightarrow> tp_local_port b' = tp_local_port b \<and> tp_remote_port b' = tp_remote_port b \<and> tp_rcv_nxt b' = tp_rcv_nxt b \<and>
    tp_local_ip b' = tp_local_ip b \<and> tp_remote_ip b' = tp_remote_ip b \<and> tp_ttl b' = tp_ttl b \<and> tp_tos b' = tp_tos b \<and>
    tp_rcv_wnd b' = tp_rcv_wnd b \<and> tp_mss b' = tp_mss b \<and> tp_state b' = tp_state b \<and> tp_lastack b' = tp_lastack b"

lemma same_connD:
  assumes "same_conn b b'"
  shows "data_frame b' = data_frame b" "queued b' = queued b" "data_frames b' = data_frames b"
proof -
  show f: "data_frame b' = data_frame b" using assms by (intro ext) (simp add: data_frame_def adv_wnd_def same_conn_def)
  have "data_seg b' = (data_seg b :: u32 \<Rightarrow> u16 \<Rightarrow> u8 list \<Rightarrow> ptr \<Rightarrow> ptr \<Rightarrow> ptr \<Rightarrow> 'a tcp_st_scheme \<Rightarrow> bool)"
    using assms by (intro ext) (simp add: data_seg_def same_conn_def)
  then have "queued b' h q ps gs xs s = queued b h q ps gs xs s" for h q ps gs xs and s :: "'a tcp_st_scheme"
  proof (induction ps arbitrary: q gs xs)
    case (Cons p ps)
    then show ?case by (cases gs; cases xs) simp_all
  qed simp
  then show "queued b' = (queued b :: _ \<Rightarrow> _ \<Rightarrow> _ \<Rightarrow> _ \<Rightarrow> _ \<Rightarrow> 'a tcp_st_scheme \<Rightarrow> bool)" by (intro ext)
  have "data_frames b' h q ps fs = data_frames b h q ps fs" for h q ps fs
    using f by (induction ps arbitrary: q fs) (simp_all split: list.splits)
  then show "data_frames b' = data_frames b" by (intro ext)
qed

lemma moved_conn: "moved unsent unacked nxt b b' \<Longrightarrow> same_conn b b'"
  unfolding moved_def by (elim exE) (simp add: same_conn_def)

lemma moved_same:
  assumes "moved unsent unacked nxt b b'"
  shows "queued b' = queued b" "tp_state b' = tp_state b" "tp_local_ip b' = tp_local_ip b"
    "tp_remote_ip b' = tp_remote_ip b" "tp_lastack b' = tp_lastack b" "tp_unsent b' = unsent" "tp_unacked b' = unacked" "tp_snd_nxt b' = nxt"
proof -
  show "queued b' = queued b" by (rule same_connD(2) [OF moved_conn [OF assms]])
  show "tp_state b' = tp_state b" "tp_local_ip b' = tp_local_ip b" "tp_remote_ip b' = tp_remote_ip b"
    "tp_lastack b' = tp_lastack b" "tp_unsent b' = unsent" "tp_unacked b' = unacked" "tp_snd_nxt b' = nxt"
    using assms unfolding moved_def by (elim exE, simp)+
qed

lemma moved_trans: "moved u a n b c \<Longrightarrow> moved u' a' n' c d \<Longrightarrow> moved u' a' n' b d"
  unfolding moved_def by (elim exE) (simp, blast)

lemma seg_end_data: "data_seg b seq hlf bs nxt g x s \<Longrightarrow> length bs \<le> 1460 \<Longrightarrow>
    seg_end g pcb s = seq - tp_lastack (tcp_pcb s pcb) + of_nat (length bs)"
proof -
  assume ds: "data_seg b seq hlf bs nxt g x s" and l: "length bs \<le> 1460"
  have "take_bit 16 (length bs) = length bs" using l by (simp add: take_bit_nat_eq_self)
  then have "ucast (of_nat (length bs) :: u16) = (of_nat (length bs) :: u32)" by (simp add: unsigned_of_nat)
  moreover from ds have "ntohl (load32 (x + 66 + 4) s) = seq" by (auto simp: data_seg_def tcp_fields_def)
  ultimately show ?thesis using ds by (simp add: seg_end_def data_seg_def)
qed

lemma seq_not_before: "n \<le> 1460 \<Longrightarrow> \<not> T_TCP_SEQ_LT (seq + of_nat n) seq"
proof -
  assume n: "n \<le> 1460"
  then have u: "unat (of_nat n :: u32) = n" by (simp add: unat_of_nat_lt)
  have "seq - (seq + of_nat n) = - (of_nat n :: u32)" by simp
  moreover have "unat (- (of_nat n :: u32)) = (if of_nat n = (0 :: u32) then 0 else 2 ^ 32 - n)" by (simp add: unat_neg u)
  ultimately show ?thesis using n by (auto simp: seq_lt_distance)
qed

text \<open>When anything may be sent, the first segment ends within the window.\<close>

lemma first_seg_fits:
  assumes b: "b = tcp_pcb s pcb" and q: "queued b f seq ps gs xs s" "\<forall>p \<in> set ps. p \<noteq> [] \<and> length p \<le> 1460"
    and win: "d = unat (seq - tp_lastack b)" "d + length (concat ps) < 2 ^ 32" "0 < in_window (unat wnd) d ps"
  obtains g gs1 where "gs = g # gs1" "seg_end g pcb s \<le> wnd"
proof -
  obtain p ps1 where p: "ps = p # ps1" "d + length p \<le> unat wnd" using win(3) by (cases ps) (auto split: if_splits)
  obtain g gs1 x xs1 where gx: "gs = g # gs1" "xs = x # xs1" using q(1) p(1) by (cases gs; cases xs) auto
  have ds: "data_seg b seq (if ps1 = [] then f else 0x5000) p (case gs1 of [] \<Rightarrow> NULL | g' # _ \<Rightarrow> g') g x s"
    using q(1) by (simp add: p gx)
  have l: "length p \<le> 1460" using q(2) p(1) by simp
  have up: "unat (of_nat (length p) :: u32) = length p" using l by (simp add: unat_of_nat_lt)
  have "unat (seg_end g pcb s) = d + length p"
    using seg_end_data [OF ds l, of pcb] win(1,2) p(1) b up
      unat_add_small [of "seq - tp_lastack b" "of_nat (length p)"] by simp
  with p(2) have "seg_end g pcb s \<le> wnd" by (simp only: word_le_nat_alt)
  with gx(1) show ?thesis by (rule that)
qed

lemma output_undefined:
  assumes "b = tcp_pcb s pcb" and "tp_local_ip b \<noteq> 0" and "stale_netif s (length (sent s)) = None"
    and "tp_unsent b = g" and "g \<noteq> NULL" and "seg_end g pcb s \<le> min (tp_snd_wnd b) (ucast (tp_cwnd b))"
  shows "t_tcp_output pcb s = None"
proof -
  define t where "t = (let s = upd_tcp pcb (\<lambda>b. b\<lparr>tp_unsent := sg_next (tcp_seg s g)\<rparr>) s
    in if tp_state (tcp_pcb s pcb) \<noteq> SYN_SENT then
         let s = T_TCPH_SET_FLAG (sg_tcphdr (tcp_seg s g)) TCP_ACK s
         in upd_tcp pcb (\<lambda>b. b\<lparr>tp_flags := tp_flags b AND NOT (TF_ACK_DELAY OR TF_ACK_NOW)\<rparr>) s
       else s)"
  have "tp_local_ip (tcp_pcb t pcb) \<noteq> 0" "stale_netif t (length (sent t)) = None"
    using assms(1-3) by (simp_all add: t_def Let_def T_TCPH_SET_FLAG_def)
  then have "t_tcp_output_segment g pcb t = None" by (rule output_segment_undefined)
  then have "output_loop wnd g useg pcb s = None" if "seg_end g pcb s \<le> wnd" for wnd useg
    using that assms(5) by (subst output_loop.simps)
      (simp only: Let_def t_def [unfolded Let_def, symmetric] simp_thms if_True Option.bind.simps)
  from this [OF assms(6)] have "output_loop (min (tp_snd_wnd b) (ucast (tp_cwnd b))) g useg pcb s = None" for useg .
  moreover have "\<not> min (tp_snd_wnd b) (ucast (tp_cwnd b)) < seg_end g pcb s" using assms(6) by (simp only: not_less)
  ultimately show ?thesis using assms(5) unfolding t_tcp_output_def assms(1) [symmetric] assms(4)
    by (simp only: Let_def simp_thms if_False Option.bind.simps) (simp split: bind_split)
qed

lemma output_loop_result:
  assumes "b = tcp_pcb s pcb" and "tp_state b \<noteq> SYN_SENT" and "tp_local_ip b \<noteq> 0"
    and "queued b 0x5008 seq ps gs xs s" and "\<forall>p \<in> set ps. p \<noteq> [] \<and> length p \<le> 1460"
    and "distinct gs" and "NULL \<notin> set gs" and "distinct xs" and "set xs \<subseteq> set pbuf_slots"
    and "netif_usable b s"
    and "unat (seq - tp_lastack b) = d" and "d + length (concat ps) < 2 ^ 32"
    and "tp_unsent b = (case gs of [] \<Rightarrow> NULL | g # _ \<Rightarrow> g)"
    and "chained (sg_link s) (tp_unacked b) us" and "us \<noteq> [] \<longrightarrow> useg = last us \<and> sent_before useg seq xs s"
    and "set us \<inter> set gs = {}" and "k = in_window (unat wnd) d ps"
  shows "\<exists>s' fs b'. output_loop wnd (tp_unsent b) useg pcb s = Some s' \<and>
    data_frames b (if k = length ps then 0x5018 else 0x5010) seq (take k ps) fs \<and>
    s' = s\<lparr>mem := mem s', pbuf := pbuf s', sent := sent s @ fs, tcp_pcb := (tcp_pcb s)(pcb := b'), tcp_seg := tcp_seg s'\<rparr> \<and>
    moved (case drop k gs of [] \<Rightarrow> NULL | g # _ \<Rightarrow> g) (if us = [] \<and> 0 < k then hd gs else tp_unacked b)
      (if k = 0 then tp_snd_nxt b else seq + of_nat (length (concat (take k ps)))) b b' \<and>
    chained (sg_link s') (tp_unacked b') (us @ take k gs) \<and>
    queued b 0x5008 (seq + of_nat (length (concat (take k ps)))) (drop k ps) (drop k gs) (drop k xs) s' \<and>
    (\<forall>y. y \<notin> set (take k xs) \<longrightarrow> pbuf s' y = pbuf s y)"
  using assms
proof (induction ps arbitrary: b seq gs xs d us useg k s)
  case Nil
  have "gs = []" "xs = []" using Nil.prems(4) by simp_all
  moreover have "output_loop wnd NULL useg pcb s = Some s" by (subst output_loop.simps) simp
  moreover have "moved (tp_unsent b) (tp_unacked b) (tp_snd_nxt b) b b" unfolding moved_def
    by (intro exI [of _ "tp_snd_max b"] exI [of _ "tp_rtime b"] exI [of _ "tp_rttest b"] exI [of _ "tp_rtseq b"] exI [of _ "tp_flags b"]) simp
  ultimately show ?case using Nil.prems
    by (intro exI [of _ s] exI [of _ "[]"] exI [of _ b]) simp
next
  case (Cons p ps)
  note P = Cons.prems
  obtain g gs1 x xs1 where gx: "gs = g # gs1" "xs = x # xs1" using P(4) by (cases gs; cases xs) auto
  let ?nxt = "case gs1 of [] \<Rightarrow> NULL | g' # _ \<Rightarrow> g'"
  define hlf :: u16 where "hlf = (if ps = [] then 0x5008 else 0x5000)"
  have q: "data_seg b seq hlf p ?nxt g x s" "queued b 0x5008 (seq + of_nat (length p)) ps gs1 xs1 s"
    using P(4) by (simp_all add: gx hlf_def)
  have p: "p \<noteq> []" "length p \<le> 1460" using P(5) by simp_all
  have g: "g \<noteq> NULL" "tp_unsent b = g" using P(7,13) by (simp_all add: gx)
  have up: "unat (of_nat (length p) :: u32) = length p" using p(2) by (simp add: unat_of_nat_lt)
  have sum: "d + length p < 2 ^ 32" using P(12) by simp
  have ud: "unat (seq - tp_lastack b + of_nat (length p)) = d + length p"
    using unat_add_small [of "seq - tp_lastack b" "of_nat (length p)"] sum by (simp add: P(11) up)
  have fits: "seq - tp_lastack b + of_nat (length p) \<le> wnd \<longleftrightarrow> d + length p \<le> unat wnd"
    unfolding word_le_nat_alt ud ..
  have se: "seg_end g pcb s = seq - tp_lastack b + of_nat (length p)" using seg_end_data [OF q(1) p(2)] P(1) by simp
  show ?case
  proof (cases "d + length p \<le> unat wnd")
    case False
    then have "output_loop wnd g useg pcb s = Some s" using fits by (subst output_loop.simps) (simp add: se)
    moreover have "k = 0" using P(17) False by simp
    moreover have "moved (tp_unsent b) (tp_unacked b) (tp_snd_nxt b) b b" unfolding moved_def
      by (intro exI [of _ "tp_snd_max b"] exI [of _ "tp_rtime b"] exI [of _ "tp_rttest b"] exI [of _ "tp_rtseq b"] exI [of _ "tp_flags b"]) simp
    ultimately show ?thesis using P(1,4,13,14) g
      by (intro exI [of _ s] exI [of _ "[]"] exI [of _ b]) simp
  next
    case True
    define k1 where "k1 = in_window (unat wnd) (d + length p) ps"
    have k: "k = Suc k1" using P(17) True by (simp add: k1_def)
    have xs: "x \<in> set pbuf_slots" "x \<notin> set xs1" using P(8,9) by (simp_all add: gx)
    have us0: "us = [] \<longleftrightarrow> tp_unacked b = NULL" using P(14) by (cases us) auto
    have ug: "tp_unacked b \<noteq> NULL \<longrightarrow> useg \<noteq> NULL \<and> useg \<noteq> g \<and> sent_before useg seq [x] s"
    proof
      assume "tp_unacked b \<noteq> NULL"
      then have ne: "us \<noteq> []" using us0 by simp
      with P(15) have u: "us \<noteq> []" "useg = last us" "sent_before useg seq xs s" by blast+
      then have "useg \<in> set us" by simp
      then have "useg \<noteq> NULL" "useg \<noteq> g" using chained_not_NULL [OF P(14)] P(16) by (auto simp: gx)
      moreover have "sent_before useg seq [x] s" using u(3) by (auto simp: sent_before_def gx)
      ultimately show "useg \<noteq> NULL \<and> useg \<noteq> g \<and> sent_before useg seq [x] s" by blast
    qed
    have h2: "hlf \<in> {0x5000, 0x5008}" by (simp add: hlf_def)
    obtain m n where via: "seg_via b s m (tp_local_ip b) n" "netif_up s n" using netif_usable_via [OF P(10,3)] by blast
    from output_data_step [OF P(1-3) g(1) q(1) h2 xs(1) p via _ ug, of wnd] True fits obtain s1 frame b1 where st:
      "output_loop wnd g useg pcb s = output_loop wnd ?nxt g pcb s1" "data_frame b seq (hlf OR 0x10) p frame"
      "s1 = s\<lparr>mem := mem s1, pbuf := pbuf s1, sent := sent s @ [frame], tcp_pcb := (tcp_pcb s)(pcb := b1),
        tcp_seg := (linked_seg (tp_unacked b) useg g (tcp_seg s))(g := (tcp_seg s g)\<lparr>sg_next := NULL\<rparr>)\<rparr>"
      "moved ?nxt (if tp_unacked b = NULL then g else tp_unacked b) (seq + of_nat (length p)) b b1"
      "\<forall>y. y \<noteq> x \<longrightarrow> pbuf s1 y = pbuf s y" "\<forall>y. y < x + 32 \<or> x + 86 \<le> y \<longrightarrow> mem s1 y = mem s y"
      "ntohl (load32 (x + 70) s1) = seq" by blast
    note mv = moved_same [OF st(4)]
    have s1: "tcp_pcb s1 = (tcp_pcb s)(pcb := b1)" "netif s1 = netif s" "netif_list s1 = netif_list s"
      "netif_default s1 = netif_default s" "stale_netif s1 = stale_netif s" "sent s1 = sent s @ [frame]"
      "tcp_seg s1 = (linked_seg (tp_unacked b) useg g (tcp_seg s))(g := (tcp_seg s g)\<lparr>sg_next := NULL\<rparr>)"
      by (subst st(3), simp)+
    have gs1: "g \<notin> set gs1" "set us \<inter> set gs1 = {}" "g \<notin> set us" using P(6,16) by (auto simp: gx)
    have 1: "b1 = tcp_pcb s1 pcb" "tp_state b1 \<noteq> SYN_SENT" "tp_local_ip b1 \<noteq> 0" using P(2,3) by (simp_all add: s1 mv)
    have 2: "queued b1 0x5008 (seq + of_nat (length p)) ps gs1 xs1 s1" unfolding mv(1)
    proof (rule queued_frame [OF q(2)])
      fix g' assume g': "g' \<in> set gs1"
      then have "g' \<noteq> g" using gs1(1) by blast
      moreover have "g' \<noteq> useg" if "tp_unacked b \<noteq> NULL"
        using that us0 P(15) gs1(2) g' by (metis disjoint_iff last_in_set)
      ultimately show "tcp_seg s1 g' = tcp_seg s g'" by (simp add: s1 linked_seg_def)
    next
      fix x' assume "x' \<in> set xs1"
      then show "pbuf s1 x' = pbuf s x'" using st(5) xs(2) by metis
    next
      show "\<forall>x' \<in> set xs1. \<forall>y. x' + 66 \<le> y \<and> y < x' + pbuf_slot \<longrightarrow> mem s1 y = mem s y"
      proof (intro ballI allI impI)
        fix x' y assume x': "x' \<in> set xs1" and y: "x' + 66 \<le> y \<and> y < x' + pbuf_slot"
        have "x' \<in> set pbuf_slots" "x \<noteq> x'" using x' P(9) xs(2) by (auto simp: gx)
        from slots_apart [OF xs(1) this] y have "y < x + 32 \<or> x + 86 \<le> y" by (auto simp: pbuf_slot_eq)
        then show "mem s1 y = mem s y" using st(6) by blast
      qed
    qed (use P(5) in auto)
    have 3: "\<forall>p \<in> set ps. p \<noteq> [] \<and> length p \<le> 1460" "distinct gs1" "NULL \<notin> set gs1" "distinct xs1" "set xs1 \<subseteq> set pbuf_slots"
      using P(5-9) by (simp_all add: gx)
    have 4: "netif_usable b1 s1" using P(10) netif_usable_frame [OF s1(2-5) mv(4)] by simp
    have 5: "unat (seq + of_nat (length p) - tp_lastack b1) = d + length p" "d + length p + length (concat ps) < 2 ^ 32"
      using ud P(12) by (simp_all add: mv algebra_simps)
    have 6: "chained (sg_link s1) (tp_unacked b1) (us @ [g])"
    proof (cases "us = []")
      case True
      then show ?thesis using us0 g(1) by (simp add: mv s1)
    next
      case False
      then obtain us0 u where uu: "us = us0 @ [u]" "useg = u" using P(15) by (metis append_butlast_last_id)
      have d: "distinct us" using chained_distinct [OF P(14)] .
      have sl: "sg_link s1 = ((sg_link s)(g := NULL))(u := g)"
        using False us0 uu gs1(3) by (auto simp: s1 linked_seg_def fun_eq_iff)
      have "chained ((sg_link s)(g := NULL)) (tp_unacked b) (us0 @ u # [])" using P(14) gs1(3) uu by simp
      moreover have "chained ((sg_link s)(g := NULL)) g [g]" using g(1) by simp
      ultimately have "chained (((sg_link s)(g := NULL))(u := g)) (tp_unacked b) (us0 @ u # [g])"
        by (rule chained_redirect) (use d uu gs1(3) in auto)
      then show ?thesis using False us0 uu by (simp add: mv sl)
    qed
    have 7: "us @ [g] \<noteq> [] \<longrightarrow> g = last (us @ [g]) \<and> sent_before g (seq + of_nat (length p)) xs1 s1"
    proof -
      have "sg_tcphdr (tcp_seg s1 g) = x + 66" using q(1) by (simp add: s1 data_seg_def)
      then show ?thesis using xs st(7) seq_not_before [OF p(2), of seq] by (auto simp: sent_before_def)
    qed
    have 8: "tp_unsent b1 = ?nxt" "set (us @ [g]) \<inter> set gs1 = {}" using gs1 by (simp_all add: mv)
    from Cons.IH [OF 1 2 3 4 5 8(1) 6 7 8(2) k1_def] obtain s' fs b' where ih:
      "output_loop wnd (tp_unsent b1) g pcb s1 = Some s'"
      "data_frames b1 (if k1 = length ps then 0x5018 else 0x5010) (seq + of_nat (length p)) (take k1 ps) fs"
      "s' = s1\<lparr>mem := mem s', pbuf := pbuf s', sent := sent s1 @ fs, tcp_pcb := (tcp_pcb s1)(pcb := b'), tcp_seg := tcp_seg s'\<rparr>"
      "moved (case drop k1 gs1 of [] \<Rightarrow> NULL | g # _ \<Rightarrow> g) (if us @ [g] = [] \<and> 0 < k1 then hd gs1 else tp_unacked b1)
        (if k1 = 0 then tp_snd_nxt b1 else seq + of_nat (length p) + of_nat (length (concat (take k1 ps)))) b1 b'"
      "chained (sg_link s') (tp_unacked b') ((us @ [g]) @ take k1 gs1)"
      "queued b1 0x5008 (seq + of_nat (length p) + of_nat (length (concat (take k1 ps)))) (drop k1 ps) (drop k1 gs1) (drop k1 xs1) s'"
      "\<forall>y. y \<notin> set (take k1 xs1) \<longrightarrow> pbuf s' y = pbuf s1 y" by blast
    have run: "output_loop wnd (tp_unsent b) useg pcb s = Some s'" using st(1) ih(1) g(2) by (simp add: mv)
    have fr: "data_frames b (if k = length (p # ps) then 0x5018 else 0x5010) seq (take k (p # ps)) (frame # fs)"
    proof -
      have "k1 \<le> length ps" unfolding k1_def by (rule in_window_le)
      then have "hlf OR 0x10 = (if take k1 ps = [] then if k1 = length ps then 0x5018 else 0x5010 else 0x5010)"
        by (cases "ps = []"; cases "k1 = 0") (simp_all add: hlf_def)
      with st(2) have "data_frame b seq (if take k1 ps = [] then if k1 = length ps then 0x5018 else 0x5010 else 0x5010) p frame"
        by (simp only:)
      moreover note ih(2) [unfolded same_connD(3) [OF moved_conn [OF st(4)]]]
      ultimately show ?thesis by (simp only: k take_Suc_Cons data_frames.simps list.case length_Cons nat.inject simp_thms)
    qed
    have "s' = s\<lparr>mem := mem s', pbuf := pbuf s', sent := sent s @ frame # fs, tcp_pcb := (tcp_pcb s)(pcb := b'), tcp_seg := tcp_seg s'\<rparr>"
      by (subst ih(3), subst st(3)) (simp add: s1)
    moreover have "moved (case drop k gs of [] \<Rightarrow> NULL | g # _ \<Rightarrow> g) (if us = [] \<and> 0 < k then hd gs else tp_unacked b)
      (if k = 0 then tp_snd_nxt b else seq + of_nat (length (concat (take k (p # ps))))) b b'"
      using moved_trans [OF st(4) ih(4)] us0 by (simp add: k gx mv add.assoc split: if_splits)
    moreover have "chained (sg_link s') (tp_unacked b') (us @ take k gs)" using ih(5) by (simp add: k gx)
    moreover have "queued b 0x5008 (seq + of_nat (length (concat (take k (p # ps))))) (drop k (p # ps)) (drop k gs) (drop k xs) s'"
      using ih(6) by (simp add: k gx mv add.assoc)
    moreover have "\<forall>y. y \<notin> set (take k xs) \<longrightarrow> pbuf s' y = pbuf s y" using ih(7) st(5) by (simp add: k gx)
    ultimately show ?thesis using run fr by blast
  qed
qed

lemma tcp_output_result:
  assumes b: "b = tcp_pcb s pcb" "pcb \<noteq> NULL" "tp_state b \<noteq> SYN_SENT" "tp_local_ip b \<noteq> 0"
    and q: "queued b 0x5008 seq ps gs xs s" "\<forall>p \<in> set ps. p \<noteq> [] \<and> length p \<le> 1460"
      "distinct gs" "NULL \<notin> set gs" "distinct xs" "set xs \<subseteq> set pbuf_slots" "tp_unsent b = (case gs of [] \<Rightarrow> NULL | g # _ \<Rightarrow> g)"
    and via: "netif_usable b s"
    and un: "chained (sg_link s) (tp_unacked b) us" "us \<noteq> [] \<longrightarrow> sent_before (last us) seq xs s" "set us \<inter> set gs = {}"
    and win: "d = unat (seq - tp_lastack b)" "d + length (concat ps) < 2 ^ 32"
      "k = in_window (unat (min (tp_snd_wnd b) (ucast (tp_cwnd b)))) d ps"
    and ack: "tp_flags b AND TF_ACK_NOW = 0 \<or> 0 < k"
  shows "\<exists>s' fs b'. t_tcp_output pcb s = Some (0, s') \<and>
    data_frames b (if k = length ps then 0x5018 else 0x5010) seq (take k ps) fs \<and>
    s' = s\<lparr>mem := mem s', pbuf := pbuf s', sent := sent s @ fs, tcp_pcb := (tcp_pcb s)(pcb := b'), tcp_seg := tcp_seg s'\<rparr> \<and>
    moved (case drop k gs of [] \<Rightarrow> NULL | g # _ \<Rightarrow> g) (if us = [] \<and> 0 < k then hd gs else tp_unacked b)
      (if k = 0 then tp_snd_nxt b else seq + of_nat (length (concat (take k ps)))) b b' \<and>
    chained (sg_link s') (tp_unacked b') (us @ take k gs) \<and>
    queued b 0x5008 (seq + of_nat (length (concat (take k ps)))) (drop k ps) (drop k gs) (drop k xs) s' \<and>
    (\<forall>y. y \<notin> set (take k xs) \<longrightarrow> pbuf s' y = pbuf s y)"
proof -
  let ?wnd = "min (tp_snd_wnd b) (ucast (tp_cwnd b))"
  define useg where "useg = (if us = [] then NULL else last us)"
  have nn: "us = [] \<longleftrightarrow> tp_unacked b = NULL" using un(1) by (cases us) auto
  have ul: "(if tp_unacked b \<noteq> NULL then last_from (sg_link s) (tp_unacked b) else Some NULL) = Some useg"
    using last_from_chained [OF un(1)] nn by (auto simp: useg_def)
  have us: "us \<noteq> [] \<longrightarrow> useg = last us \<and> sent_before useg seq xs s" using un(2) by (simp add: useg_def)
  have noack: "\<not> (tp_flags b AND TF_ACK_NOW \<noteq> 0 \<and> (tp_unsent b = NULL \<or> ?wnd < seg_end (tp_unsent b) pcb s))"
  proof
    assume A: "tp_flags b AND TF_ACK_NOW \<noteq> 0 \<and> (tp_unsent b = NULL \<or> ?wnd < seg_end (tp_unsent b) pcb s)"
    with ack have "0 < in_window (unat ?wnd) d ps" using win(3) by blast
    from first_seg_fits [OF b(1) q(1,2) win(1,2) this] obtain g gs1 where gx: "gs = g # gs1" "seg_end g pcb s \<le> ?wnd" .
    have g: "tp_unsent b = g" "g \<noteq> NULL" using q(4,7) by (simp_all add: gx)
    from gx(2) have "\<not> ?wnd < seg_end g pcb s" by (simp only: not_less)
    with A g(2) show False unfolding g(1) by blast
  qed
  from output_loop_result [OF b(1,3,4) q(1-6) via win(1) [symmetric] win(2) q(7) un(1) us un(3) win(3)]
  obtain s' fs b' where R: "output_loop ?wnd (tp_unsent b) useg pcb s = Some s'"
    "data_frames b (if k = length ps then 0x5018 else 0x5010) seq (take k ps) fs"
    "s' = s\<lparr>mem := mem s', pbuf := pbuf s', sent := sent s @ fs, tcp_pcb := (tcp_pcb s)(pcb := b'), tcp_seg := tcp_seg s'\<rparr>"
    "moved (case drop k gs of [] \<Rightarrow> NULL | g # _ \<Rightarrow> g) (if us = [] \<and> 0 < k then hd gs else tp_unacked b)
      (if k = 0 then tp_snd_nxt b else seq + of_nat (length (concat (take k ps)))) b b'"
    "chained (sg_link s') (tp_unacked b') (us @ take k gs)"
    "queued b 0x5008 (seq + of_nat (length (concat (take k ps)))) (drop k ps) (drop k gs) (drop k xs) s'"
    "\<forall>y. y \<notin> set (take k xs) \<longrightarrow> pbuf s' y = pbuf s y" by blast
  have "t_tcp_output pcb s = Some (0, s')"
    using b(2) noack R(1) unfolding t_tcp_output_def b(1) [symmetric] by (simp only: defined_def Let_def ul) simp
  with R show ?thesis by blast
qed

section \<open>Data on the wire\<close>



end
