(* ===== verification/Tcp_Rollback.thy ===== *)
theory Tcp_Rollback
  imports Tcp_Write
begin

text \<open>
  Writing when memory or room is short: how \<^verbatim>\<open>t_tcp_enqueue\<close> leaves through \<^verbatim>\<open>memerr\<close>, at any
  iteration, and gives back what it has taken.
\<close>

section \<open>What a refused write may touch\<close>

text \<open>Only the pools, the segments \<open>G\<close> and the slots \<open>X\<close> may differ.\<close>

definition within :: "ptr set \<Rightarrow> ptr set \<Rightarrow> 'a tcp_st_scheme \<Rightarrow> 'a tcp_st_scheme \<Rightarrow> bool" where
  "within G X s t \<longleftrightarrow>
     t = s\<lparr>memp_tab := memp_tab t, memp_next := memp_next t, now_count := now_count t, mem := mem t,
       pbuf := pbuf t, pbuf_pool := pbuf_pool t, tcp_seg := tcp_seg t\<rparr> \<and>
     (\<forall>g. g \<notin> G \<longrightarrow> tcp_seg t g = tcp_seg s g) \<and> (\<forall>x. x \<notin> X \<longrightarrow> pbuf t x = pbuf s x) \<and>
     (\<forall>y. (\<forall>x \<in> X. y < x + 66 \<or> x + pbuf_slot \<le> y) \<longrightarrow> mem t y = mem s y)"

lemma within_trans:
  assumes "within G X s t" and "within G X t u"
  shows "within G X s u"
proof -
  note eq = assms [unfolded within_def, THEN conjunct1]
  have "u = s\<lparr>memp_tab := memp_tab u, memp_next := memp_next u, now_count := now_count u, mem := mem u,
       pbuf := pbuf u, pbuf_pool := pbuf_pool u, tcp_seg := tcp_seg u\<rparr>"
    by (rule trans [OF eq(2)], subst (1) eq(1)) simp
  moreover have "\<forall>g. g \<notin> G \<longrightarrow> tcp_seg u g = tcp_seg s g" "\<forall>x. x \<notin> X \<longrightarrow> pbuf u x = pbuf s x"
    "\<forall>y. (\<forall>x \<in> X. y < x + 66 \<or> x + pbuf_slot \<le> y) \<longrightarrow> mem u y = mem s y"
    using assms [unfolded within_def, THEN conjunct2] by simp_all
  ultimately show ?thesis unfolding within_def by blast
qed

lemma within_pcb: "within G X s t \<Longrightarrow> tcp_pcb t = tcp_pcb s"
proof -
  assume "within G X s t"
  then have "t = s\<lparr>memp_tab := memp_tab t, memp_next := memp_next t, now_count := now_count t, mem := mem t,
       pbuf := pbuf t, pbuf_pool := pbuf_pool t, tcp_seg := tcp_seg t\<rparr>" unfolding within_def by blast
  then show ?thesis by (rule ssubst) simp
qed

lemma within_pools:
  assumes "pools_only s t" and "\<forall>x. x \<notin> X \<longrightarrow> pbuf t x = pbuf s x"
  shows "within G X s t"
proof -
  note same = pools_onlyD [OF assms(1)]
  obtain tab nx n f q where "t = s\<lparr>memp_tab := tab, memp_next := nx, now_count := n, pbuf := f, pbuf_pool := q\<rparr>"
    using assms(1) unfolding pools_only_def by blast
  then have "t = s\<lparr>memp_tab := memp_tab t, memp_next := memp_next t, now_count := now_count t, mem := mem t,
       pbuf := pbuf t, pbuf_pool := pbuf_pool t, tcp_seg := tcp_seg t\<rparr>" by simp
  then show ?thesis unfolding within_def using assms(2) same(1,5) by auto
qed

text \<open>The segments \<open>qs\<close> behind \<open>queue\<close> have been built, \<open>gs\<close> and \<open>xs\<close> are left in the pools.\<close>

definition building :: "ptr \<Rightarrow> ptr \<Rightarrow> ptr list \<Rightarrow> ptr list \<Rightarrow> ptr list \<Rightarrow> 'a tcp_st_scheme \<Rightarrow> bool" where
  "building queue useg qs gs xs s \<longleftrightarrow>
     chained (sg_link s) queue qs \<and> (qs \<noteq> [] \<longrightarrow> useg = last qs) \<and> segs_held s qs gs xs"

definition seg_bufs :: "'a tcp_st_scheme \<Rightarrow> ptr list \<Rightarrow> ptr list" where
  "seg_bufs s gs = map (\<lambda>g. sg_p (tcp_seg s g)) gs"

text \<open>Freeing the queue brings everything back.\<close>

definition undone :: "ptr set \<Rightarrow> ptr set \<Rightarrow> ptr \<Rightarrow> 'a tcp_st_scheme \<Rightarrow> bool" where
  "undone G X queue s \<longleftrightarrow> (\<exists>c t as ys. t_tcp_segs_free queue s = Some (c, t) \<and>
     memp_avail T_MEMP_TCP_SEG t as \<and> set as = G \<and> pbuf_avail t ys \<and> set ys = X \<and> within G X s t)"

lemma building_undone:
  assumes "building queue useg qs gs xs s"
  shows "undone (set (qs @ gs)) (set (seg_bufs s qs @ xs)) queue s"
proof -
  have "chained (sg_link s) queue qs" "segs_held s qs gs xs" using assms by (simp_all add: building_def)
  from segs_free_result [OF this, of 0] obtain c t where t: "segs_free_loop queue 0 s = Some (c, t)"
    "segs_held t [] (rev qs @ gs) (rev (seg_bufs s qs) @ xs)" "pools_only s t"
    "\<forall>y. y \<notin> set (seg_bufs s qs) \<longrightarrow> pbuf t y = pbuf s y" unfolding seg_bufs_def by blast
  moreover have "within (set (qs @ gs)) (set (seg_bufs s qs @ xs)) s t"
    using t(3,4) by (intro within_pools) simp_all
  ultimately show ?thesis unfolding undone_def t_tcp_segs_free_def segs_held_def
    by (intro exI [of _ c] exI [of _ t] exI [of _ "rev qs @ gs"] exI [of _ "rev (seg_bufs s qs) @ xs"]) simp
qed

section \<open>One more segment\<close>

lemma chained_linked:
  assumes "chained (sg_link s) queue qs" and "qs \<noteq> [] \<longrightarrow> useg = last qs" and "g \<noteq> NULL" and "g \<notin> set qs"
    and "tcp_seg t = (linked_seg queue useg g (tcp_seg s))(g := v)" and "sg_next v = NULL"
  shows "chained (sg_link t) (if queue = NULL then g else queue) (qs @ [g])"
proof (cases "qs = []")
  case True
  then show ?thesis using assms by (auto simp: linked_seg_def)
next
  case False
  then obtain ps where ps: "qs = ps @ [useg]" using assms(2) by (metis append_butlast_last_id)
  have "useg \<notin> set ps" using chained_distinct [OF assms(1)] by (simp add: ps)
  moreover have q: "queue \<noteq> NULL" using assms(1) False by (cases qs) auto
  moreover have "chained ((sg_link s)(g := NULL)) queue (ps @ [useg])" using assms(1,4) by (simp add: ps)
  moreover have "chained ((sg_link s)(g := NULL)) g [g]" using assms(3) by simp
  ultimately have "chained ((sg_link s)(g := NULL, useg := g)) queue (ps @ useg # [g])"
    using assms(4) by (intro chained_redirect [where ys = "[]"]) (simp_all add: ps)
  moreover have "sg_link t = (sg_link s)(g := NULL, useg := g)"
    using assms(4-6) q by (auto simp: linked_seg_def ps)
  ultimately show ?thesis using q by (simp add: ps)
qed

lemma linked_seg_p: "y \<noteq> g \<Longrightarrow> sg_p (((linked_seg queue useg g f)(g := v)) y) = sg_p (f y)"
  by (simp add: linked_seg_def)

lemma linked_seg_other: "building queue useg qs gs xs s \<Longrightarrow> y \<noteq> g \<Longrightarrow> y \<notin> set qs \<Longrightarrow>
    ((linked_seg queue useg g (tcp_seg s))(g := v)) y = tcp_seg s y"
  using last_in_set [of qs] by (cases "qs = []") (auto simp: linked_seg_def building_def)

lemma seg_bufs_linked:
  assumes "g \<notin> set qs" and "tcp_seg t = (linked_seg queue useg g (tcp_seg s))(g := v)"
  shows "seg_bufs t qs = seg_bufs s qs"
  unfolding seg_bufs_def assms(2) by (rule map_cong [OF refl], rule linked_seg_p) (use assms(1) in auto)

lemma buildingD:
  assumes "building queue useg qs gs xs s"
  shows "chained (sg_link s) queue qs" "qs \<noteq> [] \<longrightarrow> useg = last qs" "memp_avail T_MEMP_TCP_SEG s gs"
    "pbuf_avail s xs" "set qs \<subseteq> memp_objs T_MEMP_TCP_SEG" "distinct (qs @ gs)" "distinct (seg_bufs s qs @ xs)"
    "\<forall>y \<in> set qs. memp_owned s y \<and> sg_p (tcp_seg s y) \<in> set pbuf_slots \<and> pbuf_owned s (sg_p (tcp_seg s y))"
    "queue = NULL \<longleftrightarrow> qs = []"
  using assms by (cases qs, auto simp: building_def segs_held_def seg_bufs_def)+

text \<open>The new segment with its buffer.\<close>

lemma building_snoc:
  assumes b: "building queue useg qs (g # gs) (x # xs) s"
    and av: "memp_avail T_MEMP_TCP_SEG t gs" "pbuf_avail t xs" "memp_owned t g" "\<forall>y. memp_owned s y \<longrightarrow> memp_owned t y"
    and seg: "tcp_seg t = (linked_seg queue useg g (tcp_seg s))(g := v)" "sg_next v = NULL" "sg_p v = x"
    and buf: "pbuf t = (pbuf s)(x := b1)" "pbuf_owned t x"
  shows "building (if queue = NULL then g else queue) g (qs @ [g]) gs xs t"
    and "seg_bufs t (qs @ [g]) = seg_bufs s qs @ [x]"
proof -
  note h = buildingD [OF b]
  have g: "g \<in> memp_objs T_MEMP_TCP_SEG" "g \<notin> set qs" using memp.avail_objs [OF h(3)] h(6) by auto
  have ch: "chained (sg_link t) (if queue = NULL then g else queue) (qs @ [g])"
    by (rule chained_linked [OF h(1,2) memp_objs_pos [OF g(1)] g(2) seg(1,2)])
  have bufs: "seg_bufs t qs = seg_bufs s qs" by (rule seg_bufs_linked [OF g(2) seg(1)])
  have old: "memp_owned t y \<and> sg_p (tcp_seg t y) \<in> set pbuf_slots \<and> pbuf_owned t (sg_p (tcp_seg t y))" if "y \<in> set qs" for y
  proof -
    have "y \<noteq> g" using that g(2) by blast
    then have p: "sg_p (tcp_seg t y) = sg_p (tcp_seg s y)" unfolding seg(1) by (rule linked_seg_p)
    have "sg_p (tcp_seg s y) \<noteq> x" using h(7) that by (auto simp: seg_bufs_def)
    then show ?thesis unfolding p using h(8) that av(4) by (simp add: pbuf_owned_def buf(1))
  qed
  have x: "x \<in> set pbuf_slots" using pbuf_avail_head(1) [OF h(4)] .
  have gx: "sg_p (tcp_seg t g) = x" using seg(1,3) by simp
  show bs: "seg_bufs t (qs @ [g]) = seg_bufs s qs @ [x]" using bufs gx by (simp add: seg_bufs_def)
  have "distinct (seg_bufs t (qs @ [g]) @ xs)" using h(7) unfolding bs by auto
  moreover have "distinct ((qs @ [g]) @ gs)" "set (qs @ [g]) \<subseteq> memp_objs T_MEMP_TCP_SEG" using h(5,6) g by auto
  moreover have "memp_owned t y \<and> sg_p (tcp_seg t y) \<in> set pbuf_slots \<and> pbuf_owned t (sg_p (tcp_seg t y))"
    if "y \<in> set (qs @ [g])" for y using that old av(3) buf(2) x gx by auto
  ultimately show "building (if queue = NULL then g else queue) g (qs @ [g]) gs xs t"
    using ch av(1,2) unfolding building_def segs_held_def seg_bufs_def by simp
qed

section \<open>The three ways to fail\<close>

text \<open>No segment is left.\<close>

lemma enqueue_no_segment:
  assumes b: "building queue useg qs [] xs s" and more: "queue = NULL \<or> 0 < left"
  shows "\<exists>q t. enqueue_loop pcb arg 0 copy None ol left seqno ptr ql useg queue sl s = Some (Inl q, t) \<and>
    within (set qs) (set (seg_bufs s qs @ xs)) s t \<and> undone (set qs) (set (seg_bufs s qs @ xs)) q t"
proof -
  have "enqueue_loop pcb arg 0 copy None ol left seqno ptr ql useg queue sl s = Some (Inl queue, s)"
    using more by (subst enqueue_loop.simps) (simp add: memp_malloc_empty [OF buildingD(3) [OF b]])
  moreover have "within (set qs) (set (seg_bufs s qs @ xs)) s s" by (rule within_pools [OF pools_only_refl]) simp
  ultimately show ?thesis using building_undone [OF b] by auto
qed

text \<open>No buffer is left for the segment, which stays without one.\<close>

lemma enqueue_no_buffer:
  assumes b: "building queue useg qs (g # gs) [] s" and more: "queue = NULL \<or> 0 < left" and c: "copy \<noteq> 0"
  shows "\<exists>q t. enqueue_loop pcb arg 0 copy None ol left seqno ptr ql useg queue sl s = Some (Inl q, t) \<and>
    within (set (qs @ g # gs)) (set (seg_bufs s qs)) s t \<and> undone (set (qs @ g # gs)) (set (seg_bufs s qs)) q t"
proof -
  define n where "n = (if ucast (tp_mss (tcp_pcb s pcb)) < left then tp_mss (tcp_pcb s pcb) else ucast left)"
  note h = buildingD [OF b]
  have g: "g \<in> memp_objs T_MEMP_TCP_SEG" "g \<notin> set qs" "g \<notin> set gs" using memp.avail_objs [OF h(3)] h(6) by auto
  define q where "q = (if queue = NULL then g else queue)"
  have useg: "queue \<noteq> NULL \<longrightarrow> useg \<noteq> g" using h(2,9) g(2) last_in_set by metis
  from enqueue_linked [OF more useg refl n_def h(3) q_def, of arg copy ol seqno ptr ql sl] obtain u where
    u: "enqueue_loop pcb arg 0 copy None ol left seqno ptr ql useg queue sl s =
      Option.bind (enqueue_buffers g n copy arg ptr None ol ql u) (\<lambda>(r, s). case r of
          None \<Rightarrow> Some (Inl q, s)
        | Some queuelen \<Rightarrow>
            if T_TCP_SND_QUEUELEN < queuelen then Some (Inl q, s)
            else Option.bind (enqueue_header pcb g seqno n 0 None ol s)
              (\<lambda>(ok, s). if \<not> ok then Some (Inl q, s)
                 else enqueue_loop pcb arg 0 copy None ol (left - ucast n) (seqno + ucast n) (ptr + unat n) queuelen g q n s))"
    "u = s\<lparr>memp_tab := memp_tab u, memp_next := memp_next u, now_count := now_count u,
      tcp_seg := (linked_seg queue useg g (tcp_seg s))(g := (tcp_seg s g)\<lparr>sg_next := NULL, sg_p := NULL\<rparr>)\<rparr>"
    "memp_avail T_MEMP_TCP_SEG u gs" "memp_owned u g" "\<forall>y. memp_owned s y \<longrightarrow> memp_owned u y" by blast
  have uf: "pbuf u = pbuf s" "pbuf_pool u = pbuf_pool s" "mem u = mem s" "sg_p (tcp_seg u g) = NULL"
    "tcp_seg u = (linked_seg queue useg g (tcp_seg s))(g := (tcp_seg s g)\<lparr>sg_next := NULL, sg_p := NULL\<rparr>)"
    by (subst u(2), simp)+
  have "pbuf_avail u []" using h(4) by (simp add: pbuf_avail_def uf)
  then have "t_pbuf_alloc T_PBUF_TRANSPORT n T_PBUF_FLAG_POOL u = Some (NULL, u)" for n by (rule pbuf_alloc_empty)
  moreover have "upd_seg g (\<lambda>v. v\<lparr>sg_p := NULL\<rparr>) u = u" using uf(4) by (simp add: fun_upd_idem)
  ultimately have "enqueue_buffers g n copy arg ptr None ol ql u = Some (None, u)" for n
    using c by (simp add: enqueue_buffers_def Let_def)
  then have run: "enqueue_loop pcb arg 0 copy None ol left seqno ptr ql useg queue sl s = Some (Inl q, u)"
    unfolding u(1) by simp
  have ch: "chained (sg_link u) q (qs @ [g])"
    unfolding q_def by (rule chained_linked [OF h(1,2) memp_objs_pos [OF g(1)] g(2) uf(5)]) simp
  have bufs: "seg_bufs u qs = seg_bufs s qs" by (rule seg_bufs_linked [OF g(2) uf(5)])
  have "memp_owned u y \<and> sg_p (tcp_seg u y) \<in> set pbuf_slots \<and> pbuf_owned u (sg_p (tcp_seg u y))" if "y \<in> set qs" for y
  proof -
    have "y \<noteq> g" using that g(2) by blast
    then have "sg_p (tcp_seg u y) = sg_p (tcp_seg s y)" unfolding uf(5) by (rule linked_seg_p)
    then show ?thesis using h(8) that u(5) by (simp add: pbuf_owned_def uf(1))
  qed
  moreover have "distinct (map (\<lambda>g. sg_p (tcp_seg u g)) qs @ [])" using h(7) unfolding bufs [symmetric] by (simp add: seg_bufs_def)
  ultimately have "segs_held u qs gs []" using h(5,6) u(3) \<open>pbuf_avail u []\<close> unfolding segs_held_def by simp
  from segs_free_bare [OF ch this uf(4) u(4) g(1,3), of 0, folded seg_bufs_def, unfolded bufs append_Nil2] obtain d t where
    t: "segs_free_loop q 0 u = Some (d, t)" "memp_avail T_MEMP_TCP_SEG t (g # rev qs @ gs)" "pbuf_avail t (rev (seg_bufs s qs))"
    "pools_only u t" "\<forall>y. y \<notin> set (seg_bufs s qs) \<longrightarrow> pbuf t y = pbuf u y" by blast
  have "within (set (qs @ g # gs)) (set (seg_bufs s qs)) u t" using t(4,5) by (rule within_pools)
  then have "undone (set (qs @ g # gs)) (set (seg_bufs s qs)) q u" unfolding undone_def t_tcp_segs_free_def using t(1-3)
    by (intro exI [of _ d] exI [of _ t] exI [of _ "g # rev qs @ gs"] exI [of _ "rev (seg_bufs s qs)"]) auto
  moreover have "within (set (qs @ g # gs)) (set (seg_bufs s qs)) s u"
  proof -
    have "tcp_seg u y = tcp_seg s y" if "y \<notin> set (qs @ g # gs)" for y
      unfolding uf(5) by (rule linked_seg_other [OF b]) (use that in auto)
    moreover have "u = s\<lparr>memp_tab := memp_tab u, memp_next := memp_next u, now_count := now_count u, mem := mem u,
       pbuf := pbuf u, pbuf_pool := pbuf_pool u, tcp_seg := tcp_seg u\<rparr>"
      by (rule trans [OF u(2)]) (simp add: uf)
    ultimately show ?thesis unfolding within_def by (simp add: uf(1,3))
  qed
  ultimately show ?thesis using run by blast
qed

text \<open>The segment and its buffer are there, but the queue is full already.\<close>

lemma enqueue_full:
  assumes b: "building queue useg qs (g # gs) (x # xs) s" and more: "queue = NULL \<or> 0 < left" and c: "copy \<noteq> 0" "arg \<noteq> NULL"
    and sl: "seglen = (if ucast (tp_mss (tcp_pcb s pcb)) < left then tp_mss (tcp_pcb s pcb) else ucast left)"
    and bs: "unat seglen \<le> 1460" "user_range ptr (unat seglen)" and ql: "ql = 40"
  shows "\<exists>q t. enqueue_loop pcb arg 0 copy None ol left seqno ptr ql useg queue sl0 s = Some (Inl q, t) \<and>
    within (set (qs @ g # gs)) (set (seg_bufs s qs @ x # xs)) s t \<and>
    undone (set (qs @ g # gs)) (set (seg_bufs s qs @ x # xs)) q t"
proof -
  note h = buildingD [OF b]
  have g: "g \<notin> set qs" using h(6) by auto
  define q where "q = (if queue = NULL then g else queue)"
  have useg: "queue \<noteq> NULL \<longrightarrow> useg \<noteq> g" using h(2,9) g last_in_set by metis
  from enqueue_linked [OF more useg refl sl h(3) q_def, of arg copy ol seqno ptr ql sl0] obtain u where
    u: "enqueue_loop pcb arg 0 copy None ol left seqno ptr ql useg queue sl0 s =
      Option.bind (enqueue_buffers g seglen copy arg ptr None ol ql u) (\<lambda>(r, s). case r of
          None \<Rightarrow> Some (Inl q, s)
        | Some queuelen \<Rightarrow>
            if T_TCP_SND_QUEUELEN < queuelen then Some (Inl q, s)
            else Option.bind (enqueue_header pcb g seqno seglen 0 None ol s)
              (\<lambda>(ok, s). if \<not> ok then Some (Inl q, s)
                 else enqueue_loop pcb arg 0 copy None ol (left - ucast seglen) (seqno + ucast seglen)
                   (ptr + unat seglen) queuelen g q seglen s))"
    "u = s\<lparr>memp_tab := memp_tab u, memp_next := memp_next u, now_count := now_count u,
      tcp_seg := (linked_seg queue useg g (tcp_seg s))(g := (tcp_seg s g)\<lparr>sg_next := NULL, sg_p := NULL\<rparr>)\<rparr>"
    "memp_avail T_MEMP_TCP_SEG u gs" "memp_owned u g" "\<forall>y. memp_owned s y \<longrightarrow> memp_owned u y" by blast
  have uf: "pbuf u = pbuf s" "pbuf_pool u = pbuf_pool s" "mem u = mem s"
    "tcp_seg u = (linked_seg queue useg g (tcp_seg s))(g := (tcp_seg s g)\<lparr>sg_next := NULL, sg_p := NULL\<rparr>)"
    by (subst u(2), simp)+
  have av: "pbuf_avail u (x # xs)" using h(4) by (simp add: pbuf_avail_def uf)
  have acc: "accessible ptr (unat seglen)" using bs(2) by (simp add: accessible_def)
  from enqueue_copy_buffer [OF av c _ bs(1) acc refl bs(2), of g ol ql] obtain b1 t where t:
    "enqueue_buffers g seglen copy arg ptr None ol ql u = Some (Some (ql + 1), t)"
    "t = u\<lparr>mem := mem t, pbuf_pool := pb_next (pbuf u x), pbuf := (pbuf u)(x := b1),
        tcp_seg := (tcp_seg u)(g := (tcp_seg u g)\<lparr>sg_p := x, sg_dataptr := x + 86\<rparr>)\<rparr>"
    "pbuf_avail t xs" "\<forall>y. y < x + 86 \<or> x + 86 + unat seglen \<le> y \<longrightarrow> mem t y = mem u y"
    "pb_next b1 = NULL" "pb_ref b1 = 1" "pb_flags b1 = T_PBUF_FLAG_POOL" by (auto simp del: fun_upd_apply)
  have tf: "pbuf t = (pbuf s)(x := b1)" "memp_tab t = memp_tab u" "memp_next t = memp_next u" "now_count t = now_count u"
    "pbuf_pool t = pb_next (pbuf s x)" "tcp_seg t = (linked_seg queue useg g (tcp_seg s))(g := (tcp_seg s g)\<lparr>sg_next := NULL, sg_p := x, sg_dataptr := x + 86\<rparr>)"
    by (subst t(2), simp add: uf)+
  have m: "memp_avail T_MEMP_TCP_SEG t gs" "memp_owned t g" "\<forall>y. memp_owned s y \<longrightarrow> memp_owned t y"
    using u(3-5) by (simp_all add: memp_avail_def memp_owned_def tf)
  have "pbuf_owned t x" using t(5-7) by (simp add: pbuf_owned_def tf)
  note sn = building_snoc [OF b m(1) t(3) m(2,3) tf(6) _ _ tf(1) this]
  have "building q g (qs @ [g]) gs xs t" "seg_bufs t (qs @ [g]) = seg_bufs s qs @ [x]" unfolding q_def by (rule sn, simp, simp)+
  from building_undone [OF this(1)] this(2)
  have un: "undone (set (qs @ g # gs)) (set (seg_bufs s qs @ x # xs)) q t" by simp
  have "within (set (qs @ g # gs)) (set (seg_bufs s qs @ x # xs)) s t"
  proof -
    have "tcp_seg t y = tcp_seg s y" if "y \<notin> set (qs @ g # gs)" for y
      unfolding tf(6) by (rule linked_seg_other [OF b]) (use that in auto)
    moreover have "t = s\<lparr>memp_tab := memp_tab t, memp_next := memp_next t, now_count := now_count t, mem := mem t,
       pbuf := pbuf t, pbuf_pool := pbuf_pool t, tcp_seg := tcp_seg t\<rparr>"
      by (rule trans [OF t(2)], simp add: uf tf, subst (1) u(2), simp)
    moreover have "mem t y = mem s y" if "\<forall>x \<in> set (seg_bufs s qs @ x # xs). y < x + 66 \<or> x + pbuf_slot \<le> y" for y
      using that t(4) bs(1) by (auto simp: uf pbuf_slot_eq)
    ultimately show ?thesis unfolding within_def by (simp add: tf(1))
  qed
  moreover have "T_TCP_SND_QUEUELEN < ql + 1" by (simp add: ql T_TCP_SND_QUEUELEN_def)
  then have "enqueue_loop pcb arg 0 copy None ol left seqno ptr ql useg queue sl0 s = Some (Inl q, t)"
    unfolding u(1) by (simp add: t(1))
  ultimately show ?thesis using un by blast
qed

section \<open>The loop\<close>

text \<open>One iteration that succeeds.\<close>

lemma enqueue_goes_on:
  assumes b: "building queue useg qs (g # gs) (x # xs) s" and more: "0 < left" and c: "copy \<noteq> 0" "arg \<noteq> NULL"
    and m: "tp_mss (tcp_pcb s pcb) = m" and sl: "seglen = (if ucast m < left then m else ucast left)"
    and bs: "unat seglen \<le> 1460" "user_range ptr (unat seglen)" and ql: "ql < 40"
  shows "\<exists>q t. enqueue_loop pcb arg 0 copy None ol left seqno ptr ql useg queue sl0 s =
      enqueue_loop pcb arg 0 copy None ol (left - ucast seglen) (seqno + ucast seglen) (ptr + unat seglen) (ql + 1) g q seglen t \<and>
    building q g (qs @ [g]) gs xs t \<and> seg_bufs t (qs @ [g]) = seg_bufs s qs @ [x] \<and>
    within (set (qs @ g # gs)) (set (seg_bufs s qs @ x # xs)) s t"
proof -
  note h = buildingD [OF b]
  have g: "g \<notin> set qs" using h(6) by auto
  have useg: "queue \<noteq> NULL \<longrightarrow> useg \<noteq> g" using h(2,9) g last_in_set by metis
  from enqueue_step [OF disjI2 [OF more] useg m sl h(3,4) ql c length_load_bytes bs(1) refl bs(2), of ol seqno sl0] obtain t b1 where
    t: "enqueue_loop pcb arg 0 copy None ol left seqno ptr ql useg queue sl0 s =
      enqueue_loop pcb arg 0 copy None ol (left - ucast seglen) (seqno + ucast seglen) (ptr + unat seglen) (ql + 1) g
        (if queue = NULL then g else queue) seglen t"
    "t = s\<lparr>memp_tab := memp_tab t, memp_next := memp_next t, now_count := now_count t, mem := mem t,
      pbuf := (pbuf s)(x := b1), pbuf_pool := pbuf_pool t, tcp_seg := (linked_seg queue useg g (tcp_seg s))(g :=
        \<lparr>sg_next = NULL, sg_p = x, sg_dataptr = x + 86, sg_len = seglen, sg_tcphdr = x + 66\<rparr>)\<rparr>"
    "memp_avail T_MEMP_TCP_SEG t gs" "memp_owned t g" "\<forall>y. memp_owned s y \<longrightarrow> memp_owned t y"
    "pbuf_avail t xs" "\<forall>y. y < x + 66 \<or> x + pbuf_slot \<le> y \<longrightarrow> mem t y = mem s y"
    "data_seg (tcp_pcb s pcb) seqno 0x5000 (load_bytes ptr (unat seglen) s) NULL g x t" by blast
  have tf: "pbuf t = (pbuf s)(x := b1)" "tcp_seg t = (linked_seg queue useg g (tcp_seg s))(g :=
        \<lparr>sg_next = NULL, sg_p = x, sg_dataptr = x + 86, sg_len = seglen, sg_tcphdr = x + 66\<rparr>)" by (subst t(2), simp)+
  have "pbuf_owned t x" using t(8) by (simp add: pbuf_owned_def data_seg_def)
  note sn = building_snoc [OF b t(3,6,4,5) tf(2) _ _ tf(1) this]
  have bd: "building (if queue = NULL then g else queue) g (qs @ [g]) gs xs t" "seg_bufs t (qs @ [g]) = seg_bufs s qs @ [x]"
    by (rule sn, simp, simp)+
  have "within (set (qs @ g # gs)) (set (seg_bufs s qs @ x # xs)) s t"
  proof -
    have "tcp_seg t y = tcp_seg s y" if "y \<notin> set (qs @ g # gs)" for y
      unfolding tf(2) by (rule linked_seg_other [OF b]) (use that in auto)
    moreover have "t = s\<lparr>memp_tab := memp_tab t, memp_next := memp_next t, now_count := now_count t, mem := mem t,
       pbuf := pbuf t, pbuf_pool := pbuf_pool t, tcp_seg := tcp_seg t\<rparr>" unfolding tf by (rule t(2))
    moreover have "mem t y = mem s y" if "\<forall>x \<in> set (seg_bufs s qs @ x # xs). y < x + 66 \<or> x + pbuf_slot \<le> y" for y
    proof -
      have "y < x + 66 \<or> x + pbuf_slot \<le> y" using that by simp
      then show ?thesis using t(7) by blast
    qed
    ultimately show ?thesis unfolding within_def by (simp add: tf(1))
  qed
  then show ?thesis using t(1) bd by blast
qed

lemma enqueue_loop_fails:
  assumes "cut (unat m) bs = ps" and "length bs = unat left" and "tp_mss (tcp_pcb s pcb) = m" and "0 < m" and "unat m \<le> 1460"
    and "copy \<noteq> 0" and "arg \<noteq> NULL" and "user_range ptr (unat left)" and "building queue useg qs gs xs s" and "unat ql \<le> 40"
    and "length gs < length ps \<or> length xs < length ps \<or> 40 < unat ql + length ps"
  shows "\<exists>q t. enqueue_loop pcb arg 0 copy None ol left seqno ptr ql useg queue sl s = Some (Inl q, t) \<and>
    within (set (qs @ gs)) (set (seg_bufs s qs @ xs)) s t \<and> undone (set (qs @ gs)) (set (seg_bufs s qs @ xs)) q t"
  using assms
proof (induction ps arbitrary: s left seqno ptr ql useg queue sl bs qs gs xs)
  case (Cons b1 ps1)
  note P = Cons.prems
  have m: "0 < unat m" using P(4) by (simp add: unat_gt_0)
  have bs: "bs \<noteq> []" using P(1) by auto
  then have left: "0 < left" using P(2) by (cases "left = 0") (auto simp: word_gt_0)
  note more = disjI2 [OF left]
  define seglen where "seglen = (if ucast m < left then m else ucast left)"
  note sm = seglen_min [OF seglen_def]
  have s60: "unat seglen \<le> 1460" using P(5) sm(1) by simp
  have ur: "user_range ptr (unat seglen)" "user_range (ptr + unat seglen) (unat (left - ucast seglen))"
    using P(8) sm(1) unfolding sm(2) by (auto simp: user_range_def)
  consider "gs = []" | g gs1 where "gs = g # gs1" "xs = []" | g gs1 x xs1 where "gs = g # gs1" "xs = x # xs1" "ql = 40"
    | g gs1 x xs1 where "gs = g # gs1" "xs = x # xs1" "ql < 40"
    using P(10) by (cases gs; cases xs) (auto simp: word_less_nat_alt word_unat_eq_iff order_le_less)
  then show ?case
  proof cases
    case 1
    then show ?thesis using enqueue_no_segment [OF P(9) [unfolded 1] more] by simp
  next
    case 2
    then show ?thesis using enqueue_no_buffer [OF P(9) [unfolded 2] more P(6)] by simp
  next
    case 3
    then show ?thesis using enqueue_full [OF P(9) [unfolded 3] more P(6,7) _ s60 ur(1) 3(3)] P(3) unfolding seglen_def by simp
  next
    case 4
    from enqueue_goes_on [OF P(9) [unfolded 4(1,2)] left P(6,7,3) seglen_def s60 ur(1) 4(3), of ol seqno sl] obtain q t where t:
      "enqueue_loop pcb arg 0 copy None ol left seqno ptr ql useg queue sl s =
        enqueue_loop pcb arg 0 copy None ol (left - ucast seglen) (seqno + ucast seglen) (ptr + unat seglen) (ql + 1) g q seglen t"
      "building q g (qs @ [g]) gs1 xs1 t" "seg_bufs t (qs @ [g]) = seg_bufs s qs @ [x]"
      "within (set (qs @ g # gs1)) (set (seg_bufs s qs @ x # xs1)) s t" by blast
    have uq: "unat (ql + 1) = Suc (unat ql)" using 4(3) unat_add_small [of ql 1] by (simp add: word_less_nat_alt)
    have pre: "tp_mss (tcp_pcb t pcb) = m" using P(3) within_pcb [OF t(4)] by simp
    have ps1: "cut (unat m) (drop (unat m) bs) = ps1" using P(1) cut_Cons [OF bs m] by simp
    have l: "length (drop (unat m) bs) = unat (left - ucast seglen)" unfolding sm(2) sm(1) using P(2) by simp
    have q: "unat (ql + 1) \<le> 40" using 4(3) by (simp add: uq word_less_nat_alt)
    have sh: "length gs1 < length ps1 \<or> length xs1 < length ps1 \<or> 40 < unat (ql + 1) + length ps1"
      using P(11) 4 by (auto simp: uq)
    from Cons.IH [OF ps1 l pre P(4-7) ur(2) t(2) q sh, of "seqno + ucast seglen" seglen] obtain q' u where
      "enqueue_loop pcb arg 0 copy None ol (left - ucast seglen) (seqno + ucast seglen) (ptr + unat seglen) (ql + 1) g q seglen t =
        Some (Inl q', u)"
      "within (set (qs @ g # gs1)) (set (seg_bufs s qs @ x # xs1)) t u"
      "undone (set (qs @ g # gs1)) (set (seg_bufs s qs @ x # xs1)) q' u" unfolding t(3) by (simp, blast)
    then show ?thesis using within_trans [OF t(4)] t(1) unfolding 4(1,2) by metis
  qed
next
  case Nil
  then show ?case by simp
qed

section \<open>Refused writes\<close>



end
