(* ===== verification/Tcp_No_Copy.thy ===== *)
theory Tcp_No_Copy
  imports Tcp_Write
begin

text \<open>
  Data written without copying (\<open>copy = 0\<close> in \<^verbatim>\<open>t_tcp_enqueue\<close>): the piece takes two buffers, its data are copied from
  one to the other after all, and the first of them is forgotten.
\<close>

lemma alloc_admissible_transport:
  "unat n \<le> 1460 \<Longrightarrow> alloc_admissible (T_PBUF_TRANSPORT, n, T_PBUF_FLAG_POOL)"
  using unat_add_small [of n T_PBUF_TRANSPORT] by (simp add: alloc_admissible_def T_PBUF_TRANSPORT_def T_PBUF_BUFSIZE_def)

text \<open>A buffer for a TCP segment is taken from the pool.\<close>

definition taken :: "ptr \<Rightarrow> u16 \<Rightarrow> 'a pbuf_st_scheme \<Rightarrow> 'a pbuf_st_scheme" where
  "taken x n s = s\<lparr>pbuf_pool := pb_next (pbuf s x), pbuf := (pbuf s)(x := (pbuf s x)\<lparr>pb_next := NULL, pb_ref := 1,
     pb_payload := x + 86, pb_tot_len := n, pb_len := n\<rparr>)\<rparr>"

lemma transport_taken:
  assumes "pbuf_avail s (x # xs)" and "unat n \<le> 1460"
  shows "t_pbuf_alloc T_PBUF_TRANSPORT n T_PBUF_FLAG_POOL s = Some (x, taken x n s)" "pbuf_avail (taken x n s) xs"
proof -
  have e: "x + sizeof_t_pbuf + unat T_PBUF_TRANSPORT = x + 86" by (simp add: sizeof_t_pbuf_def T_PBUF_TRANSPORT_def)
  show "t_pbuf_alloc T_PBUF_TRANSPORT n T_PBUF_FLAG_POOL s = Some (x, taken x n s)" "pbuf_avail (taken x n s) xs"
    using pbuf_alloc_next [OF alloc_admissible_transport [OF assms(2)] assms(1), unfolded e] unfolding taken_def by (simp_all only:)
qed

lemma enqueue_uncopied:
  assumes av: "pbuf_avail s (p # q # xs)" and n: "unat n \<le> 1460" and d: "accessible ptr (unat n)"
  shows "\<exists>t. enqueue_buffers seg n 0 arg ptr None ol k s = Some (Some (k + 2), t) \<and> pbuf_avail t xs \<and>
    t = s\<lparr>mem := mem t, pbuf_pool := pbuf_pool t, pbuf := (pbuf s)(p := pbuf t p, q := pbuf t q),
      tcp_seg := (tcp_seg s)(seg := (tcp_seg s seg)\<lparr>sg_dataptr := ptr, sg_p := q\<rparr>)\<rparr> \<and>
    pbuf_owned t p \<and> pbuf_owned t q \<and> pb_payload (pbuf t q) = q + 86 \<and> pb_len (pbuf t q) = n \<and> pb_tot_len (pbuf t q) = n \<and>
    load_bytes (q + 86) (unat n) t = load_bytes ptr (unat n) s"
proof -
  have pq: "p \<noteq> q" "p \<notin> set xs" "q \<notin> set xs" "p \<in> set pbuf_slots" "q \<in> set pbuf_slots" "p \<noteq> NULL" "q \<noteq> NULL"
    "pb_flags (pbuf s p) = T_PBUF_FLAG_POOL" "pb_flags (pbuf s q) = T_PBUF_FLAG_POOL"
    using av pbuf_slots_pos chained_distinct [of "pb_link s" "pbuf_pool s" "p # q # xs"] by (auto simp: pbuf_avail_def)
  define s1 where "s1 = taken p n s"
  define s2 where "s2 = upd_seg seg (\<lambda>g. g\<lparr>sg_dataptr := ptr\<rparr>) (upd_pbuf p (\<lambda>b. b\<lparr>pb_payload := ptr\<rparr>) s1)"
  note a1 = transport_taken [OF av n, folded s1_def]
  have "pbuf_avail s2 (q # xs)" using a1(2) pq(1,2) by (subst pbuf_avail_frame [of s2 s1]) (auto simp: s2_def)
  note a2 = transport_taken [OF this, of 0]
  define s3 where "s3 = upd_seg seg (\<lambda>g. g\<lparr>sg_p := q\<rparr>) (taken q 0 s2)"
  have f3: "pbuf s3 p = (pbuf s p)\<lparr>pb_next := NULL, pb_ref := 1, pb_payload := ptr, pb_tot_len := n, pb_len := n\<rparr>"
    "pbuf s3 q = (pbuf s q)\<lparr>pb_next := NULL, pb_ref := 1, pb_payload := q + 86, pb_tot_len := 0, pb_len := 0\<rparr>" "mem s3 = mem s"
    using pq(1) by (simp_all add: s3_def s2_def s1_def taken_def)
  have acc: "accessible (q + 86) (unat n)"
    using pq(5) n by (intro accessible_in_slot [of q]) (simp_all add: sizeof_t_pbuf_def pbuf_slot_eq)
  define t where "t = upd_pbuf q (\<lambda>b. b\<lparr>pb_len := n, pb_tot_len := n\<rparr>) (store_bytes (q + 86) (load_bytes ptr (unat n) s3) s3)"
  have cat: "t_pbuf_cat q p s3 = Some (0, t)"
    using pq(1,6,7) acc d by (simp add: t_pbuf_cat_def Let_def f3 t_def)
  have "enqueue_buffers seg n 0 arg ptr None ol k s = Some (Some (k + 2), t)"
    using a1(1) a2(1) cat pq(6,7) unfolding s3_def s2_def
    by (simp add: enqueue_buffers_def Let_def add.commute)
  moreover have "pbuf_avail t xs"
    using a2(2) pq(3) by (subst pbuf_avail_frame [of t "taken q 0 s2"]) (auto simp: t_def s3_def store_bytes_def)
  moreover have "load_bytes (q + 86) (unat n) t = load_bytes ptr (unat n) s"
  proof -
    let ?bs = "load_bytes ptr (unat n) s3"
    have "load_bytes (q + 86) (unat n) t = load_bytes (q + 86) (unat n) (store_bytes (q + 86) ?bs s3)"
      by (simp only: load_bytes_def [of "q + 86"]) (simp add: t_def)
    also have "\<dots> = ?bs" by (rule load_store_bytes_n) simp
    also have "\<dots> = load_bytes ptr (unat n) s" unfolding load_bytes_def by (simp add: f3(3))
    finally show ?thesis .
  qed
  moreover have "t = s\<lparr>mem := mem t, pbuf_pool := pbuf_pool t, pbuf := (pbuf s)(p := pbuf t p, q := pbuf t q),
      tcp_seg := (tcp_seg s)(seg := (tcp_seg s seg)\<lparr>sg_dataptr := ptr, sg_p := q\<rparr>)\<rparr>"
  proof -
    have e3: "s3 = s\<lparr>pbuf_pool := pbuf_pool s3, pbuf := pbuf s3, tcp_seg := tcp_seg s3\<rparr>"
      by (simp add: s3_def s2_def s1_def taken_def)
    have p3: "pbuf s3 = (pbuf s)(p := pbuf s3 p, q := pbuf s3 q)" "tcp_seg s3 = (tcp_seg s)(seg := (tcp_seg s seg)\<lparr>sg_dataptr := ptr, sg_p := q\<rparr>)"
      using pq(1) by (simp_all add: s3_def s2_def s1_def taken_def)
    have t3: "t = s3\<lparr>mem := mem t, pbuf := (pbuf s3)(q := pbuf t q)\<rparr>" "pbuf t p = pbuf s3 p" "pbuf_pool t = pbuf_pool s3"
      using pq(1) by (simp_all add: t_def store_bytes_def)
    have pb: "(pbuf s3)(q := pbuf t q) = (pbuf s)(p := pbuf t p, q := pbuf t q)"
      unfolding t3(2) by (subst p3(1)) simp
    have "t = s\<lparr>mem := mem t, pbuf_pool := pbuf_pool s3, pbuf := (pbuf s3)(q := pbuf t q), tcp_seg := tcp_seg s3\<rparr>"
      by (rule trans [OF t3(1)], subst (1) e3) simp
    then show ?thesis unfolding pb p3(2) t3(3) .
  qed
  moreover have "pbuf t p = pbuf s3 p" "pbuf t q = (pbuf s3 q)\<lparr>pb_len := n, pb_tot_len := n\<rparr>"
    using pq(1) by (simp_all add: t_def store_bytes_def)
  ultimately show ?thesis using pq(8,9) by (intro exI [of _ t]) (simp add: pbuf_owned_def f3)
qed

text \<open>C10: A piece of data that is not copied takes two buffers, and only one of them comes back when its segment is freed: the
  other is neither in the pool nor in the segment.  The data have been copied all the same.\<close>

theorem uncopied_data_leaks:
  assumes av: "pbuf_avail s (p # q # xs)" and n: "unat n \<le> 1460" and d: "accessible ptr (unat n)"
    and seg: "seg \<in> memp_objs T_MEMP_TCP_SEG" "memp_owned s seg" "memp_avail T_MEMP_TCP_SEG s gs" "seg \<notin> set gs"
  shows "\<exists>t c u. enqueue_buffers seg n 0 arg ptr None ol k s = Some (Some (k + 2), t) \<and> sg_p (tcp_seg t seg) = q \<and>
    load_bytes (pb_payload (pbuf t q)) (unat (pb_len (pbuf t q))) t = load_bytes ptr (unat n) s \<and>
    t_tcp_seg_free seg t = Some (c, u) \<and> memp_avail T_MEMP_TCP_SEG u (seg # gs) \<and>
    pbuf_avail u (q # xs) \<and> p \<notin> set (q # xs) \<and> pbuf_owned u p"
proof -
  obtain t where t: "enqueue_buffers seg n 0 arg ptr None ol k s = Some (Some (k + 2), t)" "pbuf_avail t xs"
    "t = s\<lparr>mem := mem t, pbuf_pool := pbuf_pool t, pbuf := (pbuf s)(p := pbuf t p, q := pbuf t q),
      tcp_seg := (tcp_seg s)(seg := (tcp_seg s seg)\<lparr>sg_dataptr := ptr, sg_p := q\<rparr>)\<rparr>"
    "pbuf_owned t p" "pbuf_owned t q" "pb_payload (pbuf t q) = q + 86" "pb_len (pbuf t q) = n"
    "load_bytes (q + 86) (unat n) t = load_bytes ptr (unat n) s" using enqueue_uncopied [OF av n d] by blast
  have pq: "p \<notin> set (q # xs)" "q \<notin> set xs" "q \<in> set pbuf_slots"
    using av chained_distinct [of "pb_link s" "pbuf_pool s" "p # q # xs"] by (auto simp: pbuf_avail_def)
  have f: "tcp_seg t seg = (tcp_seg s seg)\<lparr>sg_dataptr := ptr, sg_p := q\<rparr>" "memp_tab t = memp_tab s" "memp_next t = memp_next s"
    by (subst t(3), simp)+
  have "distinct gs" using memp.avail_distinct [OF seg(3)] by simp
  then have "segs_held t [seg] gs xs"
    using seg t(2,5) pq chained_distinct [of "pb_link t" "pbuf_pool t" xs]
    by (simp add: segs_held_def f memp_avail_def memp_owned_def) (simp add: pbuf_avail_def)
  from seg_free_result [OF this] obtain c u where u: "t_tcp_seg_free seg t = Some (c, u)" "segs_held u [] (seg # gs) (q # xs)"
    "\<forall>y. y \<noteq> q \<longrightarrow> pbuf u y = pbuf t y" by (auto simp: f(1))
  have "pbuf_owned u p" using t(4) u(3) pq(1) by (simp add: pbuf_owned_def)
  then show ?thesis using t(1,6-8) u(1,2) pq(1) f(1) by (intro exI [of _ t] exI [of _ c] exI [of _ u]) (simp add: segs_held_def)
qed

theorem uncopied_data_leaks_witness:
  "\<exists>(s :: tcp_st) p q xs seg t c u. pbuf_avail s (p # q # xs) \<and> enqueue_buffers seg 100 0 0x100 0x100 None 0 0 s = Some (Some 2, t) \<and>
     t_tcp_seg_free seg t = Some (c, u) \<and> pbuf_avail u (q # xs) \<and> p \<notin> set (q # xs)"
proof -
  obtain gs gs' xs xs' where av: "length gs = 2" "memp_avail T_MEMP_TCP_SEG tcp_open (gs @ gs')" "length xs = 2"
    "pbuf_avail tcp_open (xs @ xs')" using tcp_open_facts(1,2) by blast
  obtain p q where xs: "xs = [p, q]" using av(3) by (auto simp: length_Suc_conv numeral_2_eq_2)
  obtain g gl where g: "gs @ gs' = g # gl" using av(1) by (cases gs) auto
  from memp_malloc_next [OF av(2) [unfolded g]] obtain s where s: "memp_avail T_MEMP_TCP_SEG s gl" "memp_owned s g"
    "s = tcp_open\<lparr>memp_tab := memp_tab s, memp_next := memp_next s, now_count := now_count tcp_open + 1\<rparr>" by blast
  have "pbuf s = pbuf tcp_open" "pbuf_pool s = pbuf_pool tcp_open" by (subst s(3), simp)+
  then have pb: "pbuf_avail s (p # q # xs')" using av(4) xs by (simp add: pbuf_avail_def)
  have "g \<in> memp_objs T_MEMP_TCP_SEG" "g \<notin> set gl"
    using memp.avail_objs [OF av(2) [unfolded g]] memp.avail_distinct [OF av(2) [unfolded g]] by auto
  moreover have "unat (100 :: u16) \<le> 1460" "accessible 0x100 (unat (100 :: u16))"
    by (simp_all add: accessible_def user_range_def memp_memory_def)
  ultimately obtain t c u where "enqueue_buffers g 100 0 0x100 0x100 None 0 0 s = Some (Some (0 + 2), t)"
    "t_tcp_seg_free g t = Some (c, u)" "pbuf_avail u (q # xs')" "p \<notin> set (q # xs')"
    using uncopied_data_leaks [OF pb _ _ _ s(2,1)] by blast
  then show ?thesis using pb by (intro exI) simp
qed

end
