(* ===== verification/Tcp_In.thy ===== *)
theory Tcp_In
  imports Tcp_Connect
begin

text \<open>
  \<^verbatim>\<open>core/t_tcp_in.c\<close>: incoming segments.  The header is converted in place, the segment is matched with
  the active blocks (a block that is found moves to the front of the list), and the state machine
  reacts: the one transition it has is from \<open>SYN_SENT\<close> to \<open>ESTABLISHED\<close>.
\<close>

section \<open>Options\<close>

text \<open>The loop over the options; \<open>c\<close> is an 8 bit index that may wrap around.\<close>

partial_function (option) parseopt_loop :: "ptr \<Rightarrow> nat \<Rightarrow> ptr \<Rightarrow> u8 \<Rightarrow> 'a tcp_st_scheme \<Rightarrow> 'a tcp_st_scheme option" where
  "parseopt_loop opts lim pcb c s =
     (if unat c < lim then
        Option.bind (defined (accessible (opts + unat c) 1)) (\<lambda>_.
          let opt = mem s (opts + unat c)
          in if opt = 0x00 then Some s
             else if opt = 0x01 then parseopt_loop opts lim pcb (c + 1) s
             else Option.bind (defined (accessible (opts + unat c + 1) 1)) (\<lambda>_.
               if opt = 0x02 \<and> mem s (opts + unat c + 1) = 0x04 then
                 Option.bind (defined (accessible (opts + unat c + 2) 2)) (\<lambda>_.
                   let mss = (push_bit 8 (ucast (mem s (opts + unat c + 2))) OR ucast (mem s (opts + unat c + 3)) :: u16)
                   in Some (upd_tcp pcb (\<lambda>b. b\<lparr>tp_mss := if T_TCP_MSS < mss then T_TCP_MSS else mss\<rparr>) s))
               else if mem s (opts + unat c + 1) = 0 then Some s
               else parseopt_loop opts lim pcb (c + mem s (opts + unat c + 1)) s))
      else Some s)"

definition t_tcp_parseopt :: "ptr \<Rightarrow> 'a tcp_st_scheme \<Rightarrow> 'a tcp_st_scheme option" where
  "t_tcp_parseopt pcb s =
     (let opts = in_tcphdr s + T_TCP_HLEN
      in if 0x5 < T_TCPH_HDRLEN (in_tcphdr s) s
         then parseopt_loop opts ((unat (T_TCPH_HDRLEN (in_tcphdr s) s) - 5) * 4) pcb 0 s
         else Some s)"

section \<open>The state machine\<close>

definition t_tcp_ack_now :: "ptr \<Rightarrow> 'a tcp_st_scheme \<Rightarrow> 'a tcp_st_scheme" where
  "t_tcp_ack_now pcb s = upd_tcp pcb (\<lambda>b. b\<lparr>tp_flags := tp_flags b OR TF_ACK_NOW\<rparr>) s"

text \<open>\<^verbatim>\<open>tcp_connected\<close> of \<^verbatim>\<open>user/s_main.c\<close> prints and returns 0.\<close>

definition tcp_connected :: "ptr \<Rightarrow> ptr \<Rightarrow> int \<Rightarrow> 'a tcp_st_scheme \<Rightarrow> int \<times> 'a tcp_st_scheme" where
  "tcp_connected arg tpcb err s = (0, s)"

definition T_TCP_EVENT_CONNECTED :: "ptr \<Rightarrow> int \<Rightarrow> int \<Rightarrow> 'a tcp_st_scheme \<Rightarrow> int \<times> 'a tcp_st_scheme" where
  "T_TCP_EVENT_CONNECTED pcb err ret s =
     (case tp_connected (tcp_pcb s pcb) of
        No_connected \<Rightarrow> (ret, s)
      | Tcp_connected \<Rightarrow> tcp_connected (tp_callback_arg (tcp_pcb s pcb)) pcb err s)"

definition t_tcp_process :: "ptr \<Rightarrow> 'a tcp_st_scheme \<Rightarrow> (int \<times> 'a tcp_st_scheme) option" where
  "t_tcp_process pcb s =
     (let err = 0;
          s = upd_tcp pcb (\<lambda>b. b\<lparr>tp_tmr := tcp_ticks s\<rparr>) s;
          s = upd_tcp pcb (\<lambda>b. b\<lparr>tp_keep_cnt := 0\<rparr>) s
      in case tp_state (tcp_pcb s pcb) of
           SYN_SENT \<Rightarrow>
             if in_flags s AND TCP_ACK \<noteq> 0 \<and> in_flags s AND TCP_SYN \<noteq> 0 then do {
               defined (tp_unacked (tcp_pcb s pcb) \<noteq> NULL);
               let h = sg_tcphdr (tcp_seg s (tp_unacked (tcp_pcb s pcb)));
               defined (accessible (tcph_seqno h) 4);
               if in_ackno s = ntohl (load32 (tcph_seqno h) s) + 1 then do {
                 let s = upd_tcp pcb (\<lambda>b. b\<lparr>tp_snd_buf := tp_snd_buf b + 1, tp_rcv_nxt := in_seqno s + 1,
                   tp_lastack := in_ackno s, tp_snd_wnd := ucast (load16 (tcph_wnd (in_tcphdr s)) s),
                   tp_snd_wl1 := in_seqno s - 1, tp_state := ESTABLISHED, tp_cwnd := tp_mss b,
                   tp_snd_queuelen := tp_snd_queuelen b - 1\<rparr>) s;
                 let rseg = tp_unacked (tcp_pcb s pcb);
                 let s = upd_tcp pcb (\<lambda>b. b\<lparr>tp_unacked := sg_next (tcp_seg s rseg)\<rparr>) s;
                 (_, s) \<leftarrow> t_tcp_seg_free rseg s;
                 s \<leftarrow> t_tcp_parseopt pcb s;
                 let (err, s) = T_TCP_EVENT_CONNECTED pcb 0 err s;
                 Some (err, t_tcp_ack_now pcb s)
               } else Some (err, s)
             } else Some (err, s)
         | _ \<Rightarrow> Some (err, s))"

section \<open>Demultiplexing\<close>

definition tcp_matches :: "u16 \<Rightarrow> u16 \<Rightarrow> u32 \<Rightarrow> u32 \<Rightarrow> t_tcp_pcb \<Rightarrow> bool" where
  "tcp_matches src dest src_ip dst_ip b \<longleftrightarrow> tp_remote_port b = src \<and> tp_local_port b = dest \<and>
     \<not> t_ip_addr_cmp (tp_remote_ip b) src_ip \<and> \<not> t_ip_addr_cmp (tp_local_ip b) dst_ip"

text \<open>The loop over the active blocks, which remembers the block before the one it looks at.\<close>

partial_function (option) active_loop ::
    "(t_tcp_pcb \<Rightarrow> bool) \<Rightarrow> ptr \<Rightarrow> ptr \<Rightarrow> 'a tcp_st_scheme \<Rightarrow> (ptr \<times> 'a tcp_st_scheme) option" where
  "active_loop P prev pcb s =
     (if pcb = NULL then Some (NULL, s)
      else if P (tcp_pcb s pcb) then
        Some (pcb,
          if prev \<noteq> NULL then
            let s = upd_tcp prev (\<lambda>b. b\<lparr>tp_next := tp_next (tcp_pcb s pcb)\<rparr>) s;
                s = upd_tcp pcb (\<lambda>b. b\<lparr>tp_next := tcp_active_pcbs s\<rparr>) s
            in s\<lparr>tcp_active_pcbs := pcb\<rparr>
          else s)
      else active_loop P pcb (tp_next (tcp_pcb s pcb)) s)"

text \<open>The fields of the header at \<open>h\<close> are converted to host order in place, and some are copied to the
  variables of the file.\<close>

definition input_convert :: "ptr \<Rightarrow> ptr \<Rightarrow> 'a tcp_st_scheme \<Rightarrow> 'a tcp_st_scheme" where
  "input_convert h p s =
     (let s = store16 (tcph_src h) (ntohs (load16 (tcph_src h) s)) s;
          s = store16 (tcph_dest h) (ntohs (load16 (tcph_dest h) s)) s;
          s = store32 (tcph_seqno h) (ntohl (load32 (tcph_seqno h) s)) s;
          s = s\<lparr>in_seqno := load32 (tcph_seqno h) s\<rparr>;
          s = store32 (tcph_ackno h) (ntohl (load32 (tcph_ackno h) s)) s;
          s = s\<lparr>in_ackno := load32 (tcph_ackno h) s\<rparr>;
          s = store16 (tcph_wnd h) (ntohs (load16 (tcph_wnd h) s)) s;
          s = s\<lparr>in_flags := ucast (T_TCPH_FLAGS h s AND TCP_FLAGS)\<rparr>
      in s\<lparr>in_tcplen := pb_tot_len (pbuf s p) +
           (if in_flags s AND TCP_FIN \<noteq> 0 \<or> in_flags s AND TCP_SYN \<noteq> 0 then 1 else 0)\<rparr>)"

text \<open>What happens to a segment whose block has been found.\<close>

definition input_found :: "ptr \<Rightarrow> ptr \<Rightarrow> 'a tcp_st_scheme \<Rightarrow> 'a tcp_st_scheme option" where
  "input_found pcb p s = do {
     let s = s\<lparr>inseg := \<lparr>sg_next = NULL, sg_p = p, sg_dataptr = pb_payload (pbuf s p),
       sg_len = pb_tot_len (pbuf s p), sg_tcphdr = in_tcphdr s\<rparr>\<rparr>;
     let s = s\<lparr>recv_data := NULL\<rparr>;
     let s = s\<lparr>recv_flags := 0\<rparr>;
     let s = s\<lparr>tcp_input_pcb := pcb\<rparr>;
     (err, s) \<leftarrow> t_tcp_process pcb s;
     s \<leftarrow> (if err = 0 then do { (_, s) \<leftarrow> t_tcp_output pcb s; Some s } else Some s);
     Some (s\<lparr>tcp_input_pcb := NULL\<rparr>)
   }"

definition t_tcp_input :: "ptr \<Rightarrow> ptr \<Rightarrow> 'a tcp_st_scheme \<Rightarrow> (int \<times> 'a tcp_st_scheme) option" where
  "t_tcp_input inp p s = do {
     defined (p \<noteq> NULL);
     let s = s\<lparr>in_iphdr := pb_payload (pbuf s p)\<rparr>;
     let iphdr = in_iphdr s;
     defined (accessible iphdr 2);
     let s = s\<lparr>in_tcphdr := pb_payload (pbuf s p) + unat (T_IPH_HL iphdr s) * 4\<rparr>;
     let h = in_tcphdr s;
     (r, s) \<leftarrow> t_pbuf_header p (int (unat (T_IPH_HL iphdr s)) * 4) s;
     if r \<noteq> 0 \<or> unat (pb_tot_len (pbuf s p)) < T_TCP_HLEN then Some (-1, s)
     else do {
       defined (accessible h 20);
       let hdrlen = T_TCPH_HDRLEN h s;
       (_, s) \<leftarrow> t_pbuf_header p (int (unat hdrlen) * 4) s;
       let s = input_convert h p s;
       defined (accessible (iph_src iphdr) 8);
       (pcb, s) \<leftarrow> active_loop (tcp_matches (load16 (tcph_src h) s) (load16 (tcph_dest h) s)
         (load32 (iph_src iphdr) s) (load32 (iph_dst iphdr) s)) NULL (tcp_active_pcbs s) s;
       if pcb \<noteq> NULL then do { s \<leftarrow> input_found pcb p s; Some (0, s) } else Some (0, s)
     }
   }"

end
