(* ===== verification/Tcp_Process.thy ===== *)
theory Tcp_Process
  imports Tcp_In
begin

text \<open>
  The reaction to a segment: what \<^verbatim>\<open>t_tcp_process\<close> may change in any state, and the acknowledgement that
  \<^verbatim>\<open>t_tcp_output\<close> sends when nothing else is to be sent.
\<close>

section \<open>What the steps of the state machine may change\<close>

lemma pbuf_free_loop_only:
  "t_pbuf_free_loop p c s = Some r \<Longrightarrow> \<exists>f q. snd r = s\<lparr>pbuf := f, pbuf_pool := q\<rparr>"
proof (induction p c s r rule: t_pbuf_free_loop.raw_induct [rotated, consumes 1])
  case (1 loop p c s r)
  show ?case
  proof (cases "p = NULL")
    case True
    with 1(2) have "snd r = s\<lparr>pbuf := pbuf s, pbuf_pool := pbuf_pool s\<rparr>" by auto
    then show ?thesis by blast
  next
    case False
    define t where "t = upd_pbuf p (\<lambda>b. b\<lparr>pb_ref := pb_ref b - 1\<rparr>) s"
    define u where "u = (upd_pbuf p (\<lambda>b. b\<lparr>pb_next := pbuf_pool t\<rparr>) t)\<lparr>pbuf_pool := p\<rparr>"
    have only: "\<exists>f q. t = s\<lparr>pbuf := f, pbuf_pool := q\<rparr>" "\<exists>f q. u = s\<lparr>pbuf := f, pbuf_pool := q\<rparr>"
    proof -
      have "t = s\<lparr>pbuf := pbuf t, pbuf_pool := pbuf_pool s\<rparr>" by (simp add: t_def)
      then show "\<exists>f q. t = s\<lparr>pbuf := f, pbuf_pool := q\<rparr>" by blast
      have "u = s\<lparr>pbuf := pbuf u, pbuf_pool := p\<rparr>" by (simp add: u_def t_def)
      then show "\<exists>f q. u = s\<lparr>pbuf := f, pbuf_pool := q\<rparr>" by blast
    qed
    from 1(2) False have "(\<exists>n c. loop n c t = Some r) \<or> (\<exists>n c. loop n c u = Some r)"
      unfolding Let_def t_def [symmetric] u_def [symmetric] by (simp add: bind_eq_Some_conv split: if_splits) blast+
    with only 1(1) show ?thesis by (elim disjE exE) fastforce+
  qed
qed

lemma parseopt_loop_only:
  "parseopt_loop opts lim pcb c s = Some r \<Longrightarrow> \<exists>m. r = upd_tcp pcb (\<lambda>b. b\<lparr>tp_mss := m\<rparr>) s"
proof (induction opts lim pcb c s r rule: parseopt_loop.raw_induct [rotated, consumes 1])
  case (1 loop opts lim pcb c s r)
  let ?P = "\<lambda>r. r = s \<or> (\<exists>m. r = upd_tcp pcb (\<lambda>b. b\<lparr>tp_mss := m\<rparr>) s) \<or> (\<exists>d. loop opts lim pcb d s = Some r)"
  from 1(2) have "?P r"
    unfolding Let_def by (simp only: split: if_splits) (simp only: defined_bind_Some option.inject, blast)+
  then show ?case
  proof (elim disjE exE)
    assume "r = s"
    then have "r = upd_tcp pcb (\<lambda>b. b\<lparr>tp_mss := tp_mss (tcp_pcb s pcb)\<rparr>) s" by simp
    then show ?thesis by blast
  qed (use 1(1) in blast)+
qed

lemma parseopt_only:
  assumes "t_tcp_parseopt pcb s = Some s'"
  shows "\<exists>m. s' = upd_tcp pcb (\<lambda>b. b\<lparr>tp_mss := m\<rparr>) s"
proof (cases "0x5 < T_TCPH_HDRLEN (in_tcphdr s) s")
  case True
  with assms show ?thesis using parseopt_loop_only by (auto simp: t_tcp_parseopt_def)
next
  case False
  with assms have "s' = upd_tcp pcb (\<lambda>b. b\<lparr>tp_mss := tp_mss (tcp_pcb s pcb)\<rparr>) s" by (simp add: t_tcp_parseopt_def)
  then show ?thesis by blast
qed

lemma memp_free_only:
  assumes "t_memp_free i m s = Some s'"
  shows "\<exists>tab nx n. s' = s\<lparr>memp_tab := tab, memp_next := nx, now_count := n\<rparr>"
proof -
  have "s' = s\<lparr>memp_tab := memp_tab s', memp_next := memp_next s', now_count := now_count s'\<rparr>"
    using assms by (auto simp: t_memp_free_def Let_def)
  then show ?thesis by blast
qed

lemma seg_free_only:
  assumes "t_tcp_seg_free g s = Some (c, s')"
  shows "pools_only s s'"
proof (cases "g = NULL")
  case True
  with assms show ?thesis by (simp add: t_tcp_seg_free_def pools_only_refl)
next
  case False
  with assms obtain d t where t: "t_memp_free T_MEMP_TCP_SEG g t = Some s'"
    "t = s \<or> t_pbuf_free (sg_p (tcp_seg s g)) s = Some (d, t)"
    by (auto simp: t_tcp_seg_free_def bind_eq_Some_conv split: if_splits)
  have "pools_only s t" using t(2)
  proof
    assume "t_pbuf_free (sg_p (tcp_seg s g)) s = Some (d, t)"
    then obtain f q where "t = s\<lparr>pbuf := f, pbuf_pool := q\<rparr>"
      using pbuf_free_loop_only unfolding t_pbuf_free_def by (metis snd_conv)
    then have "t = s\<lparr>memp_tab := memp_tab s, memp_next := memp_next s, now_count := now_count s, pbuf := f, pbuf_pool := q\<rparr>"
      by simp
    then show ?thesis unfolding pools_only_def by blast
  qed (simp add: pools_only_refl)
  moreover have "pools_only t s'"
  proof -
    obtain tab nx n where "s' = t\<lparr>memp_tab := tab, memp_next := nx, now_count := n\<rparr>" using memp_free_only [OF t(1)] by blast
    then have "s' = t\<lparr>memp_tab := tab, memp_next := nx, now_count := n, pbuf := pbuf t, pbuf_pool := pbuf_pool t\<rparr>" by simp
    then show ?thesis unfolding pools_only_def by blast
  qed
  ultimately show ?thesis by (rule pools_only_trans)
qed

lemma event_connected: "T_TCP_EVENT_CONNECTED pcb err 0 s = (0, s)"
  by (cases "tp_connected (tcp_pcb s pcb)") (simp_all add: T_TCP_EVENT_CONNECTED_def tcp_connected_def)

text \<open>The segment in \<open>in_flags\<close>, \<open>in_ackno\<close>: a SYN that acknowledges the block's own SYN.\<close>

definition syn_acked :: "ptr \<Rightarrow> 'a tcp_st_scheme \<Rightarrow> bool" where
  "syn_acked pcb s \<longleftrightarrow> tp_state (tcp_pcb s pcb) = SYN_SENT \<and> in_flags s AND TCP_ACK \<noteq> 0 \<and> in_flags s AND TCP_SYN \<noteq> 0 \<and>
     in_ackno s = ntohl (load32 (sg_tcphdr (tcp_seg s (tp_unacked (tcp_pcb s pcb))) + 4) s) + 1"

text \<open>C14: The state machine has one transition: whatever segment arrives in whatever state, a block
  changes its state only from \<^verbatim>\<open>SYN_SENT\<close> to \<^verbatim>\<open>ESTABLISHED\<close>, and only for a SYN that acknowledges its own
  SYN.  It then expects the peer's next number and owes an acknowledgement.  Any other segment only touches the timers
  of the block; no other block is ever changed, nor the list of blocks, and nothing is sent.\<close>

theorem tcp_process_safe:
  assumes "t_tcp_process pcb s = Some (e, s')" and "b = tcp_pcb s pcb" and "b' = tcp_pcb s' pcb"
  shows "e = 0 \<and> sent s' = sent s \<and> tcp_active_pcbs s' = tcp_active_pcbs s \<and> (\<forall>q. q \<noteq> pcb \<longrightarrow> tcp_pcb s' q = tcp_pcb s q) \<and>
    (if syn_acked pcb s then
       tp_state b' = ESTABLISHED \<and> tp_rcv_nxt b' = in_seqno s + 1 \<and> tp_lastack b' = in_ackno s \<and>
       tp_unacked b' = sg_next (tcp_seg s (tp_unacked b)) \<and> tp_flags b' = tp_flags b OR TF_ACK_NOW
     else b' = b\<lparr>tp_tmr := tcp_ticks s, tp_keep_cnt := 0\<rparr>)"
proof -
  define s1 where "s1 = upd_tcp pcb (\<lambda>b. b\<lparr>tp_tmr := tcp_ticks s, tp_keep_cnt := 0\<rparr>) s"
  have s1: "upd_tcp pcb (\<lambda>b. b\<lparr>tp_keep_cnt := 0\<rparr>) (upd_tcp pcb (\<lambda>b. b\<lparr>tp_tmr := tcp_ticks s\<rparr>) s) = s1"
    by (simp add: s1_def)
  have same: "tp_state (tcp_pcb s1 pcb) = tp_state b" "in_flags s1 = in_flags s" "in_ackno s1 = in_ackno s"
    "tcp_pcb s1 pcb = b\<lparr>tp_tmr := tcp_ticks s, tp_keep_cnt := 0\<rparr>" "tcp_seg s1 = tcp_seg s" "in_seqno s1 = in_seqno s"
    "load32 x s1 = load32 x s" "tcp_active_pcbs s1 = tcp_active_pcbs s" "sent s1 = sent s" for x
    by (simp_all add: s1_def assms(2) load32_def)
  note run = assms(1) [unfolded t_tcp_process_def Let_def s1]
  show ?thesis
  proof (cases "syn_acked pcb s")
    case False
    then have "e = 0 \<and> s' = s1"
      using run by (cases "tp_state b") (auto simp: same syn_acked_def assms(2) [symmetric] split: if_splits)
    with False show ?thesis by (simp add: assms(2,3) s1_def)
  next
    case True
    define c where "c = (tcp_pcb s1 pcb)\<lparr>tp_snd_buf := tp_snd_buf b + 1, tp_rcv_nxt := in_seqno s + 1,
      tp_lastack := in_ackno s, tp_snd_wnd := ucast (load16 (tcph_wnd (in_tcphdr s1)) s1), tp_snd_wl1 := in_seqno s - 1,
      tp_state := ESTABLISHED, tp_cwnd := tp_mss b, tp_snd_queuelen := tp_snd_queuelen b - 1,
      tp_unacked := sg_next (tcp_seg s (tp_unacked b))\<rparr>"
    define t where "t = s1\<lparr>tcp_pcb := (tcp_pcb s1)(pcb := c)\<rparr>"
    from True run obtain d u w where o: "t_tcp_seg_free (tp_unacked b) t = Some (d, u)" "t_tcp_parseopt pcb u = Some w"
      "e = 0" "s' = t_tcp_ack_now pcb w"
      by (auto simp: same syn_acked_def assms(2) [symmetric] t_def c_def bind_eq_Some_conv event_connected)
    note u = pools_onlyD [OF seg_free_only [OF o(1)]]
    from parseopt_only [OF o(2)] obtain m where w: "w = upd_tcp pcb (\<lambda>b. b\<lparr>tp_mss := m\<rparr>) u" by blast
    from True show ?thesis
      by (simp add: o(3,4) t_tcp_ack_now_def w u assms(3)) (simp add: t_def c_def same s1_def assms(2))
  qed
qed


theorem tcp_process_safe_witness:
  "\<exists>s'. t_tcp_process 0x500 tcp_boot = Some (0, s') \<and> tp_state (tcp_pcb s' 0x500) = CLOSED"
proof -
  have b: "tcp_pcb tcp_boot 0x500 = tcp_zeroed" by (simp add: tcp_boot_def udp_st.defs)
  then have n: "\<not> syn_acked 0x500 tcp_boot" by (simp add: syn_acked_def tcp_zeroed_def)
  obtain e s' where r: "t_tcp_process 0x500 tcp_boot = Some (e, s')"
    using b by (simp add: t_tcp_process_def Let_def tcp_zeroed_def)
  from tcp_process_safe [OF this refl refl] n b r show ?thesis by (simp add: tcp_zeroed_def)
qed

section \<open>Acknowledging\<close>

text \<open>With nothing to send and an acknowledgement owed, the sender emits one segment without data: the
  next number it will send, the next number it expects, its window and a correct checksum.  It
  forgets that it owes an acknowledgement, and its buffer is back in the pool.\<close>

theorem tcp_output_acks:
  assumes "b = tcp_pcb s pcb" and "pcb \<noteq> NULL" and "tp_unsent b = NULL" and "chained (sg_link s) (tp_unacked b) gs"
    and "tp_flags b AND TF_ACK_NOW \<noteq> 0" and "pbuf_avail s (x # xs)"
    and "t_ip_route (tp_local_ip b) s = Some m" and "ip_via m (Val (tp_remote_ip b)) s n" and "netif_up s n"
  shows "\<exists>s' frame c. t_tcp_output pcb s = Some (0, s') \<and> pbuf_avail s' (x # xs) \<and>
    s' = s\<lparr>mem := mem s', pbuf := pbuf s', pbuf_pool := pbuf_pool s', sent := sent s @ [frame],
      tcp_pcb := (tcp_pcb s)(pcb := b\<lparr>tp_flags := tp_flags b AND NOT (TF_ACK_DELAY OR TF_ACK_NOW)\<rparr>)\<rparr> \<and>
    ip_parse frame = Some (tp_local_ip b, tp_remote_ip b, tp_ttl b, tp_tos b, T_IP_PROTO_TCP,
      tcp_header (tp_local_port b) (tp_remote_port b) (tp_snd_nxt b) (tp_rcv_nxt b) 0x5010 (tp_rcv_wnd b) c) \<and>
    tcp_sum_ok (tp_local_ip b) (tp_remote_ip b)
      (tcp_header (tp_local_port b) (tp_remote_port b) (tp_snd_nxt b) (tp_rcv_nxt b) 0x5010 (tp_rcv_wnd b) c)"
proof -
  have "t_tcp_output pcb s = send_empty_ack pcb s"
  proof (cases "tp_unacked b = NULL")
    case False
    then have "gs \<noteq> []" using assms(4) by auto
    from last_from_chained [OF assms(4) this] False assms(1-3,5) show ?thesis by (simp add: t_tcp_output_def Let_def)
  qed (use assms(1-3,5) in \<open>simp add: t_tcp_output_def Let_def\<close>)
  with send_empty_ack_result [OF assms(1,6-9)] show ?thesis by simp
qed

definition ack_owed :: tcp_st where
  "ack_owed = upd_tcp 0x500 (\<lambda>b. b\<lparr>tp_flags := TF_ACK_NOW, tp_snd_nxt := 6510, tp_rcv_nxt := 1001\<rparr>) (online tcp_boot)"

theorem tcp_output_acks_witness:
  "\<exists>s' frame c. t_tcp_output 0x500 ack_owed = Some (0, s') \<and> sent s' = [frame] \<and>
    ip_parse frame = Some (0, 0, 0, 0, T_IP_PROTO_TCP, tcp_header 0 0 6510 1001 0x5010 0 c)"
proof -
  let ?s = ack_owed and ?b = "tcp_zeroed\<lparr>tp_flags := TF_ACK_NOW, tp_snd_nxt := 6510, tp_rcv_nxt := 1001\<rparr>"
  have "tcp_pcb (online tcp_boot) = (\<lambda>_. tcp_zeroed)" by (simp add: tcp_online_frame) (simp add: tcp_boot_def udp_st.defs)
  then have b: "tcp_pcb ?s 0x500 = ?b" by (simp add: ack_owed_def)
  have same: "pbuf ?s = pbuf (online tcp_boot)" "pbuf_pool ?s = pbuf_pool (online tcp_boot)" "netif ?s = netif (online tcp_boot)"
    "netif_list ?s = netif_list (online tcp_boot)" "netif_default ?s = netif_default (online tcp_boot)" "sent ?s = sent (online tcp_boot)"
    by (simp_all add: ack_owed_def)
  have av: "pbuf_avail ?s (pbuf_pool_memory # tl pbuf_slots)"
    using online_facts(2) [of tcp_boot] by (simp add: pbuf_avail_def same flip: pbuf_slots_Cons)
  have r: "t_ip_route d ?s = Some 0x300" for d
    using ip_route_frame [of ?s "online tcp_boot" d] online_route [of d tcp_boot] same by simp
  then have via: "ip_via 0x300 (Val (tp_remote_ip ?b)) ?s 0x300" by (simp add: ip_via_def)
  have up: "netif_up ?s 0x300" using online_facts(1) [of tcp_boot] by (simp add: netif_up_def same)
  have ch: "chained (sg_link ?s) (tp_unacked ?b) []" "tp_unsent ?b = NULL" "tp_flags ?b AND TF_ACK_NOW \<noteq> 0"
    by (simp_all add: tcp_zeroed_def TF_ACK_NOW_def)
  from tcp_output_acks [OF b [symmetric] _ ch(2,1,3) av r via up] obtain s' frame c where o:
    "t_tcp_output 0x500 ?s = Some (0, s')" "s' = ?s\<lparr>mem := mem s', pbuf := pbuf s', pbuf_pool := pbuf_pool s',
      sent := sent ?s @ [frame], tcp_pcb := (tcp_pcb ?s)(0x500 := ?b\<lparr>tp_flags := tp_flags ?b AND NOT (TF_ACK_DELAY OR TF_ACK_NOW)\<rparr>)\<rparr>"
    "ip_parse frame = Some (tp_local_ip ?b, tp_remote_ip ?b, tp_ttl ?b, tp_tos ?b, T_IP_PROTO_TCP,
      tcp_header (tp_local_port ?b) (tp_remote_port ?b) (tp_snd_nxt ?b) (tp_rcv_nxt ?b) 0x5010 (tp_rcv_wnd ?b) c)" by auto
  have "sent s' = [frame]" by (subst o(2)) (simp add: same online_facts(3))
  with o(1,3) show ?thesis by (auto simp: tcp_zeroed_def)
qed

end
