(* ===== verification/Tcp_Demux.thy ===== *)
theory Tcp_Demux
  imports Tcp_In
begin

text \<open>The search for the block of an incoming segment, and what it does to the list of active blocks.\<close>

section \<open>Demultiplexing\<close>

text \<open>The effect of finding the block \<open>m\<close> behind the block \<open>pr\<close>.\<close>

definition to_front :: "ptr \<Rightarrow> ptr \<Rightarrow> 'a tcp_st_scheme \<Rightarrow> 'a tcp_st_scheme" where
  "to_front pr m s =
     (if pr \<noteq> NULL then
        let s = upd_tcp pr (\<lambda>b. b\<lparr>tp_next := tp_next (tcp_pcb s m)\<rparr>) s;
            s = upd_tcp m (\<lambda>b. b\<lparr>tp_next := tcp_active_pcbs s\<rparr>) s
        in s\<lparr>tcp_active_pcbs := m\<rparr>
      else s)"

lemma active_loop_found:
  "chained (tp_link s) p (us @ m # vs) \<Longrightarrow> \<forall>u \<in> set us. \<not> P (tcp_pcb s u) \<Longrightarrow> P (tcp_pcb s m) \<Longrightarrow>
   active_loop P pr p s = Some (m, to_front (last (pr # us)) m s)"
proof (induction us arbitrary: p pr)
  case Nil
  then show ?case by (subst active_loop.simps) (auto simp: to_front_def)
next
  case (Cons u us)
  from Cons.prems have "p = u" "u \<noteq> NULL" "chained (tp_link s) (tp_next (tcp_pcb s u)) (us @ m # vs)" by auto
  with Cons.IH [of "tp_next (tcp_pcb s u)" u] Cons.prems(2,3) show ?case
    by (subst active_loop.simps) auto
qed

lemma active_loop_missed:
  "chained (tp_link s) p xs \<Longrightarrow> \<forall>u \<in> set xs. \<not> P (tcp_pcb s u) \<Longrightarrow> active_loop P pr p s = Some (NULL, s)"
proof (induction xs arbitrary: p pr)
  case (Cons u us)
  then show ?case by (subst active_loop.simps) auto
qed (simp add: active_loop.simps)

lemma to_front_chained:
  assumes ch: "chained (tp_link s) (tcp_active_pcbs s) (us @ m # vs)"
  shows "chained (tp_link (to_front (last (NULL # us)) m s)) (tcp_active_pcbs (to_front (last (NULL # us)) m s)) (m # us @ vs)"
proof (cases us rule: rev_cases)
  case Nil
  with ch show ?thesis by (simp add: to_front_def)
next
  case (snoc ws pr)
  let ?p = "tcp_active_pcbs s"
  have pr: "pr \<noteq> NULL" "m \<noteq> NULL" using chained_not_NULL [OF ch] snoc by auto
  have d: "pr \<notin> set ws" "pr \<notin> set vs" "m \<notin> set (ws @ pr # vs)" using chained_distinct [OF ch] snoc by auto
  have "chained (tp_link s) m (m # vs)" using ch chained_append_tail by blast
  then have "chained (tp_link s) (tp_next (tcp_pcb s m)) vs" by simp
  then have "chained ((tp_link s)(pr := tp_next (tcp_pcb s m))) ?p (ws @ pr # vs)"
    using chained_redirect [of "tp_link s" ?p ws pr "m # vs"] ch snoc d(1,2) by simp
  then have "chained ((tp_link s)(pr := tp_next (tcp_pcb s m), m := ?p)) ?p (ws @ pr # vs)"
    using d(3) by (subst chained_upd_other) auto
  moreover have "tp_link (to_front pr m s) = (tp_link s)(pr := tp_next (tcp_pcb s m), m := ?p)"
    using d(3) by (auto simp: to_front_def pr)
  ultimately show ?thesis using pr snoc by (simp add: to_front_def)
qed

lemma to_front_keeps:
  "\<forall>q. (tcp_pcb (to_front pr m s) q)\<lparr>tp_next := NULL\<rparr> = (tcp_pcb s q)\<lparr>tp_next := NULL\<rparr>"
  "to_front pr m s = s\<lparr>tcp_active_pcbs := tcp_active_pcbs (to_front pr m s), tcp_pcb := tcp_pcb (to_front pr m s)\<rparr>"
  by (auto simp: to_front_def Let_def)

text \<open>C26: Incoming segments find their block: the first active one whose ports and addresses match.  The
  block that is found becomes the first of the list, the others keep their order, and no field but the
  links changes; so the list stays well formed and no block is lost.\<close>

theorem tcp_demux_spec:
  assumes ch: "chained (tp_link s) (tcp_active_pcbs s) xs" and m: "m = first_match (\<lambda>q. P (tcp_pcb s q)) xs"
  shows "\<exists>s'. active_loop P NULL (tcp_active_pcbs s) s = Some (m, s') \<and>
    chained (tp_link s') (tcp_active_pcbs s') (if m = NULL then xs else m # remove1 m xs) \<and>
    (\<forall>q. (tcp_pcb s' q)\<lparr>tp_next := NULL\<rparr> = (tcp_pcb s q)\<lparr>tp_next := NULL\<rparr>) \<and>
    s' = s\<lparr>tcp_active_pcbs := tcp_active_pcbs s', tcp_pcb := tcp_pcb s'\<rparr>"
proof (cases "m = NULL")
  case True
  with first_match_NULL_iff [OF chained_not_NULL [OF ch]] m have "\<forall>u \<in> set xs. \<not> P (tcp_pcb s u)" by simp
  with active_loop_missed [OF ch] True ch show ?thesis by simp
next
  case False
  obtain us vs where xs: "xs = us @ m # vs" "\<forall>u \<in> set us. \<not> P (tcp_pcb s u)"
    using first_match_split False m by (metis (no_types, lifting))
  have P: "P (tcp_pcb s m)" using first_match_mem False m by (metis (no_types, lifting))
  have "m \<notin> set us" using xs(2) P by auto
  then have "remove1 m xs = us @ vs" by (simp add: xs(1) remove1_append)
  define pr where "pr = last (NULL # us)"
  have "active_loop P NULL (tcp_active_pcbs s) s = Some (m, to_front pr m s)"
    unfolding pr_def by (rule active_loop_found [OF ch [unfolded xs(1)] xs(2) P])
  moreover have "chained (tp_link (to_front pr m s)) (tcp_active_pcbs (to_front pr m s)) (m # remove1 m xs)"
    unfolding pr_def \<open>remove1 m xs = us @ vs\<close> by (rule to_front_chained [OF ch [unfolded xs(1)]])
  ultimately show ?thesis
    using to_front_keeps [of pr m s] by (intro exI [of _ "to_front pr m s"]) (simp only: False if_False simp_thms)
qed


definition tcp_two :: tcp_st where
  "tcp_two = tcp_boot\<lparr>tcp_active_pcbs := 0x500, tcp_pcb := (\<lambda>_. tcp_zeroed)(0x500 := tcp_zeroed\<lparr>tp_next := 0x600\<rparr>,
     0x600 := tcp_zeroed\<lparr>tp_local_port := 80, tp_remote_port := 4097, tp_remote_ip := 2, tp_local_ip := 1\<rparr>)\<rparr>"

theorem tcp_demux_spec_witness:
  "\<exists>s'. active_loop (tcp_matches 4097 80 2 1) NULL 0x500 tcp_two = Some (0x600, s') \<and>
     chained (tp_link s') (tcp_active_pcbs s') [0x600, 0x500]"
proof -
  have "chained (tp_link tcp_two) (tcp_active_pcbs tcp_two) [0x500, 0x600]" by (simp add: tcp_two_def tcp_zeroed_def)
  from tcp_demux_spec [OF this refl, of "tcp_matches 4097 80 2 1"] show ?thesis
    by (auto simp: tcp_two_def tcp_zeroed_def tcp_matches_def t_ip_addr_cmp_def)
qed

end
