(* ===== verification/Tcp_Options.thy ===== *)
theory Tcp_Options
  imports Tcp_In
begin

text \<open>Parsing the options of a SYN: equivalence with a reading of the option list, and the input on which
  the loop does not end.\<close>

text \<open>Reading an option list byte by byte: the value of the first option for the maximum segment size.\<close>

fun mss_option :: "u8 list \<Rightarrow> u16 option" where
  "mss_option [] = None"
| "mss_option [k] = None"
| "mss_option (k # n # r) =
     (if k = 0 then None
      else if k = 1 then mss_option (n # r)
      else if k = 2 \<and> n = 4 then (case r of a # b # _ \<Rightarrow> Some (push_bit 8 (ucast a) OR ucast b) | _ \<Rightarrow> None)
      else if n = 0 then None
      else mss_option (drop (unat n - 1) (n # r)))"

text \<open>No option reaches over the end of the list.\<close>

fun opts_ok :: "u8 list \<Rightarrow> bool" where
  "opts_ok [] = True"
| "opts_ok [k] = (k = 0 \<or> k = 1)"
| "opts_ok (k # n # r) =
     (if k = 0 then True
      else if k = 1 then opts_ok (n # r)
      else if k = 2 \<and> n = 4 then 2 \<le> length r
      else n = 0 \<or> unat n \<le> length r + 2 \<and> opts_ok (drop (unat n - 1) (n # r)))"

definition set_mss :: "ptr \<Rightarrow> u16 option \<Rightarrow> 'a tcp_st_scheme \<Rightarrow> 'a tcp_st_scheme" where
  "set_mss pcb m s = (case m of None \<Rightarrow> s | Some mss \<Rightarrow> upd_tcp pcb (\<lambda>b. b\<lparr>tp_mss := min 1400 mss\<rparr>) s)"

lemma parseopt_loop_result:
  assumes "bs = load_bytes (opts + unat c) (lim - unat c) s" and "unat c \<le> lim" and "lim \<le> 40"
    and "accessible opts lim" and "opts_ok bs"
  shows "parseopt_loop opts lim pcb c s = Some (set_mss pcb (mss_option bs) s)"
  using assms(1,2,5)
proof (induction bs arbitrary: c rule: mss_option.induct)
  case 1
  then have "lim = unat c" by (metis length_load_bytes list.size(3) diff_is_0_eq le_antisym)
  then show ?case by (subst parseopt_loop.simps) (simp add: set_mss_def)
next
  case (2 k)
  then have lim: "lim - unat c = 1" by (metis length_load_bytes length_Cons list.size(3) One_nat_def)
  then have lim: "lim = unat c + 1" by simp
  have k: "mem s (opts + unat c) = k" using arg_cong [OF 2(1), of "\<lambda>xs. xs ! 0"] lim by simp
  have "accessible (opts + unat c) 1" using assms(4) by (rule accessible_part) (simp add: lim)
  moreover have "unat (c + 1) = unat c + 1" using lim assms(3) unat_add_small [of c 1] by simp
  then have "parseopt_loop opts lim pcb (c + 1) s = Some s" by (subst parseopt_loop.simps) (simp add: lim)
  ultimately show ?case using 2(3) by (subst parseopt_loop.simps) (auto simp: k lim set_mss_def)
next
  case (3 k n r)
  let ?c = "unat c"
  have "lim - ?c = length r + 2" using 3(3) by (metis length_load_bytes length_Cons add_2_eq_Suc')
  then have lim: "lim = ?c + length r + 2" using 3(4) by linarith
  have k: "mem s (opts + ?c) = k" "mem s (opts + ?c + 1) = n"
    using arg_cong [OF 3(3), of "\<lambda>xs. xs ! 0"] arg_cong [OF 3(3), of "\<lambda>xs. xs ! 1"] lim by simp_all
  have r: "mem s (opts + ?c + 2 + i) = r ! i" if "i < length r" for i
    using arg_cong [OF 3(3), of "\<lambda>xs. xs ! (2 + i)"] lim that by (simp add: add.assoc)
  have acc: "accessible (opts + ?c) 1" "accessible (opts + ?c + 1) 1"
    using accessible_part [OF assms(4), of ?c 1] accessible_part [OF assms(4), of "?c + 1" 1] lim
    by (simp_all add: add.assoc)
  have step: "unat (c + d) = ?c + unat d" "drop (unat d - 1) (n # r) = load_bytes (opts + unat (c + d)) (lim - unat (c + d)) s"
    "unat (c + d) \<le> lim" if "d \<noteq> 0" "unat d \<le> length r + 2" for d
  proof -
    show u: "unat (c + d) = ?c + unat d" using lim assms(3) that by (intro unat_add_small) simp
    then show "unat (c + d) \<le> lim" using lim that by simp
    have "0 < unat d" using that by (simp add: unat_gt_0)
    then have "drop (unat d - 1) (n # r) = drop (unat d) (k # n # r)" by (cases "unat d") simp_all
    also have "\<dots> = load_bytes (opts + ?c + unat d) (lim - ?c - unat d) s"
      unfolding 3(3) using lim that by (intro drop_load_bytes) simp
    finally show "drop (unat d - 1) (n # r) = load_bytes (opts + unat (c + d)) (lim - unat (c + d)) s"
      by (simp add: u add.assoc)
  qed
  note ok = 3(5)
  consider "k = 0" | "k = 1" | "k = 2" "n = 4" | "k \<noteq> 0" "k \<noteq> 1" "\<not> (k = 2 \<and> n = 4)" "n = 0"
    | "k \<noteq> 0" "k \<noteq> 1" "\<not> (k = 2 \<and> n = 4)" "n \<noteq> 0" by blast
  then show ?case
  proof cases
    case 1
    then show ?thesis using acc lim by (subst parseopt_loop.simps) (simp add: k set_mss_def)
  next
    case 2
    have "parseopt_loop opts lim pcb (c + 1) s = Some (set_mss pcb (mss_option (n # r)) s)"
      using 3(5) step [of 1] 2 by (intro 3(1)) simp_all
    with 2 show ?thesis using acc(1) lim by (subst parseopt_loop.simps) (simp add: k)
  next
    case 3
    then obtain a b r' where r': "r = a # b # r'" using ok by (cases r; cases "tl r") auto
    have "accessible (opts + ?c + 2) 2" using accessible_part [OF assms(4), of "?c + 2" 2] lim r'
      by (simp add: add.assoc)
    moreover have "mem s (opts + ?c + 2) = a" "mem s (opts + ?c + 3) = b"
    proof -
      have e: "opts + ?c + 2 + 0 = opts + ?c + 2" "opts + ?c + 2 + 1 = opts + ?c + 3" by simp_all
      show "mem s (opts + ?c + 2) = a" using r [of 0, unfolded e] r' by simp
      have "1 < length r \<Longrightarrow> mem s (opts + ?c + 3) = r ! 1" using r [of 1] unfolding e .
      then show "mem s (opts + ?c + 3) = b" using r' by (simp del: add_2_eq_Suc add_2_eq_Suc')
    qed
    moreover have "?c < lim" using lim by simp
    ultimately have "parseopt_loop opts lim pcb c s = Some (upd_tcp pcb (\<lambda>b'. b'\<lparr>tp_mss :=
        if T_TCP_MSS < push_bit 8 (ucast a) OR ucast b then T_TCP_MSS else push_bit 8 (ucast a) OR ucast b\<rparr>) s)"
      using acc 3 by (subst parseopt_loop.simps) (simp only: k Let_def if_True if_False simp_thms defined_simps
        Option.bind.simps, simp)
    then show ?thesis using 3 r' by (simp add: set_mss_def T_TCP_MSS_def min_def not_less)
  next
    case 4
    then show ?thesis using acc lim by (subst parseopt_loop.simps) (simp only: k, simp add: set_mss_def)
  next
    case 5
    then have "unat n \<le> length r + 2" "opts_ok (drop (unat n - 1) (n # r))" using 3(5) by (auto split: if_splits)
    with 5 have "parseopt_loop opts lim pcb (c + n) s = Some (set_mss pcb (mss_option (drop (unat n - 1) (n # r))) s)"
      using step [of n] by (intro 3(2)) simp_all
    with 5 show ?thesis using acc lim by (subst parseopt_loop.simps) (simp only: k, auto)
  qed
qed


text \<open>C28: On options that stay within the header, parsing ends, and the block gets the value of the first
  option for the maximum segment size, but at most 1400; without that option nothing changes.\<close>

theorem tcp_parseopt_spec:
  assumes "h = in_tcphdr s" and "lim = (unat (T_TCPH_HDRLEN h s) - 5) * 4" and "bs = load_bytes (h + 20) lim s"
    and "opts_ok bs" and "accessible (h + 20) lim"
  shows "t_tcp_parseopt pcb s = Some (case mss_option bs of None \<Rightarrow> s
    | Some mss \<Rightarrow> upd_tcp pcb (\<lambda>b. b\<lparr>tp_mss := min 1400 mss\<rparr>) s)"
proof -
  have "unat (T_TCPH_HDRLEN h s) < 16"
    using unsigned_less [of "ntohs (load16 (h + 12) s)", where ?'a = nat]
    unfolding T_TCPH_HDRLEN_def unat_drop_bit_eq by (simp add: drop_bit_eq_div)
  then have "lim \<le> 40" using assms(2) by simp
  moreover have "bs = load_bytes (h + 20 + unat (0 :: u8)) (lim - unat (0 :: u8)) s" using assms(3) by simp
  ultimately have l: "parseopt_loop (h + 20) lim pcb 0 s = Some (set_mss pcb (mss_option bs) s)"
    using assms(4,5) by (intro parseopt_loop_result) simp_all
  show ?thesis
  proof (cases "5 < T_TCPH_HDRLEN h s")
    case True
    then show ?thesis using l assms(1,2) by (simp add: t_tcp_parseopt_def T_TCP_HLEN_def set_mss_def)
  next
    case False
    then have "lim = 0" using assms(2) by (simp add: word_less_nat_alt)
    with assms False show ?thesis by (simp add: t_tcp_parseopt_def load_bytes_def)
  qed
qed

lemma parseopt_cycle:
  assumes "parseopt_loop opts lim pcb c s = Some r" and "c = 0 \<or> c = 1" and "3 \<le> lim"
    and "mem s opts = 1" and "mem s (opts + 1) \<noteq> 0" "mem s (opts + 1) \<noteq> 1" "mem s (opts + 1) \<noteq> 2" and "mem s (opts + 2) = 0xff"
  shows False
  using assms
proof (induction opts lim pcb c s r rule: parseopt_loop.raw_induct [rotated, consumes 1])
  case (1 loop opts lim pcb c s r)
  from 1(3) show ?case
  proof
    assume "c = 0"
    then have "loop opts lim pcb 1 s = Some r" using 1(2,4,5) by (auto split: if_splits)
    from 1(1) [OF this] 1(4-9) show False by simp
  next
    assume "c = 1"
    then have "loop opts lim pcb 256 s = Some r" using 1(2,4,6-9) by (auto split: if_splits)
    moreover have wrap: "(256 :: u8) = 0" by simp
    ultimately have "loop opts lim pcb 0 s = Some r" unfolding wrap by simp
    from 1(1) [OF this] 1(4-9) show False by simp
  qed
qed

text \<open>C29: The index of the loop is one byte wide.  Three bytes of options suffice to make it wrap around: a
  no-operation, then an unknown option that claims a length of 255.  The loop goes back to
  the no-operation and never ends, so a peer's SYN can stop the stack.\<close>

theorem tcp_parseopt_hangs:
  assumes "h = in_tcphdr s" and "5 < T_TCPH_HDRLEN h s" and "mem s (h + 20) = 1"
    and "mem s (h + 21) \<notin> {0, 1, 2}" and "mem s (h + 22) = 0xff"
  shows "t_tcp_parseopt pcb s = None"
proof -
  have "h + 20 + 1 = h + 21" "h + 20 + 2 = h + 22" by simp_all
  note e = this
  define lim where "lim = (unat (T_TCPH_HDRLEN h s) - 5) * 4"
  have "3 \<le> lim" using assms(2) by (simp add: word_less_nat_alt lim_def)
  have "parseopt_loop (h + 20) lim pcb 0 s = None"
  proof (cases "parseopt_loop (h + 20) lim pcb 0 s")
    case (Some r)
    from parseopt_cycle [OF this _ \<open>3 \<le> lim\<close>] assms(3-5) show ?thesis unfolding e by simp
  qed
  then show ?thesis using assms(1,2) by (simp add: t_tcp_parseopt_def T_TCP_HLEN_def lim_def)
qed


text \<open>A header with 8 bytes of options at a place of the application's memory.\<close>

definition opts_at :: "u8 list \<Rightarrow> tcp_st" where
  "opts_at bs = (store_bytes 0x100 (tcp_header 80 4097 0 6510 0x7012 1000 0 @ bs) tcp_boot)\<lparr>in_tcphdr := 0x100\<rparr>"

lemma opts_at_facts:
  assumes "length bs = 8"
  shows "T_TCPH_HDRLEN 0x100 (opts_at bs) = 7" "load_bytes 0x114 8 (opts_at bs) = bs" "in_tcphdr (opts_at bs) = 0x100"
    "accessible 0x114 8" "\<forall>i < 8. mem (opts_at bs) (0x114 + i) = bs ! i" "tcp_pcb (opts_at bs) = tcp_pcb tcp_boot"
proof -
  let ?s = "store_bytes 0x100 (tcp_header 80 4097 0 6510 0x7012 1000 0 @ bs) tcp_boot"
  have "load_bytes 0x100 28 ?s = tcp_header 80 4097 0 6510 0x7012 1000 0 @ bs"
    by (rule load_store_bytes_n) (simp add: assms)
  moreover have "load_bytes 0x10c 2 ?s = take 2 (drop 12 (load_bytes 0x100 28 ?s))" "load_bytes 0x114 8 ?s = take 8 (drop 20 (load_bytes 0x100 28 ?s))"
    using load_bytes_sub [of 12 2 28 "0x100" ?s] load_bytes_sub [of 20 8 28 "0x100" ?s] by simp_all
  ultimately have l: "load_bytes 0x10c 2 ?s = be16 0x7012" "load_bytes 0x114 8 ?s = bs"
    by (simp_all add: tcp_header_def be16_def be32_def raw32_def assms)
  then show "load_bytes 0x114 8 (opts_at bs) = bs" by (simp add: opts_at_def load_bytes_def)
  then show "\<forall>i < 8. mem (opts_at bs) (0x114 + i) = bs ! i" using nth_load_bytes by metis
  have "load16 0x10c (opts_at bs) = u16_of (be16 0x7012 ! 0) (be16 0x7012 ! 1)"
    by (simp add: opts_at_def load16_load_bytes load_bytes_def flip: l(1))
  moreover have "drop_bit 12 (u16_of 28690 112) = 7" by code_simp
  ultimately show "T_TCPH_HDRLEN 0x100 (opts_at bs) = 7"
    by (simp add: T_TCPH_HDRLEN_def htons_u16_of high_byte be16_def byte_of_def swap16.same_swap)
  show "accessible 0x114 8" by (simp add: accessible_def user_range_def memp_memory_def)
qed (simp_all add: opts_at_def)

theorem tcp_parseopt_spec_witness:
  "\<exists>s'. t_tcp_parseopt 0x500 (opts_at [1, 8, 2, 2, 4, 2, 0, 0]) = Some s' \<and> tp_mss (tcp_pcb s' 0x500) = 512"
proof -
  note f = opts_at_facts [of "[1, 8, 2, 2, 4, 2, 0, 0]", simplified]
  have "mss_option [1, 8, 2, 2, 4, 2, 0, 0] = Some 512" "opts_ok [1, 8, 2, 2, 4, 2, 0, 0]" by simp_all
  with tcp_parseopt_spec [of "0x100" "opts_at [1, 8, 2, 2, 4, 2, 0, 0]" 8 _ "0x500"] f show ?thesis by simp
qed

theorem tcp_parseopt_hangs_witness: "t_tcp_parseopt 0x500 (opts_at [1, 8, 0xff, 0, 0, 0, 0, 0]) = None"
proof -
  let ?s = "opts_at [1, 8, 0xff, 0, 0, 0, 0, 0]"
  note f = opts_at_facts [of "[1, 8, 0xff, 0, 0, 0, 0, 0]"]
  have "mem ?s 0x114 = 1" "mem ?s 0x115 = 8" "mem ?s 0x116 = 0xff"
    using f(5) [rule_format, of 0] f(5) [rule_format, of 1] f(5) [rule_format, of 2] by simp_all
  with tcp_parseopt_hangs [of "0x100" ?s "0x500"] f(1,3) show ?thesis by simp
qed

end
