(* ===== verification/Tcp_Handshake.thy ===== *)
theory Tcp_Handshake
  imports Tcp_Process Tcp_Demux Tcp_Options
begin

text \<open>
  The second step of the three-way handshake as one theorem about \<^verbatim>\<open>t_tcp_input\<close>: parsing the segment, finding
  the block, the transition of the state machine, and the acknowledgement.
\<close>

section \<open>The transition\<close>

definition established :: "ptr \<Rightarrow> u16 option \<Rightarrow> 'a tcp_st_scheme \<Rightarrow> t_tcp_pcb" where
  "established pcb mo s = (let b = tcp_pcb s pcb in b\<lparr>tp_tmr := tcp_ticks s, tp_keep_cnt := 0, tp_snd_buf := tp_snd_buf b + 1,
     tp_rcv_nxt := in_seqno s + 1, tp_lastack := in_ackno s, tp_snd_wnd := ucast (load16 (tcph_wnd (in_tcphdr s)) s),
     tp_snd_wl1 := in_seqno s - 1, tp_state := ESTABLISHED, tp_cwnd := tp_mss b, tp_snd_queuelen := tp_snd_queuelen b - 1,
     tp_unacked := sg_next (tcp_seg s (tp_unacked b)), tp_mss := (case mo of None \<Rightarrow> tp_mss b | Some m \<Rightarrow> min 1400 m),
     tp_flags := tp_flags b OR TF_ACK_NOW\<rparr>)"

lemma T_TCPH_HDRLEN_frame: "mem t = mem s \<Longrightarrow> T_TCPH_HDRLEN h t = T_TCPH_HDRLEN h s"
  by (simp add: T_TCPH_HDRLEN_def load16_def)

lemma load_bytes_frame: "mem t = mem s \<Longrightarrow> load_bytes a n t = load_bytes a n s"
  by (simp add: load_bytes_def)

lemma process_established:
  assumes syn: "syn_acked pcb s" and g: "tp_unacked (tcp_pcb s pcb) = g" "accessible (sg_tcphdr (tcp_seg s g) + 4) 4"
    and held: "segs_held s (g # gs) av xs"
    and opts: "h = in_tcphdr s" "lim = (unat (T_TCPH_HDRLEN h s) - 5) * 4" "opts_ok (load_bytes (h + 20) lim s)"
      "accessible (h + 20) lim"
  shows "\<exists>s'. t_tcp_process pcb s = Some (0, s') \<and> segs_held s' gs (g # av) (sg_p (tcp_seg s g) # xs) \<and>
    tcp_pcb s' = (tcp_pcb s)(pcb := established pcb (mss_option (load_bytes (h + 20) lim s)) s) \<and>
    pools_only s (s'\<lparr>tcp_pcb := tcp_pcb s\<rparr>)"
proof -
  let ?b = "tcp_pcb s pcb" and ?mo = "mss_option (load_bytes (h + 20) lim s)"
  define s1 where "s1 = upd_tcp pcb (\<lambda>b. b\<lparr>tp_tmr := tcp_ticks s, tp_keep_cnt := 0\<rparr>) s"
  have s1: "upd_tcp pcb (\<lambda>b. b\<lparr>tp_keep_cnt := 0\<rparr>) (upd_tcp pcb (\<lambda>b. b\<lparr>tp_tmr := tcp_ticks s\<rparr>) s) = s1"
    by (simp add: s1_def)
  have same: "in_flags s1 = in_flags s" "in_ackno s1 = in_ackno s" "tcp_seg s1 = tcp_seg s" "in_seqno s1 = in_seqno s"
    "tcp_pcb s1 pcb = ?b\<lparr>tp_tmr := tcp_ticks s, tp_keep_cnt := 0\<rparr>" "in_tcphdr s1 = in_tcphdr s"
    "load32 x s1 = load32 x s" "load16 x s1 = load16 x s" for x
    by (simp_all add: s1_def load32_def load16_def)
  define c where "c = ?b\<lparr>tp_tmr := tcp_ticks s, tp_keep_cnt := 0, tp_snd_buf := tp_snd_buf ?b + 1, tp_rcv_nxt := in_seqno s + 1,
      tp_lastack := in_ackno s, tp_snd_wnd := ucast (load16 (tcph_wnd (in_tcphdr s)) s), tp_snd_wl1 := in_seqno s - 1,
      tp_state := ESTABLISHED, tp_cwnd := tp_mss ?b, tp_snd_queuelen := tp_snd_queuelen ?b - 1,
      tp_unacked := sg_next (tcp_seg s g)\<rparr>"
  define t where "t = s\<lparr>tcp_pcb := (tcp_pcb s)(pcb := c)\<rparr>"
  have t1: "t = s1\<lparr>tcp_pcb := (tcp_pcb s1)(pcb := c)\<rparr>" by (simp add: t_def s1_def)
  have tf: "tcp_seg t = tcp_seg s" "mem t = mem s" "in_tcphdr t = in_tcphdr s" by (simp_all add: t_def)
  have "segs_held t (g # gs) av xs"
    using held by (simp add: segs_held_def t_def memp_avail_def pbuf_avail_def memp_owned_def pbuf_owned_def)
  from seg_free_result [OF this] obtain u where u: "t_tcp_seg_free g t = Some (of_nat (Suc (length xs)), u)"
    "segs_held u gs (g # av) (sg_p (tcp_seg s g) # xs)" "pools_only t u" unfolding tf(1) by blast
  note uf = pools_onlyD [OF u(3), unfolded tf]
  have "in_tcphdr u = in_tcphdr s" using uf(11) tf(3) by simp
  have p: "t_tcp_parseopt pcb u = Some (case ?mo of None \<Rightarrow> u | Some mss \<Rightarrow> upd_tcp pcb (\<lambda>b. b\<lparr>tp_mss := min 1400 mss\<rparr>) u)"
    using opts uf(1) tf(2) uf(11)
    by (intro tcp_parseopt_spec [where h = h and lim = lim]) (simp_all add: T_TCPH_HDRLEN_frame [of u s] load_bytes_frame [of u s])
  define w where "w = (case ?mo of None \<Rightarrow> u | Some mss \<Rightarrow> upd_tcp pcb (\<lambda>b. b\<lparr>tp_mss := min 1400 mss\<rparr>) u)"
  define s' where "s' = t_tcp_ack_now pcb w"
  have g0: "g \<noteq> NULL" using held memp_objs_pos by (auto simp: segs_held_def)
  have run: "t_tcp_process pcb s = Some (0, s')"
    unfolding t_tcp_process_def Let_def s1 using syn g g0 u(1) [unfolded t1 c_def] p
    by (simp add: same syn_acked_def event_connected s'_def w_def [symmetric])
  have pc: "tcp_pcb s' = (tcp_pcb s)(pcb := established pcb ?mo s)"
    by (cases ?mo) (simp_all add: s'_def t_tcp_ack_now_def w_def uf t_def c_def established_def g(1) Let_def)
  have e: "s' = u\<lparr>tcp_pcb := tcp_pcb s'\<rparr>"
    by (cases ?mo) (simp_all add: s'_def t_tcp_ack_now_def w_def)
  have "segs_held s' gs (g # av) (sg_p (tcp_seg s g) # xs)"
    using u(2) by (subst e) (simp add: segs_held_def memp_avail_def pbuf_avail_def memp_owned_def pbuf_owned_def)
  moreover have "pools_only s (s'\<lparr>tcp_pcb := tcp_pcb s\<rparr>)"
  proof -
    obtain tab nx n f q where "u = t\<lparr>memp_tab := tab, memp_next := nx, now_count := n, pbuf := f, pbuf_pool := q\<rparr>"
      using u(3) unfolding pools_only_def by blast
    then have "s'\<lparr>tcp_pcb := tcp_pcb s\<rparr> = s\<lparr>memp_tab := tab, memp_next := nx, now_count := n, pbuf := f, pbuf_pool := q\<rparr>"
      by (subst e) (rule tcp_st.equality, simp_all add: t_def)
    then show ?thesis unfolding pools_only_def by blast
  qed
  ultimately show ?thesis using run pc by blast
qed


section \<open>Parsing a segment\<close>

lemma input_convert_result:
  assumes f: "tcp_fields h s = (src, dst, seq, ack, hlf, wnd, ck, ur)"
  shows "input_convert h p s = s\<lparr>mem := mem (input_convert h p s), in_seqno := seq, in_ackno := ack,
      in_flags := ucast (hlf AND TCP_FLAGS), in_tcplen := in_tcplen (input_convert h p s)\<rparr>" (is ?frame)
    and "load16 h (input_convert h p s) = src" "load16 (h + 2) (input_convert h p s) = dst"
    and "load16 (h + 14) (input_convert h p s) = wnd"
    and "load16 (h + 12) (input_convert h p s) = load16 (h + 12) s"
    and "x < h \<or> h + 20 \<le> x \<Longrightarrow> mem (input_convert h p s) x = mem s x"
proof -
  define b where "b = store16 (h + 14) wnd (store32 (h + 8) ack (store32 (h + 4) seq (store16 (h + 2) dst (store16 h src s))))"
  have v: "ntohs (load16 h s) = src" "ntohs (load16 (h + 2) s) = dst" "ntohl (load32 (h + 4) s) = seq"
    "ntohl (load32 (h + 8) s) = ack" "ntohs (load16 (h + 12) s) = hlf" "ntohs (load16 (h + 14) s) = wnd"
    using f by (simp_all add: tcp_fields_def)
  have ld: "load32 x (r\<lparr>in_seqno := u\<rparr>) = load32 x r" "load16 x (r\<lparr>in_seqno := u\<rparr>) = load16 x r"
    "load16 x (r\<lparr>in_ackno := u\<rparr>) = load16 x r" "store32 x w (r\<lparr>in_seqno := u\<rparr>) = (store32 x w r)\<lparr>in_seqno := u\<rparr>"
    "store16 x y (r\<lparr>in_seqno := u, in_ackno := w\<rparr>) = (store16 x y r)\<lparr>in_seqno := u, in_ackno := w\<rparr>"
    for x u w y and r :: "'a tcp_st_scheme"
    by (simp_all add: load32_def load16_def store32_def store16_def)
  have s3: "load16 (h + 2) (store16 h src s) = load16 (h + 2) s"
    "load32 (h + 4) (store16 (h + 2) dst (store16 h src s)) = load32 (h + 4) s"
    "load32 (h + 4) (store32 (h + 4) seq u) = seq" 
    "load32 (h + 8) (store32 (h + 4) seq (store16 (h + 2) dst (store16 h src s))) = load32 (h + 8) s"
    "load32 (h + 8) (store32 (h + 8) ack u) = ack"
    "load16 (h + 14) (store32 (h + 8) ack (store32 (h + 4) seq (store16 (h + 2) dst (store16 h src s)))) = load16 (h + 14) s"
     for u :: "'a tcp_st_scheme"
    by (simp_all add: mem_simps del: add_2_eq_Suc add_2_eq_Suc')
  have flg: "ucast (T_TCPH_FLAGS h (b\<lparr>in_seqno := seq, in_ackno := ack\<rparr>) AND TCP_FLAGS) = ucast (hlf AND TCP_FLAGS)"
  proof -
    have "load16 (h + 12) (b\<lparr>in_seqno := seq, in_ackno := ack\<rparr>) = load16 (h + 12) b" by (simp add: load16_def)
    also have "\<dots> = load16 (h + 12) s" by (simp add: b_def mem_simps del: add_2_eq_Suc add_2_eq_Suc')
    finally show ?thesis unfolding T_TCPH_FLAGS_def using v(5) by (simp add: and.assoc)
  qed
  let ?c = "b\<lparr>in_seqno := seq, in_ackno := ack, in_flags := ucast (hlf AND TCP_FLAGS)\<rparr>"
  have conv: "input_convert h p s = ?c\<lparr>in_tcplen := in_tcplen (input_convert h p s)\<rparr>"
    unfolding input_convert_def Let_def s3 v ld unfolding s3 v ld b_def [symmetric] flg by simp
  have m: "mem (input_convert h p s) = mem b" by (subst conv) simp
  have b: "b = s\<lparr>mem := mem b\<rparr>" by (simp add: b_def store16_def store32_def)
  show ?frame unfolding m by (subst conv) (subst b, simp)
  have l: "load16 x (input_convert h p s) = load16 x b" for x by (simp add: load16_def m)
  show "load16 h (input_convert h p s) = src" "load16 (h + 2) (input_convert h p s) = dst"
    "load16 (h + 14) (input_convert h p s) = wnd" "load16 (h + 12) (input_convert h p s) = load16 (h + 12) s"
    by (simp_all add: l b_def mem_simps del: add_2_eq_Suc add_2_eq_Suc')
  show "x < h \<or> h + 20 \<le> x \<Longrightarrow> mem (input_convert h p s) x = mem s x"
    unfolding m by (auto simp: b_def mem_simps)
qed


lemma header_up:
  assumes "p \<noteq> NULL" and "pb_flags (pbuf s p) = T_PBUF_FLAG_POOL" and "header_fits s p (int k)"
  shows "t_pbuf_header p (int k) s = Some (0, upd_pbuf p (\<lambda>b. b\<lparr>pb_payload := pb_payload b + k,
    pb_tot_len := pb_tot_len b - of_nat k, pb_len := pb_len b - of_nat k\<rparr>) s)"
  using pbuf_header_moves [OF assms] by (simp add: nat_int_add)

lemma tcp_input_parsed:
  assumes wf: "pbuf_wf s p" and i: "i = pb_payload (pbuf s p)" and hl: "T_IPH_HL i s = 5" and h: "h = i + 20"
    and n: "n = unat (T_TCPH_HDRLEN h s)" and fits: "header_fits s p (20 + 4 * int n)" "20 + 4 * n \<le> unat (pb_len (pbuf s p))"
    and n5: "5 \<le> n" and f: "tcp_fields h s = (src, dst, seq, ack, hlf, wnd, ck, ur)"
    and ch: "chained (tp_link s) (tcp_active_pcbs s) xs"
    and m: "m = first_match (\<lambda>q. tcp_matches src dst (load32 (i + 12) s) (load32 (i + 16) s) (tcp_pcb s q)) xs" "m \<noteq> NULL"
  shows "\<exists>u len. t_tcp_input inp p s = Option.bind (input_found m p u) (\<lambda>s. Some (0, s)) \<and>
    u = s\<lparr>mem := mem u, pbuf := (pbuf s)(p := pbuf u p), in_iphdr := i, in_tcphdr := h, in_seqno := seq, in_ackno := ack,
      in_flags := ucast (hlf AND TCP_FLAGS), in_tcplen := len, tcp_active_pcbs := m, tcp_pcb := tcp_pcb u\<rparr> \<and>
    chained (tp_link u) m (m # remove1 m xs) \<and> (\<forall>q. (tcp_pcb u q)\<lparr>tp_next := NULL\<rparr> = (tcp_pcb s q)\<lparr>tp_next := NULL\<rparr>) \<and>
    (\<forall>x. x < h \<or> h + 20 \<le> x \<longrightarrow> mem u x = mem s x) \<and> load16 (h + 14) u = wnd \<and> T_TCPH_HDRLEN h u = T_TCPH_HDRLEN h s"
proof -
  define s1 where "s1 = s\<lparr>in_iphdr := i, in_tcphdr := h\<rparr>"
  have ld: "load16 x s1 = load16 x s" "load32 x s1 = load32 x s" for x by (simp_all add: s1_def load16_def load32_def)
  have p: "p \<noteq> NULL" "pb_flags (pbuf s p) = T_PBUF_FLAG_POOL" "pb_tot_len (pbuf s p) = pb_len (pbuf s p)" "p \<in> set pbuf_slots"
    "p + sizeof_t_pbuf \<le> i" "i + unat (pb_len (pbuf s p)) \<le> p + pbuf_slot"
    using wf pbuf_wf_pos [OF wf] i by (simp_all add: pbuf_wf_def)
  let ?b = "pbuf s p"
  define b1 where "b1 = ?b\<lparr>pb_payload := h, pb_tot_len := pb_tot_len ?b - 20, pb_len := pb_len ?b - 20\<rparr>"
  define s2 where "s2 = s1\<lparr>pbuf := (pbuf s)(p := b1)\<rparr>"
  have "header_fits s1 p (int 20)" using fits(1) i p(5) by (simp add: header_fits_def s1_def)
  from header_up [OF p(1) _ this] p(2) have h1: "t_pbuf_header p (int (unat (5 :: u16)) * 4) s1 = Some (0, s2)"
    by (simp add: s1_def s2_def b1_def i h)
  define b2 where "b2 = b1\<lparr>pb_payload := h + n * 4, pb_tot_len := pb_tot_len b1 - of_nat (n * 4), pb_len := pb_len b1 - of_nat (n * 4)\<rparr>"
  define s3 where "s3 = s1\<lparr>pbuf := (pbuf s)(p := b2)\<rparr>"
  have "header_fits s2 p (int (n * 4))" using fits(1) i h p(5) by (simp add: header_fits_def s2_def b1_def)
  from header_up [OF p(1) _ this] p(2) have h2: "t_pbuf_header p (int n * 4) s2 = Some (0, s3)"
    by (simp add: s2_def s3_def b1_def b2_def)
  have m3: "mem s3 = mem s" "mem s2 = mem s" "mem s1 = mem s" by (simp_all add: s3_def s2_def s1_def)
  have "tcp_fields h s3 = (src, dst, seq, ack, hlf, wnd, ck, ur)"
    using f by (simp add: tcp_fields_def load16_def load32_def m3)
  note c = input_convert_result [OF this, where p = p]
  define t where "t = input_convert h p s3"
  have t: "t = s3\<lparr>mem := mem t, in_seqno := seq, in_ackno := ack, in_flags := ucast (hlf AND TCP_FLAGS), in_tcplen := in_tcplen t\<rparr>"
    unfolding t_def by (rule c(1))
  have tf: "tcp_pcb t = tcp_pcb s" "tcp_active_pcbs t = tcp_active_pcbs s" by (subst t, simp add: s3_def s1_def)+
  have ips: "load32 (i + 12) t = load32 (i + 12) s" "load32 (i + 16) t = load32 (i + 16) s"
    using c(6) h by (simp_all add: load32_def t_def m3)
  let ?P = "tcp_matches src dst (load32 (i + 12) s) (load32 (i + 16) s)"
  have "chained (tp_link t) (tcp_active_pcbs t) xs" using ch by (simp add: tf)
  from tcp_demux_spec [OF this, of m ?P] m obtain u where u: "active_loop ?P NULL (tcp_active_pcbs s) t = Some (m, u)"
    "chained (tp_link u) (tcp_active_pcbs u) (m # remove1 m xs)"
    "\<forall>q. (tcp_pcb u q)\<lparr>tp_next := NULL\<rparr> = (tcp_pcb s q)\<lparr>tp_next := NULL\<rparr>"
    "u = t\<lparr>tcp_active_pcbs := tcp_active_pcbs u, tcp_pcb := tcp_pcb u\<rparr>" by (auto simp: tf)
  have um: "tcp_active_pcbs u = m" using u(2) by simp
  have run: "t_tcp_input inp p s = Option.bind (input_found m p u) (\<lambda>s. Some (0, s))"
  proof -
    have acc: "accessible i 2" "accessible h 20" "accessible (i + 12) 8"
      using p(4-6) fits(2) h n5 by (auto intro!: accessible_in_slot [of p])
    have hd: "T_IPH_HL i (s\<lparr>in_iphdr := i\<rparr>) = 5" "T_IPH_HL i s1 = 5" "T_TCPH_HDRLEN h s2 = T_TCPH_HDRLEN h s"
      using hl by (simp_all add: T_IPH_HL_def T_TCPH_HDRLEN_def load16_def m3)
    have big: "\<not> unat (pb_tot_len (pbuf s2 p)) < T_TCP_HLEN"
    proof -
      have "unat (pb_len (pbuf s p) - 20) = unat (pb_len (pbuf s p)) - 20" using fits(2) by (simp add: unat_sub word_le_nat_alt)
      then show ?thesis using fits(2) n5 p(3) by (simp add: s2_def b1_def T_TCP_HLEN_def)
    qed
    have tp: "tcp_active_pcbs t = tcp_active_pcbs s" by (rule tf(2))
    have s1': "s\<lparr>in_iphdr := i, in_tcphdr := pb_payload (pbuf (s\<lparr>in_iphdr := i\<rparr>) p) +
        unat (T_IPH_HL (in_iphdr (s\<lparr>in_iphdr := i\<rparr>)) (s\<lparr>in_iphdr := i\<rparr>)) * 4\<rparr> = s1"
      using hd(1) i by (simp add: s1_def h)
    have h1': "t_pbuf_header p 20 s1 = Some (0, s2)" using h1 by simp
    have h2': "t_pbuf_header p (uint (T_TCPH_HDRLEN h s) * 4) s2 = Some (0, s3)" using h2 n by simp
    have ip: "pb_payload (pbuf (s\<lparr>in_iphdr := x\<rparr>) p) = i" "in_tcphdr s1 = h" "in_iphdr s1 = i" "in_tcphdr s2 = h" for x
      using i by (simp_all add: s1_def s2_def)
    have ct: "input_convert h p s3 = t" by (simp add: t_def)
    have lt: "load16 h t = src" "load16 (h + 2) t = dst" using c(2,3) by (simp_all add: t_def)
    show ?thesis
      unfolding t_tcp_input_def Let_def i [symmetric] s1'
      using p(1) acc m(2) big u(1) lt
      by (simp add: hd h1' h2' ip ct ips tp)
  qed
  have u': "u = s\<lparr>mem := mem u, pbuf := (pbuf s)(p := pbuf u p), in_iphdr := i, in_tcphdr := h, in_seqno := seq,
      in_ackno := ack, in_flags := ucast (hlf AND TCP_FLAGS), in_tcplen := in_tcplen t, tcp_active_pcbs := m, tcp_pcb := tcp_pcb u\<rparr>"
  proof -
    have "mem u = mem t" "pbuf u = pbuf t" by (subst u(4), simp)+
    moreover have "pbuf t p = b2" by (subst t) (simp add: s3_def)
    ultimately have k: "mem u = mem t" "pbuf u p = b2" by simp_all
    show ?thesis by (subst u(4), subst t) (rule tcp_st.equality, simp_all add: um s3_def s1_def k)
  qed
  have mu: "mem u = mem t" by (subst u(4)) simp
  have "load16 (h + 14) u = wnd" "T_TCPH_HDRLEN h u = T_TCPH_HDRLEN h s"
    using c(4,5) by (simp_all add: load16_def mu t_def T_TCPH_HDRLEN_def m3)
  moreover have "\<forall>x. x < h \<or> h + 20 \<le> x \<longrightarrow> mem u x = mem s x" using c(6) by (simp add: mu t_def m3)
  ultimately show ?thesis using run u' u(2,3) unfolding um by blast
qed


section \<open>The handshake\<close>

lemma tcp_pcb_but_next: "b\<lparr>tp_next := NULL\<rparr> = c\<lparr>tp_next := NULL\<rparr> \<Longrightarrow> b = c\<lparr>tp_next := tp_next b\<rparr>"
  by (cases b, cases c) simp

text \<open>A packet with a TCP header of \<open>n\<close> words at \<open>h\<close>, behind an IP header without options.\<close>

definition tcp_packet :: "ptr \<Rightarrow> ptr \<Rightarrow> nat \<Rightarrow> 'a tcp_st_scheme \<Rightarrow> bool" where
  "tcp_packet p h n s \<longleftrightarrow> pbuf_wf s p \<and> h = pb_payload (pbuf s p) + 20 \<and> T_IPH_HL (pb_payload (pbuf s p)) s = 5 \<and>
     n = unat (T_TCPH_HDRLEN h s) \<and> 5 \<le> n \<and> header_fits s p (20 + 4 * int n) \<and> 20 + 4 * n \<le> unat (pb_len (pbuf s p))"

text \<open>A block whose SYN is the one segment \<open>g\<close> in flight.\<close>

definition awaits_synack :: "ptr \<Rightarrow> ptr \<Rightarrow> ptr list \<Rightarrow> ptr list \<Rightarrow> 'a tcp_st_scheme \<Rightarrow> bool" where
  "awaits_synack pcb g av xs s \<longleftrightarrow> tp_state (tcp_pcb s pcb) = SYN_SENT \<and> tp_unsent (tcp_pcb s pcb) = NULL \<and>
     tp_unacked (tcp_pcb s pcb) = g \<and> sg_next (tcp_seg s g) = NULL \<and> segs_held s [g] av xs \<and>
     sg_p (tcp_seg s g) + sizeof_t_pbuf \<le> sg_tcphdr (tcp_seg s g) \<and>
     sg_tcphdr (tcp_seg s g) + 20 \<le> sg_p (tcp_seg s g) + pbuf_slot"

lemma bit_or_ack: "(x OR TF_ACK_NOW) AND TF_ACK_NOW \<noteq> 0"
proof -
  have "bit ((x OR TF_ACK_NOW) AND TF_ACK_NOW) 1" by (simp add: TF_ACK_NOW_def bit_simps)
  then show ?thesis by (metis bit_0_eq bot_apply bot_bool_def)
qed

text \<open>C2: The second step of the handshake.  A SYN that acknowledges the SYN of an active block in
  \<^verbatim>\<open>SYN_SENT\<close>, with options that stay within its header, makes the block established: the stack answers at
  once with one frame, an acknowledgement of the peer's SYN with correct numbers and checksum; the own SYN
  is no longer in flight, its segment and its buffer are back in their pools, and the list of active
  blocks stays well formed.\<close>

theorem tcp_handshake:
  assumes pkt: "tcp_packet p h n s" and f: "tcp_fields h s = (src, dst, seq, ack, hlf, wnd, ck, ur)"
    and opts: "opts_ok (load_bytes (h + 20) ((n - 5) * 4) s)"
    and flags: "ucast (hlf AND TCP_FLAGS) AND TCP_ACK \<noteq> 0" "ucast (hlf AND TCP_FLAGS) AND TCP_SYN \<noteq> 0"
    and active: "chained (tp_link s) (tcp_active_pcbs s) ps"
      "pcb = first_match (\<lambda>q. tcp_matches src dst (load32 (h - 8) s) (load32 (h - 4) s) (tcp_pcb s q)) ps" "pcb \<noteq> NULL"
    and waits: "awaits_synack pcb g av xs s" and acks: "ack = ntohl (load32 (sg_tcphdr (tcp_seg s g) + 4) s) + 1"
    and apart: "p \<noteq> sg_p (tcp_seg s g)" "p \<notin> set xs"
    and b: "b = tcp_pcb s pcb" and via: "t_ip_route (tp_local_ip b) s = Some k" "ip_via k (Val (tp_remote_ip b)) s m"
    and up: "netif_up s m"
  shows "\<exists>s' frame c. t_tcp_input inp p s = Some (0, s') \<and> tp_state (tcp_pcb s' pcb) = ESTABLISHED \<and>
    tp_rcv_nxt (tcp_pcb s' pcb) = seq + 1 \<and> tp_lastack (tcp_pcb s' pcb) = ack \<and> tp_unacked (tcp_pcb s' pcb) = NULL \<and>
    chained (tp_link s') (tcp_active_pcbs s') (pcb # remove1 pcb ps) \<and>
    memp_avail T_MEMP_TCP_SEG s' (g # av) \<and> pbuf_avail s' (sg_p (tcp_seg s g) # xs) \<and> sent s' = sent s @ [frame] \<and>
    ip_parse frame = Some (tp_local_ip b, tp_remote_ip b, tp_ttl b, tp_tos b, T_IP_PROTO_TCP,
      tcp_header (tp_local_port b) (tp_remote_port b) (tp_snd_nxt b) (seq + 1) 0x5010 (tp_rcv_wnd b) c) \<and>
    tcp_sum_ok (tp_local_ip b) (tp_remote_ip b)
      (tcp_header (tp_local_port b) (tp_remote_port b) (tp_snd_nxt b) (seq + 1) 0x5010 (tp_rcv_wnd b) c)"
proof -
  define y where "y = sg_p (tcp_seg s g)"
  define gh where "gh = sg_tcphdr (tcp_seg s g)"
  define i where "i = pb_payload (pbuf s p)"
  have P: "pbuf_wf s p" "h = i + 20" "T_IPH_HL i s = 5" "n = unat (T_TCPH_HDRLEN h s)" "5 \<le> n"
    "header_fits s p (20 + 4 * int n)" "20 + 4 * n \<le> unat (pb_len (pbuf s p))"
    using pkt unfolding tcp_packet_def i_def by blast+
  have W: "tp_state b = SYN_SENT" "tp_unsent b = NULL" "tp_unacked b = g" "sg_next (tcp_seg s g) = NULL"
    "segs_held s [g] av xs" "y + sizeof_t_pbuf \<le> gh" "gh + 20 \<le> y + pbuf_slot"
    using waits by (simp_all add: awaits_synack_def b y_def gh_def)
  have slots: "p \<in> set pbuf_slots" "y \<in> set pbuf_slots" "p + sizeof_t_pbuf \<le> i" "i + unat (pb_len (pbuf s p)) \<le> p + pbuf_slot"
    using P(1) W(5) by (simp_all add: pbuf_wf_def segs_held_def y_def i_def)
  have hm: "h - 8 = i + 12" "h - 4 = i + 16" using P(2) by simp_all
  from tcp_input_parsed [OF P(1) i_def P(3,2,4,6,7,5) f active(1) active(2) [unfolded hm] active(3), of inp] obtain u len where u:
    "t_tcp_input inp p s = Option.bind (input_found pcb p u) (\<lambda>s. Some (0, s))"
    "u = s\<lparr>mem := mem u, pbuf := (pbuf s)(p := pbuf u p), in_iphdr := i, in_tcphdr := h, in_seqno := seq, in_ackno := ack,
      in_flags := ucast (hlf AND TCP_FLAGS), in_tcplen := len, tcp_active_pcbs := pcb, tcp_pcb := tcp_pcb u\<rparr>"
    "chained (tp_link u) pcb (pcb # remove1 pcb ps)"
    "\<forall>q. (tcp_pcb u q)\<lparr>tp_next := NULL\<rparr> = (tcp_pcb s q)\<lparr>tp_next := NULL\<rparr>"
    "\<forall>x. x < h \<or> h + 20 \<le> x \<longrightarrow> mem u x = mem s x" "T_TCPH_HDRLEN h u = T_TCPH_HDRLEN h s" by blast
  define v where "v = u\<lparr>inseg := \<lparr>sg_next = NULL, sg_p = p, sg_dataptr = pb_payload (pbuf u p), sg_len = pb_tot_len (pbuf u p),
    sg_tcphdr = in_tcphdr u\<rparr>, recv_data := NULL, recv_flags := 0, tcp_input_pcb := pcb\<rparr>"
  have uf: "tcp_seg u = tcp_seg s" "memp_tab u = memp_tab s" "memp_next u = memp_next s" "pbuf_pool u = pbuf_pool s"
    "pbuf u = (pbuf s)(p := pbuf u p)" "in_seqno u = seq" "in_ackno u = ack" "in_flags u = ucast (hlf AND TCP_FLAGS)"
    "in_tcphdr u = h" "netif u = netif s" "netif_list u = netif_list s" "netif_default u = netif_default s" "sent u = sent s"
    by (subst u(2), simp)+
  have vf: "tcp_seg v = tcp_seg s" "memp_tab v = memp_tab s" "memp_next v = memp_next s" "pbuf_pool v = pbuf_pool s"
    "pbuf v = (pbuf s)(p := pbuf u p)" "in_seqno v = seq" "in_ackno v = ack" "in_flags v = ucast (hlf AND TCP_FLAGS)"
    "in_tcphdr v = h" "tcp_pcb v = tcp_pcb u" "mem v = mem u" "netif v = netif s" "netif_list v = netif_list s"
    "netif_default v = netif_default s" "sent v = sent s"
    using uf by (simp_all add: v_def)
  have bu: "tcp_pcb u pcb = b\<lparr>tp_next := tp_next (tcp_pcb u pcb)\<rparr>"
    using u(4) b tcp_pcb_but_next by blast
  have gh: "load32 (gh + 4) v = load32 (gh + 4) s"
  proof -
    have "y + pbuf_slot \<le> p \<or> p + pbuf_slot \<le> y" using slots_apart [OF slots(1,2)] apart(1) y_def by blast
    then have "\<forall>x. gh \<le> x \<and> x < gh + 20 \<longrightarrow> x < h \<or> h + 20 \<le> x"
      using slots(3,4) P(2,5,7) W(6,7) by auto
    then have "\<forall>x. gh \<le> x \<and> x < gh + 20 \<longrightarrow> mem v x = mem s x" using u(5) vf(11) by metis
    then show ?thesis by (simp add: load32_def)
  qed
  have syn: "syn_acked pcb v"
    using W(1,3) flags acks gh by (subst syn_acked_def) (simp add: vf, subst (1 2) bu, simp add: gh_def)
  have held: "segs_held v (g # []) av xs"
    using W(5) apart by (auto simp: segs_held_def vf memp_avail_def pbuf_avail_def memp_owned_def pbuf_owned_def)
  let ?lim = "(n - 5) * 4" and ?mo = "mss_option (load_bytes (h + 20) ((n - 5) * 4) s)"
  have hd: "T_TCPH_HDRLEN h v = T_TCPH_HDRLEN h s" using u(6) T_TCPH_HDRLEN_frame [of v u h] vf(11) by simp
  have lb: "load_bytes (h + 20) ?lim v = load_bytes (h + 20) ?lim s"
    using u(5) by (intro load_bytes_cong) (simp add: vf(11))
  have acc: "accessible (sg_tcphdr (tcp_seg v g) + 4) 4" "accessible (h + 20) ?lim"
    using slots(2) W(6,7) slots(1,3,4) P(2,5,7) accessible_in_slot [of y "gh + 4" 4] accessible_in_slot [of p "h + 20" ?lim]
    by (simp_all add: vf(1) gh_def)
  have vb: "tcp_pcb v pcb = b\<lparr>tp_next := tp_next (tcp_pcb u pcb)\<rparr>" using bu vf(10) by simp
  have l: "?lim = (unat (T_TCPH_HDRLEN h v) - 5) * 4" using hd P(4) by simp
  have ga: "tp_unacked (tcp_pcb v pcb) = g" by (simp add: vb W)
  obtain w where w: "t_tcp_process pcb v = Some (0, w)" "segs_held w [] (g # av) (y # xs)"
    "tcp_pcb w = (tcp_pcb v)(pcb := established pcb ?mo v)" "pools_only v (w\<lparr>tcp_pcb := tcp_pcb v\<rparr>)"
    using process_established [OF syn ga acc(1) held vf(9) [symmetric] l, unfolded lb] opts acc(2) vf(1) y_def by auto
  have bf: "tp_unsent (tcp_pcb u pcb) = tp_unsent b" "tp_unacked (tcp_pcb u pcb) = tp_unacked b" "tp_flags (tcp_pcb u pcb) = tp_flags b"
    "tp_local_ip (tcp_pcb u pcb) = tp_local_ip b" "tp_remote_ip (tcp_pcb u pcb) = tp_remote_ip b" "tp_ttl (tcp_pcb u pcb) = tp_ttl b"
    "tp_tos (tcp_pcb u pcb) = tp_tos b" "tp_local_port (tcp_pcb u pcb) = tp_local_port b"
    "tp_remote_port (tcp_pcb u pcb) = tp_remote_port b" "tp_snd_nxt (tcp_pcb u pcb) = tp_snd_nxt b" "tp_rcv_wnd (tcp_pcb u pcb) = tp_rcv_wnd b"
    by (subst bu, simp)+
  define c where "c = established pcb ?mo v"
  have cf: "tp_unsent c = NULL" "tp_unacked c = NULL" "tp_flags c AND TF_ACK_NOW \<noteq> 0" "tp_state c = ESTABLISHED"
    "tp_rcv_nxt c = seq + 1" "tp_lastack c = ack" "tp_local_ip c = tp_local_ip b" "tp_remote_ip c = tp_remote_ip b"
    "tp_ttl c = tp_ttl b" "tp_tos c = tp_tos b" "tp_local_port c = tp_local_port b" "tp_remote_port c = tp_remote_port b"
    "tp_snd_nxt c = tp_snd_nxt b" "tp_rcv_wnd c = tp_rcv_wnd b" "tp_next c = tp_next (tcp_pcb u pcb)"
    using W(2-4) by (simp_all add: c_def established_def Let_def bf vf bit_or_ack TF_ACK_NOW_def)
  note wf = pools_onlyD [OF w(4), simplified]
  have av: "pbuf_avail w (y # xs)" "memp_avail T_MEMP_TCP_SEG w (g # av)" using w(2) by (simp_all add: segs_held_def)
  have wn: "netif w = netif s" "netif_list w = netif_list s" "netif_default w = netif_default s" "sent w = sent s"
    "tcp_active_pcbs w = pcb" using wf uf by (simp_all add: vf v_def) (subst u(2), simp)
  have wc: "tcp_pcb w = (tcp_pcb u)(pcb := c)" using w(3) by (simp add: c_def vf(10))
  have r: "t_ip_route d w = t_ip_route d s" for d by (rule ip_route_frame [OF wn(1-3)])
  have o: "c = tcp_pcb w pcb" "chained (sg_link w) (tp_unacked c) []" "t_ip_route (tp_local_ip c) w = Some k"
    "ip_via k (Val (tp_remote_ip c)) w m" "netif_up w m"
    using via up cf(2) by (auto simp: wc r ip_via_def netif_up_def wn cf(7,8))
  from tcp_output_acks [OF o(1) active(3) cf(1) o(2) cf(3) av(1) o(3-5), unfolded cf(5-14) wn] obtain z frame ch where z:
    "t_tcp_output pcb w = Some (0, z)" "pbuf_avail z (y # xs)"
    "z = w\<lparr>mem := mem z, pbuf := pbuf z, pbuf_pool := pbuf_pool z, sent := sent s @ [frame],
      tcp_pcb := (tcp_pcb w)(pcb := c\<lparr>tp_flags := tp_flags c AND NOT (TF_ACK_DELAY OR TF_ACK_NOW)\<rparr>)\<rparr>"
    "ip_parse frame = Some (tp_local_ip b, tp_remote_ip b, tp_ttl b, tp_tos b, T_IP_PROTO_TCP,
      tcp_header (tp_local_port b) (tp_remote_port b) (tp_snd_nxt b) (seq + 1) 0x5010 (tp_rcv_wnd b) ch)"
    "tcp_sum_ok (tp_local_ip b) (tp_remote_ip b)
      (tcp_header (tp_local_port b) (tp_remote_port b) (tp_snd_nxt b) (seq + 1) 0x5010 (tp_rcv_wnd b) ch)" by blast
  have zf: "sent z = sent s @ [frame]" "memp_tab z = memp_tab w" "memp_next z = memp_next w" "tcp_active_pcbs z = pcb"
    "tcp_pcb z = (tcp_pcb u)(pcb := c\<lparr>tp_flags := tp_flags c AND NOT (TF_ACK_DELAY OR TF_ACK_NOW)\<rparr>)"
    by (subst z(3), simp add: wn wc)+
  have "chained (tp_link (z\<lparr>tcp_input_pcb := NULL\<rparr>)) pcb (pcb # remove1 pcb ps)"
  proof -
    have "tp_link (z\<lparr>tcp_input_pcb := NULL\<rparr>) = tp_link u" using cf(15) by (auto simp: zf)
    then show ?thesis using u(3) by simp
  qed
  moreover have "memp_avail T_MEMP_TCP_SEG (z\<lparr>tcp_input_pcb := NULL\<rparr>) (g # av)" "pbuf_avail (z\<lparr>tcp_input_pcb := NULL\<rparr>) (y # xs)"
    using av(2) z(2) by (simp_all add: memp_avail_def pbuf_avail_def zf)
  moreover have "t_tcp_input inp p s = Some (0, z\<lparr>tcp_input_pcb := NULL\<rparr>)"
    using w(1) z(1) unfolding u(1) input_found_def Let_def v_def by simp
  ultimately show ?thesis using z(4,5) cf unfolding y_def [symmetric]
    by (intro exI [of _ "z\<lparr>tcp_input_pcb := NULL\<rparr>"] exI [of _ frame] exI [of _ ch]) (simp add: zf)
qed

text \<open>A connection attempt and the answer to it, in the first two buffers of a machine with one interface.\<close>

abbreviation syn_buf :: ptr where "syn_buf \<equiv> pbuf_pool_memory + pbuf_slot"

definition synack_bytes :: "'a mem_st_scheme \<Rightarrow> 'a mem_st_scheme" where
  "synack_bytes s = (let i = pbuf_pool_memory + 74; h = i + 20 in
     store16 h (htons 8080) (store16 (h + 2) (htons 4097) (store32 (h + 4) (htonl 1000) (store32 (h + 8) (htonl 6510)
       (store16 (h + 12) (htons 0x5012) (store16 (h + 14) (htons 500) (store16 (h + 16) 0 (store16 (h + 18) 0
       (store32 (i + 12) 0x6401A8C0 (store32 (i + 16) 0x7001A8C0
       (store32 (syn_buf + 90) (htonl 6509) (store8 i 0x45 s))))))))))))"

lemma synack_bytes_frame: "synack_bytes s = s\<lparr>mem := mem (synack_bytes s)\<rparr>"
  by (simp add: synack_bytes_def Let_def store16_def store32_def store8_def)

definition synack_arrived :: "ptr \<Rightarrow> tcp_st \<Rightarrow> tcp_st" where
  "synack_arrived g s = synack_bytes
     (s\<lparr>tcp_seg := (tcp_seg s)(g := \<lparr>sg_next = NULL, sg_p = syn_buf, sg_dataptr = syn_buf + 86, sg_len = 0, sg_tcphdr = syn_buf + 86\<rparr>),
        tcp_pcb := (\<lambda>_. tcp_zeroed)(0x500 := tcp_zeroed\<lparr>tp_state := SYN_SENT, tp_unacked := g, tp_local_ip := 0x7001A8C0,
          tp_remote_ip := 0x6401A8C0, tp_local_port := 4097, tp_remote_port := 8080, tp_snd_nxt := 6510, tp_ttl := 255\<rparr>),
        tcp_active_pcbs := 0x500\<rparr>)"

lemma synack_bytes_facts:
  fixes s :: "'a mem_st_scheme"
  defines "h \<equiv> pbuf_pool_memory + 94"
  shows "tcp_fields h (synack_bytes s) = (8080, 4097, 1000, 6510, 0x5012, 500, 0, 0)"
    "load32 (h - 8) (synack_bytes s) = 0x6401A8C0" "load32 (h - 4) (synack_bytes s) = 0x7001A8C0"
    "ntohl (load32 (syn_buf + 90) (synack_bytes s)) = 6509"
    "T_IPH_HL (pbuf_pool_memory + 74) (synack_bytes s) = 5" "T_TCPH_HDRLEN h (synack_bytes s) = 5"
proof -
  note d = synack_bytes_def Let_def h_def pbuf_pool_memory_def pbuf_slot_eq
  show f: "tcp_fields h (synack_bytes s) = (8080, 4097, 1000, 6510, 0x5012, 500, 0, 0)"
    by (simp add: tcp_fields_def d mem_simps)
  show "load32 (h - 8) (synack_bytes s) = 0x6401A8C0" "load32 (h - 4) (synack_bytes s) = 0x7001A8C0"
    "ntohl (load32 (syn_buf + 90) (synack_bytes s)) = 6509"
    by (simp_all add: d mem_simps)
  have "mem (synack_bytes s) (pbuf_pool_memory + 74) = 0x45" by (simp add: d mem_simps)
  then show "T_IPH_HL (pbuf_pool_memory + 74) (synack_bytes s) = 5"
    by (simp add: T_IPH_HL_def load16_def htons_u16_of high_byte)
  show "T_TCPH_HDRLEN h (synack_bytes s) = 5"
    using f by (simp add: T_TCPH_HDRLEN_def tcp_fields_def)
qed

theorem tcp_handshake_witness:
  "\<exists>s s' frame. t_tcp_input 0x300 pbuf_pool_memory (s :: tcp_st) = Some (0, s') \<and> tp_state (tcp_pcb s 0x500) = SYN_SENT \<and>
     tp_state (tcp_pcb s' 0x500) = ESTABLISHED \<and> sent s' = [frame] \<and>
     (\<exists>c. ip_parse frame = Some (0x7001A8C0, 0x6401A8C0, 255, 0, T_IP_PROTO_TCP, tcp_header 4097 8080 6510 1001 0x5010 0 c))"
proof -
  let ?t = "two_buffers (online (t_memp_init tcp_boot))" and ?p = pbuf_pool_memory and ?q = syn_buf and ?h = "pbuf_pool_memory + 94"
  note tb = two_buffers_facts [of "online (t_memp_init tcp_boot)"] and n = two_buffers_netif [of "online (t_memp_init tcp_boot)"]
  obtain g0 gs0 where "memp_avail T_MEMP_TCP_SEG tcp_start (g0 # gs0)" using tcp_start_facts(1) by blast
  then have av: "memp_avail T_MEMP_TCP_SEG ?t (g0 # gs0)" by (subst tb(10)) (simp add: memp_avail_def)
  from memp_malloc_next [OF av] obtain u where u: "memp_avail T_MEMP_TCP_SEG u gs0" "memp_owned u g0"
    "u = ?t\<lparr>memp_tab := memp_tab u, memp_next := memp_next u, now_count := now_count ?t + 1\<rparr>" by blast
  define s where "s = synack_arrived g0 u"
  define v where "v = u\<lparr>tcp_seg := (tcp_seg u)(g0 := \<lparr>sg_next = NULL, sg_p = ?q, sg_dataptr = ?q + 86, sg_len = 0, sg_tcphdr = ?q + 86\<rparr>),
        tcp_pcb := (\<lambda>_. tcp_zeroed)(0x500 := tcp_zeroed\<lparr>tp_state := SYN_SENT, tp_unacked := g0, tp_local_ip := 0x7001A8C0,
          tp_remote_ip := 0x6401A8C0, tp_local_port := 4097, tp_remote_port := 8080, tp_snd_nxt := 6510, tp_ttl := 255\<rparr>),
        tcp_active_pcbs := 0x500\<rparr>"
  have sv: "s = synack_bytes v" by (simp add: s_def v_def synack_arrived_def)
  note sf = synack_bytes_facts [of v, folded sv]
  have s: "s = v\<lparr>mem := mem s\<rparr>" unfolding sv by (rule synack_bytes_frame)
  have vu: "pbuf v = pbuf ?t" "pbuf_pool v = pbuf_pool ?t" "netif v = netif ?t" "netif_list v = netif_list ?t"
    "netif_default v = netif_default ?t" "sent v = sent ?t"
    by (simp add: v_def, subst u(3), simp)+
  have same1: "pbuf s = pbuf ?t" "pbuf_pool s = pbuf_pool ?t" "netif s = netif tcp_start" "netif_list s = netif_list tcp_start"
    "netif_default s = netif_default tcp_start" "sent s = []"
    by (subst s, simp add: vu n online_facts(3))+
  have vu2: "memp_tab v = memp_tab u" "memp_next v = memp_next u" by (simp_all add: v_def)
  have same2: "memp_tab s = memp_tab u" "memp_next s = memp_next u" "tcp_pcb s = tcp_pcb v" "tcp_seg s = tcp_seg v"
    by (subst s, simp add: vu2)+
  have "tcp_active_pcbs v = 0x500" by (simp add: v_def)
  then have act: "tcp_active_pcbs s = 0x500" by (subst s) simp
  let ?b = "tcp_zeroed\<lparr>tp_state := SYN_SENT, tp_unacked := g0, tp_local_ip := 0x7001A8C0,
          tp_remote_ip := 0x6401A8C0, tp_local_port := 4097, tp_remote_port := 8080, tp_snd_nxt := 6510, tp_ttl := 255\<rparr>"
  have pc: "tcp_pcb s 0x500 = ?b" "tcp_pcb s = (\<lambda>_. tcp_zeroed)(0x500 := ?b)" by (simp_all add: same2 v_def)
  have sg: "tcp_seg s g0 = \<lparr>sg_next = NULL, sg_p = ?q, sg_dataptr = ?q + 86, sg_len = 0, sg_tcphdr = ?q + 86\<rparr>"
    by (simp add: same2 v_def)
  have wf: "pbuf_wf s ?p" using tb(1) by (simp add: pbuf_wf_def same1)
  have pl: "pb_payload (pbuf s ?p) = ?p + 74" "pb_len (pbuf s ?p) = 100" using tb(3,4) by (simp_all add: same1)
  have pkt: "tcp_packet ?p ?h 5 s"
    using wf sf(5,6) by (simp add: tcp_packet_def pl header_fits_def sizeof_t_pbuf_def T_PBUF_BUFSIZE_def)
  have gset: "g0 \<in> memp_objs T_MEMP_TCP_SEG" "distinct (g0 # gs0)"
    using memp.avail_objs [OF av] memp.avail_distinct [OF av] by simp_all
  have slots: "?q \<in> set pbuf_slots" "?p \<notin> set (drop 2 pbuf_slots)" "?q \<notin> set (drop 2 pbuf_slots)" "?p \<noteq> ?q"
    using two_buffers_slots by (metis list.set_intros, simp_all)
  have pools: "memp_avail T_MEMP_TCP_SEG s gs0" "memp_owned s g0" "pbuf_avail s (drop 2 pbuf_slots)" "pbuf_owned s ?q"
    using u(1,2) tb(6,9) by (simp_all add: memp_avail_def memp_owned_def pbuf_avail_def pbuf_owned_def same1 same2)
  have held: "segs_held s [g0] gs0 (drop 2 pbuf_slots)"
    using pools gset slots by (simp add: segs_held_def sg)
  have waits: "awaits_synack 0x500 g0 gs0 (drop 2 pbuf_slots) s"
    using held by (simp add: awaits_synack_def pc sg tcp_zeroed_def sizeof_t_pbuf_def pbuf_slot_eq)
  have ch: "chained (tp_link s) (tcp_active_pcbs s) [0x500]" by (simp add: act pc tcp_zeroed_def)
  have m: "0x500 = first_match (\<lambda>q. tcp_matches 8080 4097 (load32 (?h - 8) s) (load32 (?h - 4) s) (tcp_pcb s q)) [0x500]"
    unfolding sf(2,3) by (simp add: pc tcp_matches_def t_ip_addr_cmp_def)
  have r: "t_ip_route d s = Some 0x300" for d
    using online_route ip_route_frame [OF same1(3-5)] by metis
  have via: "ip_via 0x300 (Val 0x6401A8C0) s 0x300" by (simp add: ip_via_def)
  have up: "netif_up s 0x300" using online_facts(1) by (simp add: netif_up_def same1)
  have fl: "ucast ((0x5012 :: u16) AND TCP_FLAGS) AND TCP_ACK \<noteq> (0 :: u8)" "ucast ((0x5012 :: u16) AND TCP_FLAGS) AND TCP_SYN \<noteq> (0 :: u8)"
    by (simp_all add: TCP_FLAGS_def TCP_ACK_def TCP_SYN_def)
  have opts: "opts_ok (load_bytes (?h + 20) ((5 - 5) * 4) s)" by (simp add: load_bytes_def)
  have acks: "6510 = ntohl (load32 (sg_tcphdr (tcp_seg s g0) + 4) s) + 1" using sf(4) by (simp add: sg add.commute)
  have apart: "?p \<noteq> sg_p (tcp_seg s g0)" using slots(4) by (simp add: sg)
  have src: "tp_local_ip ?b = 0x7001A8C0" "tp_remote_ip ?b = 0x6401A8C0" "tp_ttl ?b = 255" "tp_tos ?b = 0" "tp_local_port ?b = 4097"
    "tp_remote_port ?b = 8080" "tp_snd_nxt ?b = 6510" "tp_rcv_wnd ?b = 0" by (simp_all add: tcp_zeroed_def)
  have "(1000 :: u32) + 1 = 1001" by simp
  note hs = tcp_handshake [OF pkt sf(1) opts fl ch m _ waits acks apart slots(2) pc(1) [symmetric], unfolded src same1(6) this, OF _ r via up, of "0x300"]
  have st: "tp_state (tcp_pcb s 0x500) = SYN_SENT" by (simp add: pc)
  from hs obtain s' frame c where "t_tcp_input 0x300 ?p s = Some (0, s')" "tp_state (tcp_pcb s' 0x500) = ESTABLISHED"
    "sent s' = [] @ [frame]" "ip_parse frame = Some (0x7001A8C0, 0x6401A8C0, 255, 0, T_IP_PROTO_TCP,
      tcp_header 4097 8080 6510 1001 0x5010 0 c)" by auto
  with st show ?thesis by auto
qed

end
