(* ===== verification/Mailbox.thy ===== *)
theory Mailbox
  imports Prelude
begin

text \<open>
  The interface of a mailbox: what the threads of the stack and the callers of its API rely on when they
  hand pointers to each other (\<^verbatim>\<open>t_sys_mbox_post\<close> and \<^verbatim>\<open>t_sys_mbox_fetch\<close> of \<^verbatim>\<open>arch/t_sys.c\<close>).
\<close>

section \<open>Clients of a mailbox\<close>

datatype mbox_op = Post ptr | Fetch

text \<open>A client run gives the pointers fetched, in the order of the fetches.\<close>

fun mbox_run :: "(ptr \<Rightarrow> 's \<Rightarrow> (int \<times> 's) option) \<Rightarrow> ('s \<Rightarrow> (int \<times> ptr option \<times> 's) option) \<Rightarrow> mbox_op list \<Rightarrow> 's
    \<Rightarrow> (ptr option list \<times> 's) option" where
  "mbox_run post fetch [] s = Some ([], s)"
| "mbox_run post fetch (Post m # ops) s = do {
     (r, s) \<leftarrow> post m s;
     mbox_run post fetch ops s
   }"
| "mbox_run post fetch (Fetch # ops) s = do {
     (r, m, s) \<leftarrow> fetch s;
     (fs, s) \<leftarrow> mbox_run post fetch ops s;
     Some (m # fs, s)
   }"

fun posted :: "mbox_op list \<Rightarrow> ptr list" where
  "posted [] = []"
| "posted (Post m # ops) = m # posted ops"
| "posted (Fetch # ops) = posted ops"

text \<open>With \<open>n\<close> pointers in a mailbox for \<open>cap\<close> of them, no operation has to wait.\<close>

fun never_waits :: "nat \<Rightarrow> nat \<Rightarrow> mbox_op list \<Rightarrow> bool" where
  "never_waits cap n [] = True"
| "never_waits cap n (Post m # ops) = (n < cap \<and> never_waits cap (Suc n) ops)"
| "never_waits cap n (Fetch # ops) = (n \<noteq> 0 \<and> never_waits cap (n - 1) ops)"

text \<open>A post appends the pointer and waits when the mailbox is full; a fetch takes the oldest pointer and waits
  when there is none.\<close>

locale mailbox =
  fixes post :: "ptr \<Rightarrow> 's \<Rightarrow> (int \<times> 's) option"
    and fetch :: "'s \<Rightarrow> (int \<times> ptr option \<times> 's) option"
    and contents :: "'s \<Rightarrow> ptr list"
    and opened :: "'s \<Rightarrow> bool"
    and valid :: "ptr \<Rightarrow> bool"
    and cap :: nat
  assumes post_room: "\<lbrakk>opened s; valid m; length (contents s) < cap\<rbrakk> \<Longrightarrow>
      \<exists>s'. post m s = Some (0, s') \<and> opened s' \<and> contents s' = contents s @ [m]"
    and post_full: "\<lbrakk>opened s; valid m; cap \<le> length (contents s)\<rbrakk> \<Longrightarrow> post m s = None"
    and fetch_head: "\<lbrakk>opened s; contents s = m # ms\<rbrakk> \<Longrightarrow>
      \<exists>s'. fetch s = Some (0, Some m, s') \<and> opened s' \<and> contents s' = ms"
    and fetch_empty: "\<lbrakk>opened s; contents s = []\<rbrakk> \<Longrightarrow> fetch s = None"
begin

text \<open>Pointers come out in the order they went in; none is lost and none comes out twice.\<close>

lemma run_fifo:
  assumes "opened s" and "\<forall>m \<in> set (posted ops). valid m"
  shows "if never_waits cap (length (contents s)) ops
    then \<exists>fs s'. mbox_run post fetch ops s = Some (map Some fs, s') \<and> opened s' \<and> contents s @ posted ops = fs @ contents s'
    else mbox_run post fetch ops s = None"
  using assms
proof (induction ops arbitrary: s rule: posted.induct)
  case 1
  then show ?case by simp
next
  case (2 m ops)
  show ?case
  proof (cases "length (contents s) < cap")
    case True
    with post_room [of s m] "2.prems" obtain t where "post m s = Some (0, t)" "opened t" "contents t = contents s @ [m]" by auto
    with "2.IH" [of t] "2.prems" True show ?thesis by (simp split: if_splits)
  next
    case False
    with post_full [of s m] "2.prems" show ?thesis by simp
  qed
next
  case (3 ops)
  show ?case
  proof (cases "contents s")
    case Nil
    with fetch_empty [of s] "3.prems" show ?thesis by simp
  next
    case (Cons m ms)
    from fetch_head [OF "3.prems"(1) this] obtain t where t: "fetch s = Some (0, Some m, t)" "opened t" "contents t = ms" by blast
    show ?thesis
    proof (cases "never_waits cap (length ms) ops")
      case True
      with "3.IH" [of t] "3.prems"(2) t obtain fs s' where "mbox_run post fetch ops t = Some (map Some fs, s')" "opened s'"
        "ms @ posted ops = fs @ contents s'" by auto
      with t True Cons show ?thesis by (auto intro!: exI [of _ "m # fs"])
    qed (use "3.IH" [of t] "3.prems"(2) t Cons in simp)
  qed
qed

end

end
