(* ===== verification/Sys.thy ===== *)
theory Sys
  imports Tcp Mailbox
begin

text \<open>
  \<^verbatim>\<open>include/arch/t_sys.c\<close>: threads, mailboxes and semaphores.  A mailbox is a System V message queue
  whose messages carry the posted pointer in the place of the message type.  The calls of the operating
  system are modelled as their manual pages describe them; a call that waits for another thread has no
  result (\<open>None\<close>).
\<close>

section \<open>State\<close>

text \<open>The functions the program starts as threads.\<close>

datatype task = Tcpip_task | Pcap_recv_thread

text \<open>\<^verbatim>\<open>msgsnd\<close> and \<^verbatim>\<open>msgrcv\<close> work on a type followed by a text of \<open>sz\<close> bytes, but the code gives them the
  address of a single pointer: sending reads the eight bytes behind the parameter, receiving writes eight bytes behind
  the variable of the caller (or twelve behind a static integer, when the caller wants no pointer).  C does not define
  what that does.  The model goes on, and records each access outside an object in \<open>overruns\<close>; the bytes themselves
  belong to no variable of the model.\<close>

datatype overrun = Behind_read | Behind_written

text \<open>Of the kernel: the queue of each key, the identifiers it will give to new queues, the messages of each
  queue and the limit on their bytes, the values of the semaphores, and the threads.  Of the file: the last
  key used and the number of semaphores used.  \<open>stale_ret\<close> is the value of the variable that
  \<^verbatim>\<open>t_sys_thread_new\<close> returns without having set it.\<close>

record sys_st = tcp_st +
  msgq_of_key :: "int \<Rightarrow> int option"
  msgq_ids :: "int list"
  msgq :: "int \<Rightarrow> ptr list option"
  msgq_limit :: nat
  sem_value :: "ptr \<Rightarrow> int"
  threads :: "task list"
  mbox_key :: int
  semcount :: int
  stale_ret :: int
  overruns :: "overrun list"

definition sys_boot :: sys_st where
  "sys_boot = tcp_st.extend tcp_boot
     \<lparr>msgq_of_key = (\<lambda>_. None), msgq_ids = [0, 1, 2, 3, 4, 5, 6, 7], msgq = (\<lambda>_. None), msgq_limit = 16384,
      sem_value = (\<lambda>_. 0), threads = [], mbox_key = 100, semcount = 0, stale_ret = 0, overruns = []\<rparr>"

section \<open>The calls of the operating system\<close>

text \<open>\<^verbatim>\<open>msgget\<close> with \<^verbatim>\<open>IPC_CREAT\<close>: the queue of the key, with whatever it contains, or a new one.\<close>

definition msgget :: "int \<Rightarrow> 'a sys_st_scheme \<Rightarrow> int \<times> 'a sys_st_scheme" where
  "msgget key s = (case msgq_of_key s key of
     Some q \<Rightarrow> (q, s)
   | None \<Rightarrow> (case msgq_ids s of
       [] \<Rightarrow> (-1, s)
     | q # qs \<Rightarrow> (q, s\<lparr>msgq_of_key := (msgq_of_key s)(key \<mapsto> q), msgq_ids := qs, msgq := (msgq s)(q \<mapsto> [])\<rparr>)))"

text \<open>\<^verbatim>\<open>msgsnd\<close> needs a positive type and waits when the queue is full; \<^verbatim>\<open>msgrcv\<close> takes the first message and
  waits when there is none.  Every message has \<open>sz\<close> bytes.\<close>

definition msgsnd :: "int \<Rightarrow> ptr \<Rightarrow> nat \<Rightarrow> 'a sys_st_scheme \<Rightarrow> (int \<times> 'a sys_st_scheme) option" where
  "msgsnd q mtype sz s = (case msgq s q of
     None \<Rightarrow> Some (-1, s)
   | Some ms \<Rightarrow>
       if mtype = 0 \<or> 2 ^ 63 \<le> mtype then Some (-1, s)
       else if (length ms + 1) * sz \<le> msgq_limit s then Some (0, s\<lparr>msgq := (msgq s)(q \<mapsto> ms @ [mtype])\<rparr>)
       else None)"

definition msgrcv :: "int \<Rightarrow> nat \<Rightarrow> 'a sys_st_scheme \<Rightarrow> (int \<times> ptr option \<times> 'a sys_st_scheme) option" where
  "msgrcv q sz s = (case msgq s q of
     None \<Rightarrow> Some (-1, None, s)
   | Some [] \<Rightarrow> None
   | Some (m # ms) \<Rightarrow> Some (int sz, Some m, s\<lparr>msgq := (msgq s)(q \<mapsto> ms)\<rparr>))"

section \<open>Mailboxes\<close>

definition T_SYS_MBOX_NULL :: int where "T_SYS_MBOX_NULL = -1"

text \<open>The address of the static variable whose address stands for the null pointer, which cannot be posted.\<close>

definition mbox_temp :: ptr where "mbox_temp = 0x48000"

definition sizeof_ptr :: nat where "sizeof_ptr = 8"

definition t_sys_mbox_new :: "int \<Rightarrow> 'a sys_st_scheme \<Rightarrow> int \<times> 'a sys_st_scheme" where
  "t_sys_mbox_new count s =
     (let s = s\<lparr>mbox_key := mbox_key s + 1\<rparr>;
          (msgid, s) = msgget (mbox_key s) s
      in if msgid < 0 then (T_SYS_MBOX_NULL, s) else (msgid, s))"

definition t_sys_mbox_post :: "int \<Rightarrow> ptr \<Rightarrow> 'a sys_st_scheme \<Rightarrow> (int \<times> 'a sys_st_scheme) option" where
  "t_sys_mbox_post mbox msg s =
     (if mbox = T_SYS_MBOX_NULL then Some (-1, s)
      else do {
        (r, s) \<leftarrow> msgsnd mbox (if msg = NULL then mbox_temp else msg) sizeof_ptr s;
        Some (if r \<noteq> 0 then (-1, s) else (0, s\<lparr>overruns := overruns s @ [Behind_read]\<rparr>))
      })"

text \<open>The caller's variable receives the pointer; it is left alone when the fetch fails.  The timeout is not used.\<close>

definition t_sys_mbox_fetch :: "int \<Rightarrow> int \<Rightarrow> 'a sys_st_scheme \<Rightarrow> (int \<times> ptr option \<times> 'a sys_st_scheme) option" where
  "t_sys_mbox_fetch mbox timeout s =
     (if mbox = T_SYS_MBOX_NULL then Some (-1, None, s)
      else do {
        (n, m, s) \<leftarrow> msgrcv mbox sizeof_ptr s;
        Some (if n \<noteq> int sizeof_ptr then (-1, m, s) else (0, m, s\<lparr>overruns := overruns s @ [Behind_written]\<rparr>))
      })"

section \<open>Threads and semaphores\<close>

text \<open>\<open>created\<close> is whether \<^verbatim>\<open>pthread_create\<close> succeeds.\<close>

definition t_sys_thread_new :: "bool \<Rightarrow> task \<Rightarrow> 'a sys_st_scheme \<Rightarrow> int \<times> 'a sys_st_scheme" where
  "t_sys_thread_new created task s =
     (if created then (stale_ret s, s\<lparr>threads := threads s @ [task]\<rparr>) else (-1, s))"

definition T_SYS_SEM_NULL :: ptr where "T_SYS_SEM_NULL = NULL"
definition SEM_MAXCOUNT :: int where "SEM_MAXCOUNT = 100"

text \<open>The array of semaphores, each of 32 bytes.\<close>

definition semlist :: ptr where "semlist = 0x40000"
definition sizeof_sem_t :: nat where "sizeof_sem_t = 32"

definition t_sys_sem_new :: "int \<Rightarrow> 'a sys_st_scheme \<Rightarrow> ptr \<times> 'a sys_st_scheme" where
  "t_sys_sem_new initval s =
     (if semcount s > SEM_MAXCOUNT - 1 then (T_SYS_SEM_NULL, s)
      else
        let sem = semlist + nat (semcount s) * sizeof_sem_t;
            s = s\<lparr>semcount := semcount s + 1\<rparr>
        in (sem, s\<lparr>sem_value := (sem_value s)(sem := initval)\<rparr>))"

definition t_sys_sem_wait :: "ptr \<Rightarrow> 'a sys_st_scheme \<Rightarrow> 'a sys_st_scheme option" where
  "t_sys_sem_wait sem s = do {
     defined (sem \<noteq> NULL);
     if sem_value s sem > 0 then Some (s\<lparr>sem_value := (sem_value s)(sem := sem_value s sem - 1)\<rparr>) else None
   }"

definition t_sys_sem_signal :: "ptr \<Rightarrow> 'a sys_st_scheme \<Rightarrow> 'a sys_st_scheme option" where
  "t_sys_sem_signal sem s = do {
     defined (sem \<noteq> NULL);
     Some (s\<lparr>sem_value := (sem_value s)(sem := sem_value s sem + 1)\<rparr>)
   }"

section \<open>Mailboxes are queues\<close>

lemma boot_msgq [simp]: "msgq sys_boot = (\<lambda>_. None)" "msgq_limit sys_boot = 16384"
  by (simp_all add: sys_boot_def tcp_st.defs)

text \<open>A pointer that can be posted: not null, and positive as a \<^verbatim>\<open>long\<close>.\<close>

definition postable :: "ptr \<Rightarrow> bool" where
  "postable m \<longleftrightarrow> m \<noteq> NULL \<and> m < 2 ^ 63"

definition mbox_open :: "int \<Rightarrow> nat \<Rightarrow> 'a sys_st_scheme \<Rightarrow> bool" where
  "mbox_open q cap s \<longleftrightarrow> q \<noteq> T_SYS_MBOX_NULL \<and> msgq s q \<noteq> None \<and> cap = msgq_limit s div sizeof_ptr"

lemma mbox_post_result:
  assumes "q \<noteq> T_SYS_MBOX_NULL" and "msgq s q = Some ms" and "postable m"
  shows "t_sys_mbox_post q m s =
    (if length ms < msgq_limit s div sizeof_ptr then Some (0, s\<lparr>msgq := (msgq s)(q \<mapsto> ms @ [m]), overruns := overruns s @ [Behind_read]\<rparr>) else None)"
  using assms by (auto simp: t_sys_mbox_post_def msgsnd_def postable_def sizeof_ptr_def)

lemma mbox_fetch_result:
  assumes "q \<noteq> T_SYS_MBOX_NULL" and "msgq s q = Some ms"
  shows "t_sys_mbox_fetch q timeout s =
    (case ms of [] \<Rightarrow> None | m # ms \<Rightarrow> Some (0, Some m, s\<lparr>msgq := (msgq s)(q \<mapsto> ms), overruns := overruns s @ [Behind_written]\<rparr>))"
  using assms by (simp add: t_sys_mbox_fetch_def msgrcv_def split: list.splits)

interpretation mbox: mailbox "t_sys_mbox_post q" "t_sys_mbox_fetch q timeout" "\<lambda>s. the (msgq s q)" "mbox_open q cap" postable cap
  for q timeout cap
  by unfold_locales
    (auto simp: mbox_open_def mbox_post_result mbox_fetch_result split: list.splits)

text \<open>The null pointer cannot be the type of a message; the address of a static variable is sent in its place.\<close>

definition carried :: "ptr \<Rightarrow> ptr" where
  "carried m = (if m = NULL then mbox_temp else m)"

fun carried_op :: "mbox_op \<Rightarrow> mbox_op" where
  "carried_op (Post m) = Post (carried m)"
| "carried_op Fetch = Fetch"

lemma mbox_post_carried: "t_sys_mbox_post q (carried m) s = t_sys_mbox_post q m s"
  by (simp add: t_sys_mbox_post_def carried_def mbox_temp_def)

lemma mbox_run_carried:
  "mbox_run (t_sys_mbox_post q) fetch (map carried_op ops) s = mbox_run (t_sys_mbox_post q) fetch ops s"
  by (induction ops arbitrary: s rule: posted.induct) (simp_all add: mbox_post_carried case_prod_unfold)

lemma posted_carried: "posted (map carried_op ops) = map carried (posted ops)"
  by (induction ops rule: posted.induct) simp_all

lemma never_waits_carried: "never_waits cap n (map carried_op ops) = never_waits cap n ops"
  by (induction cap n ops rule: never_waits.induct) simp_all

text \<open>C21: Whatever sequence of posts and fetches a mailbox serves, of pointers that are positive as a \<^verbatim>\<open>long\<close> or
  null, the pointers come out in the order in which they went in, none lost and none twice; only the null pointer comes
  out as the address of the static variable \<^verbatim>\<open>temp\<close>.  A sequence is served exactly when it never posts into a full
  mailbox and never fetches from an empty one.\<close>

theorem mbox_fifo:
  assumes "q \<noteq> T_SYS_MBOX_NULL" and "msgq s q = Some ms" and "\<forall>m \<in> set (posted ops). m < 2 ^ 63"
    and "cap = msgq_limit s div sizeof_ptr"
  shows "if never_waits cap (length ms) ops
    then \<exists>fs s' ms'. mbox_run (t_sys_mbox_post q) (t_sys_mbox_fetch q timeout) ops s = Some (map Some fs, s') \<and>
      msgq s' q = Some ms' \<and> ms @ map carried (posted ops) = fs @ ms'
    else mbox_run (t_sys_mbox_post q) (t_sys_mbox_fetch q timeout) ops s = None"
proof -
  have "mbox_open q cap s" using assms by (simp add: mbox_open_def)
  moreover have "\<forall>m \<in> set (posted (map carried_op ops)). postable m"
    using assms(3) by (auto simp: posted_carried carried_def postable_def mbox_temp_def)
  ultimately show ?thesis using mbox.run_fifo [of q cap s "map carried_op ops" timeout] assms(2)
    by (auto simp: mbox_open_def mbox_run_carried posted_carried never_waits_carried split: if_splits)
qed

theorem mbox_fifo_witness:
  "\<exists>s'. mbox_run (t_sys_mbox_post 0) (t_sys_mbox_fetch 0 1000) [Post 16, Post NULL, Fetch, Post 48, Fetch]
     (snd (t_sys_mbox_new 255 sys_boot)) = Some ([Some 16, Some mbox_temp], s') \<and> msgq s' 0 = Some [48]"
proof -
  let ?s = "snd (t_sys_mbox_new 255 sys_boot)" and ?ops = "[Post 16, Post NULL, Fetch, Post 48, Fetch]"
  have s: "msgq ?s 0 = Some []" "msgq_limit ?s div sizeof_ptr = 2048"
    by (simp_all add: t_sys_mbox_new_def msgget_def sys_boot_def tcp_st.defs sizeof_ptr_def)
  have "never_waits 2048 (length ([] :: ptr list)) ?ops" by simp
  with mbox_fifo [OF _ s(1) _ s(2) [symmetric], of ?ops 1000] obtain fs s' ms' where
    f: "mbox_run (t_sys_mbox_post 0) (t_sys_mbox_fetch 0 1000) ?ops ?s = Some (map Some fs, s')" "msgq s' 0 = Some ms'"
      "[16, mbox_temp, 48] = fs @ ms'" by (auto simp: T_SYS_MBOX_NULL_def carried_def)
  have "length (fst (the (mbox_run (t_sys_mbox_post 0) (t_sys_mbox_fetch 0 1000) ?ops ?s))) = 2"
    using f(1) by (auto simp: Option.bind_eq_Some_conv)
  then have "length fs = 2" using f(1) by simp
  with f show ?thesis by (auto simp: append_eq_Cons_conv length_Suc_conv numeral_2_eq_2 Cons_eq_append_conv)
qed

end
