(* ===== verification/Ip_Input.thy ===== *)
theory Ip_Input
  imports Tcp_In Tcp_Connect
begin

text \<open>
  \<^verbatim>\<open>t_ip_input\<close> and \<^verbatim>\<open>t_raw_input\<close> of \<^verbatim>\<open>core/t_ip.c\<close>: what happens to a received frame.  The receive
  functions of UDP blocks remain a parameter.
\<close>

definition t_ip_input ::
    "(udp_recv \<Rightarrow> ptr \<Rightarrow> ptr \<Rightarrow> ptr \<Rightarrow> ptr \<Rightarrow> u16 \<Rightarrow> 'a tcp_st_scheme \<Rightarrow> 'a tcp_st_scheme option)
     \<Rightarrow> ptr \<Rightarrow> ptr \<Rightarrow> 'a tcp_st_scheme \<Rightarrow> (int \<times> 'a tcp_st_scheme) option" where
  "t_ip_input call_recv p inp s = do {
     (_, s) \<leftarrow> t_pbuf_header p 14 s;
     let iphdr = pb_payload (pbuf s p);
     defined (accessible iphdr 10);
     if T_IPH_V iphdr s \<noteq> 4 then Some (-1, s)
     else do {
       let iphdrlen = T_IPH_HL iphdr s * 4;
       if iphdrlen < pb_len (pbuf s p) then
         if T_IPH_PROTO iphdr s = ucast T_IP_PROTO_ICMP then t_icmp_input p inp s
         else if T_IPH_PROTO iphdr s = ucast T_IP_PROTO_UDP then t_udp_input call_recv inp p s
         else if T_IPH_PROTO iphdr s = ucast T_IP_PROTO_TCP then t_tcp_input inp p s
         else Some (0, s)
       else Some (-1, s)
     }
   }"

definition t_ether_is_mac_to_process :: "ptr \<Rightarrow> ptr \<Rightarrow> 'a tcp_st_scheme \<Rightarrow> int" where
  "t_ether_is_mac_to_process header inp s = 0"

definition t_raw_input ::
    "(udp_recv \<Rightarrow> ptr \<Rightarrow> ptr \<Rightarrow> ptr \<Rightarrow> ptr \<Rightarrow> u16 \<Rightarrow> 'a tcp_st_scheme \<Rightarrow> 'a tcp_st_scheme option)
     \<Rightarrow> ptr \<Rightarrow> ptr \<Rightarrow> 'a tcp_st_scheme \<Rightarrow> (int \<times> 'a tcp_st_scheme) option" where
  "t_raw_input call_recv p inp s = do {
     defined (p \<noteq> NULL);
     let header = pb_payload (pbuf s p);
     defined (accessible header 14);
     let frame_type = htons (load16 (eth_frame_type header) s);
     (ret, s) \<leftarrow> (if frame_type = T_ARP_FRAME_TYPE then t_arp_input p inp s
                   else if frame_type = T_IPV4_FRAME_TYPE then t_ip_input call_recv p inp s
                   else Some (-1, s));
     (_, s) \<leftarrow> t_pbuf_free p s;
     Some (ret, s)
   }"

section \<open>Received frames\<close>

text \<open>A frame of \<open>l\<close> bytes at \<open>f\<close> in the buffer \<open>p\<close>, which belongs to the receiver.\<close>

definition frame_in :: "ptr \<Rightarrow> ptr \<Rightarrow> nat \<Rightarrow> ptr list \<Rightarrow> 'a tcp_st_scheme \<Rightarrow> bool" where
  "frame_in p f l xs s \<longleftrightarrow> pbuf_wf s p \<and> pbuf_owned s p \<and> f = pb_payload (pbuf s p) \<and> l = unat (pb_len (pbuf s p)) \<and>
     f + 14 < p + T_PBUF_BUFSIZE - 1 \<and> pbuf_avail s xs \<and> p \<notin> set xs"

definition eth_type :: "ptr \<Rightarrow> 'a tcp_st_scheme \<Rightarrow> u16" where
  "eth_type f s = htons (load16 (f + 12) s)"

definition ip_part :: "ptr \<Rightarrow> 'a tcp_st_scheme \<Rightarrow> 'a tcp_st_scheme" where
  "ip_part p s = upd_pbuf p (\<lambda>b. b\<lparr>pb_payload := pb_payload b + 14, pb_tot_len := pb_tot_len b - 14, pb_len := pb_len b - 14\<rparr>) s"

lemma ip_part_facts [simp]:
  "mem (ip_part p s) = mem s" "pbuf_pool (ip_part p s) = pbuf_pool s" "netif (ip_part p s) = netif s"
  "sent (ip_part p s) = sent s"
  by (simp_all add: ip_part_def)

lemma frame_in_slot: "frame_in p f l xs s \<Longrightarrow> p \<in> set pbuf_slots \<and> p \<noteq> NULL \<and> p + sizeof_t_pbuf \<le> f \<and>
    f + 24 \<le> p + pbuf_slot \<and> f + l \<le> p + pbuf_slot"
  using pbuf_slots_pos by (auto simp: frame_in_def pbuf_wf_def T_PBUF_BUFSIZE_def pbuf_slot_eq)

lemma frame_header:
  assumes "frame_in p f l xs s"
  shows "t_pbuf_header p 14 s = Some (0, ip_part p s)"
proof -
  have "header_fits s p (int 14)" "p \<noteq> NULL" "pb_flags (pbuf s p) = T_PBUF_FLAG_POOL"
    using assms frame_in_slot [OF assms] by (auto simp: header_fits_def frame_in_def pbuf_wf_def)
  from pbuf_header_moves [OF this(2,3,1)] show ?thesis by (simp add: ip_part_def nat_add_distrib)
qed

text \<open>What is left to do after the packet has been processed: the buffer goes back to the pool.\<close>

lemma pbuf_freed:
  assumes "pbuf_avail s xs" and "p \<in> set pbuf_slots" and "p \<notin> set xs" and "pbuf_owned s p"
  shows "\<exists>n s'. t_pbuf_free p s = Some (n, s') \<and> pbuf_avail s' (p # xs) \<and>
    s' = s\<lparr>pbuf := (pbuf s)(p := pbuf s' p), pbuf_pool := p\<rparr>"
  using pbuf_free_owned [OF assms] by auto

lemma pbuf_avail_other:
  "pbuf_avail s xs \<Longrightarrow> p \<notin> set xs \<Longrightarrow> pbuf_pool t = pbuf_pool s \<Longrightarrow> pbuf t = (pbuf s)(p := b) \<Longrightarrow> pbuf_avail t xs"
  by (subst pbuf_avail_frame [of t s]) auto

lemma raw_input_ip:
  assumes "frame_in p f l xs s" and "eth_type f s = T_IPV4_FRAME_TYPE"
  shows "t_raw_input call p inp s = Option.bind (t_ip_input call p inp s)
    (\<lambda>(ret, s). Option.bind (t_pbuf_free p s) (\<lambda>(_, s). Some (ret, s)))"
proof -
  have "accessible f 14" "p \<noteq> NULL" "pb_payload (pbuf s p) = f"
    using frame_in_slot [OF assms(1)] accessible_in_slot [of p f 14] assms(1) by (auto simp: frame_in_def)
  then show ?thesis using assms(2)
    by (simp add: t_raw_input_def eth_type_def T_IPV4_FRAME_TYPE_def T_ARP_FRAME_TYPE_def)
qed

lemma raw_input_other:
  assumes "frame_in p f l xs s" and "eth_type f s \<noteq> T_IPV4_FRAME_TYPE" and "eth_type f s \<noteq> T_ARP_FRAME_TYPE"
  shows "t_raw_input call p inp s = Option.bind (t_pbuf_free p s) (\<lambda>(_, s). Some (-1, s))"
proof -
  have "accessible f 14" "p \<noteq> NULL" "pb_payload (pbuf s p) = f"
    using frame_in_slot [OF assms(1)] accessible_in_slot [of p f 14] assms(1) by (auto simp: frame_in_def)
  then show ?thesis using assms(2,3)
    by (simp add: t_raw_input_def eth_type_def T_IPV4_FRAME_TYPE_def T_ARP_FRAME_TYPE_def)
qed

text \<open>The length and the version of the packet in a frame.\<close>

definition ip_packet_ok :: "ptr \<Rightarrow> nat \<Rightarrow> 'a tcp_st_scheme \<Rightarrow> bool" where
  "ip_packet_ok f l s \<longleftrightarrow> T_IPH_V (f + 14) s = 4 \<and> unat (T_IPH_HL (f + 14) s * 4) < l - 14"

lemma iph_frame: "mem s = mem t \<Longrightarrow> T_IPH_V i s = T_IPH_V i t" "mem s = mem t \<Longrightarrow> T_IPH_HL i s = T_IPH_HL i t"
  "mem s = mem t \<Longrightarrow> T_IPH_PROTO i s = T_IPH_PROTO i t" "mem s = mem t \<Longrightarrow> T_IPH_TTL i s = T_IPH_TTL i t"
  by (simp_all add: T_IPH_V_def T_IPH_HL_def T_IPH_PROTO_def T_IPH_TTL_def load16_def)

lemma ip_input_dispatch:
  assumes fr: "frame_in p f l xs s" and "14 \<le> l"
  shows "t_ip_input call p inp s = (if \<not> ip_packet_ok f l s then Some (-1, ip_part p s)
     else if T_IPH_PROTO (f + 14) s = 1 then t_icmp_input p inp (ip_part p s)
     else if T_IPH_PROTO (f + 14) s = 17 then t_udp_input call inp p (ip_part p s)
     else if T_IPH_PROTO (f + 14) s = 6 then t_tcp_input inp p (ip_part p s) else Some (0, ip_part p s))"
proof -
  have acc: "accessible (f + 14) 10" "pb_payload (pbuf s p) = f" "l = unat (pb_len (pbuf s p))"
    using frame_in_slot [OF fr] accessible_in_slot [of p "f + 14" 10] fr by (auto simp: frame_in_def)
  have pl: "pb_payload (pbuf (ip_part p s) p) = f + 14" "pb_len (pbuf (ip_part p s) p) = pb_len (pbuf s p) - 14"
    using acc(2) by (simp_all add: ip_part_def)
  have "unat (pb_len (pbuf s p) - 14) = l - 14" using assms(2) by (simp add: acc(3) unat_sub word_le_nat_alt)
  then have cmp: "(T_IPH_HL (f + 14) s * 4 < pb_len (pbuf s p) - 14) = (unat (T_IPH_HL (f + 14) s * 4) < l - 14)"
    by (simp add: word_less_nat_alt)
  show ?thesis
    by (simp add: t_ip_input_def frame_header [OF fr] pl acc iph_frame [of "ip_part p s" s] ip_packet_ok_def cmp Let_def
        T_IP_PROTO_ICMP_def T_IP_PROTO_UDP_def T_IP_PROTO_TCP_def)
qed

text \<open>A frame that is neither ARP nor IPv4, a packet of another version, one that is not longer than its
  header, and one of an unknown protocol are dropped: nothing is sent, nothing but the descriptor of the
  buffer changes, and the buffer is back in the pool.  An unknown protocol is the only one of them that is not an error.\<close>

theorem raw_input_drops:
  assumes fr: "frame_in p f l xs s" and l: "14 \<le> l" and arp: "eth_type f s \<noteq> T_ARP_FRAME_TYPE"
    and bad: "eth_type f s = T_IPV4_FRAME_TYPE \<Longrightarrow> ip_packet_ok f l s \<Longrightarrow> T_IPH_PROTO (f + 14) s \<notin> {1, 6, 17}"
  shows "\<exists>s'. t_raw_input call p inp s =
      Some (if eth_type f s = T_IPV4_FRAME_TYPE \<and> ip_packet_ok f l s then 0 else -1, s') \<and> pbuf_avail s' (p # xs) \<and>
    s' = s\<lparr>pbuf := (pbuf s)(p := pbuf s' p), pbuf_pool := p\<rparr>"
proof -
  note slot = frame_in_slot [OF fr]
  have F: "pbuf_avail s xs" "p \<notin> set xs" "pbuf_owned s p" using fr by (simp_all add: frame_in_def)
  show ?thesis
  proof (cases "eth_type f s = T_IPV4_FRAME_TYPE")
    case False
    with pbuf_freed [OF F(1) conjunct1 [OF slot] F(2,3)] show ?thesis
      unfolding raw_input_other [OF fr False arp] by auto
  next
    case True
    have "pbuf_avail (ip_part p s) xs" "pbuf_owned (ip_part p s) p"
      using F by (auto simp: ip_part_def pbuf_owned_def intro: pbuf_avail_other [of s])
    from pbuf_freed [OF this(1) conjunct1 [OF slot] F(2) this(2)] obtain n s' where s':
      "t_pbuf_free p (ip_part p s) = Some (n, s')" "pbuf_avail s' (p # xs)"
      "s' = (ip_part p s)\<lparr>pbuf := (pbuf (ip_part p s))(p := pbuf s' p), pbuf_pool := p\<rparr>" by blast
    have "s' = s\<lparr>pbuf := (pbuf s)(p := pbuf s' p), pbuf_pool := p\<rparr>"
      by (subst s'(3)) (simp add: ip_part_def)
    moreover have "t_ip_input call p inp s = Some (if ip_packet_ok f l s then 0 else -1, ip_part p s)"
      using bad [OF True] by (auto simp: ip_input_dispatch [OF fr l])
    ultimately show ?thesis unfolding raw_input_ip [OF fr True] using True s'(1,2) by auto
  qed
qed

lemma raw_input_echo_result:
  assumes fr: "frame_in p f l xs s" and ty: "eth_type f s = T_IPV4_FRAME_TYPE" and i: "i = f + 14"
    and ok: "ip_packet_ok f l s" "T_IPH_PROTO i s = 1" and hlen: "hlen = unat (T_IPH_HL i s * 4)" "20 \<le> hlen" "hlen \<le> 60"
    and echo: "mem s (i + hlen) = T_ICMP_ECHO_REQUEST" and room: "14 + hlen + 4 \<le> l" "i + hlen < p + T_PBUF_BUFSIZE - 1"
    and up: "netif_up s inp"
  shows "\<exists>s' frame (c :: u16). t_raw_input call p inp s = Some (0, s') \<and> pbuf_avail s' (p # xs) \<and>
    s' = s\<lparr>mem := mem s', pbuf := (pbuf s)(p := pbuf s' p), pbuf_pool := p, sent := sent s @ [frame]\<rparr> \<and>
    ip_parse frame = Some (nif_ip_addr (netif s inp), echo_dst hlen (ucast (T_IPH_TTL i s)) (load32 (i + 12) s),
      ucast (T_IPH_TTL i s), 0, 1, [0, 8, byte_of 0 c, byte_of 1 c] @ load_bytes (i + hlen + 4) (l - 14 - hlen - 4) s) \<and>
    chksum_of (bsum True ([0, 8, byte_of 0 c, byte_of 1 c] @ load_bytes (i + hlen + 4) (l - 14 - hlen - 4) s)) = 0"
proof -
  note slot = frame_in_slot [OF fr]
  let ?t = "ip_part p s"
  have F: "pbuf_avail s xs" "p \<notin> set xs" "pbuf_owned s p" "pbuf_wf s p" "pb_payload (pbuf s p) = f" "l = unat (pb_len (pbuf s p))"
    using fr by (simp_all add: frame_in_def)
  have l14: "14 \<le> l" using room by simp
  have t: "pbuf ?t p = (pbuf s p)\<lparr>pb_payload := i, pb_tot_len := pb_tot_len (pbuf s p) - 14, pb_len := pb_len (pbuf s p) - 14\<rparr>"
    using F(5) i by (simp add: ip_part_def)
  have tl: "unat (pb_len (pbuf s p) - 14) = l - 14" using l14 by (simp add: F(6) unat_sub word_le_nat_alt)
  have req: "echo_request ?t p hlen"
    using F(4-6) slot hlen echo room i tl
    by (simp add: echo_request_def pbuf_wf_def t iph_frame [of ?t s])
  have "netif_up ?t inp" using up by (simp add: netif_up_def)
  from icmp_input_replies [OF req this refl refl refl] obtain s' frame and c :: u16 and b where out:
    "t_icmp_input p inp ?t = Some (0, s')" "s' = ?t\<lparr>mem := mem s', pbuf := (pbuf ?t)(p := b), sent := sent ?t @ [frame]\<rparr>"
    "pb_next b = pb_next (pbuf ?t p)" "pb_ref b = pb_ref (pbuf ?t p)" "pb_flags b = pb_flags (pbuf ?t p)"
    "ip_parse frame = Some (nif_ip_addr (netif s inp), echo_dst hlen (ucast (T_IPH_TTL i s)) (load32 (i + 12) s),
      ucast (T_IPH_TTL i s), 0, 1, [0, 8, byte_of 0 c, byte_of 1 c] @ load_bytes (i + hlen + 4) (l - 14 - hlen - 4) s)"
    "chksum_of (bsum True ([0, 8, byte_of 0 c, byte_of 1 c] @ load_bytes (i + hlen + 4) (l - 14 - hlen - 4) s)) = 0"
    by (auto simp: t tl iph_frame [of ?t s] load32_def load_bytes_def)
  have s': "pbuf s' = (pbuf s)(p := b)" "pbuf_pool s' = pbuf_pool s" "sent s' = sent s @ [frame]"
    by (subst out(2), simp add: ip_part_def)+
  have "pbuf_avail s' xs" "pbuf_owned s' p"
    using F(1-3) out(3-5) s'(2) pbuf_avail_other [OF F(1,2) s'(2,1)] by (simp_all add: s'(1) t pbuf_owned_def)
  from pbuf_freed [OF this(1) conjunct1 [OF slot] F(2) this(2)] obtain n u where u:
    "t_pbuf_free p s' = Some (n, u)" "pbuf_avail u (p # xs)" "u = s'\<lparr>pbuf := (pbuf s')(p := pbuf u p), pbuf_pool := p\<rparr>" by blast
  have "u = s\<lparr>mem := mem u, pbuf := (pbuf s)(p := pbuf u p), pbuf_pool := p, sent := sent s @ [frame]\<rparr>"
  proof -
    have "mem u = mem s'" by (subst u(3)) simp
    then show ?thesis by (subst u(3), subst out(2)) (simp add: s' ip_part_def)
  qed
  moreover have "t_raw_input call p inp s = Some (0, u)"
    unfolding raw_input_ip [OF fr ty] using out(1) u(1) ok by (simp add: ip_input_dispatch [OF fr l14] i)
  ultimately show ?thesis using u(2) out(6,7) by blast
qed

text \<open>The way of an echo request from the frame to the reply, and of its buffer back to the pool.\<close>

theorem raw_input_echoes:
  assumes fr: "frame_in p f l xs s" and ty: "eth_type f s = T_IPV4_FRAME_TYPE" and i: "i = f + 14"
    and ok: "ip_packet_ok f l s" "T_IPH_PROTO i s = 1" and hlen: "hlen = unat (T_IPH_HL i s * 4)" "20 \<le> hlen" "hlen \<le> 60"
    and echo: "mem s (i + hlen) = T_ICMP_ECHO_REQUEST" and room: "14 + hlen + 4 \<le> l" "i + hlen < p + T_PBUF_BUFSIZE - 1"
    and up: "netif_up s inp"
  shows "\<exists>s' frame (c :: u16). t_raw_input call p inp s = Some (0, s') \<and> pbuf_avail s' (p # xs) \<and>
    sent s' = sent s @ [frame] \<and>
    ip_parse frame = Some (nif_ip_addr (netif s inp), echo_dst hlen (ucast (T_IPH_TTL i s)) (load32 (i + 12) s),
      ucast (T_IPH_TTL i s), 0, 1, [0, 8, byte_of 0 c, byte_of 1 c] @ load_bytes (i + hlen + 4) (l - 14 - hlen - 4) s) \<and>
    chksum_of (bsum True ([0, 8, byte_of 0 c, byte_of 1 c] @ load_bytes (i + hlen + 4) (l - 14 - hlen - 4) s)) = 0"
proof -
  obtain s' frame and c :: u16 where out: "t_raw_input call p inp s = Some (0, s')" "pbuf_avail s' (p # xs)"
    "s' = s\<lparr>mem := mem s', pbuf := (pbuf s)(p := pbuf s' p), pbuf_pool := p, sent := sent s @ [frame]\<rparr>"
    "ip_parse frame = Some (nif_ip_addr (netif s inp), echo_dst hlen (ucast (T_IPH_TTL i s)) (load32 (i + 12) s),
      ucast (T_IPH_TTL i s), 0, 1, [0, 8, byte_of 0 c, byte_of 1 c] @ load_bytes (i + hlen + 4) (l - 14 - hlen - 4) s)"
    "chksum_of (bsum True ([0, 8, byte_of 0 c, byte_of 1 c] @ load_bytes (i + hlen + 4) (l - 14 - hlen - 4) s)) = 0"
    using raw_input_echo_result [OF assms, of call] by (elim exE conjE) rule
  have "sent s' = sent s @ [frame]" by (subst out(3)) simp
  with out show ?thesis by (intro exI conjI)
qed

text \<open>A frame in the first buffer with an IPv4 packet of a given protocol.\<close>

definition ip_arrived :: "u8 \<Rightarrow> tcp_st" where
  "ip_arrived proto = (let f = pbuf_pool_memory + 74 in
     store16 (f + 12) (htons 0x0800) (store8 (f + 14) 0x45 (store8 (f + 23) proto (store8 (f + 34) 8 (two_buffers tcp_start)))))"

lemma ip_arrived_facts:
  defines "f \<equiv> pbuf_pool_memory + 74"
  shows "frame_in pbuf_pool_memory f 100 (drop 2 pbuf_slots) (ip_arrived proto)" "eth_type f (ip_arrived proto) = T_IPV4_FRAME_TYPE"
    "T_IPH_HL (f + 14) (ip_arrived proto) = 5" "ip_packet_ok f 100 (ip_arrived proto)"
    "T_IPH_PROTO (f + 14) (ip_arrived proto) = ucast proto" "mem (ip_arrived proto) (f + 34) = 8"
    "netif_up (ip_arrived proto) 0x300" "sent (ip_arrived proto) = []"
proof -
  let ?s = "ip_arrived proto"
  note tb = two_buffers_facts [of tcp_start] and n = two_buffers_netif [of tcp_start]
  note d = ip_arrived_def Let_def f_def pbuf_pool_memory_def
  have same: "pbuf ?s = pbuf (two_buffers tcp_start)" "pbuf_pool ?s = pbuf_pool (two_buffers tcp_start)"
    "netif ?s = netif tcp_start" "sent ?s = sent tcp_start"
    by (simp_all add: ip_arrived_def Let_def n)
  show "frame_in pbuf_pool_memory f 100 (drop 2 pbuf_slots) ?s"
    using tb(1,2,3,4,9) two_buffers_slots(2)
    by (simp add: frame_in_def pbuf_wf_def pbuf_owned_def pbuf_avail_def same f_def T_PBUF_BUFSIZE_def)
  show "eth_type f ?s = T_IPV4_FRAME_TYPE"
    by (simp add: eth_type_def d mem_simps T_IPV4_FRAME_TYPE_def)
  have m: "mem ?s (f + 14) = 0x45" "mem ?s (f + 23) = proto" "mem ?s (f + 34) = 8"
    by (simp_all add: d mem_simps)
  show hl: "T_IPH_HL (f + 14) ?s = 5"
    by (simp add: T_IPH_HL_def load16_def htons_u16_of high_byte m)
  show "ip_packet_ok f 100 ?s"
  proof -
    have "drop_bit 12 w = drop_bit 4 (drop_bit 8 w)" for w :: u16 by simp
    then have "T_IPH_V (f + 14) ?s = 4" by (simp only: T_IPH_V_def) (simp add: load16_def htons_u16_of high_byte m)
    then show ?thesis unfolding ip_packet_ok_def hl by simp
  qed
  show "mem ?s (f + 34) = 8" by (rule m)
  show "netif_up ?s 0x300" "sent ?s = []" using online_facts(1,3) by (simp_all add: netif_up_def same)
  show "T_IPH_PROTO (f + 14) ?s = ucast proto" using m(2) by (simp add: T_IPH_PROTO_def load16_def htons_u16_of low_byte add.commute)
qed

theorem raw_input_drops_witness:
  "\<exists>s'. t_raw_input (\<lambda>_ _ _ _ _ _ s. Some s) pbuf_pool_memory 0x300 (ip_arrived 99) = Some (0, s') \<and>
     pbuf_avail s' (pbuf_pool_memory # drop 2 pbuf_slots) \<and> sent s' = []"
proof -
  note f = ip_arrived_facts [of 99]
  obtain s' where s': "t_raw_input (\<lambda>_ _ _ _ _ _ s. Some s) pbuf_pool_memory 0x300 (ip_arrived 99) = Some (0, s')"
    "pbuf_avail s' (pbuf_pool_memory # drop 2 pbuf_slots)"
    "s' = (ip_arrived 99)\<lparr>pbuf := (pbuf (ip_arrived 99))(pbuf_pool_memory := pbuf s' pbuf_pool_memory), pbuf_pool := pbuf_pool_memory\<rparr>"
    using raw_input_drops [OF f(1), of "\<lambda>_ _ _ _ _ _ s. Some s" "0x300"] f(2,4,5)
    by (auto simp: T_IPV4_FRAME_TYPE_def T_ARP_FRAME_TYPE_def)
  have "sent s' = []" by (subst s'(3)) (simp add: f(8))
  with s' show ?thesis by blast
qed

theorem raw_input_echoes_witness:
  "\<exists>s' frame. t_raw_input (\<lambda>_ _ _ _ _ _ s. Some s) pbuf_pool_memory 0x300 (ip_arrived 1) = Some (0, s') \<and>
     pbuf_avail s' (pbuf_pool_memory # drop 2 pbuf_slots) \<and> sent s' = [frame] \<and> ip_parse frame \<noteq> None"
proof -
  note f = ip_arrived_facts [of 1]
  have h: "unat (T_IPH_HL (pbuf_pool_memory + 74 + 14) (ip_arrived 1) * 4) = 20" unfolding f(3) by simp
  have e: "mem (ip_arrived 1) (pbuf_pool_memory + 74 + 14 + 20) = T_ICMP_ECHO_REQUEST"
    using f(6) by (simp add: T_ICMP_ECHO_REQUEST_def add.commute)
  have p: "T_IPH_PROTO (pbuf_pool_memory + 74 + 14) (ip_arrived 1) = 1" using f(5) by simp
  have "pbuf_pool_memory + 74 + 14 + 20 < pbuf_pool_memory + T_PBUF_BUFSIZE - 1" by (simp add: T_PBUF_BUFSIZE_def)
  from raw_input_echoes [OF f(1,2) refl f(4) p h [symmetric] _ _ e _ this f(7), of "\<lambda>_ _ _ _ _ _ s. Some s", unfolded f(8)]
  show ?thesis by fastforce
qed

end
