(* ===== verification/Tcpip.thy ===== *)
theory Tcpip
  imports Sys Ip_Input
begin

text \<open>
  \<^verbatim>\<open>api/t_tcpip.c\<close>, \<^verbatim>\<open>include/t_tcpip.h\<close>: the thread of the stack and the mailbox through which received
  frames and requests of the API reach it.
\<close>

section \<open>Messages\<close>

datatype t_tcpip_msg_type = T_TCPIP_MSG_API | T_TCPIP_MSG_INPUT | T_TCPIP_MSG_CALLBACK

text \<open>The union of a message, by the member last written; no code writes the member \<^verbatim>\<open>cb\<close>.\<close>

datatype tcpip_body = No_body | Apimsg ptr | Inp ptr ptr

record t_tcpip_msg =
  tm_type :: t_tcpip_msg_type
  tm_msg :: tcpip_body

record tcpip_st = sys_st +
  tcpip_msg :: "ptr \<Rightarrow> t_tcpip_msg"
  tcpip_mbox :: int

definition tcpip_boot :: tcpip_st where
  "tcpip_boot = sys_st.extend sys_boot
     \<lparr>tcpip_msg = (\<lambda>_. \<lparr>tm_type = T_TCPIP_MSG_API, tm_msg = No_body\<rparr>), tcpip_mbox = 0\<rparr>"

section \<open>Sending\<close>

definition t_tcpip_input :: "ptr \<Rightarrow> ptr \<Rightarrow> 'a tcpip_st_scheme \<Rightarrow> (int \<times> 'a tcpip_st_scheme) option" where
  "t_tcpip_input p inp s =
     (let (msg, s) = t_memp_malloc T_MEMP_TCPIP_MSG s
      in if msg = NULL then do {
           (_, s) \<leftarrow> t_pbuf_free p s;
           Some (-1, s)
         }
         else do {
           let s = s\<lparr>tcpip_msg := (tcpip_msg s)(msg := \<lparr>tm_type = T_TCPIP_MSG_INPUT, tm_msg = Inp p inp\<rparr>)\<rparr>;
           (r, s) \<leftarrow> t_sys_mbox_post (tcpip_mbox s) msg s;
           Some (if r \<noteq> 0 then -1 else 0, s)
         })"

definition t_tcpip_apimsg :: "ptr \<Rightarrow> 'a tcpip_st_scheme \<Rightarrow> 'a tcpip_st_scheme option" where
  "t_tcpip_apimsg apimsg s =
     (let (msg, s) = t_memp_malloc T_MEMP_TCPIP_MSG s
      in if msg = NULL then t_memp_free T_MEMP_API_MSG apimsg s
         else do {
           let s = s\<lparr>tcpip_msg := (tcpip_msg s)(msg := \<lparr>tm_type = T_TCPIP_MSG_API, tm_msg = Apimsg apimsg\<rparr>)\<rparr>;
           (_, s) \<leftarrow> t_sys_mbox_post (tcpip_mbox s) msg s;
           Some s
         })"

section \<open>The thread\<close>

definition t_tcpip_timeout_mbox_fetch :: "int \<Rightarrow> int \<Rightarrow> 'a tcpip_st_scheme \<Rightarrow> (int \<times> ptr option \<times> 'a tcpip_st_scheme) option" where
  "t_tcpip_timeout_mbox_fetch mbox timeout s = t_sys_mbox_fetch mbox timeout s"

text \<open>One round of the endless loop.  Requests of the API are taken from the mailbox, and nothing is done with them.\<close>

definition t_tcpip_round ::
    "(udp_recv \<Rightarrow> ptr \<Rightarrow> ptr \<Rightarrow> ptr \<Rightarrow> ptr \<Rightarrow> u16 \<Rightarrow> 'a tcpip_st_scheme \<Rightarrow> 'a tcpip_st_scheme option)
     \<Rightarrow> 'a tcpip_st_scheme \<Rightarrow> 'a tcpip_st_scheme option" where
  "t_tcpip_round call_recv s = do {
     (r, m, s) \<leftarrow> t_tcpip_timeout_mbox_fetch (tcpip_mbox s) 1000 s;
     let msg = (case m of None \<Rightarrow> NULL | Some m \<Rightarrow> m);
     s \<leftarrow> (if r = 0 then do {
             defined (msg \<noteq> NULL);
             case tm_type (tcpip_msg s msg) of
               T_TCPIP_MSG_API \<Rightarrow> Some s
             | T_TCPIP_MSG_INPUT \<Rightarrow>
                 (case tm_msg (tcpip_msg s msg) of
                    Inp p inp \<Rightarrow> do { (_, s) \<leftarrow> t_raw_input call_recv p inp s; Some s }
                  | _ \<Rightarrow> None)
             | T_TCPIP_MSG_CALLBACK \<Rightarrow> Some s
           } else Some s);
     if msg \<noteq> NULL then t_memp_free T_MEMP_TCPIP_MSG msg s else Some s
   }"

text \<open>The first \<open>n\<close> rounds.\<close>

primrec t_tcpip_task ::
    "(udp_recv \<Rightarrow> ptr \<Rightarrow> ptr \<Rightarrow> ptr \<Rightarrow> ptr \<Rightarrow> u16 \<Rightarrow> 'a tcpip_st_scheme \<Rightarrow> 'a tcpip_st_scheme option)
     \<Rightarrow> nat \<Rightarrow> 'a tcpip_st_scheme \<Rightarrow> 'a tcpip_st_scheme option" where
  "t_tcpip_task call_recv 0 s = Some s"
| "t_tcpip_task call_recv (Suc n) s = Option.bind (t_tcpip_round call_recv s) (t_tcpip_task call_recv n)"

definition t_tcpip_init :: "bool \<Rightarrow> 'a tcpip_st_scheme \<Rightarrow> int \<times> 'a tcpip_st_scheme" where
  "t_tcpip_init created s =
     (let (q, s) = t_sys_mbox_new 0xff s;
          s = s\<lparr>tcpip_mbox := q\<rparr>;
          (_, s) = t_sys_thread_new created Tcpip_task s
      in (0, s))"

section \<open>Frames and requests in the mailbox\<close>

lemma memp_objs_postable: "m \<in> memp_objs t \<Longrightarrow> postable m"
proof -
  assume "m \<in> memp_objs t"
  then obtain e where e: "m = e + sizeof_t_memp" "e \<in> set (memp_elems t)" by (auto simp: memp_objs_def)
  from memp_elems_bounds [OF e(2)] have "m \<le> memp_memory + memp_memory_size"
    unfolding e(1) by (cases t) (simp_all add: memp_types_def memp_memory_size_def memp_memory_def sizeof_t_memp_def)
  also have "\<dots> < 2 ^ 63" by (simp add: memp_memory_def memp_memory_size_def memp_types_def sizeof_t_memp_def)
  finally show ?thesis using memp_objs_pos \<open>m \<in> memp_objs t\<close> by (auto simp: postable_def)
qed

text \<open>A frame is handed to the thread as one message at the end of the mailbox.\<close>

lemma tcpip_input_posts:
  assumes av: "memp_avail T_MEMP_TCPIP_MSG s (m # ms)" and q: "tcpip_mbox s = q" "q \<noteq> T_SYS_MBOX_NULL" "msgq s q = Some qs"
    and room: "length qs < msgq_limit s div sizeof_ptr"
  shows "\<exists>s'. t_tcpip_input p inp s = Some (0, s') \<and> memp_avail T_MEMP_TCPIP_MSG s' ms \<and> memp_owned s' m \<and>
    s' = s\<lparr>memp_tab := memp_tab s', memp_next := memp_next s', now_count := now_count s + 1, msgq := (msgq s)(q \<mapsto> qs @ [m]), overruns := overruns s @ [Behind_read],
      tcpip_msg := (tcpip_msg s)(m := \<lparr>tm_type = T_TCPIP_MSG_INPUT, tm_msg = Inp p inp\<rparr>)\<rparr>"
proof -
  have m: "m \<noteq> NULL" "postable m" using memp.avail_objs [OF av] memp_objs_pos memp_objs_postable by auto
  from memp_malloc_next [OF av] obtain t where t: "t_memp_malloc T_MEMP_TCPIP_MSG s = (m, t)" "memp_avail T_MEMP_TCPIP_MSG t ms"
    "memp_owned t m" "t = s\<lparr>memp_tab := memp_tab t, memp_next := memp_next t, now_count := now_count s + 1\<rparr>" by blast
  define u where "u = t\<lparr>tcpip_msg := (tcpip_msg t)(m := \<lparr>tm_type = T_TCPIP_MSG_INPUT, tm_msg = Inp p inp\<rparr>)\<rparr>"
  have tf: "tcpip_mbox t = q" "msgq t = msgq s" "msgq_limit t = msgq_limit s" "tcpip_msg t = tcpip_msg s" "overruns t = overruns s"
    by (subst t(4), simp add: q)+
  then have uf: "tcpip_mbox u = q" "msgq u q = Some qs" "msgq_limit u = msgq_limit s" "msgq u = msgq s"
    "memp_tab u = memp_tab t" "memp_next u = memp_next t" by (simp_all add: u_def q)
  let ?s = "u\<lparr>msgq := (msgq u)(q \<mapsto> qs @ [m]), overruns := overruns u @ [Behind_read]\<rparr>"
  have "t_tcpip_input p inp s = Some (0, ?s)"
    using mbox_post_result [OF q(2) uf(2) m(2)] room m(1)
    unfolding t_tcpip_input_def t(1) Let_def prod.case u_def [symmetric] uf(1,3) by simp
  moreover have "memp_avail T_MEMP_TCPIP_MSG ?s ms" "memp_owned ?s m"
    using t(2,3) by (simp_all add: memp_avail_def memp_owned_def uf)
  moreover have "?s = s\<lparr>memp_tab := memp_tab ?s, memp_next := memp_next ?s, now_count := now_count s + 1, msgq := (msgq s)(q \<mapsto> qs @ [m]), overruns := overruns s @ [Behind_read],
      tcpip_msg := (tcpip_msg s)(m := \<lparr>tm_type = T_TCPIP_MSG_INPUT, tm_msg = Inp p inp\<rparr>)\<rparr>"
    unfolding u_def by (subst (1) t(4)) (rule tcpip_st.equality, simp_all add: tf)
  ultimately show ?thesis by blast
qed

lemma tcpip_round_input:
  assumes "tcpip_mbox s = q" "q \<noteq> T_SYS_MBOX_NULL" "msgq s q = Some (m # qs)" and "m \<noteq> NULL"
    and "tcpip_msg s m = \<lparr>tm_type = T_TCPIP_MSG_INPUT, tm_msg = Inp p inp\<rparr>"
    and "t_raw_input call p inp (s\<lparr>msgq := (msgq s)(q \<mapsto> qs), overruns := overruns s @ [Behind_written]\<rparr>) = Some (r, t)"
  shows "t_tcpip_round call s = t_memp_free T_MEMP_TCPIP_MSG m t"
  using assms mbox_fetch_result [OF assms(2,3), of 1000]
  by (simp add: t_tcpip_round_def t_tcpip_timeout_mbox_fetch_def)

text \<open>A request of the API is taken out of the mailbox and its message freed; the request is not carried out.\<close>

lemma tcpip_round_api:
  assumes "tcpip_mbox s = q" "q \<noteq> T_SYS_MBOX_NULL" "msgq s q = Some (m # qs)" and "m \<noteq> NULL"
    and "tm_type (tcpip_msg s m) = T_TCPIP_MSG_API"
  shows "t_tcpip_round call s = t_memp_free T_MEMP_TCPIP_MSG m
    (s\<lparr>msgq := (msgq s)(q \<mapsto> qs), overruns := overruns s @ [Behind_written]\<rparr>)"
  using assms mbox_fetch_result [OF assms(2,3), of 1000]
  by (simp add: t_tcpip_round_def t_tcpip_timeout_mbox_fetch_def)

end
