(* ===== verification/Api.thy ===== *)
theory Api
  imports Tcpip
begin

text \<open>
  \<^verbatim>\<open>api/t_api_lib.c\<close>, \<^verbatim>\<open>api/t_api_msg.c\<close>, \<^verbatim>\<open>include/t_api.h\<close>, \<^verbatim>\<open>include/t_api_msg.h\<close>: received data as the API hands
  it out (netbufs), connections (netconns), and the requests of the API to the thread of the stack.
\<close>

section \<open>State\<close>

datatype t_netconn_type = T_NETCONN_UDP
datatype t_netconn_evt = T_NETCONN_EVT_RCVPLUS
datatype t_netconn_state = T_NETCONN_NONE

text \<open>The values of the callback of a connection: null or the one function of \<^verbatim>\<open>api/t_sockets.c\<close>.\<close>

datatype netconn_callback = No_callback | Event_callback

record t_netconn =
  nc_type :: t_netconn_type
  nc_state :: t_netconn_state
  nc_pcb :: ptr
  nc_err :: int
  nc_mbox :: int
  nc_recvmbox :: int
  nc_acceptmbox :: int
  nc_sem :: ptr
  nc_socket :: int
  nc_recv_avail :: u16
  nc_callback :: netconn_callback

record t_netbuf =
  nb_p :: ptr
  nb_ptr :: ptr
  nb_fromaddr :: ptr
  nb_fromport :: u16

datatype t_api_msg_type = T_API_MSG_NEWCONN | T_API_MSG_CONNECT | T_API_MSG_DELCONN | T_API_MSG_BIND | T_API_MSG_DISCONNECT
  | T_API_MSG_LISTEN | T_API_MSG_ACCEPT | T_API_MSG_SEND | T_API_MSG_RECV | T_API_MSG_WRITE | T_API_MSG_CLOSE | T_API_MSG_MAX

text \<open>Of the union of a request the code writes only the address and the port.\<close>

record t_api_msg =
  am_type :: t_api_msg_type
  am_conn :: ptr
  am_ipaddr :: ptr
  am_port :: u16

record api_st = tcpip_st +
  netconn :: "ptr \<Rightarrow> t_netconn"
  netbuf :: "ptr \<Rightarrow> t_netbuf"
  api_msg :: "ptr \<Rightarrow> t_api_msg"

abbreviation upd_conn :: "ptr \<Rightarrow> (t_netconn \<Rightarrow> t_netconn) \<Rightarrow> 'a api_st_scheme \<Rightarrow> 'a api_st_scheme" where
  "upd_conn c f s \<equiv> s\<lparr>netconn := (netconn s)(c := f (netconn s c))\<rparr>"

abbreviation upd_netbuf :: "ptr \<Rightarrow> (t_netbuf \<Rightarrow> t_netbuf) \<Rightarrow> 'a api_st_scheme \<Rightarrow> 'a api_st_scheme" where
  "upd_netbuf b f s \<equiv> s\<lparr>netbuf := (netbuf s)(b := f (netbuf s b))\<rparr>"

abbreviation upd_msg :: "ptr \<Rightarrow> (t_api_msg \<Rightarrow> t_api_msg) \<Rightarrow> 'a api_st_scheme \<Rightarrow> 'a api_st_scheme" where
  "upd_msg m f s \<equiv> s\<lparr>api_msg := (api_msg s)(m := f (api_msg s m))\<rparr>"

definition api_boot :: api_st where
  "api_boot = tcpip_st.extend tcpip_boot
     \<lparr>netconn = (\<lambda>_. \<lparr>nc_type = T_NETCONN_UDP, nc_state = T_NETCONN_NONE, nc_pcb = NULL, nc_err = 0, nc_mbox = 0,
        nc_recvmbox = 0, nc_acceptmbox = 0, nc_sem = NULL, nc_socket = 0, nc_recv_avail = 0, nc_callback = No_callback\<rparr>),
      netbuf = (\<lambda>_. \<lparr>nb_p = NULL, nb_ptr = NULL, nb_fromaddr = NULL, nb_fromport = 0\<rparr>),
      api_msg = (\<lambda>_. \<lparr>am_type = T_API_MSG_NEWCONN, am_conn = NULL, am_ipaddr = NULL, am_port = 0\<rparr>)\<rparr>"

section \<open>Netbufs\<close>

definition t_netbuf_new :: "'a api_st_scheme \<Rightarrow> ptr \<times> 'a api_st_scheme" where
  "t_netbuf_new s =
     (let (buf, s) = t_memp_malloc T_MEMP_NETBUF s
      in if buf \<noteq> NULL then (buf, upd_netbuf buf (\<lambda>b. b\<lparr>nb_p := NULL, nb_ptr := NULL\<rparr>) s) else (NULL, s))"

definition t_netbuf_delete :: "ptr \<Rightarrow> 'a api_st_scheme \<Rightarrow> 'a api_st_scheme option" where
  "t_netbuf_delete buf s =
     (if buf \<noteq> NULL then do {
        s \<leftarrow> (if nb_p (netbuf s buf) \<noteq> NULL then do {
                (_, s) \<leftarrow> t_pbuf_free (nb_p (netbuf s buf)) s;
                Some (upd_netbuf buf (\<lambda>b. b\<lparr>nb_p := NULL, nb_ptr := NULL\<rparr>) s)
              } else Some s);
        t_memp_free T_MEMP_NETBUF buf s
      } else Some s)"

text \<open>The buffer a netbuf holds is given back before it gets another one.\<close>

definition netbuf_release :: "ptr \<Rightarrow> 'a api_st_scheme \<Rightarrow> 'a api_st_scheme option" where
  "netbuf_release buf s = do {
     defined (buf \<noteq> NULL);
     if nb_p (netbuf s buf) \<noteq> NULL then do {
       (_, s) \<leftarrow> t_pbuf_free (nb_p (netbuf s buf)) s;
       Some s
     } else Some s
   }"

definition T_PBUF_REF :: u16 where "T_PBUF_REF = 0"

definition t_netbuf_alloc :: "ptr \<Rightarrow> u16 \<Rightarrow> 'a api_st_scheme \<Rightarrow> (ptr \<times> 'a api_st_scheme) option" where
  "t_netbuf_alloc buf sz s = do {
     s \<leftarrow> netbuf_release buf s;
     (p, s) \<leftarrow> t_pbuf_alloc T_PBUF_TRANSPORT sz T_PBUF_RAM s;
     let s = upd_netbuf buf (\<lambda>b. b\<lparr>nb_p := p\<rparr>) s;
     if p = NULL then Some (NULL, s)
     else do {
       let s = upd_netbuf buf (\<lambda>b. b\<lparr>nb_ptr := nb_p b\<rparr>) s;
       Some (pb_payload (pbuf s p), s)
     }
   }"

definition t_netbuf_free :: "ptr \<Rightarrow> 'a api_st_scheme \<Rightarrow> 'a api_st_scheme option" where
  "t_netbuf_free buf s = do {
     s \<leftarrow> netbuf_release buf s;
     Some (upd_netbuf buf (\<lambda>b. b\<lparr>nb_p := NULL, nb_ptr := NULL\<rparr>) s)
   }"

definition t_netbuf_ref :: "ptr \<Rightarrow> ptr \<Rightarrow> u16 \<Rightarrow> 'a api_st_scheme \<Rightarrow> 'a api_st_scheme option" where
  "t_netbuf_ref buf dataptr sz s = do {
     s \<leftarrow> netbuf_release buf s;
     (p, s) \<leftarrow> t_pbuf_alloc T_PBUF_TRANSPORT 0 T_PBUF_REF s;
     let s = upd_netbuf buf (\<lambda>b. b\<lparr>nb_p := p\<rparr>) s;
     defined (p \<noteq> NULL);
     let s = upd_pbuf p (\<lambda>b. b\<lparr>pb_payload := dataptr\<rparr>) s;
     let s = upd_pbuf p (\<lambda>b. b\<lparr>pb_len := sz, pb_tot_len := sz\<rparr>) s;
     Some (upd_netbuf buf (\<lambda>b. b\<lparr>nb_ptr := p\<rparr>) s)
   }"

definition t_netbuf_len :: "ptr \<Rightarrow> 'a api_st_scheme \<Rightarrow> u16 option" where
  "t_netbuf_len buf s = do {
     defined (buf \<noteq> NULL \<and> nb_p (netbuf s buf) \<noteq> NULL);
     Some (pb_tot_len (pbuf s (nb_p (netbuf s buf))))
   }"

text \<open>The two results are left alone when there is no data.\<close>

definition t_netbuf_data :: "ptr \<Rightarrow> 'a api_st_scheme \<Rightarrow> (int \<times> (ptr \<times> u16) option) option" where
  "t_netbuf_data buf s = do {
     defined (buf \<noteq> NULL);
     let q = nb_ptr (netbuf s buf);
     if q = NULL then Some (-1, None) else Some (0, Some (pb_payload (pbuf s q), pb_len (pbuf s q)))
   }"

definition t_netbuf_next :: "ptr \<Rightarrow> 'a api_st_scheme \<Rightarrow> (u8 \<times> 'a api_st_scheme) option" where
  "t_netbuf_next buf s = do {
     defined (buf \<noteq> NULL \<and> nb_ptr (netbuf s buf) \<noteq> NULL);
     if pb_next (pbuf s (nb_ptr (netbuf s buf))) = NULL then Some (-1, s)
     else do {
       let s = upd_netbuf buf (\<lambda>b. b\<lparr>nb_ptr := pb_next (pbuf s (nb_ptr b))\<rparr>) s;
       Some (if pb_next (pbuf s (nb_ptr (netbuf s buf))) = NULL then 1 else 0, s)
     }
   }"

definition t_netbuf_first :: "ptr \<Rightarrow> 'a api_st_scheme \<Rightarrow> 'a api_st_scheme option" where
  "t_netbuf_first buf s = do {
     defined (buf \<noteq> NULL);
     Some (upd_netbuf buf (\<lambda>b. b\<lparr>nb_ptr := nb_p b\<rparr>) s)
   }"

text \<open>The inner loop of \<^verbatim>\<open>t_netbuf_copy_partial\<close> over the bytes of one buffer, by their indices; the flag tells
  that the copy is complete.\<close>

fun copy_bytes :: "nat list \<Rightarrow> ptr \<Rightarrow> ptr \<Rightarrow> u16 \<Rightarrow> u16 \<Rightarrow> 'a api_st_scheme \<Rightarrow> (bool \<times> u16 \<times> 'a api_st_scheme) option" where
  "copy_bytes [] dataptr payload len left s = Some (False, left, s)"
| "copy_bytes (i # is) dataptr payload len left s = do {
     defined (accessible (payload + i) 1 \<and> accessible (dataptr + unat left) 1);
     let s = store8 (dataptr + unat left) (mem s (payload + i)) s;
     let left = left + 1;
     if len \<le> left then Some (True, left, s) else copy_bytes is dataptr payload len left s
   }"

partial_function (option) copy_buffers ::
    "ptr \<Rightarrow> ptr \<Rightarrow> u16 \<Rightarrow> u16 \<Rightarrow> u16 \<Rightarrow> 'a api_st_scheme \<Rightarrow> 'a api_st_scheme option" where
  "copy_buffers p dataptr len off left s =
     (if left < len \<and> p \<noteq> NULL then
        if off \<noteq> 0 \<and> pb_len (pbuf s p) \<le> off then
          copy_buffers (pb_next (pbuf s p)) dataptr len (off - pb_len (pbuf s p)) left s
        else do {
          (done, left, s) \<leftarrow> copy_bytes [unat off..<unat (pb_len (pbuf s p))] dataptr (pb_payload (pbuf s p)) len left s;
          if done then Some s else copy_buffers (pb_next (pbuf s p)) dataptr len 0 left s
        }
      else Some s)"

definition t_netbuf_copy_partial :: "ptr \<Rightarrow> ptr \<Rightarrow> u16 \<Rightarrow> u16 \<Rightarrow> 'a api_st_scheme \<Rightarrow> 'a api_st_scheme option" where
  "t_netbuf_copy_partial buf dataptr len off s =
     (if buf = NULL \<or> dataptr = NULL then Some s else copy_buffers (nb_p (netbuf s buf)) dataptr len off 0 s)"

definition t_netbuf_copy :: "ptr \<Rightarrow> ptr \<Rightarrow> u16 \<Rightarrow> 'a api_st_scheme \<Rightarrow> 'a api_st_scheme option" where
  "t_netbuf_copy buf dataptr len s = t_netbuf_copy_partial buf dataptr len 0 s"

definition t_netbuf_fromaddr :: "ptr \<Rightarrow> 'a api_st_scheme \<Rightarrow> ptr option" where
  "t_netbuf_fromaddr buf s = do { defined (buf \<noteq> NULL); Some (nb_fromaddr (netbuf s buf)) }"

definition t_netbuf_fromport :: "ptr \<Rightarrow> 'a api_st_scheme \<Rightarrow> u16 option" where
  "t_netbuf_fromport buf s = do { defined (buf \<noteq> NULL); Some (nb_fromport (netbuf s buf)) }"

section \<open>Received datagrams\<close>

definition event_callback :: "ptr \<Rightarrow> t_netconn_evt \<Rightarrow> u16 \<Rightarrow> 'a api_st_scheme \<Rightarrow> 'a api_st_scheme" where
  "event_callback con evt len s = s"

definition t_recv_udp :: "ptr \<Rightarrow> ptr \<Rightarrow> ptr \<Rightarrow> ptr \<Rightarrow> u16 \<Rightarrow> 'a api_st_scheme \<Rightarrow> 'a api_st_scheme option" where
  "t_recv_udp arg pcb p addr port s =
     (let conn = arg
      in if conn = NULL then do { (_, s) \<leftarrow> t_pbuf_free p s; Some s }
         else if nc_recvmbox (netconn s conn) \<noteq> T_SYS_MBOX_NULL then
           let (buf, s) = t_memp_malloc T_MEMP_NETBUF s
           in if buf = NULL then do { (_, s) \<leftarrow> t_pbuf_free p s; Some s }
              else do {
                let s = upd_netbuf buf (\<lambda>b. b\<lparr>nb_p := p, nb_ptr := p, nb_fromaddr := addr, nb_fromport := port\<rparr>) s;
                defined (p \<noteq> NULL);
                let s = upd_conn conn (\<lambda>c. c\<lparr>nc_recv_avail := nc_recv_avail c + pb_tot_len (pbuf s p)\<rparr>) s;
                let s = (case nc_callback (netconn s conn) of No_callback \<Rightarrow> s
                         | Event_callback \<Rightarrow> event_callback conn T_NETCONN_EVT_RCVPLUS (pb_tot_len (pbuf s p)) s);
                (_, s) \<leftarrow> t_sys_mbox_post (nc_recvmbox (netconn s conn)) buf s;
                Some s
              }
         else Some s)"

definition t_udp_recv :: "ptr \<Rightarrow> udp_recv \<Rightarrow> ptr \<Rightarrow> 'a api_st_scheme \<Rightarrow> 'a api_st_scheme option" where
  "t_udp_recv pcb recv recv_arg s = do {
     defined (pcb \<noteq> NULL);
     let s = upd_udp pcb (\<lambda>u. u\<lparr>up_recv := recv\<rparr>) s;
     Some (upd_udp pcb (\<lambda>u. u\<lparr>up_recv_arg := recv_arg\<rparr>) s)
   }"

section \<open>Requests\<close>

definition do_newconn :: "ptr \<Rightarrow> 'a api_st_scheme \<Rightarrow> 'a api_st_scheme option" where
  "do_newconn msg s = do {
     let conn = am_conn (api_msg s msg);
     defined (conn \<noteq> NULL);
     let s = upd_conn conn (\<lambda>c. c\<lparr>nc_err := 0\<rparr>) s;
     s \<leftarrow> (case nc_type (netconn s conn) of
             T_NETCONN_UDP \<Rightarrow>
               (let (pcb, s) = t_udp_new s;
                    s = upd_conn conn (\<lambda>c. c\<lparr>nc_pcb := pcb\<rparr>) s
                in if nc_pcb (netconn s conn) = NULL then Some (upd_conn conn (\<lambda>c. c\<lparr>nc_err := -1\<rparr>) s)
                   else t_udp_recv (nc_pcb (netconn s conn)) T_recv_udp conn s));
     (_, s) \<leftarrow> t_sys_mbox_post (nc_mbox (netconn s conn)) NULL s;
     Some s
   }"

definition do_connect :: "ptr \<Rightarrow> 'a api_st_scheme \<Rightarrow> 'a api_st_scheme option" where
  "do_connect msg s = do {
     defined (am_conn (api_msg s msg) \<noteq> NULL);
     case nc_type (netconn s (am_conn (api_msg s msg))) of T_NETCONN_UDP \<Rightarrow> Some s
   }"

text \<open>The table of handlers; the entries behind the first two are null.\<close>

definition decode :: "t_api_msg_type \<Rightarrow> (ptr \<Rightarrow> 'a api_st_scheme \<Rightarrow> 'a api_st_scheme option) option" where
  "decode t = (case t of T_API_MSG_NEWCONN \<Rightarrow> Some do_newconn | T_API_MSG_CONNECT \<Rightarrow> Some do_connect | _ \<Rightarrow> None)"

definition t_api_msg_input :: "ptr \<Rightarrow> 'a api_st_scheme \<Rightarrow> 'a api_st_scheme option" where
  "t_api_msg_input msg s = do {
     defined (msg \<noteq> NULL);
     case decode (am_type (api_msg s msg)) of None \<Rightarrow> None | Some f \<Rightarrow> f msg s
   }"

definition t_api_msg_post :: "ptr \<Rightarrow> 'a api_st_scheme \<Rightarrow> 'a api_st_scheme option" where
  "t_api_msg_post msg s = t_tcpip_apimsg msg s"

text \<open>The part of \<^verbatim>\<open>t_netconn_new_with_proto_and_callback\<close> up to the request: the new connection and its
  request, or why there is none.\<close>

definition netconn_request :: "t_netconn_type \<Rightarrow> u16 \<Rightarrow> netconn_callback \<Rightarrow> 'a api_st_scheme
    \<Rightarrow> ((ptr \<times> ptr) option \<times> 'a api_st_scheme) option" where
  "netconn_request t proto callback s =
     (let (conn, s) = t_memp_malloc T_MEMP_NETCONN s
      in if conn = NULL then Some (None, s)
         else do {
           let s = upd_conn conn (\<lambda>c. c\<lparr>nc_err := 0, nc_type := t, nc_pcb := NULL\<rparr>) s;
           let (q, s) = t_sys_mbox_new 0xff s;
           let s = upd_conn conn (\<lambda>c. c\<lparr>nc_mbox := q\<rparr>) s;
           if nc_mbox (netconn s conn) = T_SYS_MBOX_NULL then do {
             s \<leftarrow> t_memp_free T_MEMP_NETCONN conn s;
             Some (None, s)
           }
           else do {
             let s = upd_conn conn (\<lambda>c. c\<lparr>nc_recvmbox := T_SYS_MBOX_NULL, nc_acceptmbox := T_SYS_MBOX_NULL,
               nc_sem := T_SYS_SEM_NULL, nc_state := T_NETCONN_NONE, nc_socket := 0, nc_callback := callback,
               nc_recv_avail := 0\<rparr>) s;
             let (msg, s) = t_memp_malloc T_MEMP_API_MSG s;
             if msg = NULL then do {
               s \<leftarrow> t_memp_free T_MEMP_NETCONN conn s;
               Some (None, s)
             }
             else do {
               let s = upd_msg msg (\<lambda>m. m\<lparr>am_type := T_API_MSG_NEWCONN, am_port := proto, am_conn := conn\<rparr>) s;
               s \<leftarrow> t_api_msg_post msg s;
               Some (Some (conn, msg), s)
             }
           }
         })"

text \<open>The rest waits for the answer in the mailbox of the connection.\<close>

definition netconn_answered :: "ptr \<Rightarrow> ptr \<Rightarrow> 'a api_st_scheme \<Rightarrow> (ptr \<times> 'a api_st_scheme) option" where
  "netconn_answered conn msg s = do {
     (_, _, s) \<leftarrow> t_sys_mbox_fetch (nc_mbox (netconn s conn)) 0 s;
     s \<leftarrow> t_memp_free T_MEMP_API_MSG msg s;
     if nc_err (netconn s conn) \<noteq> 0 then do {
       s \<leftarrow> t_memp_free T_MEMP_NETCONN conn s;
       Some (NULL, s)
     } else Some (conn, s)
   }"

definition t_netconn_new_with_proto_and_callback :: "t_netconn_type \<Rightarrow> u16 \<Rightarrow> netconn_callback
    \<Rightarrow> 'a api_st_scheme \<Rightarrow> (ptr \<times> 'a api_st_scheme) option" where
  "t_netconn_new_with_proto_and_callback t proto callback s = do {
     (r, s) \<leftarrow> netconn_request t proto callback s;
     case r of None \<Rightarrow> Some (NULL, s) | Some (conn, msg) \<Rightarrow> netconn_answered conn msg s
   }"

definition t_netconn_new :: "t_netconn_type \<Rightarrow> 'a api_st_scheme \<Rightarrow> (ptr \<times> 'a api_st_scheme) option" where
  "t_netconn_new t s = t_netconn_new_with_proto_and_callback t 0 No_callback s"

definition t_netconn_new_with_callback ::
    "t_netconn_type \<Rightarrow> netconn_callback \<Rightarrow> 'a api_st_scheme \<Rightarrow> (ptr \<times> 'a api_st_scheme) option" where
  "t_netconn_new_with_callback t callback s = t_netconn_new_with_proto_and_callback t 0 callback s"

end
