(* ===== verification/Netbuf.thy ===== *)
theory Netbuf
  imports Api
begin

text \<open>
  Received data in netbufs: copying it out, and handing a received datagram to the connection it is for.
\<close>

section \<open>Copying data out of a netbuf\<close>

lemma copy_bytes_result:
  assumes "left < len" and "accessible (payload + i) k" and "accessible (dst + unat left) (min k (unat len - unat left))"
    and "payload + i + k \<le> dst + unat left \<or> dst + unat left + min k (unat len - unat left) \<le> payload + i"
  shows "copy_bytes [i..<i + k] dst payload len left s =
    Some (unat len \<le> unat left + k, left + of_nat (min k (unat len - unat left)),
      store_bytes (dst + unat left) (load_bytes (payload + i) (min k (unat len - unat left)) s) s)"
  using assms
proof (induction k arbitrary: i left s)
  case 0
  then show ?case by (simp add: word_less_nat_alt load_bytes_def)
next
  case (Suc k)
  let ?m = "min k (unat len - unat (left + 1))"
  define d where "d = dst + unat left"
  define r where "r = unat len - unat left"
  have lt: "unat left < unat len" using Suc.prems(1) by (simp add: word_less_nat_alt)
  moreover have "unat len < 65536" using unsigned_less [of len] by simp
  ultimately have l: "unat (left + 1) = Suc (unat left)" using unat_add_small [of left 1] by simp
  have r: "unat len - unat (left + 1) = r - 1" "0 < r" using lt by (simp_all add: l r_def)
  let ?b = "mem s (payload + i)" and ?m = "min k (r - 1)"
  have m: "min (Suc k) r = Suc ?m" using r(2) by (cases r) auto
  define t where "t = store8 d ?b s"
  have acc: "accessible (payload + i) 1" "accessible d 1"
    using accessible_part [OF Suc.prems(2), of 0 1] accessible_part [OF Suc.prems(3), of 0 1] m by (simp_all add: d_def r_def)
  have lb: "load_bytes (payload + i) (Suc j) s = ?b # load_bytes (payload + Suc i) j s" for j
    by (simp add: load_bytes_def upt_conv_Cons del: upt_Suc) (simp add: map_Suc_upt [symmetric] del: upt_Suc)
  have unfold: "copy_bytes [i..<i + Suc k] dst payload len left s =
      (if len \<le> left + 1 then Some (True, left + 1, t) else copy_bytes [Suc i..<Suc i + k] dst payload len (left + 1) t)"
    using acc by (simp add: upt_conv_Cons d_def [symmetric] t_def del: upt_Suc)
  show ?case
  proof (cases "len \<le> left + 1")
    case True
    then have le: "unat len \<le> Suc (unat left)" by (simp add: word_le_nat_alt l)
    then have "r = 1" using r(2) by (simp add: r_def)
    with True le show ?thesis unfolding unfold r_def [symmetric] d_def [symmetric] m lb
      by (simp add: t_def store8_store_bytes load_bytes_def)
  next
    case False
    have disj: "payload + i + Suc k \<le> d \<or> d + Suc ?m \<le> payload + i" using Suc.prems(4) m by (simp add: d_def r_def)
    have d1: "dst + unat (left + 1) = d + 1" by (simp add: l d_def)
    have "accessible (d + 1) ?m" using accessible_part [OF Suc.prems(3), of 1 ?m] m by (simp add: d_def r_def)
    moreover have "accessible (payload + Suc i) k" using accessible_part [OF Suc.prems(2), of 1 k] by simp
    moreover have "left + 1 < len" using False by simp
    ultimately have "copy_bytes [Suc i..<Suc i + k] dst payload len (left + 1) t =
        Some (unat len \<le> Suc (unat left) + k, left + 1 + of_nat ?m, store_bytes (d + 1) (load_bytes (payload + Suc i) ?m t) t)"
      using Suc.IH [of "left + 1" "Suc i" t] disj unfolding d1 r unfolding l by auto
    moreover have "load_bytes (payload + Suc i) ?m t = load_bytes (payload + Suc i) ?m s"
      using disj by (auto simp: t_def mem_simps)
    moreover have "store_bytes (d + 1) cs t = store_bytes d (?b # cs) s" for cs
      using store_bytes_append [of 1 "[?b]" d cs s] by (simp add: t_def store8_store_bytes)
    ultimately show ?thesis using False unfolding unfold r_def [symmetric] d_def [symmetric] m lb
      by (simp add: l ac_simps)
  qed
qed

lemma chain_bytes_Cons: "chain_bytes s (q # ps) = load_bytes (pb_payload (pbuf s q)) (unat (pb_len (pbuf s q))) s @ chain_bytes s ps"
  by (simp add: chain_bytes_def)

lemma chain_bytes_store:
  assumes "\<forall>q \<in> set ps. pb_payload (pbuf s q) + unat (pb_len (pbuf s q)) \<le> d \<or> d + length bs \<le> pb_payload (pbuf s q)"
  shows "chain_bytes (store_bytes d bs s) ps = chain_bytes s ps"
  using assms by (induction ps) (auto simp: chain_bytes_def mem_simps)

lemma copy_buffers_result:
  assumes "chained (pb_link s) p ps" and "left \<le> len"
    and "\<forall>q \<in> set ps. accessible (pb_payload (pbuf s q)) (unat (pb_len (pbuf s q)))" and "accessible dst n"
    and "\<forall>q \<in> set ps. pb_payload (pbuf s q) + unat (pb_len (pbuf s q)) \<le> dst \<or> dst + n \<le> pb_payload (pbuf s q)"
    and "out = take (unat len - unat left) (drop (unat off) (chain_bytes s ps))" and "unat left + length out \<le> n"
  shows "copy_buffers p dst len off left s = Some (store_bytes (dst + unat left) out s)"
  using assms
proof (induction ps arbitrary: p left off s out)
  case Nil
  then show ?case by (subst copy_buffers.simps) (simp add: chain_bytes_def)
next
  case (Cons q ps)
  show ?case
  proof (cases "left < len")
    case False
    then have "left = len" using Cons.prems(2) by simp
    then show ?thesis using Cons.prems(6) by (subst copy_buffers.simps) simp
  next
    case True
    let ?a = "pb_payload (pbuf s q)" and ?L = "unat (pb_len (pbuf s q))" and ?r = "unat len - unat left"
    have q: "p = q" "q \<noteq> NULL" "chained (pb_link s) (pb_next (pbuf s q)) ps" using Cons.prems(1) by auto
    have lt: "unat left < unat len" using True by (simp add: word_less_nat_alt)
    have rest: "\<forall>q \<in> set ps. accessible (pb_payload (pbuf s q)) (unat (pb_len (pbuf s q)))"
      "\<forall>q \<in> set ps. pb_payload (pbuf s q) + unat (pb_len (pbuf s q)) \<le> dst \<or> dst + n \<le> pb_payload (pbuf s q)"
      using Cons.prems(3,5) by simp_all
    show ?thesis
    proof (cases "off \<noteq> 0 \<and> pb_len (pbuf s q) \<le> off")
      case skip: True
      then have "unat (off - pb_len (pbuf s q)) = unat off - ?L" by (simp add: unat_sub)
      moreover have "?L \<le> unat off" using skip by (simp add: word_le_nat_alt)
      ultimately have "out = take ?r (drop (unat (off - pb_len (pbuf s q))) (chain_bytes s ps))"
        using Cons.prems(6) by (simp add: chain_bytes_Cons)
      from Cons.IH [OF q(3) Cons.prems(2) rest(1) Cons.prems(4) rest(2) this Cons.prems(7)] show ?thesis
        using True skip q by (subst copy_buffers.simps) simp
    next
      case False
      then have off: "unat off \<le> ?L" by (auto simp: word_le_nat_alt not_le word_less_nat_alt)
      let ?k = "?L - unat off"
      have k: "[unat off..<?L] = [unat off..<unat off + ?k]" using off by simp
      let ?bs = "load_bytes (?a + unat off) (min ?k ?r) s"
      have out: "out = ?bs @ take (?r - ?k) (chain_bytes s ps)"
        unfolding Cons.prems(6) chain_bytes_Cons using off by (simp add: drop_load_bytes take_load_bytes min.commute)
      have m: "unat left + min ?k ?r \<le> n" using Cons.prems(7) out by simp
      have acc: "accessible (?a + unat off) ?k" "accessible (dst + unat left) (min ?k ?r)"
        using accessible_part [of ?a ?L "unat off" ?k] accessible_part [OF Cons.prems(4) m] Cons.prems(3) off by simp_all
      have disj: "?a + unat off + ?k \<le> dst + unat left \<or> dst + unat left + min ?k ?r \<le> ?a + unat off"
        using Cons.prems(5) off m by auto
      let ?t = "store_bytes (dst + unat left) ?bs s"
      have step: "copy_buffers p dst len off left s = (if unat len \<le> unat left + ?k then Some ?t
          else copy_buffers (pb_next (pbuf s q)) dst len 0 (left + of_nat (min ?k ?r)) ?t)"
      proof -
        have "copy_buffers p dst len off left s = Option.bind (copy_bytes [unat off..<?L] dst ?a len left s)
            (\<lambda>(done, left, s). if done then Some s else copy_buffers (pb_next (pbuf s q)) dst len 0 left s)"
          using True False q(1,2) by (subst copy_buffers.simps) auto
        then show ?thesis unfolding k copy_bytes_result [OF True acc disj] by simp
      qed
      show ?thesis
      proof (cases "unat len \<le> unat left + ?k")
        case True
        then have "out = ?bs" using out by simp
        with True show ?thesis unfolding step by simp
      next
        case more: False
        then have mk: "min ?k ?r = ?k" "unat left + ?k < unat len" by simp_all
        moreover have "unat len < 65536" using unsigned_less [of len] by simp
        ultimately have l: "unat (left + of_nat ?k) = unat left + ?k"
          using unat_add_small [of left "of_nat ?k"] by (simp add: unat_of_nat take_bit_nat_eq_self)
        have lenbs: "length ?bs = ?k" by (simp add: mk)
        have pb: "pbuf ?t = pbuf s" "pb_link ?t = pb_link s" by simp_all
        have cb: "chain_bytes ?t ps = chain_bytes s ps" using rest(2) m mk(1) by (intro chain_bytes_store) force
        let ?out = "take (unat len - unat (left + of_nat ?k)) (drop (unat (0 :: u16)) (chain_bytes ?t ps))"
        have o: "?out = take (?r - ?k) (chain_bytes s ps)" using l cb mk by simp
        have "unat (left + of_nat ?k) + length ?out \<le> n" using Cons.prems(7) out l mk lenbs unfolding o by simp
        moreover have "left + of_nat ?k \<le> len" using l mk by (simp add: word_le_nat_alt)
        ultimately have "copy_buffers (pb_next (pbuf s q)) dst len 0 (left + of_nat ?k) ?t =
            Some (store_bytes (dst + unat (left + of_nat ?k)) ?out ?t)"
          using Cons.IH [of ?t "pb_next (pbuf s q)" "left + of_nat ?k" ?out 0] q(3) rest Cons.prems(4) by simp
        moreover have "store_bytes (dst + unat (left + of_nat ?k)) ?out ?t = store_bytes (dst + unat left) out s"
        proof -
          have "out = ?bs @ ?out" unfolding o by (rule out)
          then show ?thesis unfolding l add.assoc [symmetric] store_bytes_append [OF lenbs [symmetric]] by (simp only:)
        qed
        ultimately show ?thesis using more unfolding step mk(1) by simp
      qed
    qed
  qed
qed

text \<open>C24: The data a netbuf gives out, across all its buffers and from any offset, is exactly the requested part of
  the bytes of the chain, as much of it as there is; nothing else is written.\<close>

theorem netbuf_copy_spec:
  assumes "buf \<noteq> NULL" and "dst \<noteq> NULL" and "chained (pb_link s) (nb_p (netbuf s buf)) ps"
    and "\<forall>q \<in> set ps. accessible (pb_payload (pbuf s q)) (unat (pb_len (pbuf s q)))"
    and "out = take (unat len) (drop (unat off) (chain_bytes s ps))" and "accessible dst (length out)"
    and "\<forall>q \<in> set ps. pb_payload (pbuf s q) + unat (pb_len (pbuf s q)) \<le> dst \<or> dst + length out \<le> pb_payload (pbuf s q)"
  shows "t_netbuf_copy_partial buf dst len off s = Some (store_bytes dst out s)"
  using assms copy_buffers_result [of s _ ps 0 len dst "length out" out off] by (simp add: t_netbuf_copy_partial_def)

theorem netbuf_copy_spec_witness:
  "\<exists>s'. t_netbuf_copy_partial 0x10000 0x500 3 1 (upd_netbuf 0x10000 (\<lambda>b. b\<lparr>nb_p := 0x20000\<rparr>) (odd_chain api_boot)) = Some s' \<and>
     load_bytes 0x500 3 s' = [2, 3, 4]"
proof -
  let ?s = "upd_netbuf 0x10000 (\<lambda>b. b\<lparr>nb_p := 0x20000\<rparr>) (odd_chain api_boot)"
  have c: "chained (pb_link ?s) (nb_p (netbuf ?s 0x10000)) [0x20000, 0x2060a]" by (simp add: odd_chain_def)
  have a: "\<forall>q \<in> set [0x20000, 0x2060a]. accessible (pb_payload (pbuf ?s q)) (unat (pb_len (pbuf ?s q)))"
    by (simp add: odd_chain_def accessible_def user_range_def memp_memory_def)
  have o: "[2, 3, 4] = take (unat (3 :: u16)) (drop (unat (1 :: u16)) (chain_bytes ?s [0x20000, 0x2060a]))"
    by (simp add: chain_bytes_def odd_chain_def load_bytes_def upt_rec put_bytes_apply)
  have d: "\<forall>q \<in> set [0x20000, 0x2060a]. pb_payload (pbuf ?s q) + unat (pb_len (pbuf ?s q)) \<le> 0x500 \<or>
      0x500 + length [2, 3, 4 :: u8] \<le> pb_payload (pbuf ?s q)" by (simp add: odd_chain_def)
  have w: "accessible 0x500 (length [2, 3, 4 :: u8])" by (simp add: accessible_def user_range_def memp_memory_def)
  have "t_netbuf_copy_partial 0x10000 0x500 3 1 ?s = Some (store_bytes 0x500 [2, 3, 4] ?s)"
    by (rule netbuf_copy_spec [OF _ _ c a o w d]) simp_all
  moreover have "load_bytes 0x500 3 (store_bytes 0x500 [2, 3, 4] ?s) = [2, 3, 4]" by (rule load_store_bytes_n) simp
  ultimately show ?thesis by blast
qed

section \<open>Handing a datagram to a connection\<close>

lemma recv_udp_queues:
  assumes conn: "conn \<noteq> NULL" "nc_recvmbox (netconn s conn) = q" "q \<noteq> T_SYS_MBOX_NULL" and box: "msgq s q = Some ms"
    "length ms < msgq_limit s div sizeof_ptr" and av: "memp_avail T_MEMP_NETBUF s (b # bs)" and p: "p \<noteq> NULL"
  shows "\<exists>s'. t_recv_udp conn pcb p addr port s = Some s' \<and> memp_avail T_MEMP_NETBUF s' bs \<and> memp_owned s' b \<and>
    s' = s\<lparr>memp_tab := memp_tab s', memp_next := memp_next s', now_count := now_count s + 1, msgq := (msgq s)(q \<mapsto> ms @ [b]), overruns := overruns s @ [Behind_read],
      netconn := (netconn s)(conn := (netconn s conn)\<lparr>nc_recv_avail := nc_recv_avail (netconn s conn) + pb_tot_len (pbuf s p)\<rparr>),
      netbuf := (netbuf s)(b := (netbuf s b)\<lparr>nb_p := p, nb_ptr := p, nb_fromaddr := addr, nb_fromport := port\<rparr>)\<rparr>"
proof -
  have b: "b \<noteq> NULL" "postable b" using memp.avail_objs [OF av] memp_objs_pos memp_objs_postable by auto
  from memp_malloc_next [OF av] obtain t where t: "t_memp_malloc T_MEMP_NETBUF s = (b, t)" "memp_avail T_MEMP_NETBUF t bs"
    "memp_owned t b" "t = s\<lparr>memp_tab := memp_tab t, memp_next := memp_next t, now_count := now_count s + 1\<rparr>" by blast
  have tf: "msgq t = msgq s" "msgq_limit t = msgq_limit s" "netbuf t = netbuf s" "netconn t = netconn s" "pbuf t = pbuf s" "overruns t = overruns s"
    by (subst t(4), simp)+
  define u where "u = t\<lparr>netconn := (netconn s)(conn := (netconn s conn)\<lparr>nc_recv_avail := nc_recv_avail (netconn s conn) + pb_tot_len (pbuf s p)\<rparr>),
      netbuf := (netbuf s)(b := (netbuf s b)\<lparr>nb_p := p, nb_ptr := p, nb_fromaddr := addr, nb_fromport := port\<rparr>)\<rparr>"
  let ?s = "u\<lparr>msgq := (msgq u)(q \<mapsto> ms @ [b]), overruns := overruns u @ [Behind_read]\<rparr>"
  have uf: "msgq u q = Some ms" "length ms < msgq_limit u div sizeof_ptr" "nc_recvmbox (netconn u conn) = q"
    using box conn(2) by (simp_all add: u_def tf)
  have cb: "(case c of No_callback \<Rightarrow> w | Event_callback \<Rightarrow> event_callback x e l w) = w" for c x e l and w :: "'a api_st_scheme"
    by (cases c) (simp_all add: event_callback_def)
  have "upd_conn conn (\<lambda>c. c\<lparr>nc_recv_avail := nc_recv_avail c + pb_tot_len (pbuf (upd_netbuf b (\<lambda>b. b\<lparr>nb_p := p, nb_ptr := p, nb_fromaddr := addr, nb_fromport := port\<rparr>) t) p)\<rparr>)
      (upd_netbuf b (\<lambda>b. b\<lparr>nb_p := p, nb_ptr := p, nb_fromaddr := addr, nb_fromport := port\<rparr>) t) = u"
    unfolding u_def by (rule api_st.equality) (simp_all add: tf)
  then have "t_recv_udp conn pcb p addr port s = Some ?s"
    using conn b(1) p mbox_post_result [OF conn(3) uf(1) b(2)] uf(2,3)
    unfolding t_recv_udp_def Let_def t(1) prod.case cb by simp
  moreover have "memp_avail T_MEMP_NETBUF ?s bs" "memp_owned ?s b"
    using t(2,3) by (simp_all add: memp_avail_def memp_owned_def u_def)
  moreover have "?s = s\<lparr>memp_tab := memp_tab ?s, memp_next := memp_next ?s, now_count := now_count s + 1, msgq := (msgq s)(q \<mapsto> ms @ [b]), overruns := overruns s @ [Behind_read],
      netconn := (netconn s)(conn := (netconn s conn)\<lparr>nc_recv_avail := nc_recv_avail (netconn s conn) + pb_tot_len (pbuf s p)\<rparr>),
      netbuf := (netbuf s)(b := (netbuf s b)\<lparr>nb_p := p, nb_ptr := p, nb_fromaddr := addr, nb_fromport := port\<rparr>)\<rparr>"
    unfolding u_def by (subst (1) t(4)) (rule api_st.equality, simp_all add: tf)
  ultimately show ?thesis by blast
qed

end
