(* ===== verification/Sockets.thy ===== *)
theory Sockets
  imports Netbuf
begin

text \<open>
  \<^verbatim>\<open>api/t_sockets.c\<close>: the table of sockets and the socket functions on top of the connections.
\<close>

section \<open>State\<close>

record t_lwip_socket_entry =
  so_conn :: ptr
  so_lastdata :: ptr
  so_lastoffset :: u16
  so_rcvevent :: u16
  so_sendevent :: u16
  so_flags :: u16
  so_err :: int

definition NUM_SOCKETS :: nat where "NUM_SOCKETS = memp_num T_MEMP_NETCONN"

text \<open>\<open>stale_err\<close> is the value of the variable that \<^verbatim>\<open>t_lwip_send\<close> tests without having set it.\<close>

record sock_st = api_st +
  sockets :: "t_lwip_socket_entry list"
  socksem :: ptr
  stale_err :: int

definition socket_zeroed :: t_lwip_socket_entry where
  "socket_zeroed = \<lparr>so_conn = NULL, so_lastdata = NULL, so_lastoffset = 0, so_rcvevent = 0, so_sendevent = 0,
     so_flags = 0, so_err = 0\<rparr>"

definition sock_boot :: sock_st where
  "sock_boot = api_st.extend api_boot
     \<lparr>sockets = replicate NUM_SOCKETS socket_zeroed, socksem = T_SYS_SEM_NULL, stale_err = 0\<rparr>"

section \<open>The table\<close>

text \<open>A socket is the address of an element of the table: its index, which may be the one behind the last.\<close>

definition t_get_socket :: "int \<Rightarrow> nat option" where
  "t_get_socket s = (if s < 0 \<or> s > int NUM_SOCKETS then None else Some (nat s))"

text \<open>Reading an element is defined inside the table only.\<close>

definition read_socket :: "nat \<Rightarrow> 'a sock_st_scheme \<Rightarrow> t_lwip_socket_entry option" where
  "read_socket i s = (if i < NUM_SOCKETS \<and> i < length (sockets s) then Some (sockets s ! i) else None)"

fun alloc_loop :: "nat list \<Rightarrow> ptr \<Rightarrow> 'a sock_st_scheme \<Rightarrow> (int \<times> 'a sock_st_scheme) option" where
  "alloc_loop [] newconn s = Some (-1, s)"
| "alloc_loop (i # is) newconn s = do {
     b \<leftarrow> read_socket i s;
     if so_conn b = NULL then
       Some (int i, s\<lparr>sockets := (sockets s)[i := b\<lparr>so_conn := newconn, so_lastdata := NULL, so_lastoffset := 0,
         so_rcvevent := 0, so_sendevent := 1, so_flags := 0, so_err := 0\<rparr>]\<rparr>)
     else alloc_loop is newconn s
   }"

definition t_alloc_socket :: "ptr \<Rightarrow> 'a sock_st_scheme \<Rightarrow> (int \<times> 'a sock_st_scheme) option" where
  "t_alloc_socket newconn s = do {
     let s = (if socksem s = NULL then let (m, s) = t_sys_sem_new 1 s in s\<lparr>socksem := m\<rparr> else s);
     s \<leftarrow> t_sys_sem_wait (socksem s) s;
     (i, s) \<leftarrow> alloc_loop [0..<NUM_SOCKETS] newconn s;
     s \<leftarrow> t_sys_sem_signal (socksem s) s;
     Some (i, s)
   }"

section \<open>Operations\<close>

definition t_netconn_delete :: "ptr \<Rightarrow> 'a sock_st_scheme \<Rightarrow> int \<times> 'a sock_st_scheme" where
  "t_netconn_delete conn s = (0, s)"

text \<open>The address and the port are not set.\<close>

definition t_netconn_peer :: "ptr \<Rightarrow> ptr \<Rightarrow> ptr \<Rightarrow> 'a sock_st_scheme \<Rightarrow> int option" where
  "t_netconn_peer conn addr port s = do {
     defined (conn \<noteq> NULL);
     case nc_type (netconn s conn) of T_NETCONN_UDP \<Rightarrow> Some (if nc_err (netconn s conn) = 0 then 1 else 0)
   }"

definition t_netconn_connect :: "ptr \<Rightarrow> ptr \<Rightarrow> u16 \<Rightarrow> 'a sock_st_scheme \<Rightarrow> (int \<times> 'a sock_st_scheme) option" where
  "t_netconn_connect conn addr port s =
     (if conn = NULL then Some (-1, s)
      else
        let (ok, s) = (if nc_recvmbox (netconn s conn) = T_SYS_MBOX_NULL then
                         let (q, s) = t_sys_mbox_new 0xff s
                         in (q \<noteq> T_SYS_MBOX_NULL, upd_conn conn (\<lambda>c. c\<lparr>nc_recvmbox := q\<rparr>) s)
                       else (True, s))
        in if \<not> ok then Some (-1, s)
           else
             let (msg, s) = t_memp_malloc T_MEMP_API_MSG s
             in if msg = NULL then Some (-1, s)
                else do {
                  let s = upd_msg msg (\<lambda>m. m\<lparr>am_type := T_API_MSG_CONNECT, am_conn := conn, am_ipaddr := addr, am_port := port\<rparr>) s;
                  s \<leftarrow> t_api_msg_post msg s;
                  (_, _, s) \<leftarrow> t_sys_mbox_fetch (nc_mbox (netconn s conn)) 0 s;
                  s \<leftarrow> t_memp_free T_MEMP_API_MSG msg s;
                  Some (nc_err (netconn s conn), s)
                })"

definition t_lwip_send :: "int \<Rightarrow> ptr \<Rightarrow> int \<Rightarrow> u32 \<Rightarrow> 'a sock_st_scheme \<Rightarrow> (int \<times> 'a sock_st_scheme) option" where
  "t_lwip_send s data sz flags st =
     (case t_get_socket s of
        None \<Rightarrow> Some (-1, st)
      | Some i \<Rightarrow> do {
          sock \<leftarrow> read_socket i st;
          defined (so_conn sock \<noteq> NULL);
          case nc_type (netconn st (so_conn sock)) of
            T_NETCONN_UDP \<Rightarrow>
              (let (buf, st) = t_netbuf_new st
               in if buf = NULL then Some (-1, st)
                  else do {
                    st \<leftarrow> t_netbuf_ref buf data (of_int sz) st;
                    st \<leftarrow> t_netbuf_delete buf st;
                    Some (if stale_err st \<noteq> 0 then -1 else sz, st)
                  })
        })"

text \<open>\<open>to_addr\<close> and \<open>to_port\<close> are the fields of the address the caller passes; \<open>remote_addr\<close> is where the local
  variable is to which the address is copied.\<close>

definition t_lwip_sendto :: "ptr \<Rightarrow> int \<Rightarrow> ptr \<Rightarrow> int \<Rightarrow> u32 \<Rightarrow> u32 \<Rightarrow> u16 \<Rightarrow> 'a sock_st_scheme
    \<Rightarrow> (int \<times> 'a sock_st_scheme) option" where
  "t_lwip_sendto remote_addr s data sz flags to_addr to_port st =
     (case t_get_socket s of
        None \<Rightarrow> Some (-1, st)
      | Some i \<Rightarrow> do {
          let st = store32 remote_addr to_addr st;
          sock \<leftarrow> read_socket i st;
          (_, st) \<leftarrow> t_netconn_connect (so_conn sock) remote_addr (htons to_port) st;
          t_lwip_send s data sz flags st
        })"

definition SOCK_DGRAM :: int where "SOCK_DGRAM = 2"

definition t_lwip_socket :: "int \<Rightarrow> int \<Rightarrow> int \<Rightarrow> 'a sock_st_scheme \<Rightarrow> (int \<times> 'a sock_st_scheme) option" where
  "t_lwip_socket domain type protocol s = do {
     (netcon, s) \<leftarrow> (if type = SOCK_DGRAM then t_netconn_new_with_callback T_NETCONN_UDP Event_callback s
                      else Some (NULL, s));
     if netcon = NULL then Some (-1, s)
     else do {
       (i, s) \<leftarrow> t_alloc_socket netcon s;
       if i = -1 then let (_, s) = t_netconn_delete netcon s in Some (i, s)
       else Some (i, upd_conn netcon (\<lambda>c. c\<lparr>nc_socket := i\<rparr>) s)
     }
   }"

section \<open>Properties\<close>

definition new_socket :: "ptr \<Rightarrow> t_lwip_socket_entry" where
  "new_socket c = \<lparr>so_conn = c, so_lastdata = NULL, so_lastoffset = 0, so_rcvevent = 0, so_sendevent = 1, so_flags = 0, so_err = 0\<rparr>"

definition free_socket :: "'a sock_st_scheme \<Rightarrow> nat \<Rightarrow> bool" where
  "free_socket s i \<longleftrightarrow> so_conn (sockets s ! i) = NULL"

lemma new_socket_filled:
  "b\<lparr>so_conn := c, so_lastdata := NULL, so_lastoffset := 0, so_rcvevent := 0, so_sendevent := 1, so_flags := 0, so_err := 0\<rparr> =
    new_socket c"
  by (cases b) (simp add: new_socket_def)

lemma alloc_loop_result:
  assumes "length (sockets s) = NUM_SOCKETS" and "\<forall>i \<in> set is. i < NUM_SOCKETS"
  shows "alloc_loop is c s = Some (case find (free_socket s) is of None \<Rightarrow> (-1, s)
    | Some i \<Rightarrow> (int i, s\<lparr>sockets := (sockets s)[i := new_socket c]\<rparr>))"
  using assms
proof (induction "is")
  case (Cons i "is")
  then show ?case by (simp add: read_socket_def free_socket_def new_socket_filled)
qed simp

text \<open>The first free element of the table is taken and filled; when there is none, the table stays as it is.  The
  semaphore that protects the table is free again afterwards.\<close>

theorem alloc_socket_spec:
  assumes len: "length (sockets s) = NUM_SOCKETS"
    and sem: "if socksem s = NULL then 0 \<le> semcount s \<and> semcount s < SEM_MAXCOUNT else 0 < sem_value s (socksem s)"
  shows "\<exists>i s'. t_alloc_socket c s = Some (i, s') \<and> socksem s' \<noteq> NULL \<and> 0 < sem_value s' (socksem s') \<and>
    (case find (free_socket s) [0..<NUM_SOCKETS] of
       None \<Rightarrow> i = -1 \<and> sockets s' = sockets s
     | Some k \<Rightarrow> i = int k \<and> so_conn (sockets s ! k) = NULL \<and> sockets s' = (sockets s)[k := new_socket c])"
proof -
  define t where "t = (if socksem s = NULL then let (m, s) = t_sys_sem_new 1 s in s\<lparr>socksem := m\<rparr> else s)"
  have t: "socksem t \<noteq> NULL" "0 < sem_value t (socksem t)" "sockets t = sockets s"
    using sem by (simp_all add: t_def t_sys_sem_new_def SEM_MAXCOUNT_def semlist_def Let_def split: if_splits)
  define u where "u = t\<lparr>sem_value := (sem_value t)(socksem t := sem_value t (socksem t) - 1)\<rparr>"
  have u: "t_sys_sem_wait (socksem t) t = Some u" "socksem u = socksem t" "sockets u = sockets s"
    "0 \<le> sem_value u (socksem t)"
    using t by (simp_all add: t_sys_sem_wait_def u_def)
  have fs: "free_socket u = free_socket s" by (simp add: free_socket_def fun_eq_iff u)
  have "alloc_loop [0..<NUM_SOCKETS] c u = Some (case find (free_socket s) [0..<NUM_SOCKETS] of None \<Rightarrow> (-1, u)
    | Some i \<Rightarrow> (int i, u\<lparr>sockets := (sockets s)[i := new_socket c]\<rparr>))"
    using alloc_loop_result [of u "[0..<NUM_SOCKETS]" c] len u(3) by (auto simp: fs split: option.splits)
  then have run: "t_alloc_socket c s = Option.bind
      (Some (case find (free_socket s) [0..<NUM_SOCKETS] of None \<Rightarrow> (-1, u)
        | Some i \<Rightarrow> (int i, u\<lparr>sockets := (sockets s)[i := new_socket c]\<rparr>)))
      (\<lambda>(i, s). Option.bind (t_sys_sem_signal (socksem s) s) (\<lambda>s. Some (i, s)))"
    using u(1) unfolding t_alloc_socket_def Let_def t_def [unfolded Let_def, symmetric] by simp
  show ?thesis
  proof (cases "find (free_socket s) [0..<NUM_SOCKETS]")
    case None
    with t u show ?thesis unfolding run by (simp add: t_sys_sem_signal_def)
  next
    case (Some k)
    then have "so_conn (sockets s ! k) = NULL" by (auto simp: find_Some_iff free_socket_def)
    with Some t u show ?thesis unfolding run by (simp add: t_sys_sem_signal_def)
  qed
qed

text \<open>C32: No descriptor ever sends anything.  The one behind the table passes the check and is read outside it; a
  socket without a connection is read through the null pointer; and for a datagram socket the buffer for
  the data is never allocated, because its kind is not one the allocator knows, and is used all the same.\<close>

theorem lwip_send_fails:
  assumes "length (sockets s) = NUM_SOCKETS" and "memp_avail T_MEMP_NETBUF s bs"
  shows "t_lwip_send fd data sz flags s =
    (if fd < 0 \<or> int NUM_SOCKETS < fd then Some (-1, s)
     else if fd = int NUM_SOCKETS \<or> so_conn (sockets s ! nat fd) = NULL then None
     else if bs = [] then Some (-1, s) else None)"
proof (cases "fd < 0 \<or> int NUM_SOCKETS < fd \<or> fd = int NUM_SOCKETS \<or> so_conn (sockets s ! nat fd) = NULL")
  case True
  with assms show ?thesis by (auto simp: t_lwip_send_def t_get_socket_def read_socket_def)
next
  case False
  then have "t_get_socket fd = Some (nat fd)" "read_socket (nat fd) s = Some (sockets s ! nat fd)" "so_conn (sockets s ! nat fd) \<noteq> NULL"
    using assms(1) by (auto simp: t_get_socket_def read_socket_def nat_less_iff)
  then have run: "t_lwip_send fd data sz flags s = (let (buf, s) = t_netbuf_new s in
      if buf = NULL then Some (-1, s) else Option.bind (t_netbuf_ref buf data (of_int sz) s)
        (\<lambda>s. Option.bind (t_netbuf_delete buf s) (\<lambda>s. Some (if stale_err s \<noteq> 0 then -1 else sz, s))))"
    by (cases "nc_type (netconn s (so_conn (sockets s ! nat fd)))") (simp add: t_lwip_send_def)
  show ?thesis
  proof (cases bs)
    case Nil
    with assms(2) have "t_netbuf_new s = (NULL, s)" by (simp add: t_netbuf_new_def memp_malloc_empty)
    with False Nil show ?thesis unfolding run by auto
  next
    case (Cons b cs)
    with memp_malloc_next [of T_MEMP_NETBUF s b cs] assms(2) obtain t where t: "t_memp_malloc T_MEMP_NETBUF s = (b, t)" by blast
    have b: "b \<noteq> NULL" using memp.avail_objs [OF assms(2)] memp_objs_pos Cons by auto
    have "t_netbuf_ref b data n (upd_netbuf b (\<lambda>b. b\<lparr>nb_p := NULL, nb_ptr := NULL\<rparr>) t) = None" for n
      using b by (simp add: t_netbuf_ref_def netbuf_release_def t_pbuf_alloc_def T_PBUF_TRANSPORT_def T_PBUF_REF_def
          T_PBUF_FLAG_POOL_def T_PBUF_BUFSIZE_def)
    then have "t_lwip_send fd data sz flags s = None" unfolding run using t b by (simp add: t_netbuf_new_def)
    with False Cons show ?thesis by auto
  qed
qed

lemma sock_boot_facts: "length (sockets sock_boot) = NUM_SOCKETS" "socksem sock_boot = NULL" "semcount sock_boot = 0"
  "sockets sock_boot = replicate 4 socket_zeroed"
  by (simp_all add: sock_boot_def api_st.defs api_boot_def tcpip_st.defs tcpip_boot_def sys_st.defs sys_boot_def tcp_st.defs NUM_SOCKETS_def
      T_SYS_SEM_NULL_def)

theorem alloc_socket_spec_witness:
  "\<exists>s'. t_alloc_socket 0x700 sock_boot = Some (0, s') \<and> sockets s' = new_socket 0x700 # replicate 3 socket_zeroed"
proof -
  have "find (free_socket sock_boot) [0..<NUM_SOCKETS] = Some 0"
    by (simp add: NUM_SOCKETS_def upt_conv_Cons free_socket_def sock_boot_facts socket_zeroed_def)
  with alloc_socket_spec [OF sock_boot_facts(1), of "0x700"] sock_boot_facts(2-4) show ?thesis
    by (auto simp: SEM_MAXCOUNT_def numeral_eq_Suc)
qed

theorem lwip_send_fails_witness:
  "t_lwip_send 4 0x100 10 0 (t_memp_init sock_boot) = None \<and> t_lwip_send 5 0x100 10 0 (t_memp_init sock_boot) = Some (-1, t_memp_init sock_boot)"
proof -
  obtain b bs where av: "memp_avail T_MEMP_NETBUF (t_memp_init sock_boot) (b # bs)" using memp_avail_fresh by blast
  have "sockets (t_memp_init sock_boot) = sockets sock_boot" by (subst memp_init_frame) simp
  then have "length (sockets (t_memp_init sock_boot)) = NUM_SOCKETS" using sock_boot_facts(1) by simp
  from lwip_send_fails [OF this av] show ?thesis by (simp add: NUM_SOCKETS_def)
qed

end
