(* ===== verification/Device.thy ===== *)
theory Device
  imports Sockets Tcp_Handshake
begin

text \<open>
  \<^verbatim>\<open>user/s_main.c\<close>, \<^verbatim>\<open>port/for_linux.c\<close>: the program around the stack.  The device of \<^verbatim>\<open>libpcap\<close> is a
  parameter: whether it can be opened, and what it delivers; what it is given to send is recorded.
\<close>

section \<open>State\<close>

text \<open>The values of the receive callback of the device and of its handle.\<close>

datatype recv_callback = No_recv_callback | Ether0_recv_data

record dev_st = sock_st +
  recv_cb :: recv_callback
  handle_open :: bool
  dev_ip :: u32
  dev_mask :: u32
  dev_gw :: u32

definition netif0 :: ptr where "netif0 = 0x300"

definition dev_boot :: dev_st where
  "dev_boot = sock_st.extend sock_boot \<lparr>recv_cb = No_recv_callback, handle_open = False, dev_ip = 0, dev_mask = 0, dev_gw = 0\<rparr>"

section \<open>Receiving\<close>

text \<open>The file of recorded frames is never opened.\<close>

definition ether0_recv_data :: "ptr \<Rightarrow> int \<Rightarrow> 'a tcpip_st_scheme \<Rightarrow> 'a tcpip_st_scheme option" where
  "ether0_recv_data data len s = do {
     (p, s) \<leftarrow> t_pbuf_alloc 0 (of_int len) T_PBUF_FLAG_POOL s;
     if p = NULL then Some s
     else do {
       (_, s) \<leftarrow> t_pbuf_copy_data p data len s;
       (_, s) \<leftarrow> t_tcpip_input p netif0 s;
       Some s
     }
   }"

definition pcap_recv_callback :: "ptr \<Rightarrow> int \<Rightarrow> 'a dev_st_scheme \<Rightarrow> 'a dev_st_scheme option" where
  "pcap_recv_callback pkt_data len s =
     (case recv_cb s of No_recv_callback \<Rightarrow> Some s | Ether0_recv_data \<Rightarrow> ether0_recv_data pkt_data len s)"

text \<open>What one call of \<^verbatim>\<open>pcap_dispatch\<close> does: it has the callback handle the packet whose captured bytes it has put
  at an address of its own, it runs out of time, or it fails.  The number of a packet is its length on the wire, which is
  larger than that of its bytes when the capture was cut short; the callback is then given the larger one and reads the
  bytes that follow the packet in memory.\<close>

datatype pcap_event = Packet ptr "u8 list" int | Pcap_timeout | Pcap_error

fun pcap_recv_thread :: "pcap_event list \<Rightarrow> 'a dev_st_scheme \<Rightarrow> 'a dev_st_scheme option" where
  "pcap_recv_thread [] s = Some s"
| "pcap_recv_thread (Packet a bs len # evs) s =
     Option.bind (pcap_recv_callback a len (store_bytes a bs s)) (pcap_recv_thread evs)"
| "pcap_recv_thread (Pcap_timeout # evs) s = pcap_recv_thread evs s"
| "pcap_recv_thread (Pcap_error # evs) s = Some s"

text \<open>The receive function that the program installs in its UDP block prints the data.\<close>

definition udp_recv_data :: "ptr \<Rightarrow> ptr \<Rightarrow> ptr \<Rightarrow> ptr \<Rightarrow> u16 \<Rightarrow> 'a udp_st_scheme \<Rightarrow> 'a udp_st_scheme option" where
  "udp_recv_data arg upcb p addr port s = do {
     defined (p \<noteq> NULL);
     let udphdr = pb_payload (pbuf s p);
     (_, s) \<leftarrow> t_pbuf_header p (int T_UDP_HLEN) s;
     let buf = pb_payload (pbuf s p);
     defined (accessible (udp_len udphdr) 2);
     let len = htons (load16 (udp_len udphdr) s) - of_nat T_UDP_HLEN;
     defined (accessible buf (unat len));
     Some s
   }"

text \<open>The indirect call \<^verbatim>\<open>pcb->recv(...)\<close>.\<close>

definition call_udp_recv ::
    "udp_recv \<Rightarrow> ptr \<Rightarrow> ptr \<Rightarrow> ptr \<Rightarrow> ptr \<Rightarrow> u16 \<Rightarrow> 'a api_st_scheme \<Rightarrow> 'a api_st_scheme option" where
  "call_udp_recv r arg pcb p addr port s = (case r of
     No_udp_recv \<Rightarrow> None
   | Udp_recv_data \<Rightarrow> udp_recv_data arg pcb p addr port s
   | T_recv_udp \<Rightarrow> t_recv_udp arg pcb p addr port s)"

section \<open>Starting\<close>

definition linux_set_recv_callback :: "recv_callback \<Rightarrow> 'a dev_st_scheme \<Rightarrow> int \<times> 'a dev_st_scheme" where
  "linux_set_recv_callback callback s = (0, s\<lparr>recv_cb := callback\<rparr>)"

text \<open>\<open>opened\<close> is whether the device can be opened, \<open>created\<close> whether the thread can be started.\<close>

definition linux_ether_init :: "bool \<Rightarrow> bool \<Rightarrow> 'a dev_st_scheme \<Rightarrow> int \<times> 'a dev_st_scheme" where
  "linux_ether_init opened created s =
     (let s = s\<lparr>handle_open := opened\<rparr>
      in if \<not> opened then (0, s)
         else if created then (0, s\<lparr>threads := threads s @ [Pcap_recv_thread]\<rparr>) else (0, s))"

definition etherif0_init :: "bool \<Rightarrow> bool \<Rightarrow> ptr \<Rightarrow> 'a dev_st_scheme \<Rightarrow> (int \<times> 'a dev_st_scheme) option" where
  "etherif0_init opened created n s = (let (_, s) = linux_ether_init opened created s in Some (0, s))"

text \<open>\<open>mac\<close> is the address of the local array.\<close>

definition ether_init :: "ptr \<Rightarrow> bool \<Rightarrow> bool \<Rightarrow> 'a dev_st_scheme \<Rightarrow> 'a dev_st_scheme option" where
  "ether_init mac opened created s = do {
     let s = s\<lparr>dev_ip := 0x7001A8C0, dev_mask := 0x00FFFFFF, dev_gw := 0x0101A8C0\<rparr>;
     let s = store_bytes mac [0xb0, 0x6e, 0xbf, 0x37, 0x50, 0xb0] s;
     (_, s) \<leftarrow> t_netif_set_mac netif0 mac s;
     (_, s) \<leftarrow> t_netif_set_addr netif0 (dev_ip s) (dev_mask s) (dev_gw s) s;
     let (_, s) = linux_set_recv_callback Ether0_recv_data s;
     (_, s) \<leftarrow> t_netif_add netif0 (etherif0_init opened created) Output_ether0 s;
     Some s
   }"

text \<open>The first part of \<^verbatim>\<open>main\<close>.\<close>

definition main_init :: "ptr \<Rightarrow> bool \<Rightarrow> bool \<Rightarrow> bool \<Rightarrow> 'a dev_st_scheme \<Rightarrow> 'a dev_st_scheme option" where
  "main_init mac task opened created s = do {
     let s = t_pbuf_init s;
     let s = t_memp_init s;
     let (_, s) = t_tcpip_init task s;
     let s = t_arp_init s;
     let (_, s) = t_udp_init s;
     let (_, s) = t_tcp_init s;
     ether_init mac opened created s
   }"

section \<open>The commands\<close>

text \<open>While the program sleeps the other threads run: \<open>idle\<close>.\<close>

definition udp_test :: "('a dev_st_scheme \<Rightarrow> 'a dev_st_scheme option) \<Rightarrow> u32 \<Rightarrow> 'a dev_st_scheme \<Rightarrow> 'a dev_st_scheme option" where
  "udp_test idle count s =
     (let (udp, s) = t_udp_new s
      in if udp \<noteq> NULL then do {
           (_, s) \<leftarrow> t_udp_bind udp (Some (dev_ip s)) (ucast (3307 + count)) s;
           (_, s) \<leftarrow> t_udp_connect udp (Some 0x6501A8C0) 8837 s;
           s \<leftarrow> t_set_udp_recv udp Udp_recv_data NULL s;
           (p, s) \<leftarrow> t_pbuf_alloc 42 10 T_PBUF_FLAG_POOL s;
           defined (p \<noteq> NULL \<and> accessible (pb_payload (pbuf s p)) 10);
           let s = store_bytes (pb_payload (pbuf s p)) [0x31, 0x32, 0x33, 0x34, 0x35, 0x36, 0x37, 0x38, 0x39, 0x30] s;
           (_, s) \<leftarrow> t_udp_send udp p s;
           s \<leftarrow> idle s;
           t_udp_remove udp s
         } else Some s)"

definition tcp_test :: "('a dev_st_scheme \<Rightarrow> 'a dev_st_scheme option) \<Rightarrow> 'a dev_st_scheme \<Rightarrow> 'a dev_st_scheme option" where
  "tcp_test idle s = do {
     let (tcp, s) = t_tcp_new s;
     (_, s) \<leftarrow> t_tcp_connect tcp 0x6501A8C0 8837 Tcp_connected s;
     s \<leftarrow> idle s;
     s \<leftarrow> tcp_keepalive tcp s;
     s \<leftarrow> idle s;
     tcp_keepalive tcp s
   }"

text \<open>The loop of \<^verbatim>\<open>main\<close> over the characters read; the flag tells that the program exits.\<close>

fun main_loop :: "('a dev_st_scheme \<Rightarrow> 'a dev_st_scheme option) \<Rightarrow> int list \<Rightarrow> u32 \<Rightarrow> 'a dev_st_scheme
    \<Rightarrow> (bool \<times> 'a dev_st_scheme) option" where
  "main_loop idle [] count s = Some (False, s)"
| "main_loop idle (c # cs) count s =
     (if c = 32 then Some (True, s)
      else if c = 0x31 then Option.bind (udp_test idle (count + 1) s) (main_loop idle cs (count + 1))
      else if c = 0x32 then Option.bind (tcp_test idle s) (main_loop idle cs count)
      else main_loop idle cs count s)"

end
