(* ===== verification/Wire.thy ===== *)
theory Wire
  imports Device
begin

text \<open>
  The program as a whole: the start establishes what the stack needs, and a frame that the device delivers
  goes through the mailbox and the thread of the stack to its answer.
\<close>

section \<open>From the wire to the wire\<close>

text \<open>The header of a parsed packet as the stack reads it in a buffer.\<close>

lemma ip_parse_head:
  assumes "ip_parse (load_bytes f l s) = Some (src, dst, ttl, tos, proto, body)"
  shows "34 \<le> l" "eth_type f s = T_IPV4_FRAME_TYPE" "T_IPH_V (f + 14) s = 4" "T_IPH_HL (f + 14) s = 5"
    "T_IPH_PROTO (f + 14) s = ucast proto" "T_IPH_TTL (f + 14) s = ucast ttl" "load32 (f + 14 + 12) s = src"
    "load32 (f + 14 + 16) s = dst" "load_bytes (f + 34) (l - 34) s = body"
proof -
  let ?h = "take 20 (drop 14 (load_bytes f l s))"
  have A: "34 \<le> l" "take 2 (drop 12 (load_bytes f l s)) = be16 0x800" "?h ! 0 = 0x45"
    "u32_of (?h ! 12) (?h ! 13) (?h ! 14) (?h ! 15) = src" "u32_of (?h ! 16) (?h ! 17) (?h ! 18) (?h ! 19) = dst"
    "?h ! 8 = ttl" "?h ! 9 = proto" "drop 34 (load_bytes f l s) = body"
    using assms by (simp_all add: ip_parse_def Let_def split: if_splits)
  show "34 \<le> l" by (rule A)
  have h: "?h ! k = mem s (f + 14 + k)" if "k < 20" for k
    using that A(1) by (simp add: add.assoc)
  have m: "mem s (f + 14) = 0x45" "mem s (f + 14 + 9) = proto" "mem s (f + 14 + 8) = ttl"
    using A(3,6,7) h [of 0] h [of 8] h [of 9] by simp_all
  show "T_IPH_HL (f + 14) s = 5" by (simp add: T_IPH_HL_def load16_def htons_u16_of high_byte m)
  have "drop_bit 12 w = drop_bit 4 (drop_bit 8 w)" for w :: u16 by simp
  then show "T_IPH_V (f + 14) s = 4" by (simp only: T_IPH_V_def) (simp add: load16_def htons_u16_of high_byte m)
  show "T_IPH_PROTO (f + 14) s = ucast proto" "T_IPH_TTL (f + 14) s = ucast ttl"
    using m(2,3) by (simp_all add: T_IPH_PROTO_def T_IPH_TTL_def load16_def htons_u16_of low_byte high_byte add.commute)
  show "load32 (f + 14 + 12) s = src" "load32 (f + 14 + 16) s = dst"
  proof -
    define bs where "bs = load_bytes f l s"
    have "length bs = l" by (simp add: bs_def)
    moreover have "load_bytes (f + 26) 4 s = take 4 (drop 26 bs)" "load_bytes (f + 30) 4 s = take 4 (drop 30 bs)"
      using A(1) by (simp_all only: bs_def load_bytes_sub)
    moreover have "f + 14 + 12 = f + 26" "f + 14 + 16 = f + 30" by simp_all
    ultimately show "load32 (f + 14 + 12) s = src" "load32 (f + 14 + 16) s = dst"
      using A(1,4,5) unfolding bs_def [symmetric] by (simp_all only: load32_load_bytes) simp_all
  qed
  have "load_bytes (f + 12) 2 s = be16 0x800" using A(1,2) load_bytes_sub [of 12 2 l f s] by simp
  moreover have "byte_of 1 (0x800 :: u16) = 8" "byte_of 0 (0x800 :: u16) = 0"
    by (simp_all add: byte_of_def unsigned_ucast_eq ucast_eq)
  ultimately have "load16 (f + 12) s = u16_of 8 0" by (simp only: load16_load_bytes) (simp add: be16_def)
  then show "eth_type f s = T_IPV4_FRAME_TYPE" by (simp only: eth_type_def htons_u16_of T_IPV4_FRAME_TYPE_def) (simp add: u16_of_def)
  show "load_bytes (f + 34) (l - 34) s = body" using A(1,8) drop_load_bytes [of 34 l f s] by simp
qed

text \<open>The stack waits for frames: its mailbox is empty, its pools are not, and its interface can send.\<close>

definition stack_idle :: "ptr list \<Rightarrow> ptr list \<Rightarrow> 'a tcpip_st_scheme \<Rightarrow> bool" where
  "stack_idle xs ms s \<longleftrightarrow> tcpip_mbox s \<noteq> T_SYS_MBOX_NULL \<and> msgq s (tcpip_mbox s) = Some [] \<and> sizeof_ptr \<le> msgq_limit s \<and>
     pbuf_avail s xs \<and> memp_avail T_MEMP_TCPIP_MSG s ms \<and> netif_up s netif0"

lemma frame_received:
  assumes idle: "stack_idle (x # xs) (m # ms) s" and bs: "14 \<le> l" "l \<le> T_PBUF_BUFSIZE" "accessible data l"
  shows "\<exists>s'. ether0_recv_data data (int l) s = Some s' \<and> frame_in x (x + sizeof_t_pbuf) l xs s' \<and>
    load_bytes (x + sizeof_t_pbuf) l s' = load_bytes data l s \<and> memp_avail T_MEMP_TCPIP_MSG s' ms \<and> memp_owned s' m \<and>
    (\<forall>y. y < x + sizeof_t_pbuf \<or> x + pbuf_slot \<le> y \<longrightarrow> mem s' y = mem s y) \<and>
    s' = s\<lparr>mem := mem s', pbuf := pbuf s', pbuf_pool := pbuf_pool s', memp_tab := memp_tab s', memp_next := memp_next s',
      now_count := now_count s + 1, msgq := (msgq s)(tcpip_mbox s \<mapsto> [m]), overruns := overruns s @ [Behind_read],
      tcpip_msg := (tcpip_msg s)(m := \<lparr>tm_type = T_TCPIP_MSG_INPUT, tm_msg = Inp x netif0\<rparr>)\<rparr>"
proof -
  have I: "tcpip_mbox s \<noteq> T_SYS_MBOX_NULL" "msgq s (tcpip_mbox s) = Some []" "sizeof_ptr \<le> msgq_limit s"
    "pbuf_avail s (x # xs)" "memp_avail T_MEMP_TCPIP_MSG s (m # ms)" using idle by (simp_all add: stack_idle_def)
  note x = pbuf_avail_head [OF I(4)]
  have l16: "unat (of_nat l :: u16) = l" using bs(2) by (intro unat_of_nat_lt) (simp add: T_PBUF_BUFSIZE_def)
  then have adm: "alloc_admissible (0, of_nat l, T_PBUF_FLAG_POOL)" using bs(2) by (simp add: alloc_admissible_def)
  let ?f = "x + sizeof_t_pbuf"
  define b where "b = (pbuf s x)\<lparr>pb_next := NULL, pb_ref := 1, pb_payload := ?f, pb_tot_len := of_nat l, pb_len := of_nat l\<rparr>"
  define s1 where "s1 = s\<lparr>pbuf_pool := pb_next (pbuf s x), pbuf := (pbuf s)(x := b)\<rparr>"
  note a = pbuf_alloc_next [OF adm I(4), simplified, folded b_def, folded s1_def]
  define s2 where "s2 = store_bytes ?f (load_bytes data l s) s1"
  have wf: "pbuf_wf s1 x" using x bs(2) l16
    by (simp add: pbuf_wf_def s1_def b_def T_PBUF_BUFSIZE_def pbuf_slot_eq sizeof_t_pbuf_def)
  have lb: "load_bytes data l s1 = load_bytes data l s" by (simp add: s1_def load_bytes_def)
  have "accessible ?f l" using x(1) bs(2) by (intro accessible_in_slot [of x]) (simp_all add: T_PBUF_BUFSIZE_def pbuf_slot_eq sizeof_t_pbuf_def)
  then have c: "t_pbuf_copy_data x data (int l) s1 = Some (0, s2)"
    using x(3) bs l16 by (simp add: t_pbuf_copy_data_def s2_def lb del: of_nat_unat) (simp add: s1_def b_def del: of_nat_unat)
  have f2: "tcpip_mbox s2 = tcpip_mbox s" "msgq s2 = msgq s" "msgq_limit s2 = msgq_limit s" "memp_tab s2 = memp_tab s"
    "memp_next s2 = memp_next s" "now_count s2 = now_count s" "tcpip_msg s2 = tcpip_msg s" "overruns s2 = overruns s" "pbuf s2 = (pbuf s)(x := b)"
    "pbuf_pool s2 = pb_next (pbuf s x)"
    by (simp_all add: s2_def s1_def store_bytes_def)
  have "memp_avail T_MEMP_TCPIP_MSG s2 (m # ms)" using I(5) by (simp add: memp_avail_def f2)
  moreover have "length ([] :: ptr list) < msgq_limit s div sizeof_ptr" using I(3) by (simp add: sizeof_ptr_def div_greater_zero_iff)
  ultimately obtain s' where s':
    "t_tcpip_input x netif0 s2 = Some (0, s')" "memp_avail T_MEMP_TCPIP_MSG s' ms" "memp_owned s' m"
    "s' = s2\<lparr>memp_tab := memp_tab s', memp_next := memp_next s', now_count := now_count s + 1,
      msgq := (msgq s)(tcpip_mbox s \<mapsto> [m]), overruns := overruns s @ [Behind_read],
      tcpip_msg := (tcpip_msg s)(m := \<lparr>tm_type = T_TCPIP_MSG_INPUT, tm_msg = Inp x netif0\<rparr>)\<rparr>"
    using tcpip_input_posts [OF _ f2(1) I(1), of m ms "[]" x netif0] I(2) by (auto simp: f2)
  have f': "pbuf s' = (pbuf s)(x := b)" "pbuf_pool s' = pb_next (pbuf s x)" "mem s' = mem s2"
    by (subst s'(4), simp add: f2)+
  have "ether0_recv_data data (int l) s = Some s'"
    using a(1) c s'(1) x(3) by (simp add: ether0_recv_data_def)
  moreover have "frame_in x ?f l xs s'"
    using a(2) x wf l16 by (simp add: frame_in_def pbuf_wf_def pbuf_owned_def pbuf_avail_def f' s1_def)
      (simp add: b_def T_PBUF_BUFSIZE_def sizeof_t_pbuf_def)
  moreover have "load_bytes ?f l s' = load_bytes data l s"
    by (simp add: load_bytes_frame [OF f'(3)] s2_def load_store_bytes_n)
  moreover have "\<forall>y. y < x + sizeof_t_pbuf \<or> x + pbuf_slot \<le> y \<longrightarrow> mem s' y = mem s y"
    using bs(2) by (auto simp: f'(3) s2_def s1_def mem_store_bytes T_PBUF_BUFSIZE_def pbuf_slot_eq sizeof_t_pbuf_def)
  moreover have "s' = s\<lparr>mem := mem s', pbuf := pbuf s', pbuf_pool := pbuf_pool s', memp_tab := memp_tab s', memp_next := memp_next s',
      now_count := now_count s + 1, msgq := (msgq s)(tcpip_mbox s \<mapsto> [m]), overruns := overruns s @ [Behind_read],
      tcpip_msg := (tcpip_msg s)(m := \<lparr>tm_type = T_TCPIP_MSG_INPUT, tm_msg = Inp x netif0\<rparr>)\<rparr>"
    unfolding f' by (subst s'(4)) (rule tcpip_st.equality, simp_all add: s2_def s1_def store_bytes_def)
  ultimately show ?thesis using s'(2,3) by blast
qed

text \<open>A valid echo request in a buffer is answered.\<close>

lemma echo_reply:
  assumes fr: "frame_in x f l xs t" and up: "netif_up t inp" and room: "f + 34 < x + T_PBUF_BUFSIZE - 1"
    and ping: "ip_parse (load_bytes f l t) = Some (src, dst, ttl, tos, T_IP_PROTO_ICMP, [8, code, c0, c1] @ msg)"
  shows "\<exists>u frame c. t_raw_input call x inp t = Some (0, u) \<and> pbuf_avail u (x # xs) \<and>
    u = t\<lparr>mem := mem u, pbuf := (pbuf t)(x := pbuf u x), pbuf_pool := x, sent := sent t @ [frame]\<rparr> \<and>
    ip_parse frame = Some (nif_ip_addr (netif t inp), src, ttl, 0, T_IP_PROTO_ICMP, [0, 8, byte_of 0 c, byte_of 1 c] @ msg) \<and>
    chksum_of (bsum True ([0, 8, byte_of 0 c, byte_of 1 (c :: u16)] @ msg)) = 0"
proof -
  note H = ip_parse_head [OF ping]
  let ?i = "f + 14"
  have l: "length ([8, code, c0, c1] @ msg) = l - 34" using H(9) length_load_bytes by metis
  have b: "load_bytes (?i + 20) (l - 34) t = [8, code, c0, c1] @ msg" using H(9) by (simp add: add.assoc)
  have hl: "20 = unat (T_IPH_HL ?i t * 4)" unfolding H(4) by simp
  have echo: "mem t (?i + 20) = T_ICMP_ECHO_REQUEST"
    using arg_cong [OF b, of "\<lambda>b. b ! 0"] l by (simp add: T_ICMP_ECHO_REQUEST_def)
  have msg: "load_bytes (?i + 20 + 4) (l - 14 - 20 - 4) t = msg"
    using drop_load_bytes [of 4 "l - 34" "?i + 20" t] l b by simp
  have ok: "ip_packet_ok f l t" unfolding ip_packet_ok_def H(4) using H(3) l by simp
  have pr: "T_IPH_PROTO ?i t = 1" using H(5) by (simp add: T_IP_PROTO_ICMP_def)
  have lens: "14 + 20 + 4 \<le> l" "?i + 20 < x + T_PBUF_BUFSIZE - 1" using l room by simp_all
  have "ucast (ucast ttl :: u16) = ttl" by (rule bit_word_eqI) (simp add: bit_simps)
  with raw_input_echo_result [OF fr H(2) refl ok pr hl _ _ echo lens up, of call, unfolded H(6,7) msg]
  show ?thesis by (simp add: echo_dst_def T_IP_PROTO_ICMP_def)
qed

text \<open>What the processing of a frame may change while no block receives and no connection is open: bytes, buffers, the
  ARP table, the variables of TCP input, and the frames sent.\<close>

definition only_receives :: "'a tcp_st_scheme \<Rightarrow> 'a tcp_st_scheme \<Rightarrow> bool" where
  "only_receives t u \<longleftrightarrow> u = t\<lparr>mem := mem u, pbuf := pbuf u, pbuf_pool := pbuf_pool u, sent := sent u,
     t_arp_table := t_arp_table u, table_count := table_count u, in_tcphdr := in_tcphdr u, in_iphdr := in_iphdr u,
     in_seqno := in_seqno u, in_ackno := in_ackno u, in_flags := in_flags u, in_tcplen := in_tcplen u\<rparr>"

text \<open>A frame is taken through the mailbox to its processing; when that gives the buffer back, the stack is idle again.\<close>

lemma frame_processed:
  assumes idle: "stack_idle (x # xs) (m # ms) s" and l: "14 \<le> l" "l \<le> T_PBUF_BUFSIZE" "accessible data l"
    and proc: "\<And>t. frame_in x (x + sizeof_t_pbuf) l xs t \<Longrightarrow> load_bytes (x + sizeof_t_pbuf) l t = load_bytes data l s \<Longrightarrow>
      netif t = netif s \<Longrightarrow> sent t = sent s \<Longrightarrow> udp_pcb t = udp_pcb s \<Longrightarrow> t_udp_pcbs t = t_udp_pcbs s \<Longrightarrow>
      tcp_active_pcbs t = tcp_active_pcbs s \<Longrightarrow> (\<forall>y. y < x + sizeof_t_pbuf \<or> x + pbuf_slot \<le> y \<longrightarrow> mem t y = mem s y) \<Longrightarrow>
      \<exists>r u fs. t_raw_input call x netif0 t = Some (r, u) \<and> pbuf_avail u (x # xs) \<and> sent u = sent s @ fs \<and> P fs (mem u) \<and>
        only_receives t u"
  shows "\<exists>s1 s2 fs. ether0_recv_data data (int l) s = Some s1 \<and> t_tcpip_round call s1 = Some s2 \<and>
    sent s2 = sent s @ fs \<and> P fs (mem s2) \<and> stack_idle (x # xs) (m # ms) s2 \<and> udp_pcb s2 = udp_pcb s \<and>
    t_udp_pcbs s2 = t_udp_pcbs s \<and> tcp_active_pcbs s2 = tcp_active_pcbs s \<and> tcpip_st.more s2 = tcpip_st.more s \<and>
    overruns s2 = overruns s @ [Behind_read, Behind_written]"
proof -
  let ?f = "x + sizeof_t_pbuf" and ?q = "tcpip_mbox s"
  have I: "?q \<noteq> T_SYS_MBOX_NULL" "sizeof_ptr \<le> msgq_limit s" "netif_up s netif0" "memp_avail T_MEMP_TCPIP_MSG s (m # ms)"
    using idle by (simp_all add: stack_idle_def)
  from frame_received [OF idle l] obtain s1 where s1: "ether0_recv_data data (int l) s = Some s1" "frame_in x ?f l xs s1"
    "load_bytes ?f l s1 = load_bytes data l s" "memp_avail T_MEMP_TCPIP_MSG s1 ms" "memp_owned s1 m"
    "\<forall>y. y < x + sizeof_t_pbuf \<or> x + pbuf_slot \<le> y \<longrightarrow> mem s1 y = mem s y"
    "s1 = s\<lparr>mem := mem s1, pbuf := pbuf s1, pbuf_pool := pbuf_pool s1, memp_tab := memp_tab s1, memp_next := memp_next s1,
      now_count := now_count s + 1, msgq := (msgq s)(?q \<mapsto> [m]), overruns := overruns s @ [Behind_read],
      tcpip_msg := (tcpip_msg s)(m := \<lparr>tm_type = T_TCPIP_MSG_INPUT, tm_msg = Inp x netif0\<rparr>)\<rparr>" by blast
  have f1: "tcpip_mbox s1 = ?q" "msgq s1 = (msgq s)(?q \<mapsto> [m])" "netif s1 = netif s" "sent s1 = sent s"
    "tcpip_msg s1 m = \<lparr>tm_type = T_TCPIP_MSG_INPUT, tm_msg = Inp x netif0\<rparr>" "msgq_limit s1 = msgq_limit s"
    "udp_pcb s1 = udp_pcb s" "t_udp_pcbs s1 = t_udp_pcbs s" "tcp_active_pcbs s1 = tcp_active_pcbs s"
    "tcpip_st.more s1 = tcpip_st.more s" "overruns s1 = overruns s @ [Behind_read]"
    by (subst s1(7), simp)+
  define t where "t = s1\<lparr>msgq := (msgq s1)(?q \<mapsto> []), overruns := overruns s1 @ [Behind_written]\<rparr>"
  have tf: "mem t = mem s1" "netif t = netif s" "sent t = sent s" "memp_tab t = memp_tab s1" "memp_next t = memp_next s1"
    "msgq t = (msgq s)(?q \<mapsto> [])" "tcpip_mbox t = ?q" "msgq_limit t = msgq_limit s"
    "udp_pcb t = udp_pcb s" "t_udp_pcbs t = t_udp_pcbs s" "tcp_active_pcbs t = tcp_active_pcbs s"
    "tcpip_st.more t = tcpip_st.more s" "overruns t = overruns s @ [Behind_read, Behind_written]"
    by (simp_all add: t_def f1)
  have "frame_in x ?f l xs t" using s1(2) by (simp add: frame_in_def pbuf_wf_def pbuf_owned_def pbuf_avail_def t_def)
  from proc [OF this _ tf(2,3,9-11)] s1(3,6) load_bytes_frame [OF tf(1)] tf(1) obtain r u fs where
    u: "t_raw_input call x netif0 t = Some (r, u)" "pbuf_avail u (x # xs)" "P fs (mem u)" "sent u = sent s @ fs" "only_receives t u"
    by metis
  note eq = u(5) [unfolded only_receives_def]
  have uf: "memp_tab u = memp_tab s1" "memp_next u = memp_next s1" "msgq u = (msgq s)(?q \<mapsto> [])" "netif u = netif s"
    "tcpip_mbox u = ?q" "msgq_limit u = msgq_limit s" "udp_pcb u = udp_pcb s" "t_udp_pcbs u = t_udp_pcbs s"
    "tcp_active_pcbs u = tcp_active_pcbs s" "tcpip_st.more u = tcpip_st.more s" "overruns u = overruns s @ [Behind_read, Behind_written]"
    by (subst eq, simp add: tf)+
  have objs: "m \<in> memp_objs T_MEMP_TCPIP_MSG" "m \<notin> set ms" "m \<noteq> NULL"
    using memp.avail_objs [OF I(4)] memp.avail_distinct [OF I(4)] memp_objs_pos by auto
  have "memp_avail T_MEMP_TCPIP_MSG u ms" "memp_owned u m" using s1(4,5) by (simp_all add: memp_avail_def memp_owned_def uf)
  from memp_free_push [OF this(1) objs(1,2) this(2)] obtain s2 where s2: "t_memp_free T_MEMP_TCPIP_MSG m u = Some s2"
    "memp_avail T_MEMP_TCPIP_MSG s2 (m # ms)"
    "s2 = u\<lparr>memp_tab := memp_tab s2, memp_next := memp_next s2, now_count := now_count u - 1\<rparr>" by blast
  have f2: "sent s2 = sent s @ fs" "pbuf s2 = pbuf u" "pbuf_pool s2 = pbuf_pool u" "msgq s2 = (msgq s)(?q \<mapsto> [])"
    "tcpip_mbox s2 = ?q" "netif s2 = netif s" "msgq_limit s2 = msgq_limit s" "udp_pcb s2 = udp_pcb s"
    "t_udp_pcbs s2 = t_udp_pcbs s" "tcp_active_pcbs s2 = tcp_active_pcbs s" "mem s2 = mem u"
    "tcpip_st.more s2 = tcpip_st.more s" "overruns s2 = overruns s @ [Behind_read, Behind_written]"
    by (subst s2(3), simp add: uf u(4))+
  have "msgq s1 ?q = Some [m]" by (simp add: f1)
  from tcpip_round_input [OF f1(1) I(1) this objs(3) f1(5), folded t_def, OF u(1)] s2(1)
  have "t_tcpip_round call s1 = Some s2" by simp
  moreover have "stack_idle (x # xs) (m # ms) s2"
    using I(1-3) u(2) s2(2) by (simp add: stack_idle_def f2 pbuf_avail_def netif_up_def)
  ultimately show ?thesis using s1(1) f2 u(3) by metis
qed

text \<open>C3: An echo request that the device delivers, in a valid IP packet without options, is answered with one
  frame: a valid IP packet back to its source that carries the same message as a reply with a closing
  checksum.  Afterwards the stack waits for the next frame with the same buffers and messages in its pools.\<close>

theorem ping_answered:
  assumes idle: "stack_idle (x # xs) (m # ms) s" and l: "l \<le> T_PBUF_BUFSIZE" "accessible data l"
    and ping: "ip_parse (load_bytes data l s) = Some (src, dst, ttl, tos, T_IP_PROTO_ICMP, [8, code, c0, c1] @ msg)"
  shows "\<exists>s1 s2 frame c. ether0_recv_data data (int l) s = Some s1 \<and> t_tcpip_round call s1 = Some s2 \<and>
    sent s2 = sent s @ [frame] \<and>
    ip_parse frame = Some (nif_ip_addr (netif s netif0), src, ttl, 0, T_IP_PROTO_ICMP,
      [0, 8, byte_of 0 c, byte_of 1 c] @ msg) \<and>
    chksum_of (bsum True ([0, 8, byte_of 0 c, byte_of 1 (c :: u16)] @ msg)) = 0 \<and> stack_idle (x # xs) (m # ms) s2"
proof -
  let ?P = "\<lambda>fs. \<exists>frame c. fs = [frame] \<and> ip_parse frame = Some (nif_ip_addr (netif s netif0), src, ttl, 0, T_IP_PROTO_ICMP,
      [0, 8, byte_of 0 c, byte_of 1 c] @ msg) \<and> chksum_of (bsum True ([0, 8, byte_of 0 c, byte_of 1 (c :: u16)] @ msg)) = 0"
  have up: "netif_up s netif0" using idle by (simp add: stack_idle_def)
  have l14: "14 \<le> l" using ip_parse_head(1) [OF ping] by simp
  have "\<exists>r u fs. t_raw_input call x netif0 t = Some (r, u) \<and> pbuf_avail u (x # xs) \<and> sent u = sent s @ fs \<and> ?P fs \<and>
      only_receives t u"
    if t: "frame_in x (x + sizeof_t_pbuf) l xs t" "load_bytes (x + sizeof_t_pbuf) l t = load_bytes data l s"
      "netif t = netif s" "sent t = sent s" for t
  proof -
    have "netif_up t netif0" "x + sizeof_t_pbuf + 34 < x + T_PBUF_BUFSIZE - 1"
      using up by (simp_all add: netif_up_def t(3) sizeof_t_pbuf_def T_PBUF_BUFSIZE_def)
    from echo_reply [OF t(1) this, unfolded t(2), OF ping, of call] obtain u frame c where u: "t_raw_input call x netif0 t = Some (0, u)"
      "pbuf_avail u (x # xs)" "?P [frame]" "u = t\<lparr>mem := mem u, pbuf := (pbuf t)(x := pbuf u x), pbuf_pool := x, sent := sent t @ [frame]\<rparr>"
      by (auto simp: t(3))
    have f: "pbuf u = (pbuf t)(x := pbuf u x)" "pbuf_pool u = x" "sent u = sent s @ [frame]" "t_arp_table u = t_arp_table t"
      "table_count u = table_count t" "in_tcphdr u = in_tcphdr t" "in_iphdr u = in_iphdr t" "in_seqno u = in_seqno t"
      "in_ackno u = in_ackno t" "in_flags u = in_flags t" "in_tcplen u = in_tcplen t"
      by (subst u(4), simp add: t(4))+
    have "only_receives t u" unfolding only_receives_def f(2-) by (rule trans [OF u(4)], subst (2) f(1)) (simp add: t(4))
    with u f(3) show ?thesis by blast
  qed
  from frame_processed [where P = "\<lambda>fs _. ?P fs", OF idle l14 l this] obtain s1 s2 fs where "ether0_recv_data data (int l) s = Some s1"
    "t_tcpip_round call s1 = Some s2" "sent s2 = sent s @ fs" "?P fs" "stack_idle (x # xs) (m # ms) s2" by blast
  then show ?thesis by blast
qed

section \<open>The start of the program\<close>

lemma tcpip_init_result:
  assumes "msgq_of_key s (mbox_key s + 1) = None" and "msgq_ids s = q # qs" and "0 \<le> q"
  shows "t_tcpip_init task s = (0, s\<lparr>mbox_key := mbox_key s + 1, msgq_of_key := (msgq_of_key s)(mbox_key s + 1 \<mapsto> q),
    msgq_ids := qs, msgq := (msgq s)(q \<mapsto> []), tcpip_mbox := q, threads := threads s @ (if task then [Tcpip_task] else [])\<rparr>)"
  using assms by (simp add: t_tcpip_init_def t_sys_mbox_new_def msgget_def t_sys_thread_new_def)

lemma ether_init_result:
  assumes mac: "accessible mac 6" and len: "length (nif_hwaddr (netif s netif0)) = 6"
  shows "\<exists>b. ether_init mac opened created s = Some (s\<lparr>dev_ip := 0x7001A8C0, dev_mask := 0x00FFFFFF, dev_gw := 0x0101A8C0,
      mem := mem (store_bytes mac [0xb0, 0x6e, 0xbf, 0x37, 0x50, 0xb0] s), netif := (netif s)(netif0 := b),
      recv_cb := Ether0_recv_data, netifnum := netifnum s + 1, netif_list := netif0, netif_default := netif0,
      handle_open := opened, threads := threads s @ (if opened \<and> created then [Pcap_recv_thread] else [])\<rparr>) \<and>
    nif_ip_addr b = 0x7001A8C0 \<and> nif_netmask b = 0x00FFFFFF \<and> nif_gw b = 0x0101A8C0 \<and> nif_output b = Output_ether0 \<and>
    nif_hwaddr b = [0xb0, 0x6e, 0xbf, 0x37, 0x50, 0xb0] \<and> nif_next b = netif_list s"
proof -
  let ?bs = "[0xb0, 0x6e, 0xbf, 0x37, 0x50, 0xb0] :: u8 list"
  define s0 where "s0 = s\<lparr>dev_ip := 0x7001A8C0, dev_mask := 0x00FFFFFF, dev_gw := 0x0101A8C0\<rparr>"
  define s1 where "s1 = store_bytes mac ?bs s0"
  have s1: "s1 = s0\<lparr>mem := mem (store_bytes mac ?bs s)\<rparr>" by (simp add: s1_def s0_def store_bytes_def)
  have f1: "netif s1 = netif s" "netif_list s1 = netif_list s" "netifnum s1 = netifnum s" "threads s1 = threads s"
    "dev_ip s1 = 0x7001A8C0" "dev_mask s1 = 0x00FFFFFF" "dev_gw s1 = 0x0101A8C0"
    by (simp_all add: s1 s0_def)
  have hw: "fold (\<lambda>i h. h[i := mem s1 (mac + i)]) [0, Suc 0, 2, 3, 4, 5] (nif_hwaddr (netif s netif0)) = ?bs"
    unfolding hwaddr_written [OF len] load_bytes_map unfolding s1_def by (rule load_store_bytes_n) simp
  define b where "b = (netif s netif0)\<lparr>nif_hwaddr := ?bs, nif_hwaddr_len := 6, nif_ip_addr := 0x7001A8C0,
    nif_netmask := 0x00FFFFFF, nif_gw := 0x0101A8C0, nif_next := netif_list s, nif_output := Output_ether0\<rparr>"
  define s2 where "s2 = s1\<lparr>netif := (netif s)(netif0 := (netif s netif0)\<lparr>nif_hwaddr := ?bs, nif_hwaddr_len := 6\<rparr>)\<rparr>"
  have n0: "netif0 \<noteq> NULL" by (simp add: netif0_def)
  have mac: "t_netif_set_mac netif0 mac s1 = Some (0, s2)"
    using mac n0 by (simp add: t_netif_set_mac_def set_mac_loop_upd f1 hw s2_def del: fold.simps)
  define s3 where "s3 = s2\<lparr>netif := (netif s)(netif0 := (netif s netif0)\<lparr>nif_hwaddr := ?bs, nif_hwaddr_len := 6,
    nif_ip_addr := 0x7001A8C0, nif_netmask := 0x00FFFFFF, nif_gw := 0x0101A8C0\<rparr>), recv_cb := Ether0_recv_data\<rparr>"
  define s4 where "s4 = s3\<lparr>netif := (netif s)(netif0 := b), netifnum := netifnum s + 1, netif_list := netif0, netif_default := netif0,
    handle_open := opened, threads := threads s @ (if opened \<and> created then [Pcap_recv_thread] else [])\<rparr>"
  have d2: "dev_ip s2 = 0x7001A8C0" "dev_mask s2 = 0x00FFFFFF" "dev_gw s2 = 0x0101A8C0" "netif s2 netif0 = (netif s netif0)\<lparr>nif_hwaddr := ?bs, nif_hwaddr_len := 6\<rparr>"
    by (simp_all add: s2_def f1)
  have addr: "do { (_, u) \<leftarrow> t_netif_set_addr netif0 0x7001A8C0 0x00FFFFFF 0x0101A8C0 s2;
      let (_, u) = linux_set_recv_callback Ether0_recv_data u; f u } = f s3" for f :: "'a dev_st_scheme \<Rightarrow> 'a dev_st_scheme option"
    using n0 by (simp add: t_netif_set_addr_def t_netif_set_ipaddr_def t_netif_set_netmask_def t_netif_set_gw_def
        linux_set_recv_callback_def s3_def, simp add: s2_def)
  have d3: "netif s3 = (netif s)(netif0 := b\<lparr>nif_next := nif_next (netif s netif0), nif_output := nif_output (netif s netif0)\<rparr>)"
    "netifnum s3 = netifnum s" "netif_list s3 = netif_list s" "threads s3 = threads s"
    by (simp_all add: s3_def s2_def f1 b_def)
  have "\<exists>u. t_netif_add netif0 (etherif0_init opened created) Output_ether0 s3 = Some (0, u) \<and> u = s4"
    using n0 by (simp add: t_netif_add_def Let_def etherif0_init_def linux_ether_init_def d3) 
      (simp add: s4_def b_def d3)
  with mac addr [of "\<lambda>u. Option.bind (t_netif_add netif0 (etherif0_init opened created) Output_ether0 u) (\<lambda>(_, y). Some y)"]
  have "ether_init mac opened created s = Some s4"
    by (simp add: ether_init_def Let_def s0_def [symmetric] s1_def [symmetric] d2 linux_set_recv_callback_def)
  moreover have "s4 = s\<lparr>dev_ip := 0x7001A8C0, dev_mask := 0x00FFFFFF, dev_gw := 0x0101A8C0,
      mem := mem (store_bytes mac ?bs s), netif := (netif s)(netif0 := b),
      recv_cb := Ether0_recv_data, netifnum := netifnum s + 1, netif_list := netif0, netif_default := netif0,
      handle_open := opened, threads := threads s @ (if opened \<and> created then [Pcap_recv_thread] else [])\<rparr>"
    by (simp add: s4_def s3_def s2_def s1 s0_def)
  ultimately show ?thesis by (intro exI [of _ b]) (simp add: b_def)
qed

lemma main_init_result:
  assumes key: "msgq_of_key s (mbox_key s + 1) = None" and ids: "msgq_ids s = q # qs" "0 \<le> q" and limit: "sizeof_ptr \<le> msgq_limit s"
    and mac: "accessible mac 6" and fresh: "netif_list s = NULL" "length (nif_hwaddr (netif s netif0)) = 6"
  shows "\<exists>s'. main_init mac task opened created s = Some s' \<and>
    stack_idle pbuf_slots (map (\<lambda>e. e + sizeof_t_memp) (memp_elems T_MEMP_TCPIP_MSG)) s' \<and>
    (\<forall>t. memp_avail t s' (map (\<lambda>e. e + sizeof_t_memp) (memp_elems t))) \<and>
    udp_list s' [] \<and> tcp_active_pcbs s' = NULL \<and> table_count s' = 0 \<and>
    chained (nif_link s') (netif_list s') [netif0] \<and> netif_default s' = netif0 \<and>
    nif_ip_addr (netif s' netif0) = 0x7001A8C0 \<and> recv_cb s' = Ether0_recv_data \<and> sent s' = sent s \<and>
    threads s' = threads s @ (if task then [Tcpip_task] else []) @ (if opened \<and> created then [Pcap_recv_thread] else [])"
proof -
  define s1 where "s1 = t_memp_init (t_pbuf_init s)"
  have pb: "pbuf s1 = pbuf (t_pbuf_init s)" "pbuf_pool s1 = pbuf_pool (t_pbuf_init s)"
    unfolding s1_def by (subst memp_init_frame, simp)+
  have s1: "s1 = s\<lparr>memp_tab := memp_tab s1, memp_next := memp_next s1, pbuf := pbuf s1, pbuf_pool := pbuf_pool s1\<rparr>"
  proof -
    have m: "s1 = (t_pbuf_init s)\<lparr>memp_tab := memp_tab s1, memp_next := memp_next s1\<rparr>"
      unfolding s1_def by (rule memp_init_frame)
    show ?thesis unfolding pb by (subst m, subst (1) pbuf_init_frame) simp
  qed
  have av: "pbuf_avail s1 pbuf_slots" "memp_avail t s1 (map (\<lambda>e. e + sizeof_t_memp) (memp_elems t))" for t
    using pbuf_init_correct [of s] memp_init_avail [of t "t_pbuf_init s"] by (simp_all add: pbuf_avail_def pb s1_def [symmetric])
  have f1: "mbox_key s1 = mbox_key s" "msgq_of_key s1 = msgq_of_key s" "msgq_ids s1 = q # qs" "msgq_limit s1 = msgq_limit s"
    "netif s1 = netif s" "netif_list s1 = NULL" "threads s1 = threads s" "sent s1 = sent s"
    by (subst s1, simp add: ids fresh)+
  define s2 where "s2 = snd (t_tcpip_init task s1)"
  have s2: "t_tcpip_init task s1 = (0, s2)" "s2 = s1\<lparr>mbox_key := mbox_key s + 1, msgq_of_key := (msgq_of_key s)(mbox_key s + 1 \<mapsto> q),
    msgq_ids := qs, msgq := (msgq s1)(q \<mapsto> []), tcpip_mbox := q, threads := threads s @ (if task then [Tcpip_task] else [])\<rparr>"
    using tcpip_init_result [of s1 q qs task] key ids by (simp_all add: s2_def f1)
  define s3 where "s3 = s2\<lparr>table_count := 0, t_udp_pcbs := NULL, tcp_ticks := 0, tcp_active_pcbs := NULL\<rparr>"
  have f3: "netif s3 = netif s" "netif_list s3 = NULL" "threads s3 = threads s @ (if task then [Tcpip_task] else [])" "sent s3 = sent s"
    "msgq s3 q = Some []" "tcpip_mbox s3 = q" "msgq_limit s3 = msgq_limit s" "pbuf s3 = pbuf s1" "pbuf_pool s3 = pbuf_pool s1"
    "memp_tab s3 = memp_tab s1" "memp_next s3 = memp_next s1" "table_count s3 = 0" "t_udp_pcbs s3 = NULL" "tcp_active_pcbs s3 = NULL"
    by (simp_all add: s3_def s2(2) f1)
  have "length (nif_hwaddr (netif s3 netif0)) = 6" by (simp add: f3 fresh)
  from ether_init_result [OF mac this, of opened created] obtain b u where u: "ether_init mac opened created s3 = Some u"
    "u = s3\<lparr>dev_ip := 0x7001A8C0, dev_mask := 0x00FFFFFF, dev_gw := 0x0101A8C0,
      mem := mem (store_bytes mac [0xb0, 0x6e, 0xbf, 0x37, 0x50, 0xb0] s3), netif := (netif s3)(netif0 := b),
      recv_cb := Ether0_recv_data, netifnum := netifnum s3 + 1, netif_list := netif0, netif_default := netif0,
      handle_open := opened, threads := threads s3 @ (if opened \<and> created then [Pcap_recv_thread] else [])\<rparr>"
    "nif_ip_addr b = 0x7001A8C0" "nif_output b = Output_ether0" "nif_hwaddr b = [0xb0, 0x6e, 0xbf, 0x37, 0x50, 0xb0]"
    "nif_next b = NULL" by (auto simp: f3)
  have run: "main_init mac task opened created s = Some u"
    using u(1) s2(1) by (simp add: main_init_def Let_def s1_def [symmetric] t_arp_init_def t_udp_init_def t_tcp_init_def s3_def)
  have n0: "netif0 \<noteq> NULL" by (simp add: netif0_def)
  have idle: "stack_idle pbuf_slots (map (\<lambda>e. e + sizeof_t_memp) (memp_elems T_MEMP_TCPIP_MSG)) u"
    using av limit ids(2) u(4,5) n0
    by (simp add: stack_idle_def u(2) f3 pbuf_avail_def memp_avail_def netif_up_def T_SYS_MBOX_NULL_def)
  have "memp_avail t u (map (\<lambda>e. e + sizeof_t_memp) (memp_elems t))" for t
    using av(2) by (simp add: memp_avail_def u(2) f3)
  with run idle show ?thesis using u(3,6) n0 by (simp add: u(2) f3 udp_list_def)
qed

lemma dev_boot_facts:
  "msgq_of_key dev_boot (mbox_key dev_boot + 1) = None" "msgq_ids dev_boot = 0 # [1, 2, 3, 4, 5, 6, 7]"
    "sizeof_ptr \<le> msgq_limit dev_boot" "accessible 0x100 6" "netif_list dev_boot = NULL"
    "length (nif_hwaddr (netif dev_boot netif0)) = 6" "threads dev_boot = []"
  by (simp_all add: dev_boot_def sock_st.defs sock_boot_def api_st.defs api_boot_def tcpip_st.defs tcpip_boot_def sys_st.defs
        sys_boot_def tcp_st.defs tcp_boot_def udp_st.defs udp_boot_def arp_st.defs arp_boot_def netif_st.defs netif_boot_def
        pbuf_st.defs sizeof_ptr_def accessible_def user_range_def memp_memory_def)

lemma main_started:
  "\<exists>s'. main_init 0x100 True True True dev_boot = Some s' \<and> nif_ip_addr (netif s' netif0) = 0x7001A8C0 \<and>
     stack_idle pbuf_slots (map (\<lambda>e. e + sizeof_t_memp) (memp_elems T_MEMP_TCPIP_MSG)) s'"
  using main_init_result [OF dev_boot_facts(1,2) _ dev_boot_facts(3-6), of True True True] by auto

text \<open>C35: When the kernel gives it a new message queue, the program starts with everything in place: all pools full,
  no block bound, no connection, an empty ARP table, its interface the only one, the default and ready to
  send, frames delivered to the stack, and its two threads running.\<close>

theorem main_starts:
  assumes key: "msgq_of_key s (mbox_key s + 1) = None" and ids: "msgq_ids s = q # qs" "0 \<le> q" and limit: "sizeof_ptr \<le> msgq_limit s"
    and mac: "accessible mac 6" and fresh: "netif_list s = NULL" "length (nif_hwaddr (netif s netif0)) = 6"
  shows "\<exists>s'. main_init mac task opened created s = Some s' \<and>
    stack_idle pbuf_slots (map (\<lambda>e. e + sizeof_t_memp) (memp_elems T_MEMP_TCPIP_MSG)) s' \<and>
    (\<forall>t. memp_avail t s' (map (\<lambda>e. e + sizeof_t_memp) (memp_elems t))) \<and>
    udp_list s' [] \<and> tcp_active_pcbs s' = NULL \<and> table_count s' = 0 \<and>
    chained (nif_link s') (netif_list s') [netif0] \<and> netif_default s' = netif0 \<and>
    nif_ip_addr (netif s' netif0) = 0x7001A8C0 \<and> recv_cb s' = Ether0_recv_data \<and> sent s' = sent s \<and>
    threads s' = threads s @ (if task then [Tcpip_task] else []) @ (if opened \<and> created then [Pcap_recv_thread] else [])"
  by (rule main_init_result [OF assms])

theorem main_starts_witness:
  "\<exists>s'. main_init 0x100 True True True dev_boot = Some s' \<and> threads s' = [Tcpip_task, Pcap_recv_thread] \<and>
     stack_idle pbuf_slots (map (\<lambda>e. e + sizeof_t_memp) (memp_elems T_MEMP_TCPIP_MSG)) s'"
  using main_starts [OF dev_boot_facts(1,2) _ dev_boot_facts(3-6), of True True True] dev_boot_facts(7) by auto

text \<open>An echo request from 192.168.1.100 without data.\<close>

definition ping_frame :: "u8 list" where
  "ping_frame = [0xb0, 0x6e, 0xbf, 0x37, 0x50, 0xb0, 1, 2, 3, 4, 5, 6, 0x08, 0x00,
     0x45, 0, 0, 28, 0, 1, 0x40, 0, 0xff, 1, 0xf7, 0xba, 0xc0, 0xa8, 1, 100, 0xc0, 0xa8, 1, 112,
     8, 0, 0xf7, 0xfd, 0, 1, 0, 1]"

lemma ping_frame_parse:
  "ip_parse ping_frame = Some (0x6401A8C0, 0x7001A8C0, 255, 0, T_IP_PROTO_ICMP, [8, 0, 0xf7, 0xfd] @ [0, 1, 0, 1])"
proof -
  have h: "take 20 (drop 14 ping_frame) = [0x45, 0, 0, 28, 0, 1, 0x40, 0, 0xff, 1, 0xf7, 0xba, 0xc0, 0xa8, 1, 100, 0xc0, 0xa8, 1, 112]"
    "drop 34 ping_frame = [8, 0, 0xf7, 0xfd, 0, 1, 0, 1]" "take 2 (drop 12 ping_frame) = [8, 0]" "length ping_frame = 42"
    by (simp_all add: ping_frame_def)
  have t: "be16 0x800 = [8, 0]" by (simp add: be16_def byte_of_def unsigned_ucast_eq ucast_eq)
  have l: "unat (u16_of 28 0) = 28" by (simp add: u16_of_def)
  have a: "u32_of 0xc0 0xa8 1 100 = 0x6401A8C0" "u32_of 0xc0 0xa8 1 112 = 0x7001A8C0" by (simp_all add: u32_of_def)
  have c: "chksum_of 196605 = 0" unfolding chksum_of_def ones_def by simp
  show ?thesis by (simp add: ip_parse_def Let_def h t l a c T_IP_PROTO_ICMP_def)
qed

theorem ping_answered_witness:
  "\<exists>s s1 s2 frame c. ether0_recv_data 0x100 42 (s :: dev_st) = Some s1 \<and> t_tcpip_round (\<lambda>_ _ _ _ _ _ s. Some s) s1 = Some s2 \<and>
     sent s2 = sent s @ [frame] \<and>
     ip_parse frame = Some (0x7001A8C0, 0x6401A8C0, 255, 0, T_IP_PROTO_ICMP, [0, 8, byte_of 0 c, byte_of 1 (c :: u16)] @ [0, 1, 0, 1])"
proof -
  obtain s' where s': "nif_ip_addr (netif s' netif0) = 0x7001A8C0"
    "stack_idle pbuf_slots (map (\<lambda>e. e + sizeof_t_memp) (memp_elems T_MEMP_TCPIP_MSG)) (s' :: dev_st)"
    using main_started by blast
  define s where "s = store_bytes 0x100 ping_frame s'"
  obtain e es where es: "memp_elems T_MEMP_TCPIP_MSG = e # es"
    using length_memp_elems [of T_MEMP_TCPIP_MSG] memp_num_pos [of T_MEMP_TCPIP_MSG] by (cases "memp_elems T_MEMP_TCPIP_MSG") auto
  have idle: "stack_idle (pbuf_pool_memory # tl pbuf_slots) ((e + sizeof_t_memp) # map (\<lambda>e. e + sizeof_t_memp) es) s"
    using s'(2) es pbuf_slots_Cons
    by (simp add: stack_idle_def s_def store_bytes_def pbuf_avail_def memp_avail_def netif_up_def)
  have n: "netif s = netif s'" by (simp add: s_def)
  have l: "length ping_frame = 42" by (simp add: ping_frame_def)
  have acc: "accessible 0x100 42" by (simp add: accessible_def user_range_def memp_memory_def)
  have "load_bytes 0x100 42 s = ping_frame" unfolding s_def by (rule load_store_bytes_n) (simp add: l)
  from ping_answered [OF idle _ acc, unfolded this, OF _ ping_frame_parse] s'(1) show ?thesis
    by (simp add: T_PBUF_BUFSIZE_def n) blast
qed

end
