(* ===== verification/Delivery.thy ===== *)
theory Delivery
  imports Wire Netbuf
begin

text \<open>
  Received datagrams for connections of the API, from the frame to the netbuf.
\<close>

section \<open>A datagram for a connection\<close>

lemma udp_header_read:
  assumes "load_bytes a (8 + n) s = be16 sport @ be16 dport @ be16 len @ ck @ data" and "length ck = 2"
  shows "ntohs (load16 a s) = sport" "ntohs (load16 (a + 2) s) = dport" "htons (load16 (a + 4) s) = len"
proof -
  have "load_bytes (a + k) 2 s = take 2 (drop k (be16 sport @ be16 dport @ be16 len @ ck @ data))" if "k + 2 \<le> 8" for k
    using load_bytes_sub [of k 2 "8 + n" a s] that unfolding assms(1) by simp
  from this [of 0] this [of 2] this [of 4]
  have "load_bytes a 2 s = be16 sport" "load_bytes (a + 2) 2 s = be16 dport" "load_bytes (a + 4) 2 s = be16 len"
    by (simp_all add: be16_def)
  then show "ntohs (load16 a s) = sport" "ntohs (load16 (a + 2) s) = dport" "htons (load16 (a + 4) s) = len"
    by (simp_all only: load16_load_bytes) (simp_all add: be16_def htons_u16_of swap16.same_swap)
qed

lemma be16_length [simp]: "length (be16 v) = 2"
  by (simp add: be16_def)

text \<open>C20: A datagram whose UDP block belongs to a connection ends up in the mailbox of the connection.  But the
  buffer that the netbuf refers to is given back to the pool all the same, and will be the next one handed out;
  and the data it shows begins with the UDP header.\<close>

theorem datagram_dangles:
  assumes fr: "frame_in p f l xs s" and room: "f + 34 < p + T_PBUF_BUFSIZE - 1"
    and dgram: "ip_parse (load_bytes f l s) = Some (src, dst, ttl, tos, T_IP_PROTO_UDP, be16 sport @ be16 dport @ be16 ulen @ ck @ data)"
      "length ck = 2" "unat ulen = 8 + length data"
    and us: "udp_list s us" and pcb: "pcb = first_match (\<lambda>q. udp_matches dport dst (udp_pcb s q)) us" "pcb \<noteq> NULL"
    and conn: "up_recv (udp_pcb s pcb) = T_recv_udp" "conn = up_recv_arg (udp_pcb s pcb)" "conn \<noteq> NULL"
    and box: "q = nc_recvmbox (netconn s conn)" "q \<noteq> T_SYS_MBOX_NULL" "msgq s q = Some ms" "length ms < msgq_limit s div sizeof_ptr"
    and av: "memp_avail T_MEMP_NETBUF s (b # bs)"
  shows "\<exists>s'. t_raw_input call_udp_recv p inp s = Some (0, s') \<and> msgq s' = (msgq s)(q \<mapsto> ms @ [b]) \<and>
    nb_p (netbuf s' b) = p \<and> nb_fromport (netbuf s' b) = sport \<and>
    t_netbuf_data b s' = Some (0, Some (f + 34, ulen)) \<and>
    load_bytes (f + 34) (unat ulen) s' = be16 sport @ be16 dport @ be16 ulen @ ck @ data \<and>
    pbuf_avail s' (p # xs)"
proof -
  note H = ip_parse_head [OF dgram(1)]
  note slot = frame_in_slot [OF fr]
  let ?i = "f + 14" and ?t = "ip_part p s"
  have F: "pbuf_avail s xs" "p \<notin> set xs" "pbuf_owned s p" "pbuf_wf s p" "pb_payload (pbuf s p) = f" "l = unat (pb_len (pbuf s p))"
    using fr by (simp_all add: frame_in_def)
  have body: "length (be16 sport @ be16 dport @ be16 ulen @ ck @ data) = l - 34" using H(9) length_load_bytes by metis
  then have l: "l = 34 + unat ulen" using H(1) dgram(2,3) by simp
  have ub: "load_bytes (f + 34) (8 + length data) s = be16 sport @ be16 dport @ be16 ulen @ ck @ data"
    using H(9) l dgram(3) by simp
  note U = udp_header_read [OF ub dgram(2)]
  have ok: "ip_packet_ok f l s" unfolding ip_packet_ok_def H(4) using H(3) l dgram(3) by simp
  have pr: "T_IPH_PROTO ?i s = 17" using H(5) by (simp add: T_IP_PROTO_UDP_def)
  have t: "pbuf ?t p = (pbuf s p)\<lparr>pb_payload := ?i, pb_tot_len := pb_tot_len (pbuf s p) - 14, pb_len := pb_len (pbuf s p) - 14\<rparr>"
    using F(5) by (simp add: ip_part_def)
  have tl: "unat (pb_len (pbuf s p) - 14) = l - 14" using H(1) by (simp add: F(6) unat_sub word_le_nat_alt)
  have e: "?i + 20 = f + 34" by simp
  have ld: "load16 a ?t = load16 a s" "load32 a ?t = load32 a s" for a by (simp_all add: load16_def load32_def)
  have pt: "udp_pcb ?t = udp_pcb s" by (simp add: ip_part_def)
  define v where "v = upd_pbuf p (\<lambda>b. b\<lparr>pb_payload := ?i + 20, pb_tot_len := pb_len b - of_nat 20, pb_len := pb_len b - of_nat 20\<rparr>) ?t"
  have v_eq: "v = upd_pbuf p (\<lambda>b. b\<lparr>pb_payload := ?i + 20, pb_tot_len := pb_len b - of_nat 20, pb_len := pb_len b - of_nat 20\<rparr>) ?t"
    by (rule v_def)
  have run: "t_udp_input call_udp_recv inp p ?t = map_option (Pair 0) (t_recv_udp conn pcb p (?i + 12) sport v)"
  proof -
    have A: "pbuf_wf ?t p" "?i = pb_payload (pbuf ?t p)" "20 = unat (T_IPH_HL ?i ?t) * 4" "header_fits ?t p (int 20)"
      "20 + 8 \<le> unat (pb_len (pbuf ?t p))" "unat (ntohs (load16 (?i + 20 + 4) ?t)) \<le> unat (pb_len (pbuf ?t p)) - 20" "udp_list ?t us"
      "pcb = first_match (\<lambda>q. udp_matches (ntohs (load16 (?i + 20 + 2) ?t)) (load32 (?i + 16) ?t) (udp_pcb ?t q)) us"
    proof -
      show "pbuf_wf ?t p" using F(4-6) H(1) tl slot by (simp add: pbuf_wf_def t)
      show "header_fits ?t p (int 20)" using slot room F(5) by (simp add: header_fits_def t)
      show "20 = unat (T_IPH_HL ?i ?t) * 4" using H(4) by (simp add: iph_frame [of ?t s])
      show "20 + 8 \<le> unat (pb_len (pbuf ?t p))" using tl l dgram(3) by (simp add: t)
      show "unat (ntohs (load16 (?i + 20 + 4) ?t)) \<le> unat (pb_len (pbuf ?t p)) - 20"
        using U(3) tl l by (simp add: t load16_def swap16.same_swap add.commute)
      show "udp_list ?t us" using us by (simp add: udp_list_def ip_part_def)
      show "pcb = first_match (\<lambda>q. udp_matches (ntohs (load16 (?i + 20 + 2) ?t)) (load32 (?i + 16) ?t) (udp_pcb ?t q)) us"
        unfolding e ld pt H(8) U(2) by (rule pcb(1))
    qed (simp add: t)
    have "t_udp_input call_udp_recv inp p ?t =
        map_option (Pair 0) (call_udp_recv (up_recv (udp_pcb ?t pcb)) (up_recv_arg (udp_pcb ?t pcb)) pcb p (?i + 12) (ntohs (load16 (?i + 20) ?t)) v)"
      using udp_input_result [where call_recv = call_udp_recv and inp = inp, OF A(1-4) _ A(5-8) v_eq] pcb(2) conn(1) by (simp add: pt)
    then show ?thesis unfolding e ld pt U(1) using conn(1,2) by (simp add: call_udp_recv_def)
  qed
  have v: "v = s\<lparr>pbuf := (pbuf s)(p := pbuf v p)\<rparr>" by (simp add: v_def ip_part_def)
  have vf: "netconn v = netconn s" "msgq v = msgq s" "msgq_limit v = msgq_limit s" "memp_tab v = memp_tab s" "memp_next v = memp_next s"
    "mem v = mem s" "pbuf_pool v = pbuf_pool s" "pbuf v = (pbuf s)(p := pbuf v p)"
    by (subst v, simp)+
  have vp: "pb_payload (pbuf v p) = f + 34" "pb_len (pbuf v p) = ulen" "pb_flags (pbuf v p) = pb_flags (pbuf s p)"
    "pb_ref (pbuf v p) = pb_ref (pbuf s p)" "pb_next (pbuf v p) = pb_next (pbuf s p)"
  proof -
    have "pb_len (pbuf s p) = of_nat l" by (simp add: F(6))
    then have "pb_len (pbuf s p) - 14 - 20 = ulen" by (simp add: l)
    then show "pb_len (pbuf v p) = ulen" by (simp add: v_def t)
  qed (simp_all add: v_def t)
  have avv: "memp_avail T_MEMP_NETBUF v (b # bs)" using av by (simp add: memp_avail_def vf)
  have pre: "nc_recvmbox (netconn v conn) = q" "msgq v q = Some ms" "length ms < msgq_limit v div sizeof_ptr" "p \<noteq> NULL"
    using box slot by (simp_all add: vf(1-3))
  from recv_udp_queues [where pcb = pcb and addr = "?i + 12" and port = sport, OF conn(3) pre(1) box(2) pre(2,3) avv pre(4), unfolded vf(1,2)]
  obtain w where w:
    "t_recv_udp conn pcb p (?i + 12) sport v = Some w"
    "w = v\<lparr>memp_tab := memp_tab w, memp_next := memp_next w, now_count := now_count v + 1, msgq := (msgq s)(q \<mapsto> ms @ [b]), overruns := overruns v @ [Behind_read],
      netconn := (netconn s)(conn := (netconn s conn)\<lparr>nc_recv_avail := nc_recv_avail (netconn s conn) + pb_tot_len (pbuf v p)\<rparr>),
      netbuf := (netbuf v)(b := (netbuf v b)\<lparr>nb_p := p, nb_ptr := p, nb_fromaddr := ?i + 12, nb_fromport := sport\<rparr>)\<rparr>"
    by blast
  have wv: "pbuf w = pbuf v" "pbuf_pool w = pbuf_pool s" "mem w = mem s" "msgq w = (msgq s)(q \<mapsto> ms @ [b])"
    "netbuf w b = (netbuf v b)\<lparr>nb_p := p, nb_ptr := p, nb_fromaddr := ?i + 12, nb_fromport := sport\<rparr>"
    by (subst w(2), simp add: vf(6,7))+
  have pw: "pbuf w = (pbuf s)(p := pbuf v p)" unfolding wv(1) by (rule vf(8))
  have avw: "pbuf_avail w xs" "pbuf_owned w p"
    using F(3) pbuf_avail_other [OF F(1,2) wv(2) pw] by (simp_all add: pbuf_owned_def wv(1) vp)
  note free = pbuf_free_owned [OF avw(1) conjunct1 [OF slot] F(2) avw(2)]
  let ?u = "w\<lparr>pbuf := (pbuf w)(p := (pbuf w p)\<lparr>pb_ref := 0, pb_next := pbuf_pool w\<rparr>), pbuf_pool := p\<rparr>"
  have "t_ip_input call_udp_recv p inp s = Some (0, w)"
    using ok pr run w(1) H(1) by (simp add: ip_input_dispatch [OF fr])
  then have "t_raw_input call_udp_recv p inp s = Some (0, ?u)"
    unfolding raw_input_ip [OF fr H(2)] using free(1) by simp
  moreover have "load_bytes (f + 34) (unat ulen) ?u = be16 sport @ be16 dport @ be16 ulen @ ck @ data"
    using ub dgram(3) by (simp add: load_bytes_def wv(3))
  moreover have "b \<noteq> NULL" using memp.avail_objs [OF av] memp_objs_pos by auto
  then have "t_netbuf_data b ?u = Some (0, Some (f + 34, ulen))"
    using slot by (simp add: t_netbuf_data_def wv(1,5) vp)
  ultimately show ?thesis using free(2) wv(4,5)
    by (intro exI [of _ ?u]) simp
qed

text \<open>A datagram of 58 bytes from 192.168.1.100, and a machine with a connection for it.\<close>

definition udp_frame :: "u8 list" where
  "udp_frame = [0xb0, 0x6e, 0xbf, 0x37, 0x50, 0xb0, 1, 2, 3, 4, 5, 6, 0x08, 0x00,
     0x45, 0, 0, 86, 0, 1, 0x40, 0, 0xff, 17, 0xf7, 0x70, 0xc0, 0xa8, 1, 100, 0xc0, 0xa8, 1, 112] @
     (be16 8837 @ be16 3308 @ be16 66 @ [0, 0] @ replicate 58 0)"

lemma udp_frame_parse:
  "ip_parse udp_frame = Some (0x6401A8C0, 0x7001A8C0, 255, 0, T_IP_PROTO_UDP, be16 8837 @ be16 3308 @ be16 66 @ [0, 0] @ replicate 58 0)"
proof -
  define body where "body = be16 8837 @ be16 3308 @ be16 66 @ [0, 0] @ replicate 58 (0 :: u8)"
  have b: "length body = 66" by (simp add: body_def)
  have u: "udp_frame = [0xb0, 0x6e, 0xbf, 0x37, 0x50, 0xb0, 1, 2, 3, 4, 5, 6, 0x08, 0x00,
     0x45, 0, 0, 86, 0, 1, 0x40, 0, 0xff, 17, 0xf7, 0x70, 0xc0, 0xa8, 1, 100, 0xc0, 0xa8, 1, 112] @ body" unfolding udp_frame_def body_def by (rule refl)
  have h: "take 20 (drop 14 udp_frame) = [0x45, 0, 0, 86, 0, 1, 0x40, 0, 0xff, 17, 0xf7, 0x70, 0xc0, 0xa8, 1, 100, 0xc0, 0xa8, 1, 112]"
    "drop 34 udp_frame = body" "take 2 (drop 12 udp_frame) = [8, 0]" "length udp_frame = 100"
    by (simp_all add: u b)
  have t: "be16 0x800 = [8, 0]" by (simp add: be16_def byte_of_def unsigned_ucast_eq ucast_eq)
  have l: "unat (u16_of 86 0) = 86" by (simp add: u16_of_def)
  have a: "u32_of 0xc0 0xa8 1 100 = 0x6401A8C0" "u32_of 0xc0 0xa8 1 112 = 0x7001A8C0" by (simp_all add: u32_of_def)
  have c: "chksum_of 196605 = 0" unfolding chksum_of_def ones_def by simp
  show ?thesis unfolding body_def [symmetric] by (simp add: ip_parse_def Let_def h t l a c b T_IP_PROTO_UDP_def)
qed

definition udp_arrived :: api_st where
  "udp_arrived = store_bytes (pbuf_pool_memory + 74) udp_frame
     ((two_buffers (online (t_memp_init api_boot)))\<lparr>
       udp_pcb := (\<lambda>_. udp_zeroed)(0x600 := udp_zeroed\<lparr>up_local_ip := 0x7001A8C0, up_flags := T_UDP_FLAGS_CONNECTED,
         up_local_port := 3308, up_recv := T_recv_udp, up_recv_arg := 0x700\<rparr>),
       t_udp_pcbs := 0x600, msgq := (\<lambda>_. None)(5 \<mapsto> []), msgq_limit := 16384,
       netconn := (netconn api_boot)(0x700 := (netconn api_boot 0x700)\<lparr>nc_recvmbox := 5\<rparr>)\<rparr>)"

theorem datagram_dangles_witness:
  "\<exists>s' b. t_raw_input call_udp_recv pbuf_pool_memory 0x300 udp_arrived = Some (0, s') \<and> msgq s' 5 = Some [b] \<and>
     nb_p (netbuf s' b) = pbuf_pool_memory \<and> pbuf_avail s' (pbuf_pool_memory # drop 2 pbuf_slots)"
proof -
  let ?p = pbuf_pool_memory and ?f = "pbuf_pool_memory + 74" and ?t = "two_buffers (online (t_memp_init api_boot))"
  note tb = two_buffers_facts [of "online (t_memp_init api_boot)"]
  obtain b bs where "memp_avail T_MEMP_NETBUF (online (t_memp_init api_boot)) (b # bs)"
    using memp_avail_fresh [of T_MEMP_NETBUF api_boot] by (auto simp: online_memp)
  then have "memp_avail T_MEMP_NETBUF ?t (b # bs)" by (subst tb(10)) (simp add: memp_avail_def)
  then have av: "memp_avail T_MEMP_NETBUF udp_arrived (b # bs)" by (simp add: memp_avail_def udp_arrived_def store_bytes_def)
  have same: "pbuf udp_arrived = pbuf ?t" "pbuf_pool udp_arrived = pbuf_pool ?t"
    "nc_recvmbox (netconn udp_arrived 0x700) = 5" "msgq udp_arrived 5 = Some []" "msgq_limit udp_arrived = 16384"
    "t_udp_pcbs udp_arrived = 0x600" "udp_pcb udp_arrived 0x600 = udp_zeroed\<lparr>up_local_ip := 0x7001A8C0, up_flags := T_UDP_FLAGS_CONNECTED,
         up_local_port := 3308, up_recv := T_recv_udp, up_recv_arg := 0x700\<rparr>"
    by (simp_all add: udp_arrived_def store_bytes_def)
  have fr: "frame_in ?p ?f 100 (drop 2 pbuf_slots) udp_arrived"
    using tb(1,2,3,4,9) two_buffers_slots(2)
    by (simp add: frame_in_def pbuf_wf_def pbuf_owned_def pbuf_avail_def same T_PBUF_BUFSIZE_def)
  have "length udp_frame = 100" by (simp add: udp_frame_def)
  then have "load_bytes ?f 100 udp_arrived = udp_frame" unfolding udp_arrived_def by (intro load_store_bytes_n) simp
  note d = udp_frame_parse [folded this]
  have us: "udp_list udp_arrived [0x600]" by (simp add: udp_list_def same udp_zeroed_def)
  have m: "0x600 = first_match (\<lambda>q. udp_matches 3308 0x7001A8C0 (udp_pcb udp_arrived q)) [0x600]"
    by (simp add: same udp_matches_def t_ip_addr_cmp_def T_UDP_FLAGS_CONNECTED_def)
  have r: "?f + 34 < ?p + T_PBUF_BUFSIZE - 1" by (simp add: T_PBUF_BUFSIZE_def)
  have c: "up_recv (udp_pcb udp_arrived 0x600) = T_recv_udp" "0x700 = up_recv_arg (udp_pcb udp_arrived 0x600)" by (simp_all add: same)
  have q: "5 = nc_recvmbox (netconn udp_arrived 0x700)" "(5 :: int) \<noteq> T_SYS_MBOX_NULL"
    "length ([] :: ptr list) < msgq_limit udp_arrived div sizeof_ptr" by (simp_all add: same T_SYS_MBOX_NULL_def sizeof_ptr_def)
  from datagram_dangles [OF fr r d _ _ us m _ c _ q(1,2) same(4) q(3) av, of "0x300"]
  obtain s' where "t_raw_input call_udp_recv ?p 0x300 udp_arrived = Some (0, s')" "msgq s' = (msgq udp_arrived)(5 \<mapsto> [b])"
    "nb_p (netbuf s' b) = ?p" "pbuf_avail s' (?p # drop 2 pbuf_slots)" by auto
  then show ?thesis by auto
qed

end
