(* ===== verification/Netconn.thy ===== *)
theory Netconn
  imports Netbuf Tcp_Process
begin

text \<open>
  The creation of a connection: the request travels from the caller through the mailbox of the stack to its handler
  (\<^verbatim>\<open>api/t_api_lib.c\<close>, \<^verbatim>\<open>api/t_api_msg.c\<close>, \<^verbatim>\<open>api/t_tcpip.c\<close>).
\<close>

lemma tcpip_apimsg_posts:
  assumes av: "memp_avail T_MEMP_TCPIP_MSG s (m # ms)" and q: "tcpip_mbox s = q" "q \<noteq> T_SYS_MBOX_NULL" "msgq s q = Some qs"
    and room: "length qs < msgq_limit s div sizeof_ptr"
  shows "\<exists>s'. t_tcpip_apimsg a s = Some s' \<and> memp_avail T_MEMP_TCPIP_MSG s' ms \<and> memp_owned s' m \<and>
    (\<forall>i us. i \<noteq> T_MEMP_TCPIP_MSG \<longrightarrow> memp_avail i s us \<longrightarrow> memp_avail i s' us) \<and>
    s' = s\<lparr>memp_tab := memp_tab s', memp_next := memp_next s', now_count := now_count s + 1, msgq := (msgq s)(q \<mapsto> qs @ [m]), overruns := overruns s @ [Behind_read],
      tcpip_msg := (tcpip_msg s)(m := \<lparr>tm_type = T_TCPIP_MSG_API, tm_msg = Apimsg a\<rparr>)\<rparr>"
proof -
  have m: "m \<noteq> NULL" "postable m" using memp.avail_objs [OF av] memp_objs_pos memp_objs_postable by auto
  from memp_malloc_next [OF av] obtain t where t: "t_memp_malloc T_MEMP_TCPIP_MSG s = (m, t)" "memp_avail T_MEMP_TCPIP_MSG t ms"
    "memp_owned t m" "t = s\<lparr>memp_tab := memp_tab t, memp_next := memp_next t, now_count := now_count s + 1\<rparr>" by blast
  define u where "u = t\<lparr>tcpip_msg := (tcpip_msg t)(m := \<lparr>tm_type = T_TCPIP_MSG_API, tm_msg = Apimsg a\<rparr>)\<rparr>"
  have tf: "tcpip_mbox t = q" "msgq t = msgq s" "msgq_limit t = msgq_limit s" "tcpip_msg t = tcpip_msg s" "overruns t = overruns s"
    by (subst t(4), simp add: q)+
  then have uf: "tcpip_mbox u = q" "msgq u q = Some qs" "msgq_limit u = msgq_limit s" "msgq u = msgq s"
    "memp_tab u = memp_tab t" "memp_next u = memp_next t" by (simp_all add: u_def q)
  let ?s = "u\<lparr>msgq := (msgq u)(q \<mapsto> qs @ [m]), overruns := overruns u @ [Behind_read]\<rparr>"
  have "t_tcpip_apimsg a s = Some ?s"
    using mbox_post_result [OF q(2) uf(2) m(2)] room m(1)
    unfolding t_tcpip_apimsg_def t(1) Let_def prod.case u_def [symmetric] uf(1,3) by simp
  moreover have "memp_avail T_MEMP_TCPIP_MSG ?s ms" "memp_owned ?s m"
    using t(2,3) by (simp_all add: memp_avail_def memp_owned_def uf)
  moreover have "?s = s\<lparr>memp_tab := memp_tab ?s, memp_next := memp_next ?s, now_count := now_count s + 1, msgq := (msgq s)(q \<mapsto> qs @ [m]), overruns := overruns s @ [Behind_read],
      tcpip_msg := (tcpip_msg s)(m := \<lparr>tm_type = T_TCPIP_MSG_API, tm_msg = Apimsg a\<rparr>)\<rparr>"
    unfolding u_def by (subst (1) t(4)) (rule tcpip_st.equality, simp_all add: tf)
  moreover have "memp_avail i ?s us" if "i \<noteq> T_MEMP_TCPIP_MSG" "memp_avail i s us" for i us
    using memp_malloc_other [OF av that(2)] that(1) t(1) by (auto simp: memp_avail_def uf)
  ultimately show ?thesis by blast
qed

text \<open>What \<open>netconn_request\<close> needs, and what it leaves: a connection with an empty mailbox of its own, and a
  message with the request at the end of the mailbox of the stack.\<close>

definition newconn_ready :: "int \<Rightarrow> ptr \<Rightarrow> ptr \<Rightarrow> ptr \<Rightarrow> ptr list \<Rightarrow> 'a api_st_scheme \<Rightarrow> bool" where
  "newconn_ready q c a m ms s \<longleftrightarrow> (\<exists>cs as. memp_avail T_MEMP_NETCONN s (c # cs) \<and> memp_avail T_MEMP_API_MSG s (a # as)) \<and>
     memp_avail T_MEMP_TCPIP_MSG s (m # ms) \<and> msgq_of_key s (mbox_key s + 1) = None \<and> (\<exists>qs. msgq_ids s = q # qs) \<and> 0 \<le> q \<and>
     tcpip_mbox s \<noteq> q \<and> tcpip_mbox s \<noteq> T_SYS_MBOX_NULL \<and> msgq s (tcpip_mbox s) = Some [] \<and> sizeof_ptr \<le> msgq_limit s"

definition newconn_waiting :: "int \<Rightarrow> ptr \<Rightarrow> ptr \<Rightarrow> ptr \<Rightarrow> ptr list \<Rightarrow> 'a api_st_scheme \<Rightarrow> 'a api_st_scheme \<Rightarrow> bool" where
  "newconn_waiting q c a m ms s w \<longleftrightarrow> nc_mbox (netconn w c) = q \<and> am_type (api_msg w a) = T_API_MSG_NEWCONN \<and> am_conn (api_msg w a) = c \<and>
     tcpip_mbox w = tcpip_mbox s \<and> msgq w = (msgq s)(q \<mapsto> [], tcpip_mbox s \<mapsto> [m]) \<and> tm_type (tcpip_msg w m) = T_TCPIP_MSG_API \<and>
     memp_avail T_MEMP_TCPIP_MSG w ms \<and> memp_owned w m \<and> msgq_limit w = msgq_limit s \<and>
     (\<forall>u us. u \<notin> {T_MEMP_NETCONN, T_MEMP_API_MSG, T_MEMP_TCPIP_MSG} \<longrightarrow> memp_avail u s us \<longrightarrow> memp_avail u w us)"

lemma memp_avail_same: "memp_tab t = memp_tab s \<Longrightarrow> memp_next t = memp_next s \<Longrightarrow> memp_avail i t xs = memp_avail i s xs"
  by (simp add: memp_avail_def)

lemma netconn_request_posts:
  assumes "newconn_ready q c a m ms s"
  shows "\<exists>w. netconn_request t proto cb s = Some (Some (c, a), w) \<and> newconn_waiting q c a m ms s w"
proof -
  let ?k = "tcpip_mbox s"
  obtain cs as qs where R: "memp_avail T_MEMP_NETCONN s (c # cs)" "memp_avail T_MEMP_API_MSG s (a # as)"
    "memp_avail T_MEMP_TCPIP_MSG s (m # ms)" "msgq_of_key s (mbox_key s + 1) = None" "msgq_ids s = q # qs" "0 \<le> q"
    "?k \<noteq> q" "?k \<noteq> T_SYS_MBOX_NULL" "msgq s ?k = Some []" "sizeof_ptr \<le> msgq_limit s"
    using assms unfolding newconn_ready_def by blast
  have pos: "c \<noteq> NULL" "a \<noteq> NULL" using memp.avail_objs [OF R(1)] memp.avail_objs [OF R(2)] memp_objs_pos by auto
  have q: "q \<noteq> T_SYS_MBOX_NULL" using R(6) by (simp add: T_SYS_MBOX_NULL_def)
  from memp_malloc_next [OF R(1)] obtain u where u: "t_memp_malloc T_MEMP_NETCONN s = (c, u)"
    "u = s\<lparr>memp_tab := memp_tab u, memp_next := memp_next u, now_count := now_count s + 1\<rparr>" by blast
  have uo: "memp_avail i u is" if "memp_avail i s is" "i \<noteq> T_MEMP_NETCONN" for i "is"
    using memp_malloc_other [OF R(1) that(1)] that(2) u(1) by auto
  have uf: "mbox_key u = mbox_key s" "msgq_of_key u = msgq_of_key s" "msgq_ids u = q # qs" "msgq u = msgq s" "tcpip_mbox u = ?k"
    "msgq_limit u = msgq_limit s" by (subst u(2), simp add: R(5))+
  define v where "v = upd_conn c (\<lambda>n. n\<lparr>nc_err := 0, nc_type := t, nc_pcb := NULL, nc_mbox := q, nc_recvmbox := T_SYS_MBOX_NULL,
      nc_acceptmbox := T_SYS_MBOX_NULL, nc_sem := T_SYS_SEM_NULL, nc_state := T_NETCONN_NONE, nc_socket := 0, nc_callback := cb,
      nc_recv_avail := 0\<rparr>) (u\<lparr>mbox_key := mbox_key s + 1, msgq_of_key := (msgq_of_key s)(mbox_key s + 1 \<mapsto> q), msgq_ids := qs,
      msgq := (msgq s)(q \<mapsto> [])\<rparr>)"
  have vm: "memp_avail i v xs = memp_avail i u xs" for i xs by (rule memp_avail_same) (simp_all add: v_def)
  have va: "memp_avail T_MEMP_API_MSG v (a # as)" using uo [OF R(2)] by (simp add: vm)
  from memp_malloc_next [OF va] obtain x where x: "t_memp_malloc T_MEMP_API_MSG v = (a, x)"
    "x = v\<lparr>memp_tab := memp_tab x, memp_next := memp_next x, now_count := now_count v + 1\<rparr>" by blast
  have xo: "memp_avail i x is" if "memp_avail i s is" "i \<noteq> T_MEMP_NETCONN" "i \<noteq> T_MEMP_API_MSG" for i "is"
    using memp_malloc_other [OF va] uo [OF that(1,2)] that(3) x(1) vm by (metis snd_conv)
  define y where "y = upd_msg a (\<lambda>m. m\<lparr>am_type := T_API_MSG_NEWCONN, am_port := proto, am_conn := c\<rparr>) x"
  have xf: "tcpip_mbox x = ?k" "msgq x = (msgq s)(q \<mapsto> [])" "msgq_limit x = msgq_limit s" "nc_mbox (netconn x c) = q"
    by (subst x(2), simp add: v_def uf)+
  have ym: "memp_avail i y xs = memp_avail i x xs" for i xs by (rule memp_avail_same) (simp_all add: y_def)
  have yf: "tcpip_mbox y = ?k" "msgq y = (msgq s)(q \<mapsto> [])" "msgq_limit y = msgq_limit s" "nc_mbox (netconn y c) = q"
    "am_type (api_msg y a) = T_API_MSG_NEWCONN" "am_conn (api_msg y a) = c" by (simp_all add: y_def xf)
  have yt: "memp_avail T_MEMP_TCPIP_MSG y (m # ms)" using xo [OF R(3)] by (simp add: ym)
  have "msgq y ?k = Some []" "length ([] :: ptr list) < msgq_limit y div sizeof_ptr"
    using R(7,9,10) by (auto simp: yf sizeof_ptr_def div_greater_zero_iff)
  from tcpip_apimsg_posts [OF yt yf(1) R(8) this, of a] obtain w where w: "t_tcpip_apimsg a y = Some w"
    "memp_avail T_MEMP_TCPIP_MSG w ms" "memp_owned w m" "\<forall>i us. i \<noteq> T_MEMP_TCPIP_MSG \<longrightarrow> memp_avail i y us \<longrightarrow> memp_avail i w us"
    "w = y\<lparr>memp_tab := memp_tab w, memp_next := memp_next w, now_count := now_count y + 1, msgq := (msgq y)(?k \<mapsto> [] @ [m]), overruns := overruns y @ [Behind_read],
      tcpip_msg := (tcpip_msg y)(m := \<lparr>tm_type = T_TCPIP_MSG_API, tm_msg = Apimsg a\<rparr>)\<rparr>" by blast
  have run: "netconn_request t proto cb s = Some (Some (c, a), w)"
  proof -
    define u1 where "u1 = upd_conn c (\<lambda>n. n\<lparr>nc_err := 0, nc_type := t, nc_pcb := NULL\<rparr>) u"
    define u2 where "u2 = u1\<lparr>mbox_key := mbox_key s + 1, msgq_of_key := (msgq_of_key s)(mbox_key s + 1 \<mapsto> q), msgq_ids := qs,
      msgq := (msgq s)(q \<mapsto> [])\<rparr>"
    have mb: "t_sys_mbox_new 0xff u1 = (q, u2)"
      using R(4,6) by (simp add: t_sys_mbox_new_def msgget_def u1_def u2_def uf)
    define u3 where "u3 = upd_conn c (\<lambda>n. n\<lparr>nc_mbox := q\<rparr>) u2"
    have q3: "nc_mbox (netconn u3 c) = q" by (simp add: u3_def)
    have v3: "upd_conn c (\<lambda>n. n\<lparr>nc_recvmbox := T_SYS_MBOX_NULL, nc_acceptmbox := T_SYS_MBOX_NULL, nc_sem := T_SYS_SEM_NULL,
        nc_state := T_NETCONN_NONE, nc_socket := 0, nc_callback := cb, nc_recv_avail := 0\<rparr>) u3 = v"
      unfolding v_def u3_def u2_def u1_def by (rule api_st.equality) simp_all
    show ?thesis
      unfolding netconn_request_def Let_def u(1) prod.case u1_def [symmetric] mb u3_def [symmetric] q3 v3 x(1) y_def [symmetric]
        t_api_msg_post_def w(1)
      using pos q by simp
  qed
  have wf: "tcpip_mbox w = ?k" "nc_mbox (netconn w c) = q" "am_type (api_msg w a) = T_API_MSG_NEWCONN" "am_conn (api_msg w a) = c"
    "msgq w = (msgq s)(q \<mapsto> [], ?k \<mapsto> [m])" "tm_type (tcpip_msg w m) = T_TCPIP_MSG_API" "msgq_limit w = msgq_limit s"
    by (subst w(5), simp add: yf)+
  have wo: "memp_avail i w us" if i: "i \<notin> {T_MEMP_NETCONN, T_MEMP_API_MSG, T_MEMP_TCPIP_MSG}" "memp_avail i s us" for i us
    using w(4) xo [of i us] i by (simp add: ym)
  show ?thesis using run wf w(2,3) wo by (simp add: newconn_waiting_def)
qed

text \<open>C22: Creating a connection never ends.  The request reaches the thread of the stack, which takes it out of its
  mailbox, frees the message and does not answer; from then on the caller waits for the answer and the
  thread for the next message.\<close>

theorem netconn_new_deadlocks:
  assumes "newconn_ready q c a m ms s"
  shows "t_netconn_new_with_proto_and_callback t proto cb s = None \<and>
    (\<exists>w w'. netconn_request t proto cb s = Some (Some (c, a), w) \<and> netconn_answered c a w = None \<and>
      t_tcpip_round call w = Some w' \<and> memp_avail T_MEMP_TCPIP_MSG w' (m # ms) \<and>
      netconn_answered c a w' = None \<and> t_tcpip_round call w' = None)"
proof -
  let ?k = "tcpip_mbox s"
  from netconn_request_posts [OF assms, of t proto cb] obtain w where run: "netconn_request t proto cb s = Some (Some (c, a), w)"
    and w: "newconn_waiting q c a m ms s w" by blast
  have R: "?k \<noteq> q" "?k \<noteq> T_SYS_MBOX_NULL" "q \<noteq> T_SYS_MBOX_NULL" "memp_avail T_MEMP_TCPIP_MSG s (m # ms)"
    using assms by (auto simp: newconn_ready_def T_SYS_MBOX_NULL_def)
  have W: "nc_mbox (netconn w c) = q" "tcpip_mbox w = ?k" "msgq w = (msgq s)(q \<mapsto> [], ?k \<mapsto> [m])"
    "tm_type (tcpip_msg w m) = T_TCPIP_MSG_API" "memp_avail T_MEMP_TCPIP_MSG w ms" "memp_owned w m"
    using w by (simp_all add: newconn_waiting_def)
  have stuck: "netconn_answered c a v = None" if "nc_mbox (netconn v c) = q" "msgq v q = Some []" for v :: "'a api_st_scheme"
    using that mbox_fetch_result [OF R(3) that(2), of 0] by (simp add: netconn_answered_def)
  have a1: "netconn_answered c a w = None" using R(1) by (intro stuck) (simp_all add: W)
  define v where "v = w\<lparr>msgq := (msgq w)(?k \<mapsto> []), overruns := overruns w @ [Behind_written]\<rparr>"
  have "memp_avail T_MEMP_TCPIP_MSG v ms" "memp_owned v m" using W(5,6) by (simp_all add: v_def memp_avail_def memp_owned_def)
  moreover have m: "m \<in> memp_objs T_MEMP_TCPIP_MSG" "m \<notin> set ms" "m \<noteq> NULL"
    using memp.avail_objs [OF R(4)] memp.avail_distinct [OF R(4)] memp_objs_pos by auto
  ultimately obtain w' where w': "t_memp_free T_MEMP_TCPIP_MSG m v = Some w'" "memp_avail T_MEMP_TCPIP_MSG w' (m # ms)"
    "w' = v\<lparr>memp_tab := memp_tab w', memp_next := memp_next w', now_count := now_count v - 1\<rparr>"
    using memp_free_push [of T_MEMP_TCPIP_MSG v ms m] by blast
  have f: "nc_mbox (netconn w' c) = q" "msgq w' q = Some []" "msgq w' ?k = Some []" "tcpip_mbox w' = ?k"
    using R(1) by (subst w'(3), simp add: v_def W)+
  have "msgq w ?k = Some [m]" by (simp add: W(3))
  from tcpip_round_api [OF W(2) R(2) this m(3) W(4), of call] w'(1) have r: "t_tcpip_round call w = Some w'" by (simp add: v_def)
  have "t_tcpip_round call w' = None"
    using mbox_fetch_result [OF R(2) f(3), of 1000] by (simp add: t_tcpip_round_def t_tcpip_timeout_mbox_fetch_def f(4))
  moreover have "t_netconn_new_with_proto_and_callback t proto cb s = None"
    using run a1 by (simp add: t_netconn_new_with_proto_and_callback_def)
  ultimately show ?thesis using run a1 r w'(2) stuck [OF f(1,2)] by blast
qed

text \<open>C25: The handler of the request would do its part: the connection gets a UDP block whose receive function
  delivers to it, and the caller goes on with the connection.\<close>

theorem newconn_answers:
  assumes ready: "newconn_ready q c a m ms s" and av: "memp_avail T_MEMP_UDP_PCB s (p # ps)"
  shows "\<exists>w x y. netconn_request T_NETCONN_UDP proto cb s = Some (Some (c, a), w) \<and> t_api_msg_input a w = Some x \<and>
    netconn_answered c a x = Some (c, y) \<and> nc_pcb (netconn y c) = p \<and> nc_err (netconn y c) = 0 \<and>
    udp_pcb y p = udp_zeroed\<lparr>up_ttl := T_UDP_TTL, up_recv := T_recv_udp, up_recv_arg := c\<rparr> \<and>
    memp_avail T_MEMP_UDP_PCB y ps \<and> msgq y q = Some []"
proof -
  from netconn_request_posts [OF ready, of T_NETCONN_UDP proto cb] obtain w where
    run: "netconn_request T_NETCONN_UDP proto cb s = Some (Some (c, a), w)" and w: "newconn_waiting q c a m ms s w" by blast
  obtain cs as where "memp_avail T_MEMP_NETCONN s (c # cs)" "memp_avail T_MEMP_API_MSG s (a # as)"
    using ready unfolding newconn_ready_def by blast
  from memp.avail_objs [OF this(1)] memp.avail_objs [OF this(2)]
  have pos: "a \<in> memp_objs T_MEMP_API_MSG" "c \<noteq> NULL" "a \<noteq> NULL" using memp_objs_pos by auto
  have R: "tcpip_mbox s \<noteq> q" "q \<noteq> T_SYS_MBOX_NULL" "sizeof_ptr \<le> msgq_limit s"
    using ready by (auto simp: newconn_ready_def T_SYS_MBOX_NULL_def)
  have W: "nc_mbox (netconn w c) = q" "am_type (api_msg w a) = T_API_MSG_NEWCONN" "am_conn (api_msg w a) = c"
    "msgq w q = Some []" "msgq_limit w = msgq_limit s" "memp_avail T_MEMP_UDP_PCB w (p # ps)"
    using w av R(1) by (simp_all add: newconn_waiting_def)
  have p: "p \<noteq> NULL" using memp.avail_objs [OF av] memp_objs_pos by auto
  define w1 where "w1 = upd_conn c (\<lambda>n. n\<lparr>nc_err := 0\<rparr>) w"
  have "memp_avail T_MEMP_UDP_PCB w1 (p # ps)" using W(6) by (simp add: w1_def memp_avail_def)
  from memp_malloc_next [OF this] obtain v where v: "t_memp_malloc T_MEMP_UDP_PCB w1 = (p, v)" "memp_avail T_MEMP_UDP_PCB v ps"
    "v = w1\<lparr>memp_tab := memp_tab v, memp_next := memp_next v, now_count := now_count w1 + 1\<rparr>" by blast
  have vf: "nc_mbox (netconn v c) = q" "msgq v q = Some []" "msgq_limit v = msgq_limit s" "nc_err (netconn v c) = 0"
    by (subst v(3), simp add: w1_def W)+
  define b where "b = udp_zeroed\<lparr>up_ttl := T_UDP_TTL, up_recv := T_recv_udp, up_recv_arg := c\<rparr>"
  define x0 where "x0 = v\<lparr>udp_pcb := (udp_pcb v)(p := b), netconn := (netconn v)(c := (netconn v c)\<lparr>nc_pcb := p\<rparr>)\<rparr>"
  define x where "x = x0\<lparr>msgq := (msgq x0)(q \<mapsto> [mbox_temp]), overruns := overruns x0 @ [Behind_read]\<rparr>"
  have xf: "msgq x q = Some [mbox_temp]" "nc_mbox (netconn x c) = q" "nc_err (netconn x c) = 0" "nc_pcb (netconn x c) = p"
    "udp_pcb x p = b" "memp_avail T_MEMP_UDP_PCB x ps"
    using v(2) by (simp_all add: x_def x0_def vf memp_avail_def)
  have handled: "t_api_msg_input a w = Some x"
  proof -
    have new: "t_udp_new w1 = (p, upd_udp p (\<lambda>_. udp_zeroed\<lparr>up_ttl := T_UDP_TTL\<rparr>) v)"
      using p by (simp add: t_udp_new_def v(1))
    have type: "nc_type (netconn w1 c) = T_NETCONN_UDP" by (cases "nc_type (netconn w1 c)") simp
    have "t_udp_recv p T_recv_udp c (upd_conn c (\<lambda>n. n\<lparr>nc_pcb := p\<rparr>) (upd_udp p (\<lambda>_. udp_zeroed\<lparr>up_ttl := T_UDP_TTL\<rparr>) v)) = Some x0"
      using p by (simp add: t_udp_recv_def x0_def b_def)
    moreover have "t_sys_mbox_post q NULL x0 = Some (0, x)"
      using R(2,3) by (simp add: t_sys_mbox_post_def msgsnd_def x_def x0_def vf mbox_temp_def)
    moreover have "nc_mbox (netconn x0 c) = q" by (simp add: x0_def vf)
    ultimately have "do_newconn a w = Some x"
      unfolding do_newconn_def W(3) Let_def w1_def [symmetric] type t_netconn_type.case new prod.case using pos(2) p by simp
    then show ?thesis using pos(3) by (simp add: t_api_msg_input_def W(2) decode_def)
  qed
  let ?z = "x\<lparr>msgq := (msgq x)(q \<mapsto> []), overruns := overruns x @ [Behind_written]\<rparr>"
  obtain y where y: "t_memp_free T_MEMP_API_MSG a ?z = Some y"
  proof -
    obtain e where "a = e + sizeof_t_memp" "memp_memory \<le> e" using pos(1) memp_elems_pos by (auto simp: memp_objs_def)
    then have "sizeof_t_memp < a" by (simp add: memp_memory_def)
    then show ?thesis using that by (simp add: t_memp_free_def Let_def)
  qed
  have "netconn y = netconn x" "udp_pcb y = udp_pcb x" "msgq y = (msgq x)(q \<mapsto> [])"
    using memp_free_only [OF y] by (auto)
  moreover have "memp_avail T_MEMP_UDP_PCB ?z ps" using xf(6) by (simp add: memp_avail_def)
  from memp_free_other [OF pos(1) this _ y] have "memp_avail T_MEMP_UDP_PCB y ps" by simp
  moreover have "t_sys_mbox_fetch q 0 x = Some (0, Some mbox_temp, ?z)"
    using mbox_fetch_result [OF R(2) xf(1), of 0] by simp
  then have "netconn_answered c a x = Some (c, y)"
    using y calculation(1) by (simp add: netconn_answered_def xf)
  ultimately show ?thesis using run handled xf
    by (intro exI [of _ w] exI [of _ x] exI [of _ y]) (simp add: b_def)
qed

text \<open>After the start of the thread the first connection can be asked for.\<close>

abbreviation api_start :: api_st where "api_start \<equiv> t_memp_init (snd (t_tcpip_init True api_boot))"

lemma api_start_ready:
  "\<exists>c a m ms p ps. newconn_ready 1 c a m ms api_start \<and> memp_avail T_MEMP_UDP_PCB api_start (p # ps)"
proof -
  let ?s = "snd (t_tcpip_init True api_boot)"
  have b: "msgq_of_key api_boot = (\<lambda>_. None)" "mbox_key api_boot = 100" "msgq_ids api_boot = [0, 1, 2, 3, 4, 5, 6, 7]"
    "msgq_limit api_boot = 16384" "msgq api_boot = (\<lambda>_. None)"
    by (simp_all add: api_boot_def tcpip_st.defs tcpip_boot_def sys_st.defs sys_boot_def tcp_st.defs)
  have "msgq_of_key ?s = (\<lambda>_. None)(101 \<mapsto> 0)" "mbox_key ?s = 101" "msgq_ids ?s = [1, 2, 3, 4, 5, 6, 7]" "msgq_limit ?s = 16384"
    "msgq ?s 0 = Some []" "tcpip_mbox ?s = 0"
    by (simp_all add: t_tcpip_init_def t_sys_mbox_new_def msgget_def t_sys_thread_new_def b)
  then have s: "msgq_of_key api_start = (\<lambda>_. None)(101 \<mapsto> 0)" "mbox_key api_start = 101" "msgq_ids api_start = [1, 2, 3, 4, 5, 6, 7]"
    "msgq_limit api_start = 16384" "msgq api_start 0 = Some []" "tcpip_mbox api_start = 0"
    by (subst memp_init_frame, simp)+
  have "\<exists>x xs. memp_avail i api_start (x # xs)" for i using memp_avail_fresh by blast
  then obtain c cs a as m ms p ps where "memp_avail T_MEMP_NETCONN api_start (c # cs)" "memp_avail T_MEMP_API_MSG api_start (a # as)"
    "memp_avail T_MEMP_TCPIP_MSG api_start (m # ms)" "memp_avail T_MEMP_UDP_PCB api_start (p # ps)" by metis
  moreover from this s have "newconn_ready 1 c a m ms api_start"
    by (auto simp: newconn_ready_def T_SYS_MBOX_NULL_def sizeof_ptr_def)
  ultimately show ?thesis by blast
qed

theorem netconn_new_deadlocks_witness:
  "\<exists>c a w w'. netconn_request T_NETCONN_UDP 0 No_callback api_start = Some (Some (c, a), w) \<and> netconn_answered c a w = None \<and>
     t_tcpip_round (\<lambda>_ _ _ _ _ _ s. Some s) w = Some w' \<and> netconn_answered c a w' = None"
proof -
  obtain c a m ms where "newconn_ready 1 c a m ms api_start" using api_start_ready by blast
  from netconn_new_deadlocks [OF this, of T_NETCONN_UDP 0 No_callback "\<lambda>_ _ _ _ _ _ s. Some s"] show ?thesis by blast
qed

theorem newconn_answers_witness:
  "\<exists>c a w x y. netconn_request T_NETCONN_UDP 0 Event_callback api_start = Some (Some (c, a), w) \<and> t_api_msg_input a w = Some x \<and>
     netconn_answered c a x = Some (c, y) \<and> up_recv (udp_pcb y (nc_pcb (netconn y c))) = T_recv_udp"
proof -
  obtain c a m ms p ps where "newconn_ready 1 c a m ms api_start" "memp_avail T_MEMP_UDP_PCB api_start (p # ps)"
    using api_start_ready by blast
  from newconn_answers [OF this, of 0 Event_callback] show ?thesis by auto
qed

end
