(* ===== verification/Robust.thy ===== *)
theory Robust
  imports Wire
begin

text \<open>
  Frames of any content: without connections, no frame a device can deliver makes the stack fault, hang, lose a
  buffer, or write outside the buffer of the frame.
\<close>

section \<open>What the processing of a frame may touch\<close>

text \<open>The buffer \<open>p\<close> (its bytes, its payload and lengths), the ARP table, the variables of TCP input, and the
  frames sent, of which there may be \<open>n\<close> more.\<close>

definition touched :: "nat \<Rightarrow> ptr \<Rightarrow> 'a tcp_st_scheme \<Rightarrow> 'a tcp_st_scheme \<Rightarrow> bool" where
  "touched n p s t \<longleftrightarrow>
     t = s\<lparr>mem := mem t, pbuf := (pbuf s)(p := pbuf t p), sent := sent t, t_arp_table := t_arp_table t,
       table_count := table_count t, in_tcphdr := in_tcphdr t, in_iphdr := in_iphdr t, in_seqno := in_seqno t,
       in_ackno := in_ackno t, in_flags := in_flags t, in_tcplen := in_tcplen t\<rparr> \<and>
     pb_next (pbuf t p) = pb_next (pbuf s p) \<and> pb_ref (pbuf t p) = pb_ref (pbuf s p) \<and> pb_flags (pbuf t p) = pb_flags (pbuf s p) \<and>
     (\<exists>fs. sent t = sent s @ fs \<and> length fs \<le> n) \<and>
     (\<forall>y. y < p + sizeof_t_pbuf \<or> p + pbuf_slot \<le> y \<longrightarrow> mem t y = mem s y)"

named_theorems touches \<open>steps that touch nothing but the buffer\<close>

lemma touched_refl [touches]: "touched 0 p s s"
  by (simp add: touched_def)

lemma touched_more: "touched n p s t \<Longrightarrow> n \<le> m \<Longrightarrow> touched m p s t"
  unfolding touched_def by (metis le_trans)

lemma touched_fields:
  assumes "touched n p s t"
  shows "pbuf t = (pbuf s)(p := pbuf t p)" "pbuf_pool t = pbuf_pool s" "netif t = netif s" "udp_pcb t = udp_pcb s" "t_udp_pcbs t = t_udp_pcbs s"
    "tcp_active_pcbs t = tcp_active_pcbs s" "netif_list t = netif_list s" "netif_default t = netif_default s"
  by (subst assms [unfolded touched_def, THEN conjunct1], simp)+

text \<open>A step that keeps everything else, seen from an earlier state.\<close>

lemma touched_step:
  assumes "touched n p s t"
    and "u = t\<lparr>mem := mem u, pbuf := (pbuf t)(p := pbuf u p), sent := sent u, t_arp_table := t_arp_table u,
       table_count := table_count u, in_tcphdr := in_tcphdr u, in_iphdr := in_iphdr u, in_seqno := in_seqno u,
       in_ackno := in_ackno u, in_flags := in_flags u, in_tcplen := in_tcplen u\<rparr>"
    and "pb_next (pbuf u p) = pb_next (pbuf t p)" "pb_ref (pbuf u p) = pb_ref (pbuf t p)" "pb_flags (pbuf u p) = pb_flags (pbuf t p)"
    and "sent u = sent t @ fs" "length fs \<le> m"
    and "\<forall>y. y < p + sizeof_t_pbuf \<or> p + pbuf_slot \<le> y \<longrightarrow> mem u y = mem t y"
  shows "touched (n + m) p s u"
proof -
  note eq = assms(1) [unfolded touched_def, THEN conjunct1] and rest = assms(1) [unfolded touched_def, THEN conjunct2]
  have "u = s\<lparr>mem := mem u, pbuf := (pbuf s)(p := pbuf u p), sent := sent u, t_arp_table := t_arp_table u,
       table_count := table_count u, in_tcphdr := in_tcphdr u, in_iphdr := in_iphdr u, in_seqno := in_seqno u,
       in_ackno := in_ackno u, in_flags := in_flags u, in_tcplen := in_tcplen u\<rparr>"
    by (rule trans [OF assms(2)], subst touched_fields(1) [OF assms(1)], subst (1) eq) simp
  moreover obtain gs where "sent t = sent s @ gs" "length gs \<le> n" using rest by blast
  then have "sent u = sent s @ gs @ fs" "length (gs @ fs) \<le> n + m" using assms(6,7) by simp_all
  then have "\<exists>fs. sent u = sent s @ fs \<and> length fs \<le> n + m" by blast
  ultimately show ?thesis using rest assms(3-5,8) unfolding touched_def by simp
qed

lemma touched_trans: "touched n p s t \<Longrightarrow> touched m p t u \<Longrightarrow> touched (n + m) p s u"
  by (elim touched_def [of m p t u, THEN iffD1, elim_format] conjE exE) (rule touched_step, assumption+)

text \<open>Stores within the buffer.\<close>

lemma touched_mem:
  assumes "touched n p s t" and "u = t\<lparr>mem := mem u\<rparr>"
    and "\<forall>y. y < p + sizeof_t_pbuf \<or> p + pbuf_slot \<le> y \<longrightarrow> mem u y = mem t y"
  shows "touched n p s u"
proof -
  have "pbuf u = pbuf t" "sent u = sent t" "t_arp_table u = t_arp_table t" "table_count u = table_count t" "in_tcphdr u = in_tcphdr t"
    "in_iphdr u = in_iphdr t" "in_seqno u = in_seqno t" "in_ackno u = in_ackno t" "in_flags u = in_flags t" "in_tcplen u = in_tcplen t"
    by (subst assms(2), simp)+
  then show ?thesis using touched_step [OF assms(1), of u "[]" 0] assms(2,3) by simp
qed

lemma touched_store [touches]:
  "touched n p s t \<Longrightarrow> p + sizeof_t_pbuf \<le> a \<Longrightarrow> a + 1 \<le> p + pbuf_slot \<Longrightarrow> touched n p s (store8 a v t)"
  "touched n p s t \<Longrightarrow> p + sizeof_t_pbuf \<le> a \<Longrightarrow> a + 2 \<le> p + pbuf_slot \<Longrightarrow> touched n p s (store16 a w t)"
  "touched n p s t \<Longrightarrow> p + sizeof_t_pbuf \<le> a \<Longrightarrow> a + 4 \<le> p + pbuf_slot \<Longrightarrow> touched n p s (store32 a x t)"
  "touched n p s t \<Longrightarrow> p + sizeof_t_pbuf \<le> a \<Longrightarrow> a + length bs \<le> p + pbuf_slot \<Longrightarrow> touched n p s (store_bytes a bs t)"
  by (erule touched_mem; auto simp: store8_def store16_def store32_def store_bytes_def put_bytes_apply)+

text \<open>Moving the payload, possible or not.\<close>

definition moved :: "ptr \<Rightarrow> int \<Rightarrow> 'a tcp_st_scheme \<Rightarrow> 'a tcp_st_scheme" where
  "moved p i s = (if header_fits s p i then upd_pbuf p (\<lambda>b. b\<lparr>pb_payload := nat (int (pb_payload b) + i),
      pb_tot_len := pb_tot_len b - of_int i, pb_len := pb_len b - of_int i\<rparr>) s else s)"

lemma header_moved:
  "p \<noteq> NULL \<Longrightarrow> pb_flags (pbuf s p) = T_PBUF_FLAG_POOL \<Longrightarrow>
   t_pbuf_header p i s = Some (if header_fits s p i then 0 else -1, moved p i s)"
  using pbuf_header_moves [of p s i] pbuf_header_refuses [of p s i] by (simp add: moved_def)

lemma touched_moved [touches]: "touched n p s t \<Longrightarrow> touched n p s (moved p i t)"
  using touched_step [of n p s t "moved p i t" "[]" 0] by (auto simp: moved_def)

lemma moved_fields [simp]: "mem (moved p i s) = mem s" "netif (moved p i s) = netif s" "pbuf_pool (moved p i s) = pbuf_pool s"
  "udp_pcb (moved p i s) = udp_pcb s" "t_udp_pcbs (moved p i s) = t_udp_pcbs s" "tcp_active_pcbs (moved p i s) = tcp_active_pcbs s"
  "pb_flags (pbuf (moved p i s) p) = pb_flags (pbuf s p)"
  by (simp_all add: moved_def)

section \<open>Output\<close>

lemma inet_chksum_defined: "accessible a (unat n) \<Longrightarrow> \<exists>c. t_inet_chksum a n s = Some c"
  by (simp add: t_inet_chksum_def lwip_standard_chksum_def Let_def split: prod.split)

text \<open>Where the payload of a buffer is after a move, and where it ends.\<close>

lemma moved_payload:
  assumes "p + sizeof_t_pbuf \<le> pb_payload (pbuf s p)" and "pb_payload (pbuf s p) \<le> p + 1526"
    and "pb_payload (pbuf s p) + unat (pb_tot_len (pbuf s p)) \<le> p + pbuf_slot" and "k \<in> {14, 20}"
  shows "p + sizeof_t_pbuf \<le> pb_payload (pbuf (moved p (- int k) s) p)"
    and "pb_payload (pbuf (moved p (- int k) s) p) \<le> p + 1526"
    and "pb_payload (pbuf (moved p (- int k) s) p) + unat (pb_tot_len (pbuf (moved p (- int k) s) p)) \<le> p + pbuf_slot"
    and "header_fits s p (- int k) = (p + sizeof_t_pbuf + k \<le> pb_payload (pbuf s p))"
proof -
  let ?e = "pb_payload (pbuf s p)" and ?n = "pb_tot_len (pbuf s p)"
  show f: "header_fits s p (- int k) = (p + sizeof_t_pbuf + k \<le> ?e)"
    using assms by (auto simp: header_fits_def T_PBUF_BUFSIZE_def)
  have n: "unat (?n + of_nat k) = unat ?n + k"
    using assms by (intro unat_plus_small) (auto simp: pbuf_slot_eq sizeof_t_pbuf_def)
  have m: "pb_payload (pbuf (moved p (- int k) s) p) = (if p + sizeof_t_pbuf + k \<le> ?e then ?e - k else ?e)"
    "pb_tot_len (pbuf (moved p (- int k) s) p) = (if p + sizeof_t_pbuf + k \<le> ?e then ?n + of_nat k else ?n)"
    by (auto simp: moved_def f nat_diff_distrib')
  show "p + sizeof_t_pbuf \<le> pb_payload (pbuf (moved p (- int k) s) p)" "pb_payload (pbuf (moved p (- int k) s) p) \<le> p + 1526"
    "pb_payload (pbuf (moved p (- int k) s) p) + unat (pb_tot_len (pbuf (moved p (- int k) s) p)) \<le> p + pbuf_slot"
    using assms(1-3) n by (auto simp: m)
qed

lemma touched_sent:
  "touched n p s t \<Longrightarrow> touched (Suc n) p s (t\<lparr>sent := sent t @ [f]\<rparr>)"
  using touched_step [of n p s t "t\<lparr>sent := sent t @ [f]\<rparr>" "[f]" 1] by simp

text \<open>The interface sends what the buffer holds.\<close>

lemma output_touches:
  assumes "touched n p s t" and "netif_up s inp" and "p \<in> set pbuf_slots" and "p + sizeof_t_pbuf \<le> pb_payload (pbuf t p)"
    and "pb_payload (pbuf t p) + unat (pb_tot_len (pbuf t p)) \<le> p + pbuf_slot"
  shows "\<exists>u. call_output inp p t = Some (0, u) \<and> touched (Suc n) p s u"
proof -
  have "netif_up t inp" using assms(2) touched_fields(3) [OF assms(1)] by (simp add: netif_up_def)
  moreover have "accessible (pb_payload (pbuf t p)) (unat (pb_tot_len (pbuf t p)))" by (rule accessible_in_slot [OF assms(3-5)])
  moreover have "p \<noteq> NULL" using pbuf_slots_pos [OF assms(3)] by simp
  ultimately show ?thesis using touched_sent [OF assms(1)]
    by (auto simp: call_output_def ether0_output_def linux_send_data_def netif_up_def)
qed

lemma ip_output_survives:
  assumes p: "p \<in> set pbuf_slots" "pb_flags (pbuf s p) = T_PBUF_FLAG_POOL" and up: "netif_up s inp"
    and e: "p + sizeof_t_pbuf \<le> pb_payload (pbuf s p)" "pb_payload (pbuf s p) \<le> p + 1526"
      "pb_payload (pbuf s p) + unat (pb_tot_len (pbuf s p)) \<le> p + pbuf_slot"
    and a: "p + sizeof_t_pbuf \<le> a" "a + 4 \<le> p + pbuf_slot"
  shows "\<exists>t. t_ip_output inp p None (At a) ttl tos proto s = Some (0, t) \<and> touched 1 p s t"
proof -
  have n: "p \<noteq> NULL" "inp \<noteq> NULL" "length (nif_hwaddr (netif s inp)) = 6"
    using pbuf_slots_pos [OF p(1)] up by (simp_all add: netif_up_def)
  define s1 where "s1 = moved p (- int 20) s"
  define h where "h = pb_payload (pbuf s1 p)"
  have k: "20 \<in> {14, 20 :: nat}" "14 \<in> {14, 20 :: nat}" by simp_all
  note m1 = moved_payload [OF e k(1), folded s1_def]
  define d where "d = load32 a (T_IPH_PROTO_SET h (ucast proto) (T_IPH_TTL_SET h (ucast ttl) s1))"
  define s2 where "s2 = ip_write h d tos (pb_tot_len (pbuf s1 p)) ttl proto (nif_ip_addr (netif s inp)) s1"
  have acc: "accessible h 20" "accessible a 4"
    using m1(1,2) by (auto intro!: accessible_in_slot [OF p(1)] a simp: h_def pbuf_slot_eq)
  then obtain c where c: "t_inet_chksum h 20 s2 = Some c" using inet_chksum_defined [of h 20 s2] by auto
  define s3 where "s3 = store16 (h + 10) c s2"
  have t1: "touched 0 p s s1" unfolding s1_def by (intro touches)
  have t3: "touched 0 p s s3"
    unfolding s3_def s2_def ip_write_def T_IPH_PROTO_SET_def T_IPH_TTL_SET_def T_IPH_VHLTOS_SET_def
    by (intro touches t1) (use m1(1,2) in \<open>auto simp: h_def pbuf_slot_eq\<close>)
  have b3: "pbuf s3 = pbuf s1" "netif s3 = netif s1" by (simp_all add: s3_def s2_def ip_write_def)
  define s4 where "s4 = moved p (- int 14) s3"
  note m4 = moved_payload [of p s3, OF _ _ _ k(2), unfolded b3, OF m1(1-3), folded s4_def]
  have t4: "touched 0 p s s4" unfolding s4_def by (intro touches t3)
  have fl: "pb_flags (pbuf s3 p) = T_PBUF_FLAG_POOL" using p(2) by (simp add: b3 s1_def)
  have h1: "t_pbuf_header p (- int T_IP_HLEN) s = Some (if header_fits s p (- 20) then 0 else -1, s1)"
    using header_moved [OF n(1) p(2), of "- 20"] by (simp add: T_IP_HLEN_def s1_def)
  have h4: "t_pbuf_header p (- 14) s3 = Some (if header_fits s3 p (- 14) then 0 else -1, s4)"
    using header_moved [OF n(1) fl, of "- 14"] by (simp add: s4_def)
  have nf: "netif s1 = netif s" "netif s4 = netif s" by (simp_all add: s4_def b3 s1_def)
  have w: "store16 (h + 10) 0 (store32 (h + 12) (nif_ip_addr (netif s inp)) (store16 (h + 6) (htons T_IP_DF)
      (store16 (h + 2) (htons (pb_tot_len (pbuf s1 p))) (T_IPH_VHLTOS_SET h 4 5 (ucast tos)
        (store32 (h + 16) d (T_IPH_PROTO_SET h (ucast proto) (T_IPH_TTL_SET h (ucast ttl) s1))))))) = s2"
    by (simp add: s2_def ip_write_def T_IP_HLEN_def)
  have run: "t_ip_output inp p None (At a) ttl tos proto s = (if \<not> header_fits s3 p (- 14) then Some (0, s4)
    else do {
      let ethhdr = pb_payload (pbuf s4 p);
      defined (accessible ethhdr 14 \<and> inp \<noteq> NULL);
      let s = store_bytes (eth_dst ethhdr) (get_mac_from_ip (At a)) s4;
      let s = store_bytes (eth_src ethhdr) (nif_hwaddr (netif s inp)) s;
      let s = store16 (eth_frame_type ethhdr) (htons 0x800) s;
      (_, s) \<leftarrow> call_output inp p s;
      Some (0, s) })"
    unfolding t_ip_output_def h1 using n(2) acc c h4
    by (simp add: Let_def h_def [symmetric] d_def [symmetric] T_IP_HLEN_def nf w s3_def [symmetric] del: add_2_eq_Suc add_2_eq_Suc')
  show ?thesis
  proof (cases "header_fits s3 p (- 14)")
    case False
    then show ?thesis using run touched_more [OF t4, of 1] by simp
  next
    case True
    let ?e = "pb_payload (pbuf s4 p)"
    define s5 where "s5 = store16 (eth_frame_type ?e) (htons 0x800) (store_bytes (eth_src ?e) (nif_hwaddr (netif s inp))
      (store_bytes (eth_dst ?e) (get_mac_from_ip (At a)) s4))"
    have "?e + 14 \<le> p + pbuf_slot" using m4(2) by (simp add: pbuf_slot_eq)
    then have t5: "touched 0 p s s5" unfolding s5_def
      by (intro touches t4) (use m4(1) n(3) in \<open>auto simp: get_mac_from_ip_def\<close>)
    have b5: "pbuf s5 = pbuf s4" by (simp add: s5_def)
    from output_touches [OF t5 up p(1), unfolded b5, OF m4(1,3)] obtain t where t: "call_output inp p s5 = Some (0, t)" "touched 1 p s t"
      by auto
    have "accessible ?e 14" using m4(1,2) by (intro accessible_in_slot [OF p(1)]) (simp_all add: pbuf_slot_eq)
    then show ?thesis using run True n(2) t by (simp add: Let_def s5_def nf)
  qed
qed

section \<open>Packets\<close>

text \<open>An IP packet of \<open>n\<close> bytes behind the Ethernet header.\<close>

definition packet_in :: "ptr \<Rightarrow> nat \<Rightarrow> 'a tcp_st_scheme \<Rightarrow> bool" where
  "packet_in p n s \<longleftrightarrow> p \<in> set pbuf_slots \<and> pb_flags (pbuf s p) = T_PBUF_FLAG_POOL \<and> pb_payload (pbuf s p) = p + 46 \<and>
     unat (pb_tot_len (pbuf s p)) = n \<and> n \<le> 1500"

lemma packet_header:
  assumes "packet_in p n s" and "k \<le> 60" and "k \<le> n"
  shows "t_pbuf_header p (int k) s = Some (0, moved p (int k) s)" "pb_payload (pbuf (moved p (int k) s) p) = p + 46 + k"
    "unat (pb_tot_len (pbuf (moved p (int k) s) p)) = n - k"
proof -
  have P: "p \<in> set pbuf_slots" "pb_flags (pbuf s p) = T_PBUF_FLAG_POOL" "pb_payload (pbuf s p) = p + 46"
    "unat (pb_tot_len (pbuf s p)) = n" "n \<le> 1500" using assms(1) by (simp_all add: packet_in_def)
  have f: "header_fits s p (int k)" using P(3) assms(2) by (simp add: header_fits_def sizeof_t_pbuf_def T_PBUF_BUFSIZE_def)
  then show "t_pbuf_header p (int k) s = Some (0, moved p (int k) s)"
    using header_moved [of p s "int k"] P(2) pbuf_slots_pos [OF P(1)] by simp
  show "pb_payload (pbuf (moved p (int k) s) p) = p + 46 + k" using f P(3) by (simp add: moved_def nat_add_distrib)
  have "unat (of_nat k :: u16) = k" using assms(2) by (intro unat_of_nat_lt) simp
  then show "unat (pb_tot_len (pbuf (moved p (int k) s) p)) = n - k"
    using f P(4) assms(3) by (simp add: moved_def unat_sub word_le_nat_alt)
qed

lemma packet_accessible: "packet_in p n s \<Longrightarrow> p + 32 \<le> a \<Longrightarrow> a + k \<le> p + 1546 \<Longrightarrow> accessible a k"
  by (rule accessible_in_slot [of p]) (simp_all add: packet_in_def sizeof_t_pbuf_def pbuf_slot_eq)

lemma icmp_survives:
  assumes P: "packet_in p n s" and up: "netif_up s inp" and hl: "unat (T_IPH_HL (p + 46) s * 4) < n"
  shows "\<exists>r t. t_icmp_input p inp s = Some (r, t) \<and> touched 1 p s t"
proof -
  define k where "k = unat (T_IPH_HL (p + 46) s * 4)"
  note hb = T_IPH_HL_bound [of "p + 46" s]
  have k: "k \<le> 60" "k \<le> n" "k < n" using hb hl by (simp_all add: k_def)
  have S: "p \<in> set pbuf_slots" "p \<noteq> NULL" "pb_payload (pbuf s p) = p + 46" "n \<le> 1500" "pb_flags (pbuf s p) = T_PBUF_FLAG_POOL"
    using P pbuf_slots_pos by (auto simp: packet_in_def)
  define s1 where "s1 = moved p (int k) s"
  note h = packet_header [OF P k(1,2), folded s1_def]
  have b1: "mem s1 = mem s" "netif s1 = netif s" "pb_flags (pbuf s1 p) = pb_flags (pbuf s p)" by (simp_all add: s1_def)
  define i where "i = p + 46"
  define e where "e = i + k"
  have lt: "T_IPH_HL i s * 4 < 100" using k(1) by (simp add: word_less_nat_alt k_def i_def)
  define s2 where "s2 = store32 (iph_dst i) (load32 (iph_src i) s1) (store32 (iph_src i) (load32 (iph_dst i) s1) s1)"
  define s3 where "s3 = store16 (e + 2) 0 (store16 e (htons (load16 e s2) AND 0xff00) s2)"
  have t1: "touched 0 p s s1" unfolding s1_def by (intro touches)
  have t3: "touched 0 p s s3" unfolding s3_def s2_def
    by (intro touches t1) (use k(1) in \<open>auto simp: e_def i_def sizeof_t_pbuf_def pbuf_slot_eq\<close>)
  have b3: "pbuf s3 = pbuf s1" "netif s3 = netif s" by (simp_all add: s3_def s2_def b1)
  have tl: "unat (pb_tot_len (pbuf s3 p)) = n - k" "pb_payload (pbuf s3 p) = e" using h(2,3) by (simp_all add: b3 e_def i_def)
  have acc: "accessible i 2" "accessible i 20" "accessible e 1" "accessible e 4" "accessible e (unat (pb_tot_len (pbuf s3 p)))"
    unfolding tl by (rule packet_accessible [OF P]; use k S(4) in \<open>simp add: e_def i_def\<close>)+
  obtain c where c: "t_inet_chksum e (pb_tot_len (pbuf s3 p)) s3 = Some c" using inet_chksum_defined [OF acc(5)] by blast
  define s4 where "s4 = store16 (e + 2) c s3"
  have t4: "touched 0 p s s4" unfolding s4_def
    by (intro touches t3) (use k(1) in \<open>auto simp: e_def i_def sizeof_t_pbuf_def pbuf_slot_eq\<close>)
  have b4: "pbuf s4 = pbuf s3" "netif s4 = netif s" by (simp_all add: s4_def b3)
  have "pb_flags (pbuf s4 p) = T_PBUF_FLAG_POOL" using S(5) by (simp add: b4 b3 b1)
  moreover have "netif_up s4 inp" using up by (simp add: netif_up_def b4)
  ultimately have "\<exists>t. t_ip_output inp p None (At (iph_dst i)) (ucast (T_IPH_TTL i s4)) 0 T_IP_PROTO_ICMP s4 = Some (0, t) \<and>
      touched 1 p s4 t"
    using S(1,4) k tl by (intro ip_output_survives) (simp_all add: b4 e_def i_def sizeof_t_pbuf_def pbuf_slot_eq)
  then obtain t where t: "t_ip_output inp p None (At (iph_dst i)) (ucast (T_IPH_TTL i s4)) 0 T_IP_PROTO_ICMP s4 = Some (0, t)"
    "touched 1 p s4 t" by blast
  have "t_icmp_input p inp s = Some (0, if mem s e = T_ICMP_ECHO_REQUEST then t else s1)"
    using S(2) acc lt h(1,2) c t(1)
    unfolding t_icmp_input_def S(3) i_def [symmetric] Let_def k_def [symmetric, folded i_def] e_def [symmetric]
    by (simp add: b1 b3 s2_def [symmetric] s3_def [symmetric] s4_def [symmetric] del: add_2_eq_Suc add_2_eq_Suc')
  moreover have "touched 1 p s t" using touched_trans [OF t4 t(2)] by simp
  ultimately show ?thesis using touched_more [OF t1, of 1] by auto
qed

text \<open>No block is bound that has a receive function, and no connection is open.\<close>

definition unconnected :: "'a tcp_st_scheme \<Rightarrow> bool" where
  "unconnected s \<longleftrightarrow> (\<exists>us. udp_list s us \<and> (\<forall>u \<in> set us. up_recv (udp_pcb s u) = No_udp_recv)) \<and> tcp_active_pcbs s = NULL"

lemma unconnected_touched: "touched n p s t \<Longrightarrow> unconnected t = unconnected s"
  using touched_fields(4-6) [of n p s t] by (simp add: unconnected_def udp_list_def)

lemma udp_survives:
  assumes P: "packet_in p n s" and un: "unconnected s"
  shows "\<exists>r t. t_udp_input call inp p s = Some (r, t) \<and> touched 0 p s t"
proof -
  define k where "k = unat (T_IPH_HL (p + 46) s) * 4"
  have k: "k \<le> 60" using T_IPH_HL_bound [of "p + 46" s] by (simp add: k_def)
  have S: "p \<noteq> NULL" "pb_payload (pbuf s p) = p + 46" "unat (pb_tot_len (pbuf s p)) = n"
    using P pbuf_slots_pos by (auto simp: packet_in_def)
  have acc: "accessible (p + 46) 2" "accessible (p + 46 + k) 6" "accessible (iph_src (p + 46)) 8"
    by (rule packet_accessible [OF P]; use k in simp)+
  define s1 where "s1 = moved p (int k) s"
  have t1: "touched 0 p s s1" unfolding s1_def by (intro touches)
  show ?thesis
  proof (cases "n < 8 + k")
    case True
    then have "t_udp_input call inp p s = Some (-1, s)"
      using S acc(1) by (simp add: t_udp_input_def Let_def T_UDP_HLEN_def k_def)
    then show ?thesis using touched_refl by blast
  next
    case False
    then have kn: "k \<le> n" by simp
    note h = packet_header [OF P k kn, folded s1_def]
    obtain us where us: "udp_list s us" "\<forall>u \<in> set us. up_recv (udp_pcb s u) = No_udp_recv" using un unfolding unconnected_def by blast
    have ch: "chained (up_link s1) (t_udp_pcbs s1) us" using us(1) by (simp add: udp_list_def s1_def)
    have none: "(0 < first_match Q us \<and> up_recv (udp_pcb s1 (first_match Q us)) \<noteq> No_udp_recv) = False" for Q
      using first_match_mem [of Q us] us(2) by (auto simp: s1_def)
    define i where "i = p + 46"
    have e: "int (unat (T_IPH_HL i s)) * 4 = int k" "T_UDP_HLEN + unat (T_IPH_HL i s) * 4 = 8 + k"
      by (simp_all add: k_def i_def T_UDP_HLEN_def)
    have "t_udp_input call inp p s = Some (if pb_tot_len (pbuf s1 p) < htons (load16 (i + k + 4) s1) then -1 else 0, s1)"
      using S(1,3) acc False unfolding t_udp_input_def S(2) Let_def i_def [symmetric] e h(1)
      by (simp add: h(2) i_def [symmetric] find_from_chained [OF ch] none del: add_2_eq_Suc add_2_eq_Suc')
    then show ?thesis using t1 by blast
  qed
qed

lemma input_convert_touches:
  assumes t: "touched n p s t" and h: "p + sizeof_t_pbuf \<le> h" "h + 20 \<le> p + pbuf_slot"
  shows "touched n p s (input_convert h q t)"
proof -
  have in_only: "touched n p s (v\<lparr>in_seqno := a\<rparr>)" "touched n p s (v\<lparr>in_ackno := a\<rparr>)" "touched n p s (v\<lparr>in_flags := f\<rparr>)"
    "touched n p s (v\<lparr>in_tcplen := l\<rparr>)" if "touched n p s v" for v a f l
    using touched_step [OF that, of _ "[]" 0] by simp_all
  show ?thesis unfolding input_convert_def Let_def
    by (intro in_only touches t) (use h in auto)
qed

lemma tcp_survives:
  assumes P: "packet_in p n s" and un: "unconnected s"
  shows "\<exists>r t. t_tcp_input inp p s = Some (r, t) \<and> touched 0 p s t"
proof -
  define i where "i = p + 46"
  define k where "k = unat (T_IPH_HL i s) * 4"
  have k: "k \<le> 60" using T_IPH_HL_bound [of i s] by (simp add: k_def)
  have S: "p \<noteq> NULL" "pb_payload (pbuf s p) = i" "pb_flags (pbuf s p) = T_PBUF_FLAG_POOL"
    using P pbuf_slots_pos by (auto simp: packet_in_def i_def)
  have acc: "accessible i 2" "accessible (i + k) 20" "accessible (iph_src i) 8"
    by (rule packet_accessible [OF P]; use k in \<open>simp add: i_def\<close>)+
  define s0 where "s0 = s\<lparr>in_iphdr := i, in_tcphdr := i + k\<rparr>"
  define s1 where "s1 = moved p (int k) s0"
  have t0: "touched 0 p s s0" 
    using touched_step [where n = 0 and p = p and s = s and t = s and u = s0 and fs = "[]" and m = 0] touched_refl [of p s] by (simp add: s0_def)
  have t1: "touched 0 p s s1" unfolding s1_def by (intro touches t0)
  have "pb_flags (pbuf s0 p) = T_PBUF_FLAG_POOL" using S(3) by (simp add: s0_def)
  note h1 = header_moved [OF S(1) this, of "int k", folded s1_def]
  define s2 where "s2 = moved p (int (unat (T_TCPH_HDRLEN (i + k) s1)) * 4) s1"
  have "pb_flags (pbuf s1 p) = T_PBUF_FLAG_POOL" using S(3) by (simp add: s1_def s0_def)
  note h2 = header_moved [OF S(1) this, of "int (unat (T_TCPH_HDRLEN (i + k) s1)) * 4", folded s2_def]
  define s3 where "s3 = input_convert (i + k) p s2"
  have t3: "touched 0 p s s3" unfolding s3_def
    by (rule input_convert_touches, unfold s2_def, intro touches t1) (use k in \<open>simp_all add: i_def sizeof_t_pbuf_def pbuf_slot_eq\<close>)
  have "tcp_active_pcbs s3 = NULL" using un touched_fields(6) [OF t3] by (simp add: unconnected_def)
  then have none: "active_loop Q NULL (tcp_active_pcbs s3) s3 = Some (NULL, s3)" for Q by (simp add: active_loop.simps)
  have e: "uint (T_IPH_HL i s) * 4 = int k" "i + unat (T_IPH_HL i s) * 4 = i + k" by (simp_all add: k_def)
  have fh: "in_tcphdr s0 = i + k" by (simp add: s0_def)
  have hl: "T_IPH_HL i (s\<lparr>in_iphdr := i\<rparr>) = T_IPH_HL i s" "T_IPH_HL i s0 = T_IPH_HL i s"
    by (simp_all add: T_IPH_HL_def load16_def s0_def)
  have "t_tcp_input inp p s = (if \<not> header_fits s0 p (int k) \<or> unat (pb_tot_len (pbuf s1 p)) < T_TCP_HLEN then Some (-1, s1) else Some (0, s3))"
    using S(1) acc h1 h2 none unfolding t_tcp_input_def Let_def
    by (simp add: S(2) hl e fh s0_def [symmetric] s3_def [symmetric] del: add_2_eq_Suc add_2_eq_Suc')
  then show ?thesis using t1 t3 by auto
qed

lemma arp_reply_loop_touches:
  assumes "touched n p s t" and "\<forall>i \<in> set is. i < 6" and "p + sizeof_t_pbuf \<le> h" and "h + 38 \<le> p + pbuf_slot"
  shows "touched n p s (arp_reply_loop is h inp t)"
  using assms(1,2)
proof (induction "is" arbitrary: t)
  case (Cons i "is")
  define t1 where "t1 = store8 (h + i) (mem t (h + 6 + i)) t"
  define t2 where "t2 = store8 (h + 32 + i) (mem t1 (h + 6 + i)) t1"
  define t3 where "t3 = store8 (h + 6 + i) (nif_hwaddr (netif t2 inp) ! i) t2"
  define t4 where "t4 = store8 (h + 22 + i) (nif_hwaddr (netif t3 inp) ! i) t3"
  have i: "p + sizeof_t_pbuf \<le> h + i + k" "h + i + k + 1 \<le> p + pbuf_slot" if "k \<le> 32" for k
    using Cons.prems(2) assms(3,4) that by auto
  have "touched n p s t4" unfolding t4_def t3_def t2_def t1_def
    by (intro touches Cons.prems(1)) (use i [of 0] i [of 6] i [of 22] i [of 32] in \<open>simp_all add: ac_simps\<close>)
  then show ?case using Cons.IH Cons.prems(2) 
    unfolding arp_reply_loop.simps Let_def t1_def [symmetric] t2_def [symmetric] t3_def [symmetric] t4_def [symmetric] by simp
qed simp

lemma arp_survives:
  assumes P: "p \<in> set pbuf_slots" "pb_payload (pbuf s p) = p + sizeof_t_pbuf" "unat (pb_tot_len (pbuf s p)) \<le> T_PBUF_BUFSIZE"
    and up: "netif_up s inp"
  shows "\<exists>r t. t_arp_input p inp s = Some (r, t) \<and> touched 1 p s t"
proof -
  define h where "h = p + sizeof_t_pbuf"
  have n: "p \<noteq> NULL" "inp \<noteq> NULL" using pbuf_slots_pos [OF P(1)] up by (simp_all add: netif_up_def)
  have acc: "accessible h sizeof_t_etharp_hdr"
    by (rule accessible_in_slot [OF P(1)]) (simp_all add: h_def sizeof_t_etharp_hdr_def sizeof_t_pbuf_def pbuf_slot_eq)
  have keep: "\<exists>r t. Some (0 :: int, s) = Some (r, t) \<and> touched 1 p s t" using touched_more [OF touched_refl, of 1] by blast
  have learn: "touched 1 p s (t_update_arp_entry inp ip mac s)" for ip mac
  proof -
    let ?u = "t_update_arp_entry inp ip mac s"
    have u: "?u = s\<lparr>t_arp_table := t_arp_table ?u, table_count := table_count ?u\<rparr>"
      unfolding t_update_arp_entry_def Let_def by (simp split: option.split)
    have f: "pbuf ?u = pbuf s" "mem ?u = mem s" "sent ?u = sent s" "in_tcphdr ?u = in_tcphdr s" "in_iphdr ?u = in_iphdr s"
      "in_seqno ?u = in_seqno s" "in_ackno ?u = in_ackno s" "in_flags ?u = in_flags s" "in_tcplen ?u = in_tcplen s"
      by (subst u, simp)+
    show ?thesis using touched_step [OF touched_refl [of p s], of ?u "[]" 1] u by (simp add: f)
  qed
  define s1 where "s1 = store32 (arp_sender_ip h) (nif_ip_addr (netif s inp)) (store32 (arp_target_ip h)
    (load32 (arp_sender_ip h) (store16 (arp_opcode h) (htons T_ARP_REPLY) s)) (store16 (arp_opcode h) (htons T_ARP_REPLY) s))"
  define s2 where "s2 = arp_reply_loop [0, 1, 2, 3, 4, 5] h inp s1"
  have t1: "touched 0 p s s1" unfolding s1_def by (intro touches) (simp_all add: h_def sizeof_t_pbuf_def pbuf_slot_eq)
  have "p + sizeof_t_pbuf \<le> h" "h + 38 \<le> p + pbuf_slot" "\<forall>i \<in> set [0, 1, 2, 3, 4, 5 :: nat]. i < 6"
    by (simp_all add: h_def sizeof_t_pbuf_def pbuf_slot_eq)
  from arp_reply_loop_touches [OF t1 this(3,1,2)] have t2: "touched 0 p s s2" by (simp only: s2_def)
  have b2: "pbuf s2 = pbuf s" unfolding s2_def
    by (subst arp_reply_loop_frame) (simp add: s1_def del: arp_reply_loop.simps)
  from output_touches [OF t2 up P(1), unfolded b2 P(2)] P(3)
  obtain t where t: "call_output inp p s2 = Some (0, t)" "touched 1 p s t" by (auto simp: pbuf_slot_eq T_PBUF_BUFSIZE_def sizeof_t_pbuf_def)
  have "t_arp_input p inp s = (if sizeof_t_etharp_hdr \<le> unat (pb_tot_len (pbuf s p)) \<and>
      \<not> t_ip_addr_cmp (load32 (arp_target_ip h) s) (nif_ip_addr (netif s inp))
    then if htons (load16 (arp_opcode h) s) = T_ARP_REQUEST then Some (0, t)
      else if htons (load16 (arp_opcode h) s) = T_ARP_REPLY
      then Some (0, t_update_arp_entry inp (load32 (arp_sender_ip h) s) (load_bytes (arp_sender_mac h) 6 s) s) else Some (0, s)
    else Some (0, s))"
    using n acc t(1) unfolding t_arp_input_def P(2) h_def [symmetric]
    by (simp add: Let_def s1_def [symmetric] s2_def [symmetric, unfolded One_nat_def] del: arp_reply_loop.simps)
  then show ?thesis using keep learn t(2) by (auto split: if_split_asm)
qed

text \<open>Whatever the frame holds, its processing returns, gives the buffer back and touches nothing else.\<close>

lemma raw_survives:
  assumes fr: "frame_in p (p + sizeof_t_pbuf) l xs s" and l: "14 \<le> l" "l \<le> T_PBUF_BUFSIZE" and up: "netif_up s inp"
    and un: "unconnected s"
  shows "\<exists>r t fs. t_raw_input call p inp s = Some (r, t) \<and> pbuf_avail t (p # xs) \<and> sent t = sent s @ fs \<and> length fs \<le> 1 \<and>
    (\<forall>y. y < p + sizeof_t_pbuf \<or> p + pbuf_slot \<le> y \<longrightarrow> mem t y = mem s y) \<and> only_receives s t"
proof -
  let ?f = "p + sizeof_t_pbuf"
  have F: "p \<in> set pbuf_slots" "pbuf_avail s xs" "p \<notin> set xs" "pbuf_owned s p" "pb_payload (pbuf s p) = ?f" "pb_flags (pbuf s p) = T_PBUF_FLAG_POOL"
    "unat (pb_tot_len (pbuf s p)) = l"
    using fr by (simp_all add: frame_in_def pbuf_wf_def)
  have ip: "\<exists>r t. t_ip_input call p inp s = Some (r, t) \<and> touched 1 p s t"
  proof -
    define u where "u = ip_part p s"
    have t0: "touched 0 p s u" using touched_step [OF touched_refl [of p s], of u "[]" 0] by (simp add: u_def ip_part_def)
    have uu: "unconnected u" "netif_up u inp" using un up by (simp_all add: unconnected_touched [OF t0]) (simp add: u_def netif_up_def)
    have "unat (pb_tot_len (pbuf s p) - 14) = l - 14" using l(1) F(7) by (simp add: unat_sub word_le_nat_alt)
    then have P: "packet_in p (l - 14) u" using F l by (simp add: packet_in_def u_def ip_part_def sizeof_t_pbuf_def T_PBUF_BUFSIZE_def)
    have hl: "unat (T_IPH_HL (p + 46) u * 4) < l - 14" if "ip_packet_ok ?f l s"
      using that by (simp add: ip_packet_ok_def u_def iph_frame [of "ip_part p s" s] sizeof_t_pbuf_def add.commute)
    have drop: "\<exists>r t. Some (c :: int, u) = Some (r, t) \<and> touched 1 p s t" for c using touched_more [OF t0, of 1] by blast
    have more: "\<exists>r t. Q = Some (r :: int, t) \<and> touched 1 p s t" if "\<exists>r t. Q = Some (r, t) \<and> touched k p u t" "k \<le> 1" for Q k
      using that touched_trans [OF t0] touched_more by (metis add_0)
    show ?thesis unfolding ip_input_dispatch [OF fr l(1)] u_def [symmetric]
      using drop hl more [OF icmp_survives [OF P uu(2)]] more [OF udp_survives [OF P uu(1)]] more [OF tcp_survives [OF P uu(1)]]
      by (simp split: if_split)
  qed
  obtain r u where u: "touched 1 p s u"
    "t_raw_input call p inp s = Option.bind (t_pbuf_free p u) (\<lambda>(_, t). Some (r, t))"
  proof -
    have acc: "accessible ?f 14" "p \<noteq> NULL" using frame_in_slot [OF fr] accessible_in_slot [of p ?f 14] by auto
    have arp: "\<exists>r t. t_arp_input p inp s = Some (r, t) \<and> touched 1 p s t" using F l by (intro arp_survives up) simp_all
    consider "eth_type ?f s = T_IPV4_FRAME_TYPE" | "eth_type ?f s = T_ARP_FRAME_TYPE" "eth_type ?f s \<noteq> T_IPV4_FRAME_TYPE"
      | "eth_type ?f s \<noteq> T_IPV4_FRAME_TYPE" "eth_type ?f s \<noteq> T_ARP_FRAME_TYPE" by blast
    then show ?thesis
    proof cases
      case 1
      with ip raw_input_ip [OF fr 1, of call inp] that show ?thesis by auto
    next
      case 2
      with arp acc F(5) that show ?thesis by (auto simp: t_raw_input_def eth_type_def)
    next
      case 3
      with raw_input_other [OF fr 3, of call inp] that touched_more [OF touched_refl, of 1 p s] show ?thesis by auto
    qed
  qed
  note eq = u(1) [unfolded touched_def, THEN conjunct1] and touch = u(1) [unfolded touched_def, THEN conjunct2]
  have ow: "pbuf_owned u p" using F(4) touch by (simp add: pbuf_owned_def)
  have "pbuf_avail u xs" by (rule pbuf_avail_other [OF F(2,3) touched_fields(2,1) [OF u(1)]])
  from pbuf_freed [OF this F(1,3) ow] obtain n t where t: "t_pbuf_free p u = Some (n, t)" "pbuf_avail t (p # xs)"
    "t = u\<lparr>pbuf := (pbuf u)(p := pbuf t p), pbuf_pool := p\<rparr>" by blast
  have same: "mem t = mem u" "sent t = sent u" "t_arp_table t = t_arp_table u" "table_count t = table_count u" "in_tcphdr t = in_tcphdr u"
    "in_iphdr t = in_iphdr u" "in_seqno t = in_seqno u" "in_ackno t = in_ackno u" "in_flags t = in_flags u" "in_tcplen t = in_tcplen u"
    "pbuf t = (pbuf u)(p := pbuf t p)" "pbuf_pool t = p"
    by (subst t(3), simp)+
  have "t = s\<lparr>mem := mem u, pbuf := (pbuf u)(p := pbuf t p), pbuf_pool := p, sent := sent u, t_arp_table := t_arp_table u,
     table_count := table_count u, in_tcphdr := in_tcphdr u, in_iphdr := in_iphdr u, in_seqno := in_seqno u, in_ackno := in_ackno u,
     in_flags := in_flags u, in_tcplen := in_tcplen u\<rparr>"
    by (rule trans [OF t(3)], subst (1) eq) simp
  then have "only_receives s t" unfolding only_receives_def same(1-10,12) by (subst same(11)) assumption
  then show ?thesis using u(2) t(1,2) touch same(1,2) by auto
qed

section \<open>Frames from the wire\<close>

text \<open>The device hands over one packet after the other, each captured whole, and the thread of the stack takes each from
  its mailbox before the next one comes.\<close>

fun serve :: "(udp_recv \<Rightarrow> ptr \<Rightarrow> ptr \<Rightarrow> ptr \<Rightarrow> ptr \<Rightarrow> u16 \<Rightarrow> dev_st \<Rightarrow> dev_st option) \<Rightarrow> (ptr \<times> u8 list) list \<Rightarrow> dev_st \<Rightarrow> dev_st option" where
  "serve call [] s = Some s"
| "serve call ((a, bs) # ps) s = do {
     s \<leftarrow> pcap_recv_thread [Packet a bs (int (length bs))] s;
     s \<leftarrow> t_tcpip_round call s;
     serve call ps s
   }"

lemma frame_survives:
  assumes idle: "stack_idle (x # xs) (m # ms) s" and un: "unconnected s" and l: "14 \<le> l" "l \<le> T_PBUF_BUFSIZE" "accessible a l"
  shows "\<exists>s1 s2 fs. ether0_recv_data a (int l) s = Some s1 \<and> t_tcpip_round call s1 = Some s2 \<and>
    sent s2 = sent s @ fs \<and> length fs \<le> 1 \<and> stack_idle (x # xs) (m # ms) s2 \<and> unconnected s2 \<and> tcpip_st.more s2 = tcpip_st.more s \<and>
    overruns s2 = overruns s @ [Behind_read, Behind_written] \<and>
    (\<forall>y. y < x + sizeof_t_pbuf \<or> x + pbuf_slot \<le> y \<longrightarrow> mem s2 y = mem s y)"
proof -
  let ?P = "\<lambda>fs m. length fs \<le> 1 \<and> (\<forall>y. y < x + sizeof_t_pbuf \<or> x + pbuf_slot \<le> y \<longrightarrow> m y = mem s y)"
  have up: "netif_up s netif0" using idle by (simp add: stack_idle_def)
  have same: "unconnected t = unconnected s" if "udp_pcb t = udp_pcb s" "t_udp_pcbs t = t_udp_pcbs s" "tcp_active_pcbs t = tcp_active_pcbs s"
    for t :: "'a tcpip_st_scheme" using that by (simp add: unconnected_def udp_list_def)
  have "\<exists>r u fs. t_raw_input call x netif0 t = Some (r, u) \<and> pbuf_avail u (x # xs) \<and> sent u = sent s @ fs \<and> ?P fs (mem u) \<and> only_receives t u"
    if t: "frame_in x (x + sizeof_t_pbuf) l xs t" "netif t = netif s" "sent t = sent s" "udp_pcb t = udp_pcb s" "t_udp_pcbs t = t_udp_pcbs s"
      "tcp_active_pcbs t = tcp_active_pcbs s" "\<forall>y. y < x + sizeof_t_pbuf \<or> x + pbuf_slot \<le> y \<longrightarrow> mem t y = mem s y" for t
  proof -
    have "netif_up t netif0" "unconnected t" using up un same [OF t(4-6)] by (simp_all add: netif_up_def t(2))
    from raw_survives [OF t(1) l(1,2) this, of call] t(3,7) show ?thesis by fastforce
  qed
  from frame_processed [where P = ?P, OF idle l this] un same show ?thesis by blast
qed



end
