(* ===== verification/Udp_Test.thy ===== *)
theory Udp_Test
  imports Wire
begin

text \<open>
  The first command of \<^verbatim>\<open>main\<close> from end to end: a block is taken, bound, connected and equipped, a datagram
  is sent, and block and buffer go back.
\<close>

section \<open>A datagram sent on command\<close>

text \<open>The block of the test, bound in front of the others and connected.\<close>

definition test_block :: "u32 \<Rightarrow> u16 \<Rightarrow> ptr \<Rightarrow> t_udp_pcb" where
  "test_block ip port nxt = udp_zeroed\<lparr>up_ttl := T_UDP_TTL, up_local_ip := ip, up_local_port := port, up_next := nxt,
     up_remote_ip := 0x6501A8C0, up_remote_port := 8837, up_flags := T_UDP_FLAGS_CONNECTED, up_recv := Udp_recv_data,
     up_recv_arg := NULL\<rparr>"

lemma udp_test_block:
  fixes s :: "'a dev_st_scheme"
  assumes us: "udp_list s us" and u: "u \<notin> set us" and av: "memp_avail T_MEMP_UDP_PCB s (u # av)" and port: "port \<noteq> 0"
  shows "\<exists>s1 s2 s3 s'. t_udp_new s = (u, s1) \<and> dev_ip s1 = dev_ip s \<and> t_udp_bind u (Some ip) port s1 = Some (0, s2) \<and>
    t_udp_connect u (Some 0x6501A8C0) 8837 s2 = Some (0, s3) \<and> t_set_udp_recv u Udp_recv_data NULL s3 = Some s' \<and> udp_list s' (u # us) \<and> memp_avail T_MEMP_UDP_PCB s' av \<and> memp_owned s' u \<and>
    s' = s\<lparr>memp_tab := memp_tab s', memp_next := memp_next s', now_count := now_count s',
      udp_pcb := (udp_pcb s)(u := test_block ip port (t_udp_pcbs s)), t_udp_pcbs := u\<rparr>"
proof -
  from memp_malloc_next [OF av] obtain t where t: "t_memp_malloc T_MEMP_UDP_PCB s = (u, t)" "memp_avail T_MEMP_UDP_PCB t av"
    "memp_owned t u" "t = s\<lparr>memp_tab := memp_tab t, memp_next := memp_next t, now_count := now_count s + 1\<rparr>" by blast
  have tf: "udp_pcb t = udp_pcb s" "t_udp_pcbs t = t_udp_pcbs s" "dev_ip t = dev_ip s" by (subst t(4), simp)+
  have n: "u \<noteq> NULL" using memp.avail_objs [OF av] memp_objs_pos by auto
  have ch: "chained (up_link s) (t_udp_pcbs s) us" using us by (simp add: udp_list_def)
  define s1 where "s1 = t\<lparr>udp_pcb := (udp_pcb s)(u := udp_zeroed\<lparr>up_ttl := T_UDP_TTL\<rparr>)\<rparr>"
  have new: "t_udp_new s = (u, s1)" using n by (simp add: t_udp_new_def t(1) s1_def tf)
  define s2 where "s2 = t\<lparr>udp_pcb := (udp_pcb s)(u := udp_zeroed\<lparr>up_ttl := T_UDP_TTL, up_local_ip := ip, up_local_port := port,
    up_next := t_udp_pcbs s\<rparr>), t_udp_pcbs := u\<rparr>"
  have ch1: "chained (up_link s1) (t_udp_pcbs s1) us" using ch u by (simp add: s1_def tf)
  have "find_from (up_link s1) (\<lambda>ipcb. u = ipcb) (t_udp_pcbs s1) = Some NULL"
    unfolding find_from_chained [OF ch1] using u by (induction us) auto
  then have bind: "t_udp_bind u (Some ip) port s1 = Some (0, s2)"
    using n port by (simp add: t_udp_bind_def Let_def) (simp add: s1_def s2_def t_ip_addr_set_def tf)
  define s3 where "s3 = t\<lparr>udp_pcb := (udp_pcb s)(u := (test_block ip port (t_udp_pcbs s))\<lparr>up_recv := No_udp_recv\<rparr>), t_udp_pcbs := u\<rparr>"
  have "find_from ((up_link s)(u := t_udp_pcbs s)) ((=) u) u = Some u" using n by (subst find_from.simps) simp
  moreover have "upd_udp u (\<lambda>v. v\<lparr>up_remote_ip := 0x6501A8C0, up_remote_port := 8837, up_flags := up_flags v OR T_UDP_FLAGS_CONNECTED\<rparr>) s2 = s3"
    by (simp add: s2_def s3_def test_block_def udp_zeroed_def T_UDP_FLAGS_CONNECTED_def)
  ultimately have conn: "t_udp_connect u (Some 0x6501A8C0) 8837 s2 = Some (0, s3)"
    using n port by (simp add: t_udp_connect_def Let_def t_ip_addr_set_def) (simp add: s2_def)
  define s' where "s' = t\<lparr>udp_pcb := (udp_pcb s)(u := test_block ip port (t_udp_pcbs s)), t_udp_pcbs := u\<rparr>"
  have recv: "t_set_udp_recv u Udp_recv_data NULL s3 = Some s'"
    using n by (simp add: t_set_udp_recv_def s3_def s'_def test_block_def)
  have "udp_list s' (u # us)" using ch u n by (simp add: s'_def udp_list_def test_block_def)
  moreover have "memp_avail T_MEMP_UDP_PCB s' av" "memp_owned s' u" using t(2,3) by (simp_all add: s'_def memp_avail_def memp_owned_def)
  moreover have "s' = s\<lparr>memp_tab := memp_tab s', memp_next := memp_next s', now_count := now_count s',
      udp_pcb := (udp_pcb s)(u := test_block ip port (t_udp_pcbs s)), t_udp_pcbs := u\<rparr>"
  proof -
    have "now_count t = now_count s + 1" by (subst t(4)) simp
    then show ?thesis by (simp add: s'_def) (subst (1) t(4), simp)
  qed
  moreover have "dev_ip s1 = dev_ip s" by (simp add: s1_def tf)
  ultimately show ?thesis using new bind conn recv by blast
qed

text \<open>What the other threads may do while \<^verbatim>\<open>main\<close> sleeps: use buffers and give them back, and send the frames \<open>fs\<close>.\<close>

definition quiet :: "u8 list list \<Rightarrow> ('a dev_st_scheme \<Rightarrow> 'a dev_st_scheme option) \<Rightarrow> bool" where
  "quiet fs idle \<longleftrightarrow> (\<forall>s. \<exists>t. idle s = Some t \<and> (\<forall>xs. pbuf_avail s xs \<longrightarrow> pbuf_avail t xs) \<and>
     t = s\<lparr>mem := mem t, pbuf := pbuf t, pbuf_pool := pbuf_pool t, sent := sent s @ fs\<rparr>)"

lemma quiet_idle: "quiet [] (Some :: 'a dev_st_scheme \<Rightarrow> 'a dev_st_scheme option)"
proof -
  have "\<exists>t. Some v = Some t \<and> (\<forall>xs. pbuf_avail v xs \<longrightarrow> pbuf_avail t xs) \<and>
      t = v\<lparr>mem := mem t, pbuf := pbuf t, pbuf_pool := pbuf_pool t, sent := sent v @ []\<rparr>" for v :: "'a dev_st_scheme"
    by (intro exI [of _ v]) simp
  then show ?thesis unfolding quiet_def by blast
qed

text \<open>C11: The first command takes a block, binds, connects and equips it, and sends one datagram with the ten digits to the
  port 8837 of 192.168.1.101; after the pause it removes the block.  Block and buffer are back in their pools.\<close>

theorem udp_test_sends:
  assumes us: "udp_list s us" and u: "u \<notin> set us" and av: "memp_avail T_MEMP_UDP_PCB s (u # av)" "pbuf_avail s (x # xs)"
    and port: "port = ucast (3307 + count)" "port \<noteq> 0"
    and route: "t_ip_route 0x6501A8C0 s = Some n" "netif_up s n" and idle: "quiet fs idle"
  shows "\<exists>s' frame. udp_test idle count s = Some s' \<and> sent s' = sent s @ frame # fs \<and>
    ip_parse frame = Some (nif_ip_addr (netif s n), 0x6501A8C0, 255, 0, T_IP_PROTO_UDP,
      udp_header port 8837 18 @ [0x31, 0x32, 0x33, 0x34, 0x35, 0x36, 0x37, 0x38, 0x39, 0x30]) \<and>
    udp_list s' us \<and> memp_avail T_MEMP_UDP_PCB s' (u # av) \<and> pbuf_avail s' (x # xs)"
proof -
  let ?data = "[0x31, 0x32, 0x33, 0x34, 0x35, 0x36, 0x37, 0x38, 0x39, 0x30] :: u8 list"
  from udp_test_block [OF us u av(1) port(2), of "dev_ip s"] obtain s1 s2 s3 t where t: "t_udp_new s = (u, s1)" "dev_ip s1 = dev_ip s"
    "t_udp_bind u (Some (dev_ip s)) port s1 = Some (0, s2)" "t_udp_connect u (Some 0x6501A8C0) 8837 s2 = Some (0, s3)"
    "t_set_udp_recv u Udp_recv_data NULL s3 = Some t" "udp_list t (u # us)" "memp_avail T_MEMP_UDP_PCB t av" "memp_owned t u"
    "t = s\<lparr>memp_tab := memp_tab t, memp_next := memp_next t, now_count := now_count t,
      udp_pcb := (udp_pcb s)(u := test_block (dev_ip s) port (t_udp_pcbs s)), t_udp_pcbs := u\<rparr>" by blast
  have tf: "pbuf t = pbuf s" "pbuf_pool t = pbuf_pool s" "netif t = netif s" "netif_list t = netif_list s"
    "netif_default t = netif_default s" "sent t = sent s" "udp_pcb t u = test_block (dev_ip s) port (t_udp_pcbs s)"
    by (subst t(9), simp)+
  have obj: "u \<in> memp_objs T_MEMP_UDP_PCB" "u \<notin> set av" "u \<noteq> NULL"
    using memp.avail_objs [OF av(1)] memp.avail_distinct [OF av(1)] memp_objs_pos by auto
  have "pbuf_avail t (x # xs)" using av(2) by (simp add: pbuf_avail_def tf)
  note hd = pbuf_avail_head [OF this] and al = pbuf_alloc_next [of 42 10 T_PBUF_FLAG_POOL, OF _ this]
  let ?b = "(pbuf t x)\<lparr>pb_next := NULL, pb_ref := 1, pb_payload := x + sizeof_t_pbuf + unat (42 :: u16), pb_tot_len := 10, pb_len := 10\<rparr>"
  define v where "v = t\<lparr>pbuf_pool := pb_next (pbuf t x), pbuf := (pbuf t)(x := ?b)\<rparr>"
  have adm: "alloc_admissible (42, 10, T_PBUF_FLAG_POOL)" by (simp add: alloc_admissible_def T_PBUF_BUFSIZE_def)
  note al = al [OF adm, folded v_def]
  have pl: "pb_payload (pbuf v x) = x + 74" "pb_len (pbuf v x) = 10" by (simp_all add: v_def sizeof_t_pbuf_def)
  define w where "w = store_bytes (x + 74) ?data v"
  have wf: "pbuf w = pbuf v" "pbuf_pool w = pbuf_pool v" "udp_pcb w = udp_pcb t" "netif w = netif s" "netif_list w = netif_list s"
    "netif_default w = netif_default s" "sent w = sent s" "memp_tab w = memp_tab t" "memp_next w = memp_next t" "t_udp_pcbs w = t_udp_pcbs t"
    by (simp_all add: w_def v_def tf store_bytes_def)
  have acc: "accessible (x + 74) 10" using hd(1) by (intro accessible_in_slot [of x]) (simp_all add: sizeof_t_pbuf_def pbuf_slot_eq)
  have room: "udp_room w x" using hd pl
    by (simp add: udp_room_def pbuf_wf_def pbuf_owned_def header_fits_def wf sizeof_t_pbuf_def pbuf_slot_eq T_PBUF_BUFSIZE_def)
      (simp add: v_def)
  have avw: "pbuf_avail w xs" using al(2) by (simp add: pbuf_avail_def wf)
  have dst: "up_remote_ip (udp_pcb w u) = 0x6501A8C0" by (simp add: wf tf test_block_def)
  have "t_ip_route (up_remote_ip (udp_pcb w u)) w = Some n" unfolding dst
    using route(1) by (simp add: t_ip_route_def wf cong: if_cong)
  moreover have "netif_up w n" using route(2) by (simp add: netif_up_def wf)
  ultimately obtain w' frame where w': "t_udp_send u x w = Some (0, w')" "pbuf_avail w' (x # xs)"
    "w' = w\<lparr>mem := mem w', pbuf := pbuf w', pbuf_pool := pbuf_pool w', sent := sent w @ [frame]\<rparr>"
    "ip_parse frame = Some (nif_ip_addr (netif w n), up_remote_ip (udp_pcb w u), up_ttl (udp_pcb w u), up_tos (udp_pcb w u),
      T_IP_PROTO_UDP, udp_header (up_local_port (udp_pcb w u)) (up_remote_port (udp_pcb w u)) (10 + 8) @ load_bytes (x + 74) (unat (10 :: u16)) w)"
    using udp_send_result [OF room obj(3) refl avw _ _ _ refl refl, unfolded wf pl] hd(2) by (auto simp: wf pl)
  from idle obtain z where z: "idle w' = Some z" "\<forall>ys. pbuf_avail w' ys \<longrightarrow> pbuf_avail z ys"
    "z = w'\<lparr>mem := mem z, pbuf := pbuf z, pbuf_pool := pbuf_pool z, sent := sent w' @ fs\<rparr>" unfolding quiet_def by blast
  have w'f: "udp_pcb w' = udp_pcb t" "t_udp_pcbs w' = t_udp_pcbs t" "memp_tab w' = memp_tab t" "memp_next w' = memp_next t"
    "sent w' = sent s @ [frame]" by (subst w'(3), simp add: wf)+
  have zf: "udp_pcb z = udp_pcb t" "t_udp_pcbs z = t_udp_pcbs t" "memp_tab z = memp_tab t" "memp_next z = memp_next t"
    "sent z = sent s @ frame # fs" by (subst z(3), simp add: w'f)+
  have "udp_list z (u # us)" "memp_avail T_MEMP_UDP_PCB z av" "memp_owned z u"
    using t(6-8) by (simp_all add: udp_list_def memp_avail_def memp_owned_def zf)
  from udp_remove_result [OF this(1) obj(1) this(2) obj(2) this(3)] obtain s' where s': "t_udp_remove u z = Some s'"
    "udp_list s' us" "memp_avail T_MEMP_UDP_PCB s' (u # av)"
    "s' = z\<lparr>memp_tab := memp_tab s', memp_next := memp_next s', now_count := now_count s', udp_pcb := udp_pcb s',
      t_udp_pcbs := t_udp_pcbs s'\<rparr>" by auto
  have s'f: "pbuf s' = pbuf z" "pbuf_pool s' = pbuf_pool z" "sent s' = sent s @ frame # fs" by (subst s'(4), simp add: zf)+
  have "pbuf_avail z (x # xs)" using z(2) w'(2) by blast
  then have "pbuf_avail s' (x # xs)" by (simp add: pbuf_avail_def s'f)
  moreover have "ip_parse frame = Some (nif_ip_addr (netif s n), 0x6501A8C0, 255, 0, T_IP_PROTO_UDP, udp_header port 8837 18 @ ?data)"
    using w'(4) by (simp add: wf tf test_block_def udp_zeroed_def T_UDP_TTL_def)
      (simp add: w_def load_store_bytes_n)
  moreover have "udp_test idle count s = Some s'"
  proof -
    have "ucast (3307 + count) = port" using port(1) by simp
    moreover have "store_bytes (pb_payload (pbuf v x)) ?data v = w" by (simp only: pl w_def)
    ultimately show ?thesis using obj(3) t(1-5) al(1) hd(3) acc w'(1) z(1) s'(1) pl(1)
      by (simp add: udp_test_def Let_def)
  qed
  ultimately show ?thesis using s'(2,3) s'f(3) by blast
qed

text \<open>The first command after the start.\<close>

theorem udp_test_sends_witness:
  "\<exists>s (s' :: dev_st) frame. main_init 0x100 True True True dev_boot = Some s \<and> main_loop Some [0x31, 32] 0 s = Some (True, s') \<and>
     sent s' = sent s @ [frame] \<and> ip_parse frame = Some (0x7001A8C0, 0x6501A8C0, 255, 0, T_IP_PROTO_UDP,
       udp_header 3308 8837 18 @ [0x31, 0x32, 0x33, 0x34, 0x35, 0x36, 0x37, 0x38, 0x39, 0x30])"
proof -
  from main_init_result [OF dev_boot_facts(1,2) _ dev_boot_facts(3-6), of True True True] obtain s where
    s: "main_init 0x100 True True True dev_boot = Some s" "stack_idle pbuf_slots (map (\<lambda>e. e + sizeof_t_memp) (memp_elems T_MEMP_TCPIP_MSG)) s"
    "\<forall>t. memp_avail t s (map (\<lambda>e. e + sizeof_t_memp) (memp_elems t))" "udp_list s []"
    "chained (nif_link s) (netif_list s) [netif0]" "netif_default s = netif0" "nif_ip_addr (netif s netif0) = 0x7001A8C0" by auto
  obtain e es where es: "memp_elems T_MEMP_UDP_PCB = e # es"
    using length_memp_elems [of T_MEMP_UDP_PCB] memp_num_pos [of T_MEMP_UDP_PCB] by (cases "memp_elems T_MEMP_UDP_PCB") auto
  have av: "memp_avail T_MEMP_UDP_PCB s ((e + sizeof_t_memp) # map (\<lambda>e. e + sizeof_t_memp) es)"
    using s(3) es by (metis list.simps(9))
  have pb: "pbuf_avail s (pbuf_pool_memory # tl pbuf_slots)" "netif_up s netif0"
    using s(2) pbuf_slots_Cons by (simp_all add: stack_idle_def)
  have route: "t_ip_route 0x6501A8C0 s = Some netif0" using s(6) unfolding ip_route_value [OF s(5)] by simp
  have port: "(3308 :: u16) = ucast (3307 + 1 :: u32)" "(3308 :: u16) \<noteq> 0" by simp_all
  from udp_test_sends [OF s(4) _ av pb(1) port route pb(2) quiet_idle, unfolded s(7)] obtain s' frame where
    "udp_test Some 1 s = Some s'" "sent s' = sent s @ [frame]" "ip_parse frame = Some (0x7001A8C0, 0x6501A8C0, 255, 0, T_IP_PROTO_UDP,
       udp_header 3308 8837 18 @ [0x31, 0x32, 0x33, 0x34, 0x35, 0x36, 0x37, 0x38, 0x39, 0x30])" by (simp, blast)
  with s(1) show ?thesis by (intro exI [of _ s] exI [of _ s'] exI [of _ frame]) simp
qed

end
