(* ===== verification/Tcp_Test.thy ===== *)
theory Tcp_Test
  imports Udp_Test
begin

text \<open>
  The second command of \<^verbatim>\<open>main\<close> from end to end: a block is taken and connected, a SYN and two probes are sent, and the
  block is never given back.  The third such command finds no block and follows a null pointer.
\<close>

section \<open>A fresh block\<close>

definition new_block :: "u32 \<Rightarrow> u32 \<Rightarrow> t_tcp_pcb" where
  "new_block iss ticks = tcp_zeroed\<lparr>tp_prio := 64, tp_snd_buf := 16800, tp_rcv_wnd := 14000, tp_ttl := 255,
     tp_mss := 1400, tp_rto := 6, tp_sv := 6, tp_cwnd := 1, tp_snd_wl2 := iss, tp_snd_nxt := iss,
     tp_snd_max := iss, tp_lastack := iss, tp_snd_lbb := iss, tp_tmr := ticks, tp_keepalive := 7200000\<rparr>"

lemma tcp_new_result:
  assumes av: "memp_avail T_MEMP_TCP_PCB s (u # us)" and iss: "iss = next_iss s + tcp_ticks s"
  shows "\<exists>t. t_tcp_new s = (u, t) \<and> u \<noteq> NULL \<and> memp_avail T_MEMP_TCP_PCB t us \<and>
    (\<forall>j vs. j \<noteq> T_MEMP_TCP_PCB \<longrightarrow> memp_avail j s vs \<longrightarrow> memp_avail j t vs) \<and>
    t = s\<lparr>memp_tab := memp_tab t, memp_next := memp_next t, now_count := now_count t, next_iss := iss,
      tcp_pcb := (tcp_pcb s)(u := new_block iss (tcp_ticks s))\<rparr>"
proof -
  from memp_malloc_next [OF av] obtain t where t: "t_memp_malloc T_MEMP_TCP_PCB s = (u, t)"
    "memp_avail T_MEMP_TCP_PCB t us"
    "t = s\<lparr>memp_tab := memp_tab t, memp_next := memp_next t, now_count := now_count s + 1\<rparr>" by blast
  have same: "tcp_pcb t = tcp_pcb s" "next_iss t = next_iss s" "tcp_ticks t = tcp_ticks s"
    "now_count t = now_count s + 1" by (subst t(3), simp)+
  have u: "u \<noteq> NULL" using memp.avail_objs [OF av] memp_objs_pos by auto
  define v where "v = t\<lparr>next_iss := iss, tcp_pcb := (tcp_pcb s)(u := new_block iss (tcp_ticks s))\<rparr>"
  have "t_tcp_new s = (u, v)"
    using t(1) u unfolding t_tcp_new_def t_tcp_alloc_def t_tcp_next_iss_def v_def iss
    by (simp add: same new_block_def T_TCP_PRIO_NORMAL_def T_TCP_SND_BUF_def T_TCP_WND_def T_TCP_MSS_def
        T_TCP_TTL_def T_TCP_SLOW_INTERVAL_def T_TCP_KEEPDEFAULT_def tcp_zeroed_def)
  moreover have "memp_avail T_MEMP_TCP_PCB v us" using t(2) by (simp add: v_def memp_avail_def)
  moreover have "memp_avail j v vs" if "j \<noteq> T_MEMP_TCP_PCB" "memp_avail j s vs" for j vs
    using memp_malloc_other [OF av that(2)] that(1) t(1) by (simp add: v_def memp_avail_def)
  moreover have "v = s\<lparr>memp_tab := memp_tab v, memp_next := memp_next v, now_count := now_count v, next_iss := iss,
      tcp_pcb := (tcp_pcb s)(u := new_block iss (tcp_ticks s))\<rparr>"
    by (simp add: v_def same(4)) (subst (1) t(3), simp)
  ultimately show ?thesis using u by blast
qed

section \<open>A connection opened on command\<close>

text \<open>What the command needs, and what it leaves: blocks, segments and buffers in their pools, and an interface \<open>n\<close> on
  the way to the peer.\<close>

definition tcp_ready :: "ptr \<Rightarrow> ptr list \<Rightarrow> ptr list \<Rightarrow> ptr list \<Rightarrow> 'a dev_st_scheme \<Rightarrow> bool" where
  "tcp_ready n us gs xs s \<longleftrightarrow> memp_avail T_MEMP_TCP_PCB s us \<and> memp_avail T_MEMP_TCP_SEG s gs \<and> pbuf_avail s xs \<and>
     t_ip_route 0x6501A8C0 s = Some n \<and> netif_up s n"

lemma quiet_round:
  assumes "quiet fs idle" and "pbuf_avail s xs"
  obtains t where "idle s = Some t" "pbuf_avail t xs"
    "t = s\<lparr>mem := mem t, pbuf := pbuf t, pbuf_pool := pbuf_pool t, sent := sent s @ fs\<rparr>"
  using assms unfolding quiet_def by blast

text \<open>A pause and a probe: the probe of a connecting block repeats the number of the SYN.\<close>

definition probe_frame :: "u32 \<Rightarrow> t_tcp_pcb \<Rightarrow> u8 list \<Rightarrow> bool" where
  "probe_frame dst b frame \<longleftrightarrow> (\<exists>fl c. ip_parse frame = Some (tp_local_ip b, dst, tp_ttl b, 0, T_IP_PROTO_TCP,
     tcp_header (tp_local_port b) (tp_remote_port b) (tp_snd_nxt b - 1) (tp_rcv_nxt b) (push_bit 12 5 OR (fl AND TCP_FLAGS))
       (tp_rcv_wnd b) c))"

lemma pause_probe:
  assumes idle: "quiet fs idle" and b: "tcp_pcb s pcb = b" "pcb \<noteq> NULL" "tp_remote_ip b = dst" and av: "pbuf_avail s (x # xs)"
    and route: "t_ip_route dst s = Some n" and up: "netif_up s n"
  shows "\<exists>z s' frame. idle s = Some z \<and> tcp_keepalive pcb z = Some s' \<and> pbuf_avail s' (x # xs) \<and> probe_frame dst b frame \<and>
    s' = s\<lparr>mem := mem s', pbuf := pbuf s', pbuf_pool := pbuf_pool s', sent := sent s @ fs @ [frame]\<rparr>"
proof -
  from quiet_round [OF idle av] obtain z where z: "idle s = Some z" "pbuf_avail z (x # xs)"
    "z = s\<lparr>mem := mem z, pbuf := pbuf z, pbuf_pool := pbuf_pool z, sent := sent s @ fs\<rparr>" .
  have f: "tcp_pcb z = tcp_pcb s" "netif z = netif s" "netif_list z = netif_list s" "netif_default z = netif_default s"
    "sent z = sent s @ fs" by (subst z(3), simp)+
  have bz: "b = tcp_pcb z pcb" using b(1) by (simp add: f)
  have "t_ip_route dst z = Some n" using route ip_route_frame [OF f(2-4)] by simp
  then have via: "ip_via NULL (Val (tp_remote_ip b)) z n" by (simp add: ip_via_def b(3))
  have up: "netif_up z n" using up by (simp add: netif_up_def f)
  from tcp_keepalive_result [OF bz b(2) z(2) via up] obtain s' frame c where k: "tcp_keepalive pcb z = Some s'"
    "pbuf_avail s' (x # xs)" "s' = z\<lparr>mem := mem s', pbuf := pbuf s', pbuf_pool := pbuf_pool s', sent := sent z @ [frame]\<rparr>"
    "ip_parse frame = Some (tp_local_ip b, tp_remote_ip b, tp_ttl b, 0, T_IP_PROTO_TCP,
      tcp_header (tp_local_port b) (tp_remote_port b) (tp_snd_nxt b - 1) (tp_rcv_nxt b)
        (push_bit 12 5 OR T_TCPH_FLAGS (x + 66) z) (tp_rcv_wnd b) c)" by blast
  have "probe_frame dst b frame" using k(4) unfolding probe_frame_def b(3) T_TCPH_FLAGS_def by blast
  moreover have "s' = s\<lparr>mem := mem s', pbuf := pbuf s', pbuf_pool := pbuf_pool s', sent := sent s @ fs @ [frame]\<rparr>"
    by (rule trans [OF k(3)], subst (1) z(3)) (simp add: f)
  ultimately show ?thesis using z(1) k(1,2) by blast
qed

definition syn_frame :: "u32 \<Rightarrow> u32 \<Rightarrow> u16 \<Rightarrow> u32 \<Rightarrow> u8 list \<Rightarrow> bool" where
  "syn_frame lip dst lp iss frame \<longleftrightarrow> (\<exists>c. ip_parse frame = Some (lip, dst, 255, 0, T_IP_PROTO_TCP,
     tcp_header lp 8837 (iss - 1) 0 0x6002 14000 c @ [2, 4, 5, 0x78]) \<and>
     tcp_sum_ok lip dst (tcp_header lp 8837 (iss - 1) 0 0x6002 14000 c @ [2, 4, 5, 0x78]))"

lemma tcp_test_connects:
  assumes ready: "tcp_ready n (u # us) (g # gs) (x # xs) s" and lip: "lip = nif_ip_addr (netif s n)"
    and iss: "iss = next_iss s + 2 * tcp_ticks s" and lp: "lp = of_int (4097 + new_port_times s)"
  shows "\<exists>t s' syn b. t_tcp_new s = (u, t) \<and> t_tcp_connect u 0x6501A8C0 8837 Tcp_connected t = Some (0, s') \<and> u \<noteq> NULL \<and>
    tcp_ready n us gs xs s' \<and> sent s' = sent s @ [syn] \<and> syn_frame lip 0x6501A8C0 lp iss syn \<and> tcp_pcb s' u = b \<and>
    tcp_active_pcbs s' = u \<and> netif s' = netif s \<and> netif_list s' = netif_list s \<and> netif_default s' = netif_default s \<and>
    tp_state b = SYN_SENT \<and> tp_local_ip b = lip \<and> tp_remote_ip b = 0x6501A8C0 \<and> tp_ttl b = 255 \<and> tp_local_port b = lp \<and>
    tp_remote_port b = 8837 \<and> tp_snd_nxt b = iss \<and> tp_rcv_nxt b = 0 \<and> tp_rcv_wnd b = 14000"
proof -
  note r = ready [unfolded tcp_ready_def]
  let ?iss = "next_iss s + tcp_ticks s" and ?b = "new_block (next_iss s + tcp_ticks s) (tcp_ticks s)"
  from tcp_new_result [of s u us, OF _ refl] r obtain t where t: "t_tcp_new s = (u, t)" "u \<noteq> NULL"
    "memp_avail T_MEMP_TCP_PCB t us" "\<forall>j vs. j \<noteq> T_MEMP_TCP_PCB \<longrightarrow> memp_avail j s vs \<longrightarrow> memp_avail j t vs"
    "t = s\<lparr>memp_tab := memp_tab t, memp_next := memp_next t, now_count := now_count t, next_iss := ?iss,
      tcp_pcb := (tcp_pcb s)(u := ?b)\<rparr>" by blast
  have f: "?b = tcp_pcb t u" "netif t = netif s" "netif_list t = netif_list s" "netif_default t = netif_default s"
    "sent t = sent s" "pbuf t = pbuf s" "pbuf_pool t = pbuf_pool s" "next_iss t = ?iss" "tcp_ticks t = tcp_ticks s"
    "new_port_times t = new_port_times s" by (subst t(5), simp)+
  have b: "tp_unsent ?b = NULL" "tp_unacked ?b = NULL" "tp_snd_queuelen ?b < 40" "tp_flags ?b AND TF_ACK_NOW = 0"
    "tp_local_ip ?b = 0" by (simp_all add: new_block_def tcp_zeroed_def)
  have av: "memp_avail T_MEMP_TCP_SEG t (g # gs)" "pbuf_avail t (x # xs)"
    using r t(4) by (simp_all add: pbuf_avail_def f)
  have via: "t_ip_route 0x6501A8C0 t = Some n" "n \<noteq> NULL" "lip = nif_ip_addr (netif t n)" "ip_via n (Val 0x6501A8C0) t n" "netif_up t n"
    using r ip_route_frame [OF f(2-4)] by (simp_all add: lip f netif_up_def ip_via_def)
  have nums: "iss = next_iss t + tcp_ticks t" "lp = connect_port ?b t"
    by (simp_all add: iss lp f(2-10) connect_port_def new_block_def tcp_zeroed_def)
  from connect_result [OF f(1) t(2) b av via nums, of 8837 Tcp_connected] obtain s' syn c b' where o:
    "t_tcp_connect u 0x6501A8C0 8837 Tcp_connected t = Some (0, s')" "tcp_pcb s' = (tcp_pcb t)(u := b')"
    "b' = syn_sent_pcb lip (tcp_ticks t) (iss - 1) g ((connect_pcb 0x6501A8C0 8837 Tcp_connected lp iss (tcp_active_pcbs t) ?b)\<lparr>
      tp_unsent := g, tp_snd_lbb := iss, tp_snd_buf := tp_snd_buf ?b - 1, tp_snd_queuelen := tp_snd_queuelen ?b + 1\<rparr>)"
    "tcp_active_pcbs s' = u" "memp_avail T_MEMP_TCP_SEG s' gs" "pbuf_avail s' xs" "sent s' = sent t @ [syn]"
    "netif s' = netif t" "netif_list s' = netif_list t" "netif_default s' = netif_default t"
    "\<forall>j us. j \<noteq> T_MEMP_TCP_SEG \<longrightarrow> memp_avail j t us \<longrightarrow> memp_avail j s' us"
    "ip_parse syn = Some (lip, 0x6501A8C0, tp_ttl ?b, tp_tos ?b, T_IP_PROTO_TCP,
      tcp_header lp 8837 (iss - 1) 0 0x6002 14000 c @ [2, 4, 5, 0x78])"
    "tcp_sum_ok lip 0x6501A8C0 (tcp_header lp 8837 (iss - 1) 0 0x6002 14000 c @ [2, 4, 5, 0x78])"
    by (elim exE conjE) (rule that)
  have ttl: "tp_ttl ?b = 255" "tp_tos ?b = 0" by (simp_all add: new_block_def tcp_zeroed_def)
  have b': "tp_state b' = SYN_SENT" "tp_local_ip b' = lip" "tp_remote_ip b' = 0x6501A8C0" "tp_ttl b' = 255" "tp_local_port b' = lp"
    "tp_remote_port b' = 8837" "tp_snd_nxt b' = iss" "tp_rcv_nxt b' = 0" "tp_rcv_wnd b' = 14000"
    using ttl by (simp_all add: o(3) syn_sent_pcb_def seg_sent_pcb_def connect_pcb_def)
  have "syn_frame lip 0x6501A8C0 lp iss syn" using o(12,13) unfolding syn_frame_def ttl by blast
  moreover have "memp_avail T_MEMP_TCP_PCB s' us" using o(11) t(3) by simp
  moreover have "t_ip_route 0x6501A8C0 s' = Some n" "netif_up s' n"
    using via(1,5) ip_route_frame [OF o(8-10)] by (simp_all add: netif_up_def o(8))
  ultimately show ?thesis using t(1,2) o(1,4-10) f(2-5) b' by (simp add: tcp_ready_def) (simp add: o(2))
qed

lemma tcp_test_result:
  assumes ready: "tcp_ready n (u # us) (g # gs) (x # y # xs) s" and idle: "quiet fs idle"
    and lip: "lip = nif_ip_addr (netif s n)" and iss: "iss = next_iss s + 2 * tcp_ticks s"
    and lp: "lp = of_int (4097 + new_port_times s)"
  shows "\<exists>s' syn p1 p2. tcp_test idle s = Some s' \<and> sent s' = sent s @ syn # fs @ p1 # fs @ [p2] \<and>
    syn_frame lip 0x6501A8C0 lp iss syn \<and> probe_frame 0x6501A8C0 (tcp_pcb s' u) p1 \<and> probe_frame 0x6501A8C0 (tcp_pcb s' u) p2 \<and>
    tp_state (tcp_pcb s' u) = SYN_SENT \<and> tp_local_ip (tcp_pcb s' u) = lip \<and> tp_local_port (tcp_pcb s' u) = lp \<and>
    tp_remote_port (tcp_pcb s' u) = 8837 \<and> tp_snd_nxt (tcp_pcb s' u) = iss \<and>
    tcp_active_pcbs s' = u \<and> tcp_ready n us gs (y # xs) s'"
proof -
  from tcp_test_connects [OF ready lip iss lp] obtain t a syn b where c: "t_tcp_new s = (u, t)"
    "t_tcp_connect u 0x6501A8C0 8837 Tcp_connected t = Some (0, a)" "u \<noteq> NULL" "tcp_ready n us gs (y # xs) a"
    "sent a = sent s @ [syn]" "syn_frame lip 0x6501A8C0 lp iss syn" "tcp_pcb a u = b" "tcp_active_pcbs a = u"
    "tp_state b = SYN_SENT" "tp_local_ip b = lip" "tp_remote_ip b = 0x6501A8C0" "tp_local_port b = lp"
    "tp_remote_port b = 8837" "tp_snd_nxt b = iss" by blast
  note r = c(4) [unfolded tcp_ready_def]
  from pause_probe [OF idle c(7,3,11), of y xs n] r obtain z1 v p1 where v: "idle a = Some z1" "tcp_keepalive u z1 = Some v"
    "pbuf_avail v (y # xs)" "probe_frame 0x6501A8C0 b p1"
    "v = a\<lparr>mem := mem v, pbuf := pbuf v, pbuf_pool := pbuf_pool v, sent := sent a @ fs @ [p1]\<rparr>" by blast
  have vf: "tcp_pcb v = tcp_pcb a" "netif v = netif a" "netif_list v = netif_list a" "netif_default v = netif_default a"
    "memp_tab v = memp_tab a" "memp_next v = memp_next a" "tcp_active_pcbs v = u" "sent v = sent s @ syn # fs @ [p1]"
    by (subst v(5), simp add: c(5,8))+
  have "tcp_pcb v u = b" "t_ip_route 0x6501A8C0 v = Some n" "netif_up v n"
    using r c(7) ip_route_frame [OF vf(2-4)] by (simp_all add: vf netif_up_def)
  from pause_probe [OF idle this(1) c(3,11) v(3) this(2,3)] obtain z2 s' p2 where w: "idle v = Some z2"
    "tcp_keepalive u z2 = Some s'" "pbuf_avail s' (y # xs)" "probe_frame 0x6501A8C0 b p2"
    "s' = v\<lparr>mem := mem s', pbuf := pbuf s', pbuf_pool := pbuf_pool s', sent := sent v @ fs @ [p2]\<rparr>" by blast
  have sf: "tcp_pcb s' = tcp_pcb a" "netif s' = netif a" "netif_list s' = netif_list a" "netif_default s' = netif_default a"
    "memp_tab s' = memp_tab a" "memp_next s' = memp_next a" "tcp_active_pcbs s' = u" "sent s' = sent s @ syn # fs @ p1 # fs @ [p2]"
    by (subst w(5), simp add: vf)+
  have "tcp_ready n us gs (y # xs) s'"
    using r w(3) ip_route_frame [OF sf(2-4)] by (simp add: tcp_ready_def memp_avail_def netif_up_def sf)
  moreover have "tcp_test idle s = Some s'" using c(1,2) v(1,2) w(1,2) by (simp add: tcp_test_def)
  ultimately show ?thesis using c(6,9,10,12-14) v(4) w(4) sf(7,8) c(7) by (intro exI [of _ s'] exI) (simp add: sf(1))
qed


lemma started_tcp_ready:
  obtains s :: dev_st where "main_init 0x100 True True True dev_boot = Some s"
    "tcp_ready netif0 (map (\<lambda>e. e + sizeof_t_memp) (memp_elems T_MEMP_TCP_PCB))
       (map (\<lambda>e. e + sizeof_t_memp) (memp_elems T_MEMP_TCP_SEG)) pbuf_slots s"
proof -
  from main_init_result [OF dev_boot_facts(1,2) _ dev_boot_facts(3-6), of True True True] obtain s where
    s: "main_init 0x100 True True True dev_boot = Some s" "stack_idle pbuf_slots (map (\<lambda>e. e + sizeof_t_memp) (memp_elems T_MEMP_TCPIP_MSG)) s"
    "\<forall>t. memp_avail t s (map (\<lambda>e. e + sizeof_t_memp) (memp_elems t))"
    "chained (nif_link s) (netif_list s) [netif0]" "netif_default s = netif0" by auto
  have "t_ip_route 0x6501A8C0 s = Some netif0" using s(5) unfolding ip_route_value [OF s(4)] by simp
  with s(2,3) have "tcp_ready netif0 (map (\<lambda>e. e + sizeof_t_memp) (memp_elems T_MEMP_TCP_PCB))
       (map (\<lambda>e. e + sizeof_t_memp) (memp_elems T_MEMP_TCP_SEG)) pbuf_slots s"
    by (simp add: tcp_ready_def stack_idle_def)
  with s(1) show ?thesis by (rule that)
qed


section \<open>The third time\<close>

lemma tcp_test_no_block:
  assumes "memp_avail T_MEMP_TCP_PCB s []"
  shows "tcp_test idle s = None"
  using memp_malloc_empty [OF assms]
  by (simp add: tcp_test_def t_tcp_new_def t_tcp_alloc_def t_tcp_connect_def)

text \<open>C13: No command ever gives its block back, and the pointer of \<^verbatim>\<open>t_tcp_new\<close> is not checked: with enough
  segments and buffers, as many commands as there are blocks succeed, and the next one follows the null pointer.  After the start there are two blocks.\<close>

theorem tcp_tests_exhaust:
  assumes "tcp_ready n us gs xs s" and "quiet fs idle" and "length us \<le> length gs" and "length us < length xs"
  shows "(\<exists>s'. main_loop idle (replicate (length us) 0x32) count s = Some (False, s') \<and>
      tcp_ready n [] (drop (length us) gs) (drop (length us) xs) s') \<and>
    main_loop idle (replicate (Suc (length us)) 0x32) count s = None"
  using assms
proof (induction us arbitrary: gs xs s)
  case Nil
  then have "tcp_test idle s = None" by (intro tcp_test_no_block) (simp add: tcp_ready_def)
  with Nil show ?case by simp
next
  case (Cons u us)
  obtain g gs' x y xs' where e: "gs = g # gs'" "xs = x # y # xs'"
    using Cons.prems(3,4) by (cases gs; cases xs; cases "tl xs") auto
  from tcp_test_result [OF Cons.prems(1) [unfolded e] Cons.prems(2) refl refl refl] obtain s1 where s1:
    "tcp_test idle s = Some s1" "tcp_ready n us gs' (y # xs') s1" by blast
  from Cons.IH [OF s1(2) Cons.prems(2)] Cons.prems(3,4) e
  have "(\<exists>s'. main_loop idle (replicate (length us) 0x32) count s1 = Some (False, s') \<and>
      tcp_ready n [] (drop (length us) gs') (drop (length us) (y # xs')) s') \<and>
    main_loop idle (replicate (Suc (length us)) 0x32) count s1 = None" by simp
  with s1(1) e show ?case by simp
qed

theorem tcp_tests_exhaust_witness:
  "\<exists>s :: dev_st. main_init 0x100 True True True dev_boot = Some s \<and> main_loop Some [0x32, 0x32, 0x32] 0 s = None"
proof -
  obtain s :: dev_st where s: "main_init 0x100 True True True dev_boot = Some s"
    "tcp_ready netif0 (map (\<lambda>e. e + sizeof_t_memp) (memp_elems T_MEMP_TCP_PCB))
       (map (\<lambda>e. e + sizeof_t_memp) (memp_elems T_MEMP_TCP_SEG)) pbuf_slots s" by (rule started_tcp_ready)
  have "main_loop Some (replicate (Suc 2) 0x32) 0 s = None"
    using tcp_tests_exhaust [OF s(2) quiet_idle, of 0] length_memp_elems [of T_MEMP_TCP_PCB] length_memp_elems [of T_MEMP_TCP_SEG]
    by (simp add: pbuf_slots_def T_PBUF_POOL_SIZE_def del: main_loop.simps replicate.simps)
  moreover have "replicate (Suc 2) (0x32 :: int) = [0x32, 0x32, 0x32]" by (simp add: numeral_2_eq_2)
  ultimately show ?thesis using s(1) by (simp only:) blast
qed

end
