(* ===== verification/Pool_Tests.thy ===== *)
theory Pool_Tests
  imports Pbuf
begin

text \<open>
  The test programs of the two pools: the functions \<^verbatim>\<open>main\<close> of \<^verbatim>\<open>t_memp.c\<close> and \<^verbatim>\<open>t_pbuf.c\<close>, compiled only for a
  test, and what a run of them shows.
\<close>

section \<open>Objects\<close>

fun memp_test_loop :: "nat \<Rightarrow> 'a memp_st_scheme \<Rightarrow> (int \<times> 'a memp_st_scheme) option" where
  "memp_test_loop 0 s = Some (0, s)"
| "memp_test_loop (Suc i) s =
     (let (d1, s) = t_memp_malloc T_MEMP_TCPIP_MSG s;
          (d2, s) = t_memp_malloc T_MEMP_TCPIP_MSG s
      in if d1 = NULL \<or> d2 = NULL then Some (-1, s)
         else do {
           s \<leftarrow> t_memp_free T_MEMP_TCPIP_MSG d1 s;
           s \<leftarrow> t_memp_free T_MEMP_TCPIP_MSG d2 s;
           memp_test_loop i s
         })"

definition memp_test :: "'a memp_st_scheme \<Rightarrow> (int \<times> 'a memp_st_scheme) option" where
  "memp_test s = memp_test_loop 100 (t_memp_init s)"

text \<open>Two objects that are given back in the order they came change places, so every second round finds the list as it was.\<close>

lemma memp_test_round:
  assumes "memp_avail T_MEMP_TCPIP_MSG s (x # y # xs)"
  shows "\<exists>t. memp_test_loop (Suc i) s = memp_test_loop i t \<and> memp_avail T_MEMP_TCPIP_MSG t (y # x # xs)"
proof -
  from memp_malloc_next [OF assms] obtain t where t: "t_memp_malloc T_MEMP_TCPIP_MSG s = (x, t)"
    "memp_avail T_MEMP_TCPIP_MSG t (y # xs)" "memp_owned t x" by blast
  from memp_malloc_next [OF t(2)] obtain u where u: "t_memp_malloc T_MEMP_TCPIP_MSG t = (y, u)"
    "memp_avail T_MEMP_TCPIP_MSG u xs" "memp_owned u y" "\<forall>z. memp_owned t z \<longrightarrow> memp_owned u z" by blast
  have obj: "x \<in> memp_objs T_MEMP_TCPIP_MSG" "y \<in> memp_objs T_MEMP_TCPIP_MSG" "x \<notin> set xs" "y \<notin> set (x # xs)"
    using memp.avail_objs [OF assms] memp.avail_distinct [OF assms] by auto
  have "memp_owned u x" using t(3) u(4) by blast
  from memp_free_push [OF u(2) obj(1,3) this] obtain v where v: "t_memp_free T_MEMP_TCPIP_MSG x u = Some v"
    "memp_avail T_MEMP_TCPIP_MSG v (x # xs)" "\<forall>z. z \<noteq> x \<longrightarrow> memp_owned u z \<longrightarrow> memp_owned v z" by blast
  have "memp_owned v y" using v(3) u(3) obj(4) by simp
  from memp_free_push [OF v(2) obj(2,4) this] obtain w where w: "t_memp_free T_MEMP_TCPIP_MSG y v = Some w"
    "memp_avail T_MEMP_TCPIP_MSG w (y # x # xs)" by blast
  have "x \<noteq> NULL" "y \<noteq> NULL" using obj(1,2) memp.NULL_not_obj by metis+
  then have "memp_test_loop (Suc i) s = memp_test_loop i w" by (simp add: t(1) u(1) v(1) w(1))
  then show ?thesis using w(2) by blast
qed

lemma memp_test_rounds:
  "memp_avail T_MEMP_TCPIP_MSG s (x # y # xs) \<Longrightarrow>
   \<exists>t. memp_test_loop i s = Some (0, t) \<and> memp_avail T_MEMP_TCPIP_MSG t (if even i then x # y # xs else y # x # xs)"
proof (induction i arbitrary: s x y)
  case (Suc i)
  from memp_test_round [OF Suc.prems, of i] obtain t where t: "memp_test_loop (Suc i) s = memp_test_loop i t"
    "memp_avail T_MEMP_TCPIP_MSG t (y # x # xs)" by blast
  from Suc.IH [OF t(2)] show ?case unfolding t(1) by (cases "even i") simp_all
qed simp

lemma memp_test_passes:
  "\<exists>t. memp_test s = Some (0, t) \<and> memp_avail T_MEMP_TCPIP_MSG t (map (\<lambda>e. e + sizeof_t_memp) (memp_elems T_MEMP_TCPIP_MSG))"
proof -
  let ?es = "map (\<lambda>e. e + sizeof_t_memp) (memp_elems T_MEMP_TCPIP_MSG)"
  have "2 \<le> length ?es" by simp
  then obtain x y xs where xs: "?es = x # y # xs" by (metis One_nat_def Suc_1 Suc_le_length_iff)
  have "memp_avail T_MEMP_TCPIP_MSG (t_memp_init s) (x # y # xs)" using memp_init_avail [of T_MEMP_TCPIP_MSG s] unfolding xs .
  from memp_test_rounds [OF this, of 100] show ?thesis unfolding memp_test_def xs by simp
qed

section \<open>Buffers\<close>

text \<open>Headers are put in front of the data and taken off again; \<open>False\<close> is the \<^verbatim>\<open>break\<close> behind a message.\<close>

definition pbuf_test_headers :: "ptr \<Rightarrow> 'a pbuf_st_scheme \<Rightarrow> (bool \<times> 'a pbuf_st_scheme) option" where
  "pbuf_test_headers p s = do {
     (r, s) \<leftarrow> t_pbuf_header p 14 s;
     if r \<noteq> 0 then Some (False, s)
     else do {
       (r, s) \<leftarrow> t_pbuf_header p 20 s;
       if r \<noteq> 0 then Some (False, s)
       else do {
         (r, s) \<leftarrow> t_pbuf_header p (-20) s;
         if r \<noteq> 0 then Some (False, s)
         else do {
           (r, s) \<leftarrow> t_pbuf_header p (-14) s;
           Some (r = 0, s)
         }
       }
     }
   }"

text \<open>The array \<^verbatim>\<open>pot\<close> is the list of the buffers taken so far.\<close>

fun pbuf_test_loop :: "nat \<Rightarrow> ptr list \<Rightarrow> 'a pbuf_st_scheme \<Rightarrow> (ptr list \<times> 'a pbuf_st_scheme) option" where
  "pbuf_test_loop 0 pot s = Some (pot, s)"
| "pbuf_test_loop (Suc i) pot s = do {
     (p, s) \<leftarrow> t_pbuf_alloc 10 1500 T_PBUF_FLAG_POOL s;
     if p = NULL then pbuf_test_loop i pot s
     else do {
       let pot = pot @ [p];
       (ok, s) \<leftarrow> pbuf_test_headers p s;
       if ok then pbuf_test_loop i pot s else Some (pot, s)
     }
   }"

text \<open>Behind the first \<^verbatim>\<open>return\<close> nothing is executed.\<close>

definition pbuf_test :: "'a pbuf_st_scheme \<Rightarrow> (int \<times> ptr list \<times> 'a pbuf_st_scheme) option" where
  "pbuf_test s = do {
     (pot, s) \<leftarrow> pbuf_test_loop 100 [] (t_pbuf_init s);
     Some (0, pot, s)
   }"

text \<open>A buffer as the test leaves it.\<close>

definition test_buf :: "ptr \<Rightarrow> t_pbuf \<Rightarrow> t_pbuf" where
  "test_buf x b = b\<lparr>pb_next := NULL, pb_ref := 1, pb_payload := x + sizeof_t_pbuf + 10, pb_tot_len := 1500, pb_len := 1500\<rparr>"

lemma pbuf_test_headers_undo:
  assumes "x \<noteq> NULL" and "pbuf s x = test_buf x b" and "pb_flags b = T_PBUF_FLAG_POOL"
  shows "pbuf_test_headers x s = Some (True, s)"
proof -
  have i: "pbuf s x = b\<lparr>pb_next := NULL, pb_ref := 1, pb_payload := x + sizeof_t_pbuf + 10, pb_tot_len := 1500, pb_len := 1500\<rparr>"
    using assms(2) by (simp add: test_buf_def)
  have u: "s\<lparr>pbuf := (pbuf s)(x := b\<lparr>pb_next := NULL, pb_ref := 1, pb_payload := x + sizeof_t_pbuf + 10, pb_tot_len := 1500, pb_len := 1500\<rparr>)\<rparr> = s"
    by (simp add: i [symmetric])
  show ?thesis
    using assms(1,3) u by (simp add: pbuf_test_headers_def t_pbuf_header_def i Let_def T_PBUF_BUFSIZE_def sizeof_t_pbuf_def nat_add_distrib)
qed

lemma pbuf_test_step:
  assumes "pbuf_avail s (x # xs)"
  shows "\<exists>t. pbuf_test_loop (Suc i) pot s = pbuf_test_loop i (pot @ [x]) t \<and> pbuf_avail t xs \<and>
    pbuf t = (pbuf s)(x := test_buf x (pbuf s x))"
proof -
  have adm: "alloc_admissible (10, 1500, T_PBUF_FLAG_POOL)" by (simp add: alloc_admissible_def T_PBUF_BUFSIZE_def)
  define t where "t = s\<lparr>pbuf_pool := pb_next (pbuf s x), pbuf := (pbuf s)(x := test_buf x (pbuf s x))\<rparr>"
  note a = pbuf_alloc_next [OF adm assms]
  have x: "x \<in> set pbuf_slots" "pb_flags (pbuf s x) = T_PBUF_FLAG_POOL" using assms by (simp_all add: pbuf_avail_def)
  have n: "x \<noteq> NULL" using pbuf_slots_pos [OF x(1)] by simp
  have "t_pbuf_alloc 10 1500 T_PBUF_FLAG_POOL s = Some (x, t)" "pbuf_avail t xs" using a by (simp_all add: t_def test_buf_def)
  moreover have "pbuf_test_headers x t = Some (True, t)"
    by (rule pbuf_test_headers_undo [OF n _ x(2)]) (simp add: t_def)
  ultimately show ?thesis using n by (intro exI [of _ t]) (simp add: t_def)
qed

lemma pbuf_test_empty: "pbuf_avail s [] \<Longrightarrow> pbuf_test_loop i pot s = Some (pot, s)"
  by (induction i) (simp_all add: pbuf_alloc_empty)

lemma pbuf_test_takes:
  "pbuf_avail s xs \<Longrightarrow> length xs \<le> i \<Longrightarrow> distinct xs \<Longrightarrow>
   \<exists>t. pbuf_test_loop i pot s = Some (pot @ xs, t) \<and> pbuf_avail t [] \<and>
     (\<forall>x. pbuf t x = (if x \<in> set xs then test_buf x (pbuf s x) else pbuf s x))"
proof (induction xs arbitrary: i pot s)
  case Nil
  then show ?case by (simp add: pbuf_test_empty)
next
  case (Cons x xs)
  then obtain j where j: "i = Suc j" "length xs \<le> j" by (cases i) auto
  from pbuf_test_step [OF Cons.prems(1)] obtain t where t: "pbuf_test_loop i pot s = pbuf_test_loop j (pot @ [x]) t"
    "pbuf_avail t xs" "pbuf t = (pbuf s)(x := test_buf x (pbuf s x))" unfolding j(1) by blast
  from Cons.IH [OF t(2) j(2), of "pot @ [x]"] Cons.prems(3) show ?case unfolding t(1) by (auto simp: t(3))
qed

lemma pbuf_test_passes:
  "\<exists>t. pbuf_test s = Some (0, pbuf_slots, t) \<and> pbuf_avail t [] \<and>
     (\<forall>x \<in> set pbuf_slots. pb_payload (pbuf t x) = x + sizeof_t_pbuf + 10 \<and> pb_len (pbuf t x) = 1500 \<and> pb_ref (pbuf t x) = 1)"
proof -
  have av: "pbuf_avail (t_pbuf_init s) pbuf_slots" using pbuf_init_correct by blast
  have d: "distinct pbuf_slots" using av chained_distinct by (auto simp: pbuf_avail_def)
  have l: "length pbuf_slots \<le> 100" by (simp add: pbuf_slots_def T_PBUF_POOL_SIZE_def)
  from pbuf_test_takes [OF av l d, of "[]"] obtain t where
    "pbuf_test_loop 100 [] (t_pbuf_init s) = Some (pbuf_slots, t)" "pbuf_avail t []"
    "\<forall>x. pbuf t x = (if x \<in> set pbuf_slots then test_buf x (pbuf (t_pbuf_init s) x) else pbuf (t_pbuf_init s) x)" by auto
  then show ?thesis by (intro exI [of _ t]) (simp add: pbuf_test_def test_buf_def)
qed

end
