(* ===== verification/Program_Tests.thy ===== *)
theory Program_Tests
  imports Device
begin

text \<open>
  Two more test programs: the interactive test of ARP in \<^verbatim>\<open>core/t_arp.c\<close>, compiled only with \<^verbatim>\<open>T_TEST_ARP\<close>, and the
  thread of \<^verbatim>\<open>port/for_linux.c\<close> that sends a recorded frame, which the program never starts.
\<close>

section \<open>ARP\<close>

text \<open>Printing reads the entries that are in use.\<close>

definition t_print_arp_table :: "'a arp_st_scheme \<Rightarrow> 'a arp_st_scheme option" where
  "t_print_arp_table s = do {
     defined (unat (table_count s) \<le> T_ARP_TABLE_SIZE);
     Some s
   }"

text \<open>The endless loop over the characters read.  The address is computed in signed 32 bit numbers, which must not
  overflow.\<close>

fun t_arp_test :: "ptr \<Rightarrow> int list \<Rightarrow> int \<Rightarrow> 'a arp_st_scheme \<Rightarrow> 'a arp_st_scheme option" where
  "t_arp_test n [] count s = Some s"
| "t_arp_test n (c # cs) count s =
     (if c = 0x31 then do {
        defined (0x6401A8C0 + count * 2 ^ 24 < 2 ^ 31);
        let ip = of_int (0x6401A8C0 + count * 2 ^ 24);
        (_, s) \<leftarrow> t_arp_request n ip s;
        t_arp_test n cs (count + 1) s
      }
      else if c = 0x32 then Option.bind (t_print_arp_table s) (t_arp_test n cs count)
      else t_arp_test n cs count s)"

text \<open>The addresses asked for are 192.168.1.100 and those above it.\<close>

definition test_request :: "ptr \<Rightarrow> nat \<Rightarrow> 'a arp_st_scheme \<Rightarrow> u8 list" where
  "test_request n k s = arp_frame (replicate 6 0xff) (nif_hwaddr (netif s n)) T_ARP_REQUEST (nif_hwaddr (netif s n))
     (nif_ip_addr (netif s n)) (replicate 6 0xff) (of_int (0x6401A8C0 + int k * 2 ^ 24))"

lemma arp_test_requests:
  assumes "pbuf_avail s xs" and "xs \<noteq> []" and "netif_up s n" and "k + m \<le> 28"
  shows "\<exists>s'. t_arp_test n (replicate m 0x31) (int k) s = Some s' \<and> pbuf_avail s' xs \<and>
    sent s' = sent s @ map (\<lambda>j. test_request n j s) [k..<k + m]"
  using assms
proof (induction m arbitrary: k s)
  case (Suc m)
  let ?ip = "of_int (0x6401A8C0 + int k * 2 ^ 24) :: u32"
  from arp_request_spec [OF Suc.prems(1,3), of ?ip] Suc.prems(2) obtain u where u: "t_arp_request n ?ip s = Some (0, u)"
    "pbuf_avail u xs" "netif u = netif s" "sent u = sent s @ [test_request n k s]" by (auto simp: test_request_def)
  have "netif_up u n" "Suc k + m \<le> 28" using Suc.prems(3,4) u(3) by (simp_all add: netif_up_def)
  from Suc.IH [OF u(2) Suc.prems(2) this] obtain s' where s': "t_arp_test n (replicate m 0x31) (int (Suc k)) u = Some s'"
    "pbuf_avail s' xs" "sent s' = sent u @ map (\<lambda>j. test_request n j u) [Suc k..<Suc k + m]" by blast
  have "0x6401A8C0 + int k * 2 ^ 24 < (2 ^ 31 :: int)" using Suc.prems(4) by simp
  then have "t_arp_test n (replicate (Suc m) 0x31) (int k) s = Some s'" using u(1) s'(1) by (simp add: add.commute)
  moreover have "sent s' = sent s @ map (\<lambda>j. test_request n j s) [k..<k + Suc m]"
  proof -
    have "[k..<k + Suc m] = k # [Suc k..<Suc k + m]" by (simp add: upt_rec [of k])
    then show ?thesis using s'(3) u(3,4) by (simp add: test_request_def)
  qed
  ultimately show ?case using s'(2) by blast
qed simp

text \<open>The next request overflows.\<close>

lemma arp_test_overflows: "t_arp_test n (0x31 # cs) 28 s = None"
  by simp

section \<open>The thread that sends\<close>

text \<open>The array of the frame, and one turn of the endless loop: \<open>xC\<close> is the static variable that names the command,
  which only code under \<^verbatim>\<open>#if 0\<close> would set.\<close>

definition send_buf :: "u8 list" where
  "send_buf = [0xf8, 0x63, 0x3f, 0x6b, 0x2c, 0xbd, 0xb0, 0x6e, 0xbf, 0x37, 0x50, 0xbd, 0x08, 0x00,
     0x45, 0x00, 0x00, 0x54, 0xe9, 0x63, 0x40, 0x00, 0x40, 0x01, 0xcd, 0x2a, 0xc0, 0xa8,
     0x01, 0x64, 0xc0, 0xa8, 0x01, 0x66, 0x08, 0x00, 0xa1, 0x1f, 0x00, 0x03, 0x00, 0x01,
     0x24, 0x53, 0x0b, 0x61, 0x00, 0x00, 0x00, 0x00, 0x66, 0x55, 0x02, 0x00, 0x00, 0x00,
     0x00, 0x00, 0x10, 0x11, 0x12, 0x13, 0x14, 0x15, 0x16, 0x17, 0x18, 0x19, 0x1a, 0x1b,
     0x1c, 0x1d, 0x1e, 0x1f, 0x20, 0x21, 0x22, 0x23, 0x24, 0x25, 0x26, 0x27, 0x28, 0x29,
     0x2a, 0x2b, 0x2c, 0x2d, 0x2e, 0x2f, 0x30, 0x31, 0x32, 0x33, 0x34, 0x35, 0x36, 0x37] @ replicate (1624 - 98) 0"

definition pcap_send_round :: "u8 \<Rightarrow> 'a netif_st_scheme \<Rightarrow> u8 \<times> 'a netif_st_scheme" where
  "pcap_send_round xC s = (if xC = 0x31 then (0, s\<lparr>sent := sent s @ [take 82 send_buf]\<rparr>) else (xC, s))"

fun pcap_send_thread :: "nat \<Rightarrow> u8 \<Rightarrow> 'a netif_st_scheme \<Rightarrow> u8 \<times> 'a netif_st_scheme" where
  "pcap_send_thread 0 xC s = (xC, s)"
| "pcap_send_thread (Suc n) xC s = (let (xC, s) = pcap_send_round xC s in pcap_send_thread n xC s)"

lemma pcap_send_idle: "xC \<noteq> 0x31 \<Longrightarrow> pcap_send_thread n xC s = (xC, s)"
  by (induction n) (simp_all add: pcap_send_round_def)

text \<open>A command sends one frame, which is not a valid packet: it ends 16 bytes before the packet does.\<close>

lemma pcap_send_once:
  "pcap_send_thread (Suc n) 0x31 s = (0, s\<lparr>sent := sent s @ [take 82 send_buf]\<rparr>)"
  "ip_parse (take 82 send_buf) = None" "ip_parse (take 98 send_buf) \<noteq> None"
proof -
  show "pcap_send_thread (Suc n) 0x31 s = (0, s\<lparr>sent := sent s @ [take 82 send_buf]\<rparr>)"
    by (simp add: pcap_send_round_def pcap_send_idle)
  have len: "unat (u16_of 84 0) = 84" by (simp add: u16_of_def)
  have n: "take 20 (drop 14 (take k send_buf)) = [0x45, 0x00, 0x00, 0x54, 0xe9, 0x63, 0x40, 0x00, 0x40, 0x01, 0xcd, 0x2a, 0xc0, 0xa8, 0x01, 0x64, 0xc0, 0xa8, 0x01, 0x66]" if "k \<in> {82, 98}" for k
    using that by (auto simp: send_buf_def)
  show "ip_parse (take 82 send_buf) = None"
    by (simp add: ip_parse_def Let_def n len) (simp add: send_buf_def)
  have t: "be16 0x800 = [8, 0]" by (simp add: be16_def byte_of_def unsigned_ucast_eq ucast_eq)
  have "take 2 (drop 12 (take 98 send_buf)) = [8, 0]" "length (take 98 send_buf) = 98" by (simp_all add: send_buf_def)
  moreover have "chksum_of (bsum True (take 20 (drop 14 (take 98 send_buf)))) = 0"
    by (simp add: n chksum_of_def ones_def)
  ultimately show "ip_parse (take 98 send_buf) \<noteq> None"
    by (simp add: ip_parse_def Let_def t n len)
qed

end
