(* ===== verification/Mutex.thy ===== *)
theory Mutex
  imports Memp
begin

text \<open>
  \<^verbatim>\<open>TASKSUSPENDALL\<close> and \<^verbatim>\<open>TASKRESUMEALL\<close> of \<^verbatim>\<open>include/arch/t_sys.c\<close>, and the allocator of \<^verbatim>\<open>core/t_memp.c\<close> as several
  threads execute it: every access to a shared variable is a step of its own, and the steps of the threads
  interleave in any way that the mutex allows.  The other theories take a protected section to be one step; here that
  is shown.
\<close>

section \<open>The calls of a thread\<close>

text \<open>What a thread still has to call, what it is executing, and the objects it has been given.  \<open>Free k\<close> gives
  back the object at place \<open>k\<close> of those it holds.\<close>

datatype pool_call = Malloc t_memp_t | Free nat

datatype activity = Idle | In_malloc t_memp_t | In_free t_memp_t ptr

record caller =
  th_calls :: "pool_call list"
  th_act :: activity
  th_held :: "(t_memp_t \<times> ptr) list"

definition begin_call :: "'a caller_scheme \<Rightarrow> 'a caller_scheme option" where
  "begin_call h = (case th_calls h of
     [] \<Rightarrow> None
   | Malloc t # cs \<Rightarrow> Some (h\<lparr>th_calls := cs, th_act := In_malloc t\<rparr>)
   | Free k # cs \<Rightarrow>
       if k < length (th_held h) then
         Some (h\<lparr>th_calls := cs, th_act := (case th_held h ! k of (t, x) \<Rightarrow> In_free t x),
           th_held := take k (th_held h) @ drop (Suc k) (th_held h)\<rparr>)
       else Some (h\<lparr>th_calls := cs\<rparr>))"

definition end_call :: "ptr \<Rightarrow> 'a caller_scheme \<Rightarrow> 'a caller_scheme" where
  "end_call p h = h\<lparr>th_act := Idle, th_held := (case th_act h of
     In_malloc t \<Rightarrow> if p = NULL then th_held h else (t, p) # th_held h
   | _ \<Rightarrow> th_held h)\<rparr>"

section \<open>The code, access by access\<close>

text \<open>The parameter and the local variables of the two functions; \<open>r_next\<close> and \<open>r_count\<close> hold what an assignment has
  read before it writes.\<close>

record regs =
  r_mem :: ptr
  r_memp :: ptr
  r_p :: ptr
  r_mp :: ptr
  r_next :: ptr
  r_count :: int

definition no_regs :: regs where
  "no_regs = \<lparr>r_mem = NULL, r_memp = NULL, r_p = NULL, r_mp = NULL, r_next = NULL, r_count = 0\<rparr>"

type_synonym 'a access = "regs \<times> 'a memp_st_scheme \<Rightarrow> regs \<times> 'a memp_st_scheme"

text \<open>Between \<^verbatim>\<open>TASKSUSPENDALL()\<close> and \<^verbatim>\<open>TASKRESUMEALL()\<close> in \<^verbatim>\<open>t_memp_malloc\<close> and \<^verbatim>\<open>t_memp_free\<close>.\<close>

definition malloc_section :: "t_memp_t \<Rightarrow> 'a access list" where
  "malloc_section offset =
     [\<lambda>(r, s). (r\<lparr>r_memp := memp_tab s offset\<rparr>, s),
      \<lambda>(r, s). (if r_memp r \<noteq> NULL then r\<lparr>r_p := r_memp r\<rparr> else r, s),
      \<lambda>(r, s). (if r_memp r \<noteq> NULL then r\<lparr>r_next := memp_next s (r_memp r)\<rparr> else r, s),
      \<lambda>(r, s). (r, if r_memp r \<noteq> NULL then s\<lparr>memp_tab := (memp_tab s)(offset := r_next r)\<rparr> else s),
      \<lambda>(r, s). (r, if r_memp r \<noteq> NULL then s\<lparr>memp_next := (memp_next s)(r_p r := NULL)\<rparr> else s),
      \<lambda>(r, s). (if r_p r \<noteq> NULL then r\<lparr>r_count := now_count s\<rparr> else r, s),
      \<lambda>(r, s). (r, if r_p r \<noteq> NULL then s\<lparr>now_count := r_count r + 1\<rparr> else s),
      \<lambda>(r, s). (if r_p r \<noteq> NULL then r\<lparr>r_p := r_p r + sizeof_t_memp\<rparr> else r, s)]"

definition free_section :: "t_memp_t \<Rightarrow> 'a access list" where
  "free_section type =
     [\<lambda>(r, s). (r\<lparr>r_count := now_count s\<rparr>, s),
      \<lambda>(r, s). (r, s\<lparr>now_count := r_count r - 1\<rparr>),
      \<lambda>(r, s). (r\<lparr>r_mp := r_mem r - sizeof_t_memp\<rparr>, s),
      \<lambda>(r, s). (r\<lparr>r_memp := memp_tab s type\<rparr>, s),
      \<lambda>(r, s). (if r_memp r \<noteq> NULL then r\<lparr>r_p := memp_tab s type\<rparr> else r, s),
      \<lambda>(r, s). (r, s\<lparr>memp_tab := (memp_tab s)(type := r_mp r)\<rparr>),
      \<lambda>(r, s). (r, if r_memp r \<noteq> NULL then s\<lparr>memp_next := (memp_next s)(r_mp r := r_p r)\<rparr> else s)]"

datatype 'a stmt = Suspend_all | Resume_all | Access "regs \<times> 'a \<Rightarrow> regs \<times> 'a" | Return

fun section_of :: "activity \<Rightarrow> 'a access list" where
  "section_of Idle = []"
| "section_of (In_malloc t) = malloc_section t"
| "section_of (In_free t m) = free_section t"

definition code_of :: "activity \<Rightarrow> 'a memp_st_scheme stmt list" where
  "code_of act = (if act = Idle then [] else Suspend_all # map Access (section_of act) @ [Resume_all, Return])"

fun args_of :: "activity \<Rightarrow> regs" where
  "args_of (In_free t m) = no_regs\<lparr>r_mem := m\<rparr>"
| "args_of _ = no_regs"

section \<open>Threads and the mutex\<close>

record 'a thread = caller +
  th_code :: "'a stmt list"
  th_regs :: regs

record 'a machine =
  lock :: "nat option"
  heap :: 'a
  thr :: "nat \<Rightarrow> 'a thread"

text \<open>A thread that asks for the mutex while another has it has to wait: no result.  The mutex is not recursive.\<close>

definition TASKSUSPENDALL :: "nat \<Rightarrow> 'a machine \<Rightarrow> 'a machine option" where
  "TASKSUSPENDALL i c = (if lock c = None then Some (c\<lparr>lock := Some i\<rparr>) else None)"

definition TASKRESUMEALL :: "nat \<Rightarrow> 'a machine \<Rightarrow> 'a machine option" where
  "TASKRESUMEALL i c = (if lock c = Some i then Some (c\<lparr>lock := None\<rparr>) else None)"

abbreviation set_thr :: "nat \<Rightarrow> 'a thread \<Rightarrow> 'a machine \<Rightarrow> 'a machine" where
  "set_thr i h c \<equiv> c\<lparr>thr := (thr c)(i := h)\<rparr>"

definition thread_step :: "nat \<Rightarrow> 'a memp_st_scheme machine \<Rightarrow> 'a memp_st_scheme machine option" where
  "thread_step i c = (let h = thr c i in case th_code h of
     [] \<Rightarrow> map_option (\<lambda>h. set_thr i (h\<lparr>th_code := code_of (th_act h), th_regs := args_of (th_act h)\<rparr>) c) (begin_call h)
   | Suspend_all # ss \<Rightarrow> map_option (set_thr i (h\<lparr>th_code := ss\<rparr>)) (TASKSUSPENDALL i c)
   | Resume_all # ss \<Rightarrow> map_option (set_thr i (h\<lparr>th_code := ss\<rparr>)) (TASKRESUMEALL i c)
   | Access f # ss \<Rightarrow> (case f (th_regs h, heap c) of (r, s) \<Rightarrow>
       Some (set_thr i (h\<lparr>th_code := ss, th_regs := r\<rparr>) (c\<lparr>heap := s\<rparr>)))
   | Return # ss \<Rightarrow> Some (set_thr i (end_call (r_p (th_regs h)) h\<lparr>th_code := ss\<rparr>) c))"

text \<open>A schedule names the thread of each step; a thread that waits or has nothing to do loses its turn.\<close>

fun scheduled :: "nat list \<Rightarrow> 'a memp_st_scheme machine \<Rightarrow> 'a memp_st_scheme machine" where
  "scheduled [] c = c"
| "scheduled (i # is) c = scheduled is (case thread_step i c of None \<Rightarrow> c | Some c' \<Rightarrow> c')"

text \<open>At the start nobody holds anything and each thread has its calls before it.\<close>

definition started :: "(nat \<Rightarrow> pool_call list) \<Rightarrow> 'a memp_st_scheme \<Rightarrow> 'a memp_st_scheme machine" where
  "started calls s = \<lparr>lock = None, heap = s,
     thr = (\<lambda>i. \<lparr>th_calls = calls i, th_act = Idle, th_held = [], th_code = [], th_regs = no_regs\<rparr>)\<rparr>"

section \<open>The calls as single steps\<close>

text \<open>The same threads when a call of the allocator is one step of the model of \<open>Memp\<close>; \<open>th_ret\<close> is its result
  until it is used.\<close>

record acaller = caller +
  th_ret :: "ptr option"

record 'a amachine =
  a_heap :: 'a
  a_thr :: "nat \<Rightarrow> acaller"

fun perform :: "activity \<Rightarrow> 'a memp_st_scheme \<Rightarrow> (ptr \<times> 'a memp_st_scheme) option" where
  "perform Idle s = None"
| "perform (In_malloc t) s = Some (t_memp_malloc t s)"
| "perform (In_free t m) s = map_option (Pair NULL) (t_memp_free t m s)"

definition atomic_step :: "nat \<Rightarrow> 'a memp_st_scheme amachine \<Rightarrow> 'a memp_st_scheme amachine option" where
  "atomic_step i a = (let h = a_thr a i in
     if th_act h = Idle then map_option (\<lambda>h. a\<lparr>a_thr := (a_thr a)(i := h)\<rparr>) (begin_call h)
     else case th_ret h of
       None \<Rightarrow> map_option (\<lambda>(p, s). a\<lparr>a_heap := s, a_thr := (a_thr a)(i := h\<lparr>th_ret := Some p\<rparr>)\<rparr>) (perform (th_act h) (a_heap a))
     | Some p \<Rightarrow> Some (a\<lparr>a_thr := (a_thr a)(i := (end_call p h)\<lparr>th_ret := None\<rparr>)\<rparr>))"

fun atomically :: "nat list \<Rightarrow> 'a memp_st_scheme amachine \<Rightarrow> 'a memp_st_scheme amachine" where
  "atomically [] a = a"
| "atomically (i # is) a = atomically is (case atomic_step i a of None \<Rightarrow> a | Some a' \<Rightarrow> a')"

text \<open>What a machine in the middle of a section stands for: the section is taken to be over.\<close>

fun accesses :: "'a stmt list \<Rightarrow> (regs \<times> 'a \<Rightarrow> regs \<times> 'a) list" where
  "accesses (Access f # ss) = f # accesses ss"
| "accesses _ = []"

definition settled :: "nat \<Rightarrow> 'a machine \<Rightarrow> regs \<times> 'a" where
  "settled i c = fold (\<lambda>f x. f x) (accesses (th_code (thr c i))) (th_regs (thr c i), heap c)"

fun result_of :: "activity \<Rightarrow> regs \<Rightarrow> ptr" where
  "result_of (In_malloc t) r = r_p r"
| "result_of _ r = NULL"

definition abs_thr :: "nat \<Rightarrow> 'a machine \<Rightarrow> acaller" where
  "abs_thr i c = (let h = thr c i in caller.extend (caller.truncate h)
     \<lparr>th_ret = (if lock c = Some i then Some (result_of (th_act h) (fst (settled i c)))
       else case th_code h of [Return] \<Rightarrow> Some (result_of (th_act h) (th_regs h)) | _ \<Rightarrow> None)\<rparr>)"

definition abs_machine :: "'a machine \<Rightarrow> 'a amachine" where
  "abs_machine c = \<lparr>a_heap = (case lock c of None \<Rightarrow> heap c | Some i \<Rightarrow> snd (settled i c)), a_thr = (\<lambda>i. abs_thr i c)\<rparr>"

section \<open>The sections compute the calls\<close>

lemma malloc_section_result:
  "\<exists>r. fold (\<lambda>f x. f x) (malloc_section t) (no_regs, s) = (r, snd (t_memp_malloc t s)) \<and> r_p r = fst (t_memp_malloc t s)"
  by (simp add: malloc_section_def t_memp_malloc_def no_regs_def Let_def)

lemma free_section_result:
  "t_memp_free t m s = Some u \<Longrightarrow> \<exists>r. fold (\<lambda>f x. f x) (free_section t) (no_regs\<lparr>r_mem := m\<rparr>, s) = (r, u)"
  by (auto simp: free_section_def t_memp_free_def no_regs_def Let_def)

lemma section_result:
  assumes "perform act s = Some (p, u)"
  shows "\<exists>r. fold (\<lambda>f x. f x) (section_of act) (args_of act, s) = (r, u) \<and> result_of act r = p"
proof (cases act)
  case (In_malloc t)
  then show ?thesis using assms malloc_section_result [of t s] by simp
next
  case (In_free t m)
  then show ?thesis using assms free_section_result [of t m s] by auto
qed (use assms in simp)

section \<open>The mutex makes sections single steps\<close>

text \<open>Where a thread may be in its code: in the section only the owner of the mutex.\<close>

definition code_ok :: "'a memp_st_scheme machine \<Rightarrow> nat \<Rightarrow> bool" where
  "code_ok c i \<longleftrightarrow> (let h = thr c i in
     if lock c = Some i then th_act h \<noteq> Idle \<and> (\<exists>fs. th_code h = map Access fs @ [Resume_all, Return])
     else if th_act h = Idle then th_code h = []
     else th_code h = code_of (th_act h) \<and> th_regs h = args_of (th_act h) \<or> th_code h = [Return])"

lemma accesses_section [simp]: "accesses (map Access fs @ Resume_all # ss) = fs"
  by (induction fs) simp_all

lemma begin_call_abs:
  "begin_call (caller.extend (caller.truncate h) x) = map_option (\<lambda>h. caller.extend (caller.truncate h) x) (begin_call h)"
  by (auto simp: begin_call_def caller.defs split: list.split pool_call.split)

lemma begin_call_act: "begin_call h = Some h' \<Longrightarrow> th_act h = Idle \<Longrightarrow> th_code h' = th_code h"
  by (auto simp: begin_call_def split: list.splits pool_call.splits if_splits)

lemma code_of_eq: "act \<noteq> Idle \<Longrightarrow> code_of act = Suspend_all # map Access (section_of act) @ [Resume_all, Return]"
  by (simp add: code_of_def)

lemma abs_thr_eqI:
  assumes "thr c' j = thr c j" and "(lock c' = Some j) = (lock c = Some j)" and "lock c = Some j \<Longrightarrow> heap c' = heap c"
  shows "abs_thr j c' = abs_thr j c"
  using assms by (auto simp: abs_thr_def settled_def Let_def)

text \<open>Every step of a thread is a step of the whole calls, or none of them.\<close>

lemma step_simulates:
  assumes ok: "\<forall>j. code_ok c j" and step: "thread_step i c = Some c'"
    and perf: "th_act (thr c i) \<noteq> Idle \<Longrightarrow> th_ret (abs_thr i c) = None \<Longrightarrow> perform (th_act (thr c i)) (heap c) \<noteq> None"
  shows "(\<forall>j. code_ok c' j) \<and> (abs_machine c' = abs_machine c \<or> atomic_step i (abs_machine c) = Some (abs_machine c'))"
proof -
  let ?h = "thr c i"
  have oki: "code_ok c i" using ok by blast
  have other: "code_ok c' j" if "j \<noteq> i" "thr c' j = thr c j" "(lock c' = Some j) = (lock c = Some j)" for j
    using ok that by (simp add: code_ok_def Let_def)
  show ?thesis
  proof (cases "lock c = Some i")
    case True
    with oki obtain fs where fs: "th_act ?h \<noteq> Idle" "th_code ?h = map Access fs @ [Resume_all, Return]" by (auto simp: code_ok_def Let_def)
    show ?thesis
    proof (cases fs)
      case Nil
      have c': "c' = set_thr i (?h\<lparr>th_code := [Return]\<rparr>) (c\<lparr>lock := None\<rparr>)"
        using step fs(2) Nil True by (simp add: thread_step_def Let_def TASKRESUMEALL_def)
      have "settled i c = (th_regs ?h, heap c)" using fs(2) Nil by (simp add: settled_def)
      then have "abs_thr j c' = abs_thr j c" for j
        using True by (cases "j = i") (simp_all add: c' abs_thr_def Let_def caller.defs)
      moreover have "a_heap (abs_machine c') = a_heap (abs_machine c)"
        using \<open>settled i c = _\<close> True by (simp add: abs_machine_def c')
      moreover have "code_ok c' j" for j
        using other [of j] fs(1) True by (cases "j = i") (auto simp: code_ok_def Let_def c')
      ultimately show ?thesis by (auto simp: abs_machine_def)
    next
      case (Cons f gs)
      obtain r s where f: "f (th_regs ?h, heap c) = (r, s)" by fastforce
      have c': "c' = set_thr i (?h\<lparr>th_code := map Access gs @ [Resume_all, Return], th_regs := r\<rparr>) (c\<lparr>heap := s\<rparr>)"
        using step fs(2) Cons f by (simp add: thread_step_def Let_def)
      have st: "settled i c' = settled i c" using fs(2) Cons f by (simp add: settled_def c')
      then have "abs_thr j c' = abs_thr j c" for j
        using True by (cases "j = i") (simp_all add: abs_thr_def Let_def caller.defs c')
      moreover have "a_heap (abs_machine c') = a_heap (abs_machine c)" using st True by (simp add: abs_machine_def c')
      moreover have "code_ok c' j" for j
        using other [of j] fs(1) True by (cases "j = i") (auto simp: code_ok_def Let_def c')
      ultimately show ?thesis by (auto simp: abs_machine_def)
    qed
  next
    case False
    have heap: "a_heap (abs_machine d) = a_heap (abs_machine c)" if "lock d = lock c" "heap d = heap c" "\<forall>j. j \<noteq> i \<longrightarrow> thr d j = thr c j" for d
      using that False by (auto simp: abs_machine_def settled_def split: option.split)
    consider "th_act ?h = Idle" "th_code ?h = []" | "th_act ?h \<noteq> Idle" "th_code ?h = code_of (th_act ?h)" "th_regs ?h = args_of (th_act ?h)"
      | "th_act ?h \<noteq> Idle" "th_code ?h = [Return]"
      using oki False by (auto simp: code_ok_def Let_def split: if_splits)
    then show ?thesis
    proof cases
      case 1
      then obtain h where h: "begin_call ?h = Some h" "c' = set_thr i (h\<lparr>th_code := code_of (th_act h), th_regs := args_of (th_act h)\<rparr>) c"
        using step by (auto simp: thread_step_def Let_def)
      have ok': "code_ok c' j" for j
        using other [of j] False by (cases "j = i") (auto simp: code_ok_def Let_def h(2) code_of_def)
      have "abs_thr i c = caller.extend (caller.truncate ?h) \<lparr>th_ret = None\<rparr>"
        using 1 False by (simp add: abs_thr_def Let_def)
      moreover have "abs_thr i c' = caller.extend (caller.truncate h) \<lparr>th_ret = None\<rparr>"
        using False by (simp add: abs_thr_def Let_def h(2) caller.defs code_of_def)
      ultimately have "begin_call (abs_thr i c) = Some (abs_thr i c')" "th_act (abs_thr i c) = Idle"
        using h(1) 1 by (simp_all add: begin_call_abs) (simp add: caller.defs)
      moreover have "abs_thr j c' = abs_thr j c" if "j \<noteq> i" for j
        using that by (intro abs_thr_eqI) (simp_all add: h(2))
      moreover have "a_heap (abs_machine c') = a_heap (abs_machine c)" by (rule heap) (simp_all add: h(2))
      ultimately have "atomic_step i (abs_machine c) = Some (abs_machine c')"
        by (simp add: atomic_step_def Let_def abs_machine_def fun_eq_iff)
      then show ?thesis using ok' by blast
    next
      case 2
      then have lk: "lock c = None" "c' = set_thr i (?h\<lparr>th_code := map Access (section_of (th_act ?h)) @ [Resume_all, Return]\<rparr>) (c\<lparr>lock := Some i\<rparr>)"
        using step by (auto simp: thread_step_def Let_def code_of_eq TASKSUSPENDALL_def split: if_splits)
      have before: "abs_thr i c = caller.extend (caller.truncate ?h) \<lparr>th_ret = None\<rparr>"
        using 2 False by (simp add: abs_thr_def Let_def code_of_eq)
      then have "th_ret (abs_thr i c) = None" by (simp add: caller.defs)
      then obtain p u where pu: "perform (th_act ?h) (heap c) = Some (p, u)" using perf 2(1) by fastforce
      from section_result [OF pu] obtain r where r: "settled i c' = (r, u)" "result_of (th_act ?h) r = p"
        by (auto simp: settled_def lk(2) 2(3))
      have ok': "code_ok c' j" for j
        using other [of j] 2(1) lk(1) by (cases "j = i") (auto simp: code_ok_def Let_def lk(2))
      note before
      moreover have "abs_thr i c' = caller.extend (caller.truncate ?h) \<lparr>th_ret = Some p\<rparr>"
        using r by (simp add: abs_thr_def Let_def) (simp add: lk(2) caller.defs r(2))
      moreover have "abs_thr j c' = abs_thr j c" if "j \<noteq> i" for j
        using that lk(1) by (intro abs_thr_eqI) (simp_all add: lk(2))
      moreover have "a_heap (abs_machine c') = u" "a_heap (abs_machine c) = heap c"
        using r(1) lk by (simp_all add: abs_machine_def)
      ultimately have "atomic_step i (abs_machine c) = Some (abs_machine c')"
        using 2(1) pu by (simp add: atomic_step_def Let_def abs_machine_def fun_eq_iff caller.defs)
      then show ?thesis using ok' by blast
    next
      case 3
      then have c': "c' = set_thr i (end_call (r_p (th_regs ?h)) ?h\<lparr>th_code := []\<rparr>) c"
        using step by (simp add: thread_step_def Let_def)
      have ok': "code_ok c' j" for j
        using other [of j] False by (cases "j = i") (auto simp: code_ok_def Let_def c' end_call_def)
      let ?p = "result_of (th_act ?h) (th_regs ?h)"
      have "abs_thr i c = caller.extend (caller.truncate ?h) \<lparr>th_ret = Some ?p\<rparr>"
        using 3 False by (simp add: abs_thr_def Let_def)
      moreover have "abs_thr i c' = (end_call ?p (caller.extend (caller.truncate ?h) \<lparr>th_ret = Some ?p\<rparr>))\<lparr>th_ret := None\<rparr>"
        using False by (cases "th_act ?h") (simp_all add: abs_thr_def Let_def c' caller.defs end_call_def)
      moreover have "abs_thr j c' = abs_thr j c" if "j \<noteq> i" for j
        using that by (intro abs_thr_eqI) (simp_all add: c')
      moreover have "a_heap (abs_machine c') = a_heap (abs_machine c)" by (rule heap) (simp_all add: c')
      ultimately have "atomic_step i (abs_machine c) = Some (abs_machine c')"
        using 3(1) by (simp add: atomic_step_def Let_def abs_machine_def fun_eq_iff caller.defs)
      then show ?thesis using ok' by blast
    qed
  qed
qed

section \<open>What the threads hold\<close>

text \<open>The objects of a thread, with the one it is about to give back or has just been given.\<close>

definition mine :: "acaller \<Rightarrow> (t_memp_t \<times> ptr) list" where
  "mine h = (case th_act h of
     Idle \<Rightarrow> []
   | In_malloc t \<Rightarrow> (case th_ret h of None \<Rightarrow> [] | Some p \<Rightarrow> if p = NULL then [] else [(t, p)])
   | In_free t x \<Rightarrow> (case th_ret h of None \<Rightarrow> [(t, x)] | Some p \<Rightarrow> [])) @ th_held h"

definition pools_shared :: "'a memp_st_scheme amachine \<Rightarrow> (t_memp_t \<Rightarrow> ptr list) \<Rightarrow> bool" where
  "pools_shared a free \<longleftrightarrow> (\<forall>t. memp_avail t (a_heap a) (free t)) \<and>
     (\<forall>j. distinct (mine (a_thr a j)) \<and> (th_act (a_thr a j) = Idle \<longrightarrow> th_ret (a_thr a j) = None)) \<and>
     (\<forall>j t x. (t, x) \<in> set (mine (a_thr a j)) \<longrightarrow> x \<in> memp_objs t \<and> memp_owned (a_heap a) x \<and> x \<notin> set (free t)) \<and>
     (\<forall>j k. j \<noteq> k \<longrightarrow> set (mine (a_thr a j)) \<inter> set (mine (a_thr a k)) = {}) \<and>
     (\<forall>t. \<forall>x \<in> memp_objs t. x \<in> set (free t) \<or> (\<exists>j. (t, x) \<in> set (mine (a_thr a j))))"

lemma memp_objs_apart: "x \<in> memp_objs t \<Longrightarrow> x \<in> memp_objs u \<Longrightarrow> t = u"
  using memp_elems_type_unique by (auto simp: memp_objs_def)

text \<open>A thread whose objects stay the same, whatever it does with them.\<close>

lemma pools_shared_same:
  assumes "pools_shared a free" and "distinct (mine h) = distinct (mine (a_thr a i))" and "set (mine h) = set (mine (a_thr a i))"
    and "th_act h = Idle \<Longrightarrow> th_ret h = None"
  shows "pools_shared (a\<lparr>a_thr := (a_thr a)(i := h)\<rparr>) free"
proof -
  let ?a = "a\<lparr>a_thr := (a_thr a)(i := h)\<rparr>"
  have "set (mine (a_thr ?a j)) = set (mine (a_thr a j))" "distinct (mine (a_thr ?a j)) = distinct (mine (a_thr a j))"
    "(th_act (a_thr ?a j) = Idle \<longrightarrow> th_ret (a_thr ?a j) = None)" "a_heap ?a = a_heap a" for j
    using assms by (simp_all add: pools_shared_def)
  then show ?thesis using assms(1) unfolding pools_shared_def by (simp only:) blast
qed

lemma begin_call_mine:
  assumes "begin_call h = Some h'" and "th_act h = Idle" and "th_ret h = None"
  shows "distinct (mine h') = distinct (mine h)" "set (mine h') = set (mine h)" "th_ret h' = None"
proof -
  have "(distinct (mine h') \<longleftrightarrow> distinct (mine h)) \<and> set (mine h') = set (mine h) \<and> th_ret h' = None"
  proof (cases "th_calls h")
    case (Cons c cs)
    show ?thesis
    proof (cases c)
      case (Malloc t)
      then show ?thesis using assms Cons by (auto simp: begin_call_def mine_def)
    next
      case (Free k)
      show ?thesis
      proof (cases "k < length (th_held h)")
        case True
        obtain t x where tx: "th_held h ! k = (t, x)" by fastforce
        define us vs where "us = take k (th_held h)" and "vs = drop (Suc k) (th_held h)"
        have "th_held h = us @ (t, x) # vs" using id_take_nth_drop [OF True] tx by (simp add: us_def vs_def)
        moreover have "h' = h\<lparr>th_calls := cs, th_act := In_free t x, th_held := us @ vs\<rparr>"
          using assms(1) Cons Free True by (simp add: begin_call_def tx us_def vs_def)
        ultimately show ?thesis using assms(2,3) by (auto simp: mine_def)
      next
        case False
        then show ?thesis using assms Cons Free by (auto simp: begin_call_def mine_def)
      qed
    qed
  qed (use assms(1) in \<open>simp add: begin_call_def\<close>)
  then show "distinct (mine h') = distinct (mine h)" "set (mine h') = set (mine h)" "th_ret h' = None" by simp_all
qed

text \<open>A thread that gets an object, and one that loses one.\<close>

lemma pools_sharedI:
  assumes sh: "pools_shared a free" and h: "a_thr b = (a_thr a)(i := h)" "th_act h \<noteq> Idle" "distinct (mine h)"
    and av: "\<forall>u. memp_avail u (a_heap b) (free' u)"
    and own: "\<forall>u y. (u, y) \<in> set (mine h) \<longrightarrow> y \<in> memp_objs u \<and> memp_owned (a_heap b) y \<and> y \<notin> set (free' u)"
    and rest: "\<forall>j u y. j \<noteq> i \<longrightarrow> (u, y) \<in> set (mine (a_thr a j)) \<longrightarrow> memp_owned (a_heap b) y \<and> y \<notin> set (free' u) \<and> (u, y) \<notin> set (mine h)"
    and all: "\<forall>u y. y \<in> set (free u) \<or> (u, y) \<in> set (mine (a_thr a i)) \<longrightarrow> y \<in> set (free' u) \<or> (u, y) \<in> set (mine h)"
  shows "pools_shared b free'"
proof -
  have S: "\<forall>j. distinct (mine (a_thr a j)) \<and> (th_act (a_thr a j) = Idle \<longrightarrow> th_ret (a_thr a j) = None)"
    "\<forall>j t x. (t, x) \<in> set (mine (a_thr a j)) \<longrightarrow> x \<in> memp_objs t"
    "\<forall>j k. j \<noteq> k \<longrightarrow> set (mine (a_thr a j)) \<inter> set (mine (a_thr a k)) = {}"
    "\<forall>t. \<forall>x \<in> memp_objs t. x \<in> set (free t) \<or> (\<exists>j. (t, x) \<in> set (mine (a_thr a j)))"
    using sh by (auto simp: pools_shared_def)
  have dis: "set (mine (a_thr b j)) \<inter> set (mine (a_thr b k)) = {}" if "j \<noteq> k" for j k
  proof -
    have "set (mine h) \<inter> set (mine (a_thr a l)) = {}" if "l \<noteq> i" for l using rest that by auto
    then show ?thesis using S(3) that by (cases "j = i"; cases "k = i") (simp_all add: h(1) Int_commute)
  qed
  have cover: "y \<in> set (free' u) \<or> (\<exists>j. (u, y) \<in> set (mine (a_thr b j)))" if "y \<in> memp_objs u" for u y
  proof -
    from S(4) that obtain j where "y \<in> set (free u) \<or> (u, y) \<in> set (mine (a_thr a j))" by blast
    then show ?thesis using all by (cases "j = i") (auto simp: h(1) intro: exI [of _ i] exI [of _ j])
  qed
  have hold: "y \<in> memp_objs u \<and> memp_owned (a_heap b) y \<and> y \<notin> set (free' u)" if "(u, y) \<in> set (mine (a_thr b j))" for j u y
    using that own rest S(2) by (cases "j = i") (auto simp: h(1))
  have "distinct (mine (a_thr b j)) \<and> (th_act (a_thr b j) = Idle \<longrightarrow> th_ret (a_thr b j) = None)" for j
    using S(1) h by simp
  with av dis cover hold show ?thesis unfolding pools_shared_def by blast
qed

lemma pools_shared_malloc:
  assumes sh: "pools_shared a free" and h: "th_act (a_thr a i) = In_malloc t" "th_ret (a_thr a i) = None"
    and m: "t_memp_malloc t (a_heap a) = (p, s)"
  shows "\<exists>free'. pools_shared (a\<lparr>a_heap := s, a_thr := (a_thr a)(i := (a_thr a i)\<lparr>th_ret := Some p\<rparr>)\<rparr>) free'"
proof -
  let ?h = "(a_thr a i)\<lparr>th_ret := Some p\<rparr>"
  have av: "memp_avail u (a_heap a) (free u)" for u using sh by (simp add: pools_shared_def)
  have mi: "mine (a_thr a i) = th_held (a_thr a i)" using h by (simp add: mine_def)
  show ?thesis
  proof (cases "free t")
    case Nil
    then have "p = NULL" "s = a_heap a" using memp_malloc_empty [of t "a_heap a"] av [of t] m by simp_all
    then have "mine ?h = mine (a_thr a i)" using h mi by (simp add: mine_def)
    with pools_shared_same [OF sh, of ?h i] h(1) \<open>s = a_heap a\<close> show ?thesis by auto
  next
    case (Cons x xs)
    from memp_malloc_next [of t "a_heap a" x xs] av [of t] Cons m have n: "p = x" "memp_avail t s xs" "memp_owned s x"
      "\<forall>y. memp_owned (a_heap a) y \<longrightarrow> memp_owned s y" by auto
    have x: "x \<in> memp_objs t" "x \<notin> set xs"
      using memp.avail_objs [OF av [of t]] memp.avail_distinct [OF av [of t]] Cons by auto
    then have "x \<noteq> NULL" using memp.NULL_not_obj by metis
    note x = x this
    have av': "memp_avail u s ((free(t := xs)) u)" for u
      using memp_malloc_other [OF av [of t] av [of u]] n(2) m by (cases "u = t") simp_all
    have mh: "mine ?h = (t, x) # th_held (a_thr a i)" using h(1) x(3) n(1) by (simp add: mine_def)
    have fresh: "(t, x) \<notin> set (mine (a_thr a j))" for j
    proof -
      have "x \<in> set (free t)" using Cons by simp
      then show ?thesis using sh unfolding pools_shared_def by blast
    qed
    let ?a = "a\<lparr>a_heap := s, a_thr := (a_thr a)(i := ?h)\<rparr>"
    have other: "y \<in> memp_objs u \<and> memp_owned s y \<and> y \<notin> set ((free(t := xs)) u) \<and> (u, y) \<noteq> (t, x)"
      if "(u, y) \<in> set (mine (a_thr a j))" for j u y
    proof -
      have "y \<in> memp_objs u" "memp_owned (a_heap a) y" "y \<notin> set (free u)" using sh that unfolding pools_shared_def by blast+
      then show ?thesis using n(4) Cons fresh [of j] that by auto
    qed
    have "pools_shared ?a (free(t := xs))"
    proof (rule pools_sharedI [OF sh, of _ i ?h])
      show "distinct (mine ?h)" using sh mi mh fresh [of i] unfolding pools_shared_def by (metis distinct.simps(2))
      show "\<forall>u y. (u, y) \<in> set (mine ?h) \<longrightarrow> y \<in> memp_objs u \<and> memp_owned (a_heap ?a) y \<and> y \<notin> set ((free(t := xs)) u)"
        using other [of _ _ i] x(1,2) n(3) by (auto simp: mh mi)
      show "\<forall>j u y. j \<noteq> i \<longrightarrow> (u, y) \<in> set (mine (a_thr a j)) \<longrightarrow>
          memp_owned (a_heap ?a) y \<and> y \<notin> set ((free(t := xs)) u) \<and> (u, y) \<notin> set (mine ?h)"
      proof (intro allI impI)
        fix j u y assume j: "j \<noteq> i" "(u, y) \<in> set (mine (a_thr a j))"
        then have "(u, y) \<notin> set (mine (a_thr a i))" using sh unfolding pools_shared_def by blast
        then show "memp_owned (a_heap ?a) y \<and> y \<notin> set ((free(t := xs)) u) \<and> (u, y) \<notin> set (mine ?h)"
          using other [OF j(2)] by (simp add: mh mi)
      qed
      show "\<forall>u y. y \<in> set (free u) \<or> (u, y) \<in> set (mine (a_thr a i)) \<longrightarrow> y \<in> set ((free(t := xs)) u) \<or> (u, y) \<in> set (mine ?h)"
        using Cons by (auto simp: mh mi)
    qed (use h(1) av' in simp_all)
    then show ?thesis by blast
  qed
qed

lemma pools_shared_free:
  assumes sh: "pools_shared a free" and h: "th_act (a_thr a i) = In_free t x" "th_ret (a_thr a i) = None"
  shows "\<exists>s free'. t_memp_free t x (a_heap a) = Some s \<and>
    pools_shared (a\<lparr>a_heap := s, a_thr := (a_thr a)(i := (a_thr a i)\<lparr>th_ret := Some p\<rparr>)\<rparr>) free'"
proof -
  let ?h = "(a_thr a i)\<lparr>th_ret := Some p\<rparr>"
  have mi: "mine (a_thr a i) = (t, x) # th_held (a_thr a i)" and mh: "mine ?h = th_held (a_thr a i)" using h by (simp_all add: mine_def)
  have av: "memp_avail u (a_heap a) (free u)" for u using sh by (simp add: pools_shared_def)
  have x: "x \<in> memp_objs t" "memp_owned (a_heap a) x" "x \<notin> set (free t)"
    using sh mi unfolding pools_shared_def by (metis list.set_intros(1))+
  from memp_free_push [OF av x(1,3,2)] obtain s where s: "t_memp_free t x (a_heap a) = Some s" "memp_avail t s (x # free t)"
    "\<forall>y. y \<noteq> x \<longrightarrow> memp_owned (a_heap a) y \<longrightarrow> memp_owned s y" by blast
  have other: "memp_owned s y \<and> y \<notin> set ((free(t := x # free t)) u)" if "(u, y) \<in> set (mine (a_thr a j))" "(u, y) \<noteq> (t, x)" for j u y
  proof -
    have y: "y \<in> memp_objs u" "memp_owned (a_heap a) y" "y \<notin> set (free u)" using sh that(1) unfolding pools_shared_def by blast+
    then have "y \<noteq> x" using that(2) memp_objs_apart [OF x(1), of u] by auto
    then show ?thesis using y s(3) by auto
  qed
  have gone: "(t, x) \<notin> set (th_held (a_thr a i))" "\<forall>j. j \<noteq> i \<longrightarrow> (t, x) \<notin> set (mine (a_thr a j))"
    using sh mi unfolding pools_shared_def by (metis distinct.simps(2), metis disjoint_iff list.set_intros(1))
  have "pools_shared (a\<lparr>a_heap := s, a_thr := (a_thr a)(i := ?h)\<rparr>) (free(t := x # free t))"
  proof (rule pools_sharedI [OF sh, of _ i ?h])
    show "\<forall>u. memp_avail u (a_heap (a\<lparr>a_heap := s, a_thr := (a_thr a)(i := ?h)\<rparr>)) ((free(t := x # free t)) u)"
      using s(2) memp_free_other [OF x(1) av _ s(1)] by simp
    show "distinct (mine ?h)" using sh mi mh unfolding pools_shared_def by (metis distinct.simps(2))
    show "\<forall>u y. (u, y) \<in> set (mine ?h) \<longrightarrow> y \<in> memp_objs u \<and> memp_owned (a_heap (a\<lparr>a_heap := s, a_thr := (a_thr a)(i := ?h)\<rparr>)) y \<and>
        y \<notin> set ((free(t := x # free t)) u)"
    proof (intro allI impI)
      fix u y assume "(u, y) \<in> set (mine ?h)"
      then have y: "(u, y) \<in> set (mine (a_thr a i))" "(u, y) \<noteq> (t, x)" using mi mh gone(1) by auto
      moreover have "y \<in> memp_objs u" using sh y(1) unfolding pools_shared_def by blast
      ultimately show "y \<in> memp_objs u \<and> memp_owned (a_heap (a\<lparr>a_heap := s, a_thr := (a_thr a)(i := ?h)\<rparr>)) y \<and>
        y \<notin> set ((free(t := x # free t)) u)" using other [OF y] by simp
    qed
    show "\<forall>j u y. j \<noteq> i \<longrightarrow> (u, y) \<in> set (mine (a_thr a j)) \<longrightarrow>
        memp_owned (a_heap (a\<lparr>a_heap := s, a_thr := (a_thr a)(i := ?h)\<rparr>)) y \<and> y \<notin> set ((free(t := x # free t)) u) \<and> (u, y) \<notin> set (mine ?h)"
    proof (intro allI impI)
      fix j u y assume j: "j \<noteq> i" "(u, y) \<in> set (mine (a_thr a j))"
      then have "(u, y) \<noteq> (t, x)" using gone(2) by auto
      moreover have "(u, y) \<notin> set (mine ?h)" using sh j mi mh unfolding pools_shared_def by (metis disjoint_iff list.set_intros(2))
      ultimately show "memp_owned (a_heap (a\<lparr>a_heap := s, a_thr := (a_thr a)(i := ?h)\<rparr>)) y \<and> y \<notin> set ((free(t := x # free t)) u) \<and>
        (u, y) \<notin> set (mine ?h)" using other [OF j(2)] by simp
    qed
  qed (use h(1) mi mh in auto)
  with s(1) show ?thesis by blast
qed

lemma atomic_step_shared:
  assumes sh: "pools_shared a free" and step: "atomic_step i a = Some a'"
  shows "\<exists>free'. pools_shared a' free'"
proof -
  let ?h = "a_thr a i"
  consider "th_act ?h = Idle" | t where "th_act ?h = In_malloc t" "th_ret ?h = None" | t x where "th_act ?h = In_free t x" "th_ret ?h = None"
    | p where "th_act ?h \<noteq> Idle" "th_ret ?h = Some p" by (cases "th_act ?h"; cases "th_ret ?h") auto
  then show ?thesis
  proof cases
    case 1
    then obtain h where h: "begin_call ?h = Some h" "a' = a\<lparr>a_thr := (a_thr a)(i := h)\<rparr>" using step by (auto simp: atomic_step_def)
    have "th_ret ?h = None" using sh 1 by (simp add: pools_shared_def)
    from pools_shared_same [OF sh begin_call_mine(1,2) [OF h(1) 1 this]] begin_call_mine(3) [OF h(1) 1 this] show ?thesis unfolding h(2) by blast
  next
    case 2
    obtain p s where m: "t_memp_malloc t (a_heap a) = (p, s)" by fastforce
    then have "a' = a\<lparr>a_heap := s, a_thr := (a_thr a)(i := ?h\<lparr>th_ret := Some p\<rparr>)\<rparr>" using step 2 by (simp add: atomic_step_def Let_def)
    with pools_shared_malloc [OF sh 2 m] show ?thesis by simp
  next
    case 3
    from pools_shared_free [OF sh 3] step 3 show ?thesis by (fastforce simp: atomic_step_def Let_def)
  next
    case 4
    then have a': "a' = a\<lparr>a_thr := (a_thr a)(i := (end_call p ?h)\<lparr>th_ret := None\<rparr>)\<rparr>"
      using step by (simp add: atomic_step_def Let_def)
    have "mine ((end_call p ?h)\<lparr>th_ret := None\<rparr>) = mine ?h"
      using 4 by (cases "th_act ?h") (auto simp: mine_def end_call_def)
    with pools_shared_same [OF sh, of "(end_call p ?h)\<lparr>th_ret := None\<rparr>" i] show ?thesis unfolding a' by auto
  qed
qed

section \<open>Any schedule\<close>

definition machine_ok :: "'a memp_st_scheme machine \<Rightarrow> bool" where
  "machine_ok c \<longleftrightarrow> (\<forall>j. code_ok c j) \<and> (\<exists>free. pools_shared (abs_machine c) free)"

lemma abs_thr_fields [simp]: "th_act (abs_thr i c) = th_act (thr c i)" "th_held (abs_thr i c) = th_held (thr c i)"
  by (simp_all add: abs_thr_def Let_def caller.defs)

lemma step_ok:
  assumes ok: "machine_ok c" and step: "thread_step i c = Some c'"
  shows "machine_ok c' \<and> (abs_machine c' = abs_machine c \<or> atomic_step i (abs_machine c) = Some (abs_machine c'))"
proof -
  obtain free where sh: "pools_shared (abs_machine c) free" using ok by (auto simp: machine_ok_def)
  have "perform (th_act (thr c i)) (heap c) \<noteq> None" if "th_act (thr c i) \<noteq> Idle" "th_ret (abs_thr i c) = None"
  proof (cases "th_act (thr c i)")
    case (In_free t x)
    then have "th_act (a_thr (abs_machine c) i) = In_free t x" "th_ret (a_thr (abs_machine c) i) = None"
      using that(2) by (simp_all add: abs_machine_def)
    from pools_shared_free [OF sh this] have "sizeof_t_memp < x" by (auto simp: t_memp_free_def)
    then show ?thesis using In_free by (simp add: t_memp_free_def Let_def)
  qed (use that in simp_all)
  from step_simulates [OF _ step this] ok have sim: "\<forall>j. code_ok c' j"
    "abs_machine c' = abs_machine c \<or> atomic_step i (abs_machine c) = Some (abs_machine c')"
    by (simp_all add: machine_ok_def)
  moreover from sim(2) have "\<exists>free. pools_shared (abs_machine c') free" using sh atomic_step_shared [OF sh] by metis
  ultimately show ?thesis by (simp add: machine_ok_def)
qed

lemma scheduled_ok:
  "machine_ok c \<Longrightarrow> machine_ok (scheduled is c) \<and> (\<exists>js. abs_machine (scheduled is c) = atomically js (abs_machine c))"
proof (induction "is" arbitrary: c)
  case Nil
  then show ?case by (auto intro: exI [of _ "[]"])
next
  case (Cons i "is")
  show ?case
  proof (cases "thread_step i c")
    case None
    then show ?thesis using Cons by simp
  next
    case (Some c')
    from step_ok [OF Cons.prems this] have c': "machine_ok c'"
      "abs_machine c' = abs_machine c \<or> atomic_step i (abs_machine c) = Some (abs_machine c')" by blast+
    from Cons.IH [OF c'(1)] obtain js where js: "machine_ok (scheduled is c')"
      "abs_machine (scheduled is c') = atomically js (abs_machine c')" by blast
    have "\<exists>ks. atomically js (abs_machine c') = atomically ks (abs_machine c)"
      using c'(2)
    proof
      assume "atomic_step i (abs_machine c) = Some (abs_machine c')"
      then show ?thesis by (intro exI [of _ "i # js"]) simp
    qed auto
    then show ?thesis using js Some by simp
  qed
qed

lemma started_ok: "machine_ok (started calls (t_memp_init s))"
proof -
  let ?free = "\<lambda>t. map (\<lambda>e. e + sizeof_t_memp) (memp_elems t)"
  have "set (?free t) = memp_objs t" for t by (simp add: memp_objs_def)
  then have "pools_shared (abs_machine (started calls (t_memp_init s))) ?free"
    using memp_init_avail [of _ s] by (simp add: pools_shared_def abs_machine_def started_def abs_thr_def mine_def caller.defs)
  moreover have "code_ok (started calls (t_memp_init s)) j" for j by (simp add: code_ok_def started_def)
  ultimately show ?thesis unfolding machine_ok_def by blast
qed

text \<open>Some thread can go on as long as one has something to do.\<close>

lemma machine_moves:
  assumes ok: "machine_ok c" and work: "th_calls (thr c i) \<noteq> [] \<or> th_code (thr c i) \<noteq> []"
  shows "\<exists>j c'. thread_step j c = Some c'"
proof (cases "lock c")
  case None
  have "code_ok c i" using ok by (simp add: machine_ok_def)
  then consider "th_code (thr c i) = []" | act where "act \<noteq> Idle" "th_code (thr c i) = code_of act" | "th_code (thr c i) = [Return]"
    using None by (auto simp: code_ok_def Let_def split: if_splits)
  then have "\<exists>c'. thread_step i c = Some c'"
  proof cases
    case 1
    then obtain call cs where "th_calls (thr c i) = call # cs" using work by (cases "th_calls (thr c i)") auto
    then show ?thesis using 1 by (cases call) (simp_all add: thread_step_def begin_call_def Let_def)
  next
    case 2
    then show ?thesis using None by (simp add: thread_step_def Let_def code_of_eq TASKSUSPENDALL_def)
  qed (simp add: thread_step_def Let_def)
  then show ?thesis by blast
next
  case (Some k)
  have "code_ok c k" using ok by (simp add: machine_ok_def)
  then obtain fs where "th_code (thr c k) = map Access fs @ [Resume_all, Return]" using Some by (auto simp: code_ok_def Let_def)
  then have "\<exists>c'. thread_step k c = Some c'"
    using Some by (cases fs) (simp_all add: thread_step_def Let_def TASKRESUMEALL_def split: prod.split)
  then show ?thesis by blast
qed

section \<open>Properties\<close>

text \<open>C8: However the accesses of any number of threads interleave, the pools and the results are those of whole calls of
  \<open>t_memp_malloc\<close> and \<open>t_memp_free\<close> one after the other: a section behaves as one step.\<close>

theorem sections_atomic:
  "\<exists>js. abs_machine (scheduled is (started calls (t_memp_init s))) = atomically js (abs_machine (started calls (t_memp_init s)))"
  using scheduled_ok [OF started_ok] by blast

text \<open>C7: At every moment of every schedule no two threads hold the same object and no thread holds one twice; while a thread
  has something to do, some thread can go on; and whenever no thread is in a call, the objects held and the
  free ones are all objects of each pool.\<close>

theorem threads_share_pools:
  assumes c: "c = scheduled is (started calls (t_memp_init s))"
  shows "(\<forall>i j. i \<noteq> j \<longrightarrow> set (th_held (thr c i)) \<inter> set (th_held (thr c j)) = {}) \<and> (\<forall>i. distinct (th_held (thr c i))) \<and>
    ((\<exists>i. th_calls (thr c i) \<noteq> [] \<or> th_code (thr c i) \<noteq> []) \<longrightarrow> (\<exists>j c'. thread_step j c = Some c')) \<and>
    ((\<forall>i. th_code (thr c i) = []) \<longrightarrow> (\<exists>free. \<forall>t. memp_avail t (heap c) (free t) \<and>
      memp_objs t = set (free t) \<union> {x. \<exists>i. (t, x) \<in> set (th_held (thr c i))} \<and>
      set (free t) \<inter> {x. \<exists>i. (t, x) \<in> set (th_held (thr c i))} = {}))"
proof -
  have ok: "machine_ok c" using scheduled_ok [OF started_ok, of "is" calls s] by (simp add: c)
  then obtain free where sh: "pools_shared (abs_machine c) free" by (auto simp: machine_ok_def)
  have thr: "a_thr (abs_machine c) i = abs_thr i c" for i by (simp add: abs_machine_def)
  have sub: "\<exists>ps. mine (abs_thr i c) = ps @ th_held (thr c i)" for i by (simp add: mine_def)
  have "set (th_held (thr c i)) \<inter> set (th_held (thr c j)) = {}" if "i \<noteq> j" for i j
  proof -
    have "set (mine (abs_thr i c)) \<inter> set (mine (abs_thr j c)) = {}" using sh that unfolding pools_shared_def thr by blast
    moreover have "set (th_held (thr c k)) \<subseteq> set (mine (abs_thr k c))" for k by (simp add: mine_def)
    ultimately show ?thesis by blast
  qed
  moreover have "distinct (th_held (thr c i))" for i
  proof -
    have "distinct (mine (abs_thr i c))" using sh unfolding pools_shared_def thr by blast
    then show ?thesis by (simp add: mine_def)
  qed
  moreover have "\<exists>free. \<forall>t. memp_avail t (heap c) (free t) \<and>
      memp_objs t = set (free t) \<union> {x. \<exists>i. (t, x) \<in> set (th_held (thr c i))} \<and>
      set (free t) \<inter> {x. \<exists>i. (t, x) \<in> set (th_held (thr c i))} = {}" if idle: "\<forall>i. th_code (thr c i) = []"
  proof -
    have code: "code_ok c i" for i using ok by (simp add: machine_ok_def)
    have "lock c \<noteq> Some k" for k using code [of k] idle by (auto simp: code_ok_def Let_def)
    then have "lock c = None" by (metis not_None_eq)
    then have hp: "a_heap (abs_machine c) = heap c" by (simp add: abs_machine_def)
    have "th_act (thr c i) = Idle" for i
      using code [of i] idle \<open>lock c = None\<close> by (auto simp: code_ok_def Let_def code_of_def split: if_splits)
    then have "mine (abs_thr i c) = th_held (thr c i)" for i by (simp add: mine_def)
    note sh = sh [unfolded pools_shared_def thr hp this]
    have "memp_avail t (heap c) (free t)" "memp_objs t = set (free t) \<union> {x. \<exists>i. (t, x) \<in> set (th_held (thr c i))}"
      "set (free t) \<inter> {x. \<exists>i. (t, x) \<in> set (th_held (thr c i))} = {}" for t
      using sh memp.avail_objs [of t "heap c" "free t"] by blast+
    then show ?thesis by blast
  qed
  ultimately show ?thesis using machine_moves [OF ok] by blast
qed

text \<open>Two threads that each want a UDP block: the first is in its section, the second waits, and the first can go on.\<close>

theorem threads_share_pools_witness:
  "\<exists>c :: memp_st machine. c = scheduled [0, 1, 0, 0] (started (\<lambda>i. if i < 2 then [Malloc T_MEMP_UDP_PCB] else []) (t_memp_init memp_boot)) \<and>
     lock c = Some 0 \<and> thread_step 1 c = None \<and> (\<exists>j c'. thread_step j c = Some c')"
proof -
  define c :: "memp_st machine" where "c = scheduled [0, 1, 0, 0] (started (\<lambda>i. if i < 2 then [Malloc T_MEMP_UDP_PCB] else []) (t_memp_init memp_boot))"
  have st: "lock c = Some 0" "thread_step 1 c = None" "th_code (thr c 1) \<noteq> []"
    by (simp_all add: c_def started_def thread_step_def begin_call_def code_of_def TASKSUSPENDALL_def malloc_section_def)
  have "\<exists>j c'. thread_step j c = Some c'" using threads_share_pools [OF c_def] st(3) by blast
  with st c_def show ?thesis by blast
qed

lemma scheduled_append: "scheduled (is @ js) c = scheduled js (scheduled is c)"
  by (induction "is" arbitrary: c) simp_all

text \<open>A thread that is not interrupted does all its accesses.\<close>

lemma scheduled_uninterrupted:
  assumes "th_code (thr c i) = map Access fs @ [Return]" and "fold (\<lambda>f x. f x) fs (th_regs (thr c i), heap c) = (r, s)"
  shows "scheduled (replicate (Suc (length fs)) i) c =
    set_thr i ((end_call (r_p r) (thr c i))\<lparr>th_code := [], th_regs := r\<rparr>) (c\<lparr>heap := s\<rparr>)"
  using assms
proof (induction fs arbitrary: c)
  case Nil
  have h: "(end_call p h)\<lparr>th_code := [], th_regs := th_regs h\<rparr> = (end_call p h)\<lparr>th_code := []\<rparr>" for p and h :: "'a memp_st_scheme thread"
    by (cases h) (simp add: end_call_def)
  have "c\<lparr>heap := heap c\<rparr> = c" by (cases c) simp
  moreover have "r = th_regs (thr c i)" "s = heap c" using Nil(2) by simp_all
  ultimately have eq: "set_thr i ((end_call (r_p r) (thr c i))\<lparr>th_code := [], th_regs := r\<rparr>) (c\<lparr>heap := s\<rparr>) =
      set_thr i ((end_call (r_p (th_regs (thr c i))) (thr c i))\<lparr>th_code := []\<rparr>) c" by (simp only: h)
  have "scheduled (replicate (Suc (length [])) i) c = set_thr i ((end_call (r_p (th_regs (thr c i))) (thr c i))\<lparr>th_code := []\<rparr>) c"
    using Nil(1) by (simp add: thread_step_def Let_def)
  then show ?case unfolding eq .
next
  case (Cons f fs)
  obtain r1 s1 where f: "f (th_regs (thr c i), heap c) = (r1, s1)" by fastforce
  let ?c = "set_thr i ((thr c i)\<lparr>th_code := map Access fs @ [Return], th_regs := r1\<rparr>) (c\<lparr>heap := s1\<rparr>)"
  have "thread_step i c = Some ?c" using Cons.prems(1) f by (simp add: thread_step_def Let_def)
  moreover have "scheduled (replicate (Suc (length fs)) i) ?c =
      set_thr i ((end_call (r_p r) (thr ?c i))\<lparr>th_code := [], th_regs := r\<rparr>) (?c\<lparr>heap := s\<rparr>)"
    using Cons.prems f by (intro Cons.IH) simp_all
  ultimately show ?case by (simp add: end_call_def fun_upd_def cong: if_cong split: activity.split)
qed

text \<open>Without the mutex two threads can be given the same object: each reads the head of the list before the other has
  unlinked it.\<close>

lemma race_without_mutex:
  assumes e: "memp_tab s t = e" "e \<noteq> NULL"
    and h: "h = \<lparr>th_calls = [], th_act = In_malloc t, th_held = [], th_code = map Access (malloc_section t) @ [Return], th_regs = no_regs\<rparr>"
  shows "\<exists>is. th_held (thr (scheduled is \<lparr>lock = None, heap = s, thr = (\<lambda>_. h)\<rparr>) 0) = [(t, e + sizeof_t_memp)] \<and>
    th_held (thr (scheduled is \<lparr>lock = None, heap = s, thr = (\<lambda>_. h)\<rparr>) 1) = [(t, e + sizeof_t_memp)]"
proof -
  let ?c = "\<lparr>lock = None, heap = s, thr = (\<lambda>_. h)\<rparr>"
  let ?fs = "tl (malloc_section t) :: (regs \<times> 'a memp_st_scheme \<Rightarrow> regs \<times> 'a memp_st_scheme) list"
  define h1 where "h1 = h\<lparr>th_code := map Access ?fs @ [Return], th_regs := no_regs\<lparr>r_memp := e\<rparr>\<rparr>"
  define c1 where "c1 = ?c\<lparr>thr := (\<lambda>_. h)(0 := h1, 1 := h1)\<rparr>"
  have first: "scheduled [0, 1] ?c = c1"
    by (simp add: c1_def h1_def h thread_step_def malloc_section_def e(1) Let_def)
  have h1: "th_code h1 = map Access ?fs @ [Return]" "th_regs h1 = no_regs\<lparr>r_memp := e\<rparr>" "th_act h1 = In_malloc t" "th_held h1 = []"
    by (simp_all add: h1_def h)
  have run: "\<exists>r u. fold (\<lambda>f x. f x) ?fs (no_regs\<lparr>r_memp := e\<rparr>, v) = (r, u) \<and> r_p r = e + sizeof_t_memp" for v
    using e(2) by (simp add: malloc_section_def no_regs_def)
  have ends: "\<exists>d. scheduled (replicate (Suc (length ?fs)) i) c = d \<and> th_held (thr d i) = [(t, e + sizeof_t_memp)] \<and>
      (\<forall>j. j \<noteq> i \<longrightarrow> thr d j = thr c j)" if "thr c i = h1" for c :: "'a memp_st_scheme machine" and i
  proof -
    obtain r u where "fold (\<lambda>f x. f x) ?fs (no_regs\<lparr>r_memp := e\<rparr>, heap c) = (r, u)" "r_p r = e + sizeof_t_memp" using run by blast
    with scheduled_uninterrupted [of c i ?fs r u] that e(2) show ?thesis by (simp add: h1 end_call_def)
  qed
  obtain c2 where c2: "scheduled (replicate (Suc (length ?fs)) 0) c1 = c2" "th_held (thr c2 0) = [(t, e + sizeof_t_memp)]"
    "\<forall>j. j \<noteq> 0 \<longrightarrow> thr c2 j = thr c1 j" using ends [of c1 0] by (auto simp: c1_def)
  then have "thr c2 1 = h1" by (simp add: c1_def)
  from ends [OF this] obtain c3 where c3: "scheduled (replicate (Suc (length ?fs)) 1) c2 = c3"
    "th_held (thr c3 1) = [(t, e + sizeof_t_memp)]" "\<forall>j. j \<noteq> 1 \<longrightarrow> thr c3 j = thr c2 j" by blast
  have "scheduled ([0, 1] @ replicate (Suc (length ?fs)) 0 @ replicate (Suc (length ?fs)) 1) ?c = c3"
    by (simp only: scheduled_append first c2(1) c3(1))
  moreover have "th_held (thr c3 0) = [(t, e + sizeof_t_memp)]" using c2(2) c3(3) by simp
  ultimately show ?thesis using c3(2) by metis
qed

end
